(* ===== verification/Urban_Prelude.thy ===== *)
theory Urban_Prelude
  imports Main "HOL-Library.Word" "HOL-Library.Multiset" "HOL-Library.Char_ord"
    "HOL-Library.List_Lexorder" "HOL-Library.Product_Lexorder"
begin

text \<open>
  What every component theory shares: the result type of a fallible Python call and its
  sequencing (\<open>bindE\<close>, \<open>mapE\<close>), the Python string operations the sources use
  (whitespace, \<open>strip\<close>, \<open>startswith\<close>, full matches of the token patterns), bytes and
  big-endian integers, UUIDs and their canonical text, and generic lemmas on lists and keyed
  rows. A Python \<open>str\<close> is a HOL \<open>string\<close>, so its code points are those below 256;
  strings are ordered by code point, as Python orders them (theories \<open>Char_ord\<close> and
  \<open>List_Lexorder\<close>).
\<close>

named_theorems row_simps \<open>lookup and update laws of keyed rows\<close>

subsection \<open>Results of fallible calls\<close>

text \<open>\<open>Inl e\<close>: the call raised \<open>e\<close>; \<open>Inr v\<close>: it returned \<open>v\<close>.\<close>

fun bindE :: "'e + 'a \<Rightarrow> ('a \<Rightarrow> 'e + 'b) \<Rightarrow> 'e + 'b" where
  "bindE (Inl e) f = Inl e"
| "bindE (Inr x) f = f x"

lemma bindE_Inr_iff: "bindE m f = Inr y \<longleftrightarrow> (\<exists>x. m = Inr x \<and> f x = Inr y)"
  by (cases m) auto

lemma bindE_Inl_iff: "bindE m f = Inl e \<longleftrightarrow> m = Inl e \<or> (\<exists>x. m = Inr x \<and> f x = Inl e)"
  by (cases m) auto

lemma bindE_cong [fundef_cong]:
  "m = m' \<Longrightarrow> (\<And>x. m' = Inr x \<Longrightarrow> f x = f' x) \<Longrightarrow> bindE m f = bindE m' f'"
  by (cases m') auto

lemma if_Inr_iff:
  "(if b then Inl e else m) = Inr y \<longleftrightarrow> \<not> b \<and> m = Inr y"
  "(if b then m else Inl e) = Inr y \<longleftrightarrow> b \<and> m = Inr y"
  by auto

text \<open>A loop that calls a fallible function on each element and collects the results.\<close>

fun mapE :: "('a \<Rightarrow> 'e + 'b) \<Rightarrow> 'a list \<Rightarrow> 'e + 'b list" where
  "mapE f [] = Inr []"
| "mapE f (x # xs) = bindE (f x) (\<lambda>y. bindE (mapE f xs) (\<lambda>ys. Inr (y # ys)))"

lemma mapE_Inr_iff: "mapE f xs = Inr ys \<longleftrightarrow> list_all2 (\<lambda>x y. f x = Inr y) xs ys"
  by (induction xs arbitrary: ys) (auto simp: bindE_Inr_iff list_all2_Cons1)

lemma mapE_total: "(\<And>x. x \<in> set xs \<Longrightarrow> f x = Inr (g x)) \<Longrightarrow> mapE f xs = Inr (map g xs)"
  by (induction xs) auto

text \<open>The value of a call that returned.\<close>

definition returned :: "'e + 'a \<Rightarrow> bool" where
  "returned m \<longleftrightarrow> (case m of Inl _ \<Rightarrow> False | Inr _ \<Rightarrow> True)"

lemma returned_iff: "returned m \<longleftrightarrow> (\<exists>x. m = Inr x)"
  by (cases m) (auto simp: returned_def)

subsection \<open>Characters and Python strings\<close>

definition chr_code :: "char \<Rightarrow> nat" where
  "chr_code c = of_char c"

definition is_py_space :: "char \<Rightarrow> bool" where
  "is_py_space c = (let n = chr_code c in
     9 \<le> n \<and> n \<le> 13 \<or> 28 \<le> n \<and> n \<le> 32 \<or> n = 133 \<or> n = 160)"

definition is_lower_az :: "char \<Rightarrow> bool" where
  "is_lower_az c = (let n = chr_code c in 97 \<le> n \<and> n \<le> 122)"

definition is_upper_az :: "char \<Rightarrow> bool" where
  "is_upper_az c = (let n = chr_code c in 65 \<le> n \<and> n \<le> 90)"

definition is_digit09 :: "char \<Rightarrow> bool" where
  "is_digit09 c = (let n = chr_code c in 48 \<le> n \<and> n \<le> 57)"

definition is_lower_hex :: "char \<Rightarrow> bool" where
  "is_lower_hex c = (let n = chr_code c in 48 \<le> n \<and> n \<le> 57 \<or> 97 \<le> n \<and> n \<le> 102)"

text \<open>\<open>str.strip()\<close>, and the test \<open>not value.strip()\<close>.\<close>

definition py_strip :: "string \<Rightarrow> string" where
  "py_strip s = rev (dropWhile is_py_space (rev (dropWhile is_py_space s)))"

definition blank :: "string \<Rightarrow> bool" where
  "blank s = list_all is_py_space s"

lemma py_strip_Nil_iff: "py_strip s = [] \<longleftrightarrow> blank s"
proof -
  have "dropWhile is_py_space (rev (dropWhile is_py_space s)) = []
      \<longleftrightarrow> (\<forall>c \<in> set (dropWhile is_py_space s). is_py_space c)"
    by (simp add: dropWhile_eq_Nil_conv)
  also have "\<dots> \<longleftrightarrow> (\<forall>c \<in> set s. is_py_space c)"
    by (induction s) auto
  finally show ?thesis by (simp add: py_strip_def blank_def list_all_iff)
qed

definition starts_with :: "string \<Rightarrow> string \<Rightarrow> bool" where
  "starts_with p s = (take (length p) s = p)"

text \<open>\<open>re.fullmatch\<close> of \<open>^[first][rest]{0,k}$\<close>, and of a run of exactly \<open>k\<close> characters.\<close>

definition token_match :: "(char \<Rightarrow> bool) \<Rightarrow> (char \<Rightarrow> bool) \<Rightarrow> nat \<Rightarrow> string \<Rightarrow> bool" where
  "token_match f r k s = (case s of [] \<Rightarrow> False | c # cs \<Rightarrow> f c \<and> list_all r cs \<and> length cs \<le> k)"

definition exact_match :: "(char \<Rightarrow> bool) \<Rightarrow> nat \<Rightarrow> string \<Rightarrow> bool" where
  "exact_match p k s = (length s = k \<and> list_all p s)"

definition sha256_token :: "string \<Rightarrow> bool" where
  "sha256_token s = (starts_with ''sha256:'' s \<and> exact_match is_lower_hex 64 (drop 7 s))"

definition commit_re :: "string \<Rightarrow> bool" where
  "commit_re s = exact_match is_lower_hex 40 s"

lemma sha256_token_prefix: "sha256_token (''sha256:'' @ h) \<longleftrightarrow> exact_match is_lower_hex 64 h"
  by (simp add: sha256_token_def starts_with_def)

subsection \<open>Bytes\<close>

type_synonym bytes = "8 word list"

text \<open>\<open>n.to_bytes(k, "big")\<close> for a value that fits in \<open>k\<close> bytes.\<close>

fun to_bytes_be :: "nat \<Rightarrow> nat \<Rightarrow> bytes" where
  "to_bytes_be 0 n = []"
| "to_bytes_be (Suc k) n = to_bytes_be k (n div 256) @ [word_of_nat n]"

lemma length_to_bytes_be [simp]: "length (to_bytes_be k n) = k"
  by (induction k arbitrary: n) auto

lemma to_bytes_be_inj:
  "m < 256 ^ k \<Longrightarrow> n < 256 ^ k \<Longrightarrow> to_bytes_be k m = to_bytes_be k n \<Longrightarrow> m = n"
proof (induction k arbitrary: m n)
  case 0
  then show ?case by simp
next
  case (Suc k)
  from Suc.prems have "to_bytes_be k (m div 256) = to_bytes_be k (n div 256)"
    and w: "(word_of_nat m :: 8 word) = word_of_nat n" by auto
  moreover from Suc.prems have "m div 256 < 256 ^ k" "n div 256 < 256 ^ k"
    by (simp_all add: less_mult_imp_div_less mult.commute)
  ultimately have "m div 256 = n div 256" using Suc.IH by blast
  moreover from w have "unat (word_of_nat m :: 8 word) = unat (word_of_nat n :: 8 word)"
    by simp
  then have "m mod 256 = n mod 256" by (simp add: unat_of_nat)
  ultimately show ?case by (metis div_mult_mod_eq)
qed

text \<open>\<open>str.encode("utf-8")\<close> and the ASCII bytes of a literal.\<close>

definition utf8_char :: "char \<Rightarrow> bytes" where
  "utf8_char c = (let n = chr_code c in
     if n < 128 then [word_of_nat n]
     else [word_of_nat (192 + n div 64), word_of_nat (128 + n mod 64)])"

definition utf8_encode :: "string \<Rightarrow> bytes" where
  "utf8_encode s = concat (map utf8_char s)"

lemma chr_code_less: "chr_code c < 256"
  by (simp add: chr_code_def)

lemma chr_code_inj: "chr_code c = chr_code d \<Longrightarrow> c = d"
  unfolding chr_code_def by (metis char_of_char)

lemma unat_u8: "n < 256 \<Longrightarrow> unat (word_of_nat n :: 8 word) = n"
  by (simp add: unat_of_nat)

lemma utf8_char_cases:
  "(chr_code c < 128 \<and> (\<exists>a. utf8_char c = [a] \<and> unat a = chr_code c)) \<or>
   (128 \<le> chr_code c \<and> (\<exists>a b. utf8_char c = [a, b] \<and> unat a = 192 + chr_code c div 64
      \<and> unat b = 128 + chr_code c mod 64))"
proof (cases "chr_code c < 128")
  case True
  then show ?thesis by (simp add: utf8_char_def Let_def unat_u8)
next
  case False
  have "chr_code c div 64 < 4" using chr_code_less[of c] by simp
  moreover have "chr_code c mod 64 < 64" by simp
  ultimately have "unat (word_of_nat (192 + chr_code c div 64) :: 8 word) = 192 + chr_code c div 64"
    and "unat (word_of_nat (128 + chr_code c mod 64) :: 8 word) = 128 + chr_code c mod 64"
    by (intro unat_u8; linarith)+
  with False show ?thesis by (simp add: utf8_char_def Let_def)
qed

lemma utf8_char_prefix_free:
  assumes "utf8_char c @ xs = utf8_char d @ ys"
  shows "c = d \<and> xs = ys"
proof -
  have "chr_code c = chr_code d \<and> xs = ys"
    using utf8_char_cases[of c] utf8_char_cases[of d] assms
  proof (elim disjE conjE exE, goal_cases)
    case (4 a b a' b')
    then have "chr_code c div 64 = chr_code d div 64" "chr_code c mod 64 = chr_code d mod 64"
      by auto
    with 4 show ?case by (metis append_Cons append_Nil div_mult_mod_eq list.inject)
  qed auto
  then show ?thesis using chr_code_inj by blast
qed

lemma utf8_encode_inj: "utf8_encode s = utf8_encode t \<Longrightarrow> s = t"
proof (induction s arbitrary: t)
  case Nil
  then show ?case
    using utf8_char_cases[of "hd t"] by (cases t) (auto simp: utf8_encode_def)
next
  case (Cons c s)
  then obtain d t' where t: "t = d # t'"
    using utf8_char_cases[of c] by (cases t) (auto simp: utf8_encode_def)
  with Cons.prems have "utf8_char c @ utf8_encode s = utf8_char d @ utf8_encode t'"
    by (simp add: utf8_encode_def)
  then have "c = d \<and> utf8_encode s = utf8_encode t'" by (rule utf8_char_prefix_free)
  with t Cons.IH show ?case by blast
qed

subsection \<open>UUIDs\<close>

text \<open>A UUID is its 128-bit value; \<open>str(u)\<close> writes 8-4-4-4-12 lowercase hex digits.\<close>

type_synonym uuid = "128 word"

definition hex_digit :: "nat \<Rightarrow> char" where
  "hex_digit n = (if n < 10 then char_of (48 + n) else char_of (87 + n))"

fun hex_digits :: "nat \<Rightarrow> nat \<Rightarrow> string" where
  "hex_digits 0 n = []"
| "hex_digits (Suc k) n = hex_digits k (n div 16) @ [hex_digit (n mod 16)]"

definition uuid_str :: "uuid \<Rightarrow> string" where
  "uuid_str u = (let h = hex_digits 32 (unat u) in
     take 8 h @ ''-'' @ take 4 (drop 8 h) @ ''-'' @ take 4 (drop 12 h) @ ''-''
     @ take 4 (drop 16 h) @ ''-'' @ drop 20 h)"

lemma length_hex_digits [simp]: "length (hex_digits k n) = k"
  by (induction k arbitrary: n) auto

lemma hex_digit_inj:
  assumes "m < 16" "n < 16" "hex_digit m = hex_digit n"
  shows "m = n"
proof -
  have "of_char (hex_digit m) = (of_char (hex_digit n) :: nat)" using assms by simp
  with assms(1,2) show ?thesis by (auto simp: hex_digit_def split: if_splits)
qed

lemma hex_digits_inj:
  "m < 16 ^ k \<Longrightarrow> n < 16 ^ k \<Longrightarrow> hex_digits k m = hex_digits k n \<Longrightarrow> m = n"
proof (induction k arbitrary: m n)
  case 0
  then show ?case by simp
next
  case (Suc k)
  from Suc.prems have "hex_digits k (m div 16) = hex_digits k (n div 16)"
    and d: "hex_digit (m mod 16) = hex_digit (n mod 16)" by auto
  moreover from Suc.prems have "m div 16 < 16 ^ k" "n div 16 < 16 ^ k"
    by (simp_all add: less_mult_imp_div_less mult.commute)
  ultimately have "m div 16 = n div 16" using Suc.IH by blast
  moreover from d have "m mod 16 = n mod 16" by (intro hex_digit_inj) auto
  ultimately show ?case by (metis div_mult_mod_eq)
qed

lemma uuid_str_inj: "uuid_str u = uuid_str v \<Longrightarrow> u = v"
proof -
  assume eq: "uuid_str u = uuid_str v"
  let ?h = "hex_digits 32 (unat u)" and ?g = "hex_digits 32 (unat v)"
  from eq have 1: "take 8 ?h = take 8 ?g" and 2: "take 4 (drop 8 ?h) = take 4 (drop 8 ?g)"
    and 3: "take 4 (drop 12 ?h) = take 4 (drop 12 ?g)"
    and 4: "take 4 (drop 16 ?h) = take 4 (drop 16 ?g)" and 5: "drop 20 ?h = drop 20 ?g"
    by (auto simp: uuid_str_def Let_def)
  have split: "x = take 8 x @ take 4 (drop 8 x) @ take 4 (drop 12 x) @ take 4 (drop 16 x) @ drop 20 x"
    for x :: string
    by (metis (no_types) add_numeral_left append.assoc append_take_drop_id drop_drop
        numeral_plus_numeral semiring_norm(2,3,4,5,6,8,9,10) take_add)
  have "?h = ?g" using split[of ?h] split[of ?g] 1 2 3 4 5 by metis
  moreover have "unat u < 16 ^ 32" "unat v < 16 ^ 32"
    using unsigned_less[of u] unsigned_less[of v] by simp_all
  ultimately show "u = v" using hex_digits_inj by (metis unsigned_word_eqI)
qed

end
