(* ===== verification/Errors.thy ===== *)
theory Errors
  imports Urban_Prelude
begin

text \<open>
  The error taxonomy of \<open>core/urban_generator/domain/errors.py\<close> (categories, codes, the
  six subclasses of \<open>UrbanGeneratorError\<close> and their class variables), and the type
  \<open>exc\<close> of all exceptions the modelled code raises: a taxonomy error, or one of the
  contract errors of the other modules with its message.
\<close>

datatype error_category = DOMAIN | CONFIG | DATA | TRANSIENT | PERMANENT | CANCELLED

datatype error_code = DOMAIN_ERROR | CONFIG_ERROR | DATA_ERROR | TRANSIENT_ERROR
  | PERMANENT_ERROR | CANCELLED_ERROR

fun category_value :: "error_category \<Rightarrow> string" where
  "category_value DOMAIN = ''domain''"
| "category_value CONFIG = ''config''"
| "category_value DATA = ''data''"
| "category_value TRANSIENT = ''transient''"
| "category_value PERMANENT = ''permanent''"
| "category_value CANCELLED = ''cancelled''"

fun code_value :: "error_code \<Rightarrow> string" where
  "code_value DOMAIN_ERROR = ''domain.error''"
| "code_value CONFIG_ERROR = ''config.error''"
| "code_value DATA_ERROR = ''data.error''"
| "code_value TRANSIENT_ERROR = ''transient.error''"
| "code_value PERMANENT_ERROR = ''permanent.error''"
| "code_value CANCELLED_ERROR = ''cancelled.error''"

record error_descriptor =
  desc_code :: error_code
  desc_category :: error_category
  desc_retryable :: bool
  desc_cancelled :: bool

text \<open>The subclasses of \<open>UrbanGeneratorError\<close> and their class variables.\<close>

datatype error_class = DomainError | ConfigError | DataError | TransientError
  | PermanentError | CancelledError

fun class_code :: "error_class \<Rightarrow> error_code" where
  "class_code DomainError = DOMAIN_ERROR"
| "class_code ConfigError = CONFIG_ERROR"
| "class_code DataError = DATA_ERROR"
| "class_code TransientError = TRANSIENT_ERROR"
| "class_code PermanentError = PERMANENT_ERROR"
| "class_code CancelledError = CANCELLED_ERROR"

fun class_category :: "error_class \<Rightarrow> error_category" where
  "class_category DomainError = DOMAIN"
| "class_category ConfigError = CONFIG"
| "class_category DataError = DATA"
| "class_category TransientError = TRANSIENT"
| "class_category PermanentError = PERMANENT"
| "class_category CancelledError = CANCELLED"

definition class_retryable :: "error_class \<Rightarrow> bool" where
  "class_retryable c = (c = TransientError)"

definition class_cancelled :: "error_class \<Rightarrow> bool" where
  "class_cancelled c = (c = CancelledError)"

record ug_error =
  err_class :: error_class
  err_message :: string
  err_details :: "(string \<times> string) list"

definition err_retryable :: "ug_error \<Rightarrow> bool" where
  "err_retryable e = class_retryable (err_class e)"

definition err_cancelled :: "ug_error \<Rightarrow> bool" where
  "err_cancelled e = class_cancelled (err_class e)"

definition err_category :: "ug_error \<Rightarrow> error_category" where
  "err_category e = class_category (err_class e)"

definition err_code :: "ug_error \<Rightarrow> error_code" where
  "err_code e = class_code (err_class e)"

definition err_descriptor :: "ug_error \<Rightarrow> error_descriptor" where
  "err_descriptor e = \<lparr>desc_code = err_code e, desc_category = err_category e,
     desc_retryable = err_retryable e, desc_cancelled = err_cancelled e\<rparr>"

subsection \<open>Exceptions of the modelled code\<close>

datatype exc =
    UrbanError ug_error
  | ValueError string
  | TypeError string
  | KeyError string
  | RecursionError
  | AssertionError
  | StageContractError string
  | StageRegistryError string
  | CheckpointContractError string
  | PersistedCheckpointError string
  | GenerationExecutionError string
  | GenerationRetryScheduled int
  | ScenarioBatchError string
  | ScenarioMatrixError string
  | RunControlNotFound string
  | RunControlConflict string
  | JobCapacityExceeded string int
  | IngestSubmissionNotFound string
  | IngestSubmissionConflict string
  | ArtifactLifecycleError string
  | GenerationRunImmutableError string
  | IntegrityError string
  | DatasetVersionImmutableError string
  | RuntimeError string
  | DatabaseError string
  | ArqRetry int
  | IngestTaskFailed string
  | GenerationTaskFailed string
  | GenerationTaskConfigurationError string
  | LayerCatalogError string
  | ArtifactContractError string
  | GeoJsonExportError string
  | GeoJsonExportNotFound string
  | GeoJsonExportConflict string
  | GeoPackageExportError string
  | GeoPackageExportNotFound string
  | GeoPackageExportConflict string
  | GeoJsonExportTaskFailed string
  | GeoPackageExportTaskFailed string
  | ExactRerunError string
  | OtherError string

text \<open>\<open>UrbanGeneratorError.__init__\<close>: the message is stripped and must not be blank.\<close>

definition make_error ::
  "error_class \<Rightarrow> string \<Rightarrow> (string \<times> string) list \<Rightarrow> exc + ug_error" where
  "make_error c message details =
     (let normalized_message = py_strip message in
      if normalized_message = [] then Inl (ValueError ''error message must not be blank'')
      else Inr \<lparr>err_class = c, err_message = normalized_message, err_details = details\<rparr>)"

text \<open>\<open>raise C(message, details)\<close> with a literal message that is already stripped.\<close>

definition ug_exc :: "error_class \<Rightarrow> string \<Rightarrow> (string \<times> string) list \<Rightarrow> exc" where
  "ug_exc c message details =
     (case make_error c message details of Inl e \<Rightarrow> e | Inr e \<Rightarrow> UrbanError e)"

text \<open>\<open>except CancelledError\<close>.\<close>

definition is_cancelled_exc :: "exc \<Rightarrow> bool" where
  "is_cancelled_exc e = (case e of UrbanError u \<Rightarrow> err_cancelled u | _ \<Rightarrow> False)"

text \<open>\<open>except SQLAlchemyError\<close>: a violated constraint, or an exception raised by a trigger.\<close>

definition is_sqlalchemy_error :: "exc \<Rightarrow> bool" where
  "is_sqlalchemy_error e = (case e of IntegrityError _ \<Rightarrow> True | DatabaseError _ \<Rightarrow> True | _ \<Rightarrow> False)"

subsection \<open>The taxonomy is coherent\<close>

lemma class_code_inj: "class_code c = class_code d \<Longrightarrow> c = d"
  by (cases c; cases d) auto

lemma code_value_of_category: "code_value (class_code c) = category_value (class_category c) @ ''.error''"
  by (cases c) auto

lemma err_retryable_not_cancelled: "err_retryable e \<Longrightarrow> \<not> err_cancelled e"
  by (auto simp: err_retryable_def err_cancelled_def class_retryable_def class_cancelled_def)

lemma err_category_cancelled_iff: "err_category e = CANCELLED \<longleftrightarrow> err_cancelled e"
  by (cases "err_class e") (auto simp: err_category_def err_cancelled_def class_cancelled_def)

lemma make_error_Inr:
  "make_error c m d = Inr e \<Longrightarrow> err_class e = c \<and> err_message e \<noteq> [] \<and> err_details e = d"
  by (auto simp: make_error_def Let_def split: if_splits)

lemma make_error_blank: "blank m \<Longrightarrow> make_error c m d = Inl (ValueError ''error message must not be blank'')"
  by (simp add: make_error_def py_strip_Nil_iff)

end
