(* ===== verification/Rows.thy ===== *)
theory Rows
  imports Errors
begin

text \<open>
  Tables as lists of row records: the lookup of a row by its key (a \<open>SELECT\<close> that returns
  at most one row), the update of a row in place, and their laws; the \<open>repr\<close> of a string; the JSON values of the
  \<open>JSONB\<close> columns; timestamps as integer microseconds.
\<close>

type_synonym time = int

definition seconds :: "int \<Rightarrow> int" where
  "seconds n = n * 1000000"

text \<open>\<open>repr\<close> of a string: the quotes it uses, and the characters it escapes.\<close>

definition repr_char :: "char \<Rightarrow> char \<Rightarrow> string" where
  "repr_char q c = (let n = chr_code c in
     if c = q \<or> n = 92 then [char_of (92 :: nat), c]
     else if n = 9 then [char_of (92 :: nat), CHR ''t''] else if n = 10 then [char_of (92 :: nat), CHR ''n'']
     else if n = 13 then [char_of (92 :: nat), CHR ''r'']
     else if n < 32 \<or> 127 \<le> n \<and> n \<le> 160 \<or> n = 173 then [char_of (92 :: nat), CHR ''x''] @ hex_digits 2 n
     else [c])"

definition py_repr :: "string \<Rightarrow> string" where
  "py_repr s = (let q = char_of (if char_of (39 :: nat) \<in> set s \<and> char_of (34 :: nat) \<notin> set s then 34 else 39 :: nat) in
     [q] @ concat (map (repr_char q) s) @ [q])"

subsection \<open>JSON values\<close>

text \<open>A finite float is carried as its decimal token; \<open>JNonFinite\<close> is NaN or an infinity.\<close>

datatype json = JNull | JBool bool | JInt int | JFloat string | JNonFinite | JStr string
  | JArr "json list" | JObj "(string \<times> json) list"

text \<open>\<open>d.get(key)\<close> of a dictionary, and \<open>{**d, key: value}\<close>.\<close>

definition json_get :: "string \<Rightarrow> json \<Rightarrow> json option" where
  "json_get k j = (case j of JObj kvs \<Rightarrow> map_of kvs k | _ \<Rightarrow> None)"

fun dict_put :: "string \<Rightarrow> 'v \<Rightarrow> (string \<times> 'v) list \<Rightarrow> (string \<times> 'v) list" where
  "dict_put k v [] = [(k, v)]"
| "dict_put k v ((k', v') # kvs) = (if k' = k then (k, v) # kvs else (k', v') # dict_put k v kvs)"

definition dict_merge :: "(string \<times> 'v) list \<Rightarrow> (string \<times> 'v) list \<Rightarrow> (string \<times> 'v) list" where
  "dict_merge d e = fold (\<lambda>(k, v) acc. dict_put k v acc) e d"

lemma map_of_dict_put [simp]: "map_of (dict_put k v kvs) = (map_of kvs)(k \<mapsto> v)"
  by (induction kvs) auto

lemma json_get_JObj [simp]: "json_get k (JObj kvs) = map_of kvs k"
  by (simp add: json_get_def)

definition str_json :: "(string \<times> string) list \<Rightarrow> json" where
  "str_json d = JObj (map (\<lambda>(k, v). (k, JStr v)) d)"

subsection \<open>Keyed rows\<close>

definition lookup :: "('r \<Rightarrow> 'k) \<Rightarrow> 'k \<Rightarrow> 'r list \<Rightarrow> 'r option" where
  "lookup key k rows = List.find (\<lambda>r. key r = k) rows"

definition put_row :: "('r \<Rightarrow> 'k) \<Rightarrow> 'r \<Rightarrow> 'r list \<Rightarrow> 'r list" where
  "put_row key r rows = map (\<lambda>x. if key x = key r then r else x) rows"

lemma lookup_Nil [simp]: "lookup key k [] = None"
  by (simp add: lookup_def)

lemma lookup_Cons: "lookup key k (r # rows) = (if key r = k then Some r else lookup key k rows)"
  by (simp add: lookup_def)

lemma lookup_Some: "lookup key k rows = Some r \<Longrightarrow> r \<in> set rows \<and> key r = k"
  by (induction rows) (auto simp: lookup_Cons split: if_splits)

lemma lookup_None: "lookup key k rows = None \<longleftrightarrow> k \<notin> key ` set rows"
  by (induction rows) (auto simp: lookup_Cons)

lemma lookup_iff: "distinct (map key rows) \<Longrightarrow> lookup key k rows = Some r \<longleftrightarrow> r \<in> set rows \<and> key r = k"
  by (induction rows) (auto simp: lookup_Cons)

lemma lookup_append: "lookup key k (xs @ ys) = (case lookup key k xs of None \<Rightarrow> lookup key k ys | Some r \<Rightarrow> Some r)"
  by (induction xs) (auto simp: lookup_Cons)

lemma lookup_put_row [row_simps]:
  "lookup key k (put_row key r rows) =
     (if k = key r then (if key r \<in> key ` set rows then Some r else None) else lookup key k rows)"
  by (induction rows) (auto simp: lookup_Cons put_row_def)

lemma put_row_set: "x \<in> set (put_row key r rows) \<Longrightarrow> x = r \<or> x \<in> set rows \<and> key x \<noteq> key r"
  by (auto simp: put_row_def split: if_splits)

lemma put_row_set_eq:
  "key r \<in> key ` set rows \<Longrightarrow> set (put_row key r rows) = insert r {x \<in> set rows. key x \<noteq> key r}"
  by (auto simp: put_row_def image_iff)

lemma length_put_row [row_simps]: "length (put_row key r rows) = length rows"
  by (simp add: put_row_def)

lemma put_row_absent: "key r \<notin> key ` set rows \<Longrightarrow> put_row key r rows = rows"
  by (auto simp: put_row_def image_iff intro!: map_idI)

text \<open>A column that the update leaves alone.\<close>

lemma map_put_row:
  "(\<And>x. x \<in> set rows \<Longrightarrow> key x = key r \<Longrightarrow> f x = f r) \<Longrightarrow> map f (put_row key r rows) = map f rows"
  by (auto simp: put_row_def)

lemma map_key_put_row [row_simps]: "map key (put_row key r rows) = map key rows"
  by (rule map_put_row) simp

lemma list_all_put_row: "list_all P rows \<Longrightarrow> P r \<Longrightarrow> list_all P (put_row key r rows)"
  by (auto simp: list_all_iff put_row_def)

lemma filter_put_row_out:
  "(\<And>x. x \<in> set rows \<Longrightarrow> key x = key r \<Longrightarrow> \<not> P x) \<Longrightarrow> \<not> P r \<Longrightarrow> filter P (put_row key r rows) = filter P rows"
  by (induction rows) (auto simp: put_row_def)

text \<open>With distinct keys the update of the row found by its key keeps the columns it does not change.\<close>

lemma map_put_row_lookup:
  assumes "distinct (map key rows)" "lookup key k rows = Some x" "key r = k" "f r = f x"
  shows "map f (put_row key r rows) = map f rows"
proof (rule map_put_row)
  fix y assume "y \<in> set rows" "key y = key r"
  with assms have "lookup key k rows = Some y" by (simp add: lookup_iff)
  with assms show "f y = f r" by simp
qed

end
