(* ===== verification/Artifact.thy ===== *)
theory Artifact
  imports Rows
begin

text \<open>
  The artifact metadata row and its lifecycle (\<open>backend/app/models/artifact.py\<close>): the
  transition table, \<open>transition_to\<close>, the listener \<open>prevent_invalid_artifact_update\<close>,
  the CHECK constraints of the table, and the database trigger of migration 0006 that the
  listener mirrors. An owner identifier is a UUID, so the \<open>isinstance\<close> tests on it hold.
\<close>

datatype artifact_state = TEMPORARY | READY | REFERENCED | EXPIRED

fun artifact_state_value :: "artifact_state \<Rightarrow> string" where
  "artifact_state_value TEMPORARY = ''temporary''"
| "artifact_state_value READY = ''ready''"
| "artifact_state_value REFERENCED = ''referenced''"
| "artifact_state_value EXPIRED = ''expired''"

fun allowed_transitions :: "artifact_state \<Rightarrow> artifact_state list" where
  "allowed_transitions TEMPORARY = [READY, EXPIRED]"
| "allowed_transitions READY = [REFERENCED, EXPIRED]"
| "allowed_transitions REFERENCED = [EXPIRED]"
| "allowed_transitions EXPIRED = []"

record artifact =
  artifact_id :: uuid
  artifact_uri :: string
  artifact_checksum :: string
  artifact_size :: int
  artifact_content_type :: "string option"
  artifact_state :: artifact_state
  artifact_owner_type :: "string option"
  artifact_owner_id :: "uuid option"
  artifact_created_at :: time
  artifact_updated_at :: time

subsection \<open>\<open>transition_to\<close>\<close>

definition validate_transition :: "artifact_state \<Rightarrow> artifact_state \<Rightarrow> exc + unit" where
  "validate_transition current target =
     (if target \<notin> set (allowed_transitions current)
      then Inl (ArtifactLifecycleError (''invalid artifact lifecycle transition: ''
             @ artifact_state_value current @ '' -> '' @ artifact_state_value target))
      else Inr ())"

definition validate_owner :: "string option \<Rightarrow> uuid option \<Rightarrow> exc + unit" where
  "validate_owner owner_type owner_id =
     (case (owner_type, owner_id) of
        (Some t, Some _) \<Rightarrow>
          if blank t then Inl (ArtifactLifecycleError ''owner_type must be a non-empty string'') else Inr ()
      | _ \<Rightarrow> Inl (ArtifactLifecycleError ''referenced artifacts require owner_type and owner_id''))"

definition transition_to ::
  "artifact_state \<Rightarrow> string option \<Rightarrow> uuid option \<Rightarrow> artifact \<Rightarrow> exc + artifact" where
  "transition_to target owner_type owner_id a =
     bindE (validate_transition (artifact_state a) target) (\<lambda>_.
     if target = REFERENCED then
       bindE (validate_owner owner_type owner_id) (\<lambda>_.
       Inr (a\<lparr>artifact_owner_type := owner_type, artifact_owner_id := owner_id, artifact_state := target\<rparr>))
     else if owner_type \<noteq> None \<or> owner_id \<noteq> None then
       Inl (ArtifactLifecycleError ''owner can only be assigned when transitioning to referenced'')
     else Inr (a\<lparr>artifact_state := target\<rparr>))"

subsection \<open>The update listener\<close>

definition changed_content :: "artifact \<Rightarrow> artifact \<Rightarrow> string list" where
  "changed_content old new =
     (if artifact_checksum new \<noteq> artifact_checksum old then [''checksum''] else []) @
     (if artifact_content_type new \<noteq> artifact_content_type old then [''content_type''] else []) @
     (if artifact_size new \<noteq> artifact_size old then [''size_bytes''] else []) @
     (if artifact_uri new \<noteq> artifact_uri old then [''uri''] else [])"

fun comma_join :: "string list \<Rightarrow> string" where
  "comma_join [] = []"
| "comma_join [x] = x"
| "comma_join (x # xs) = x @ '', '' @ comma_join xs"

definition owner_changed :: "artifact \<Rightarrow> artifact \<Rightarrow> bool" where
  "owner_changed old new =
     (artifact_owner_type new \<noteq> artifact_owner_type old \<or> artifact_owner_id new \<noteq> artifact_owner_id old)"

definition prevent_invalid_artifact_update :: "artifact \<Rightarrow> artifact \<Rightarrow> exc + unit" where
  "prevent_invalid_artifact_update old new =
     bindE (if artifact_state old \<noteq> artifact_state new
            then validate_transition (artifact_state old) (artifact_state new) else Inr ()) (\<lambda>_.
     if artifact_state old \<noteq> TEMPORARY \<and> changed_content old new \<noteq> [] then
       Inl (ArtifactLifecycleError
         (''artifact content metadata is immutable after ready; changed fields: ''
          @ comma_join (changed_content old new)))
     else if owner_changed old new \<and> \<not> (artifact_state old = READY \<and> artifact_state new = REFERENCED) then
       Inl (ArtifactLifecycleError ''artifact owner can only be assigned during ready -> referenced'')
     else if artifact_state new = REFERENCED then
       validate_owner (artifact_owner_type new) (artifact_owner_id new)
     else Inr ())"

subsection \<open>The database: CHECK constraints and the trigger\<close>

text \<open>\<open>length(btrim(s)) > 0\<close>: \<open>btrim\<close> removes spaces only.\<close>

definition btrim_nonempty :: "string \<Rightarrow> bool" where
  "btrim_nonempty s = list_ex (\<lambda>c. c \<noteq> CHR '' '') s"

definition owner_type_re :: "string \<Rightarrow> bool" where
  "owner_type_re = token_match is_lower_az (\<lambda>c. is_lower_az c \<or> is_digit09 c \<or> c = CHR ''_'') 63"

definition artifact_checks :: "artifact \<Rightarrow> bool" where
  "artifact_checks a =
     (btrim_nonempty (artifact_uri a) \<and>
      sha256_token (artifact_checksum a) \<and>
      0 \<le> artifact_size a \<and>
      (case artifact_content_type a of None \<Rightarrow> True | Some t \<Rightarrow> btrim_nonempty t) \<and>
      ((artifact_owner_type a = None) = (artifact_owner_id a = None)) \<and>
      (case artifact_owner_type a of None \<Rightarrow> True | Some t \<Rightarrow> owner_type_re t) \<and>
      (artifact_state a \<in> {TEMPORARY, READY} \<longrightarrow> artifact_owner_id a = None) \<and>
      (artifact_state a = REFERENCED \<longrightarrow> artifact_owner_id a \<noteq> None))"

definition validate_artifact_lifecycle_update :: "artifact \<Rightarrow> artifact \<Rightarrow> exc + unit" where
  "validate_artifact_lifecycle_update old new =
     (if artifact_state old \<noteq> artifact_state new \<and>
         \<not> (artifact_state old = TEMPORARY \<and> artifact_state new \<in> {READY, EXPIRED} \<or>
            artifact_state old = READY \<and> artifact_state new \<in> {REFERENCED, EXPIRED} \<or>
            artifact_state old = REFERENCED \<and> artifact_state new = EXPIRED)
      then Inl (DatabaseError ''invalid artifact lifecycle transition'')
      else if artifact_state old \<in> {READY, REFERENCED, EXPIRED} \<and>
         (artifact_uri new \<noteq> artifact_uri old \<or> artifact_checksum new \<noteq> artifact_checksum old \<or>
          artifact_size new \<noteq> artifact_size old \<or> artifact_content_type new \<noteq> artifact_content_type old)
      then Inl (DatabaseError ''artifact content metadata is immutable after ready'')
      else if (artifact_owner_type new \<noteq> artifact_owner_type old \<or> artifact_owner_id new \<noteq> artifact_owner_id old)
         \<and> \<not> (artifact_state old = READY \<and> artifact_state new = REFERENCED)
      then Inl (DatabaseError ''artifact owner can only be assigned during ready -> referenced'')
      else Inr ())"

subsection \<open>Lifecycle facts\<close>

lemma validate_transition_Inr: "validate_transition s t = Inr u \<longleftrightarrow> t \<in> set (allowed_transitions s)"
  by (simp add: validate_transition_def)

lemma validate_owner_Inr:
  "validate_owner t i = Inr u \<longleftrightarrow> (\<exists>t'. t = Some t' \<and> \<not> blank t') \<and> i \<noteq> None"
  by (cases t; cases i) (auto simp: validate_owner_def)

lemma transition_to_Inr:
  "transition_to target ot oi a = Inr b \<longleftrightarrow>
     target \<in> set (allowed_transitions (artifact_state a)) \<and>
     (if target = REFERENCED then validate_owner ot oi = Inr () \<and>
        b = a\<lparr>artifact_owner_type := ot, artifact_owner_id := oi, artifact_state := target\<rparr>
      else ot = None \<and> oi = None \<and> b = a\<lparr>artifact_state := target\<rparr>)"
  by (auto simp: transition_to_def bindE_Inr_iff validate_transition_Inr)

lemma changed_content_Nil:
  "changed_content old new = [] \<longleftrightarrow> artifact_uri new = artifact_uri old \<and> artifact_checksum new = artifact_checksum old
     \<and> artifact_size new = artifact_size old \<and> artifact_content_type new = artifact_content_type old"
  by (auto simp: changed_content_def)

lemma state_change_allowed:
  "s \<noteq> t \<Longrightarrow> t \<in> set (allowed_transitions s) \<longleftrightarrow>
     s = TEMPORARY \<and> t \<in> {READY, EXPIRED} \<or> s = READY \<and> t \<in> {REFERENCED, EXPIRED} \<or> s = REFERENCED \<and> t = EXPIRED"
  by (cases s; cases t) auto

lemma owner_type_re_not_blank: "owner_type_re t \<Longrightarrow> \<not> blank t"
  by (cases t) (auto simp: owner_type_re_def token_match_def blank_def is_lower_az_def is_py_space_def Let_def)

lemma artifact_checks_owner:
  "artifact_checks a \<Longrightarrow> artifact_state a = REFERENCED \<Longrightarrow>
     validate_owner (artifact_owner_type a) (artifact_owner_id a) = Inr ()"
  by (cases "artifact_owner_type a")
     (auto simp: artifact_checks_def validate_owner_Inr owner_type_re_not_blank)

lemma trigger_Inr:
  "validate_artifact_lifecycle_update old new = Inr u \<longleftrightarrow>
     (artifact_state old = artifact_state new \<or> artifact_state new \<in> set (allowed_transitions (artifact_state old))) \<and>
     (artifact_state old = TEMPORARY \<or> changed_content old new = []) \<and>
     (owner_changed old new \<longrightarrow> artifact_state old = READY \<and> artifact_state new = REFERENCED)"
  unfolding validate_artifact_lifecycle_update_def owner_changed_def changed_content_Nil
  by (cases "artifact_state old"; cases "artifact_state new") auto

lemma listener_Inr:
  "prevent_invalid_artifact_update old new = Inr () \<longleftrightarrow>
     validate_artifact_lifecycle_update old new = Inr () \<and>
     (artifact_state new = REFERENCED \<longrightarrow> validate_owner (artifact_owner_type new) (artifact_owner_id new) = Inr ())"
  unfolding prevent_invalid_artifact_update_def trigger_Inr
  by (auto simp: bindE_Inr_iff validate_transition_Inr)

text \<open>
  The Python listener and the database trigger agree: on rows that satisfy the table's CHECK
  constraints, an update passes \<open>prevent_invalid_artifact_update\<close> exactly when the trigger of
  the migration lets it pass.
\<close>

lemma artifact_listener_mirrors_trigger:
  assumes "artifact_checks new"
  shows "prevent_invalid_artifact_update old new = Inr () \<longleftrightarrow> validate_artifact_lifecycle_update old new = Inr ()"
  using listener_Inr[of old new] artifact_checks_owner[OF assms] by blast

definition ready_artifact :: artifact where
  "ready_artifact = \<lparr>artifact_id = 1, artifact_uri = ''artifact://uploads/a'',
     artifact_checksum = ''sha256:'' @ replicate 64 CHR ''0'', artifact_size = 10, artifact_content_type = None,
     artifact_state = READY, artifact_owner_type = None, artifact_owner_id = None,
     artifact_created_at = 0, artifact_updated_at = 0\<rparr>"

lemma artifact_listener_mirrors_trigger_witness:
  "prevent_invalid_artifact_update (ready_artifact\<lparr>artifact_state := TEMPORARY\<rparr>) ready_artifact = Inr ()
   \<longleftrightarrow> validate_artifact_lifecycle_update (ready_artifact\<lparr>artifact_state := TEMPORARY\<rparr>) ready_artifact = Inr ()"
proof -
  have "artifact_checks ready_artifact" by code_simp
  then show ?thesis by (rule artifact_listener_mirrors_trigger)
qed

text \<open>
  A transition through the model method is always accepted by the update listener, keeps the
  identity and content of the blob, and preserves the table's CHECK constraints when a new owner
  has a valid type token; so the three layers cannot disagree on a legal transition.
\<close>

lemma transition_to_is_accepted:
  assumes checks: "artifact_checks a" and tr: "transition_to target ot oi a = Inr b"
    and owner: "\<And>t. ot = Some t \<Longrightarrow> owner_type_re t"
  shows "artifact_checks b \<and> prevent_invalid_artifact_update a b = Inr () \<and> changed_content a b = []
     \<and> artifact_id b = artifact_id a \<and> artifact_state b = target"
proof -
  have c: "artifact_checks b"
    using assms by (cases "artifact_state a"; cases target)
      (auto simp: transition_to_Inr artifact_checks_def validate_owner_Inr)
  have "validate_artifact_lifecycle_update a b = Inr ()"
    using tr by (cases "artifact_state a"; cases target)
      (auto simp: transition_to_Inr trigger_Inr changed_content_Nil owner_changed_def)
  then have "prevent_invalid_artifact_update a b = Inr ()"
    using listener_Inr[of a b] artifact_checks_owner[OF c] by blast
  with c tr show ?thesis by (auto simp: transition_to_Inr changed_content_Nil split: if_splits)
qed

lemma transition_to_is_accepted_witness:
  "artifact_checks (ready_artifact\<lparr>artifact_owner_type := Some ''dataset_version'', artifact_owner_id := Some 7,
     artifact_state := REFERENCED\<rparr>)"
proof -
  have 1: "artifact_checks ready_artifact" by code_simp
  have 2: "transition_to REFERENCED (Some ''dataset_version'') (Some 7) ready_artifact
      = Inr (ready_artifact\<lparr>artifact_owner_type := Some ''dataset_version'', artifact_owner_id := Some 7,
         artifact_state := REFERENCED\<rparr>)" by code_simp
  have 3: "Some ''dataset_version'' = Some t \<Longrightarrow> owner_type_re t" for t
    by (drule sym, simp, code_simp)
  show ?thesis using transition_to_is_accepted[OF 1 2 3] by blast
qed

text \<open>The states only move forward, and an expired row never changes again.\<close>

fun state_rank :: "artifact_state \<Rightarrow> nat" where
  "state_rank TEMPORARY = 0" | "state_rank READY = 1" | "state_rank REFERENCED = 2" | "state_rank EXPIRED = 3"

lemma transition_to_rank: "transition_to target ot oi a = Inr b \<Longrightarrow> state_rank (artifact_state a) < state_rank (artifact_state b)"
  by (auto simp: transition_to_Inr split: if_splits; cases "artifact_state a"; auto)

lemma expired_is_final:
  "artifact_state old = EXPIRED \<Longrightarrow> validate_artifact_lifecycle_update old new = Inr () \<Longrightarrow>
     artifact_state new = EXPIRED \<and> changed_content old new = [] \<and> \<not> owner_changed old new"
  by (auto simp: trigger_Inr)

end
