(* ===== verification/Stage_Contract.thy ===== *)
theory Stage_Contract
  imports Errors
begin

text \<open>
  The Stage contract of \<open>core/urban_generator/domain/stage.py\<close>: stage metadata and its
  validation, diagnostics, fingerprints, stage results, and the canonical fingerprint writer.
  SHA-256 is a parameter (\<open>hexdigest\<close>: the hex digest of the bytes hashed so far); what the
  writer feeds to it is modelled byte for byte, so the theorems are about that wire format.
  The \<open>isinstance\<close> guards of the constructors are the HOL types.
\<close>

subsection \<open>Token patterns\<close>

definition stage_name_re :: "string \<Rightarrow> bool" where
  "stage_name_re = token_match is_lower_az (\<lambda>c. is_lower_az c \<or> is_digit09 c \<or> c = CHR ''_'') 63"

definition stage_version_re :: "string \<Rightarrow> bool" where
  "stage_version_re = token_match (\<lambda>c. is_upper_az c \<or> is_lower_az c \<or> is_digit09 c)
     (\<lambda>c. is_upper_az c \<or> is_lower_az c \<or> is_digit09 c \<or> c \<in> set ''._+-'') 63"

definition diagnostic_code_re :: "string \<Rightarrow> bool" where
  "diagnostic_code_re = token_match is_lower_az
     (\<lambda>c. is_lower_az c \<or> is_digit09 c \<or> c \<in> set ''_.-'') 127"

definition require_pattern :: "string \<Rightarrow> string \<Rightarrow> (string \<Rightarrow> bool) \<Rightarrow> exc + unit" where
  "require_pattern field_name v pattern =
     (if \<not> pattern v then Inl (StageContractError (''invalid '' @ field_name)) else Inr ())"

subsection \<open>Diagnostics, fingerprints, results\<close>

datatype diagnostic_level = INFO | WARNING

fun level_value :: "diagnostic_level \<Rightarrow> string" where
  "level_value INFO = ''INFO''"
| "level_value WARNING = ''WARNING''"

record stage_diagnostic =
  diag_code :: string
  diag_message :: string
  diag_level :: diagnostic_level

definition make_diagnostic :: "string \<Rightarrow> string \<Rightarrow> diagnostic_level \<Rightarrow> exc + stage_diagnostic" where
  "make_diagnostic code message level =
     bindE (require_pattern ''diagnostic code'' code diagnostic_code_re) (\<lambda>_.
     if blank message then Inl (StageContractError ''diagnostic message must be a non-empty string'')
     else Inr \<lparr>diag_code = code, diag_message = message, diag_level = level\<rparr>)"

datatype stage_fingerprint = StageFingerprint (fp_value: string)

definition make_fingerprint :: "string \<Rightarrow> exc + stage_fingerprint" where
  "make_fingerprint v =
     (if \<not> sha256_token v
      then Inl (StageContractError ''fingerprint must use sha256:<64 lowercase hex chars>'')
      else Inr (StageFingerprint v))"

record 'o stage_result =
  res_output :: 'o
  res_fingerprint :: stage_fingerprint
  res_diagnostics :: "stage_diagnostic list"

subsection \<open>Stage metadata\<close>

record stage =
  stage_name :: string
  stage_version :: string
  stage_dependencies :: "string list"

fun check_dependencies :: "string \<Rightarrow> string list \<Rightarrow> string list \<Rightarrow> exc + unit" where
  "check_dependencies name seen [] = Inr ()"
| "check_dependencies name seen (d # ds) =
     bindE (require_pattern ''stage dependency'' d stage_name_re) (\<lambda>_.
     if d = name then Inl (StageContractError ''stage cannot depend on itself'')
     else if d \<in> set seen then Inl (StageContractError (''duplicate stage dependency: '' @ d))
     else check_dependencies name (d # seen) ds)"

definition validate_stage_metadata :: "string \<Rightarrow> string \<Rightarrow> string list \<Rightarrow> exc + unit" where
  "validate_stage_metadata name version dependencies =
     bindE (require_pattern ''stage name'' name stage_name_re) (\<lambda>_.
     bindE (require_pattern ''stage version'' version stage_version_re) (\<lambda>_.
     check_dependencies name [] dependencies))"

lemma require_pattern_Inr [simp]: "require_pattern f v p = Inr u \<longleftrightarrow> p v"
  by (simp add: require_pattern_def)

lemma check_dependencies_Inr:
  "check_dependencies name seen ds = Inr u \<longleftrightarrow>
     distinct ds \<and> set ds \<inter> set seen = {} \<and> name \<notin> set ds \<and> (\<forall>d \<in> set ds. stage_name_re d)"
  by (induction name seen ds rule: check_dependencies.induct)
     (auto simp: bindE_Inr_iff split: if_splits)

text \<open>What a metadata check that returns guarantees, and nothing more.\<close>

lemma validate_stage_metadata_Inr:
  "validate_stage_metadata name version deps = Inr u \<longleftrightarrow>
     stage_name_re name \<and> stage_version_re version \<and> distinct deps \<and> name \<notin> set deps
     \<and> (\<forall>d \<in> set deps. stage_name_re d)"
  by (simp add: validate_stage_metadata_def bindE_Inr_iff check_dependencies_Inr)

subsection \<open>The fingerprint writer\<close>

record fp_writer =
  wr_bytes :: bytes
  wr_parts :: nat

definition fp_prefix :: bytes where
  "fp_prefix = utf8_encode ''urban-development-generator:stage-fingerprint:v1'' @ [0]"

definition new_writer :: fp_writer where
  "new_writer = \<lparr>wr_bytes = fp_prefix, wr_parts = 0\<rparr>"

definition wr_update :: "bytes \<Rightarrow> fp_writer \<Rightarrow> fp_writer" where
  "wr_update b w = w\<lparr>wr_bytes := wr_bytes w @ b\<rparr>"

text \<open>
  \<open>_add\<close>: marker, 8-byte big-endian length, payload. \<open>len(payload).to_bytes(8)\<close> raises
  \<open>OverflowError\<close> for a payload of \<open>2\<^sup>6\<^sup>4\<close> bytes or more, after the marker has been hashed.
\<close>

definition fp_add :: "bytes \<Rightarrow> bytes \<Rightarrow> fp_writer \<Rightarrow> fp_writer \<times> (exc + unit)" where
  "fp_add marker payload w =
     (let w1 = wr_update marker w in
      if length payload \<ge> 2 ^ 64 then (w1, Inl (OtherError ''OverflowError''))
      else let w2 = wr_update payload (wr_update (to_bytes_be 8 (length payload)) w1)
           in (w2\<lparr>wr_parts := Suc (wr_parts w2)\<rparr>, Inr ()))"

definition marker_s :: bytes where "marker_s = utf8_encode ''s''"
definition marker_b :: bytes where "marker_b = utf8_encode ''b''"

definition add_text :: "string \<Rightarrow> fp_writer \<Rightarrow> fp_writer \<times> (exc + unit)" where
  "add_text v w = fp_add marker_s (utf8_encode v) w"

definition add_bytes :: "bytes \<Rightarrow> fp_writer \<Rightarrow> fp_writer \<times> (exc + unit)" where
  "add_bytes v w = fp_add marker_b v w"

text \<open>\<open>add_binary_chunks\<close>: one bytes part streamed in chunks.\<close>

fun consume_chunks :: "nat \<Rightarrow> nat \<Rightarrow> bytes list \<Rightarrow> fp_writer \<Rightarrow> fp_writer \<times> (exc + nat)" where
  "consume_chunks byte_length consumed [] w = (w, Inr consumed)"
| "consume_chunks byte_length consumed (chunk # chunks) w =
     (let consumed' = consumed + length chunk in
      if consumed' > byte_length
      then (w, Inl (StageContractError ''fingerprint stream exceeds declared length''))
      else consume_chunks byte_length consumed' chunks (wr_update chunk w))"

definition add_binary_chunks :: "int \<Rightarrow> bytes list \<Rightarrow> fp_writer \<Rightarrow> fp_writer \<times> (exc + unit)" where
  "add_binary_chunks byte_length chunks w =
     (if byte_length < 0 \<or> byte_length \<ge> 2 ^ 64
      then (w, Inl (StageContractError ''binary fingerprint length is outside uint64''))
      else let n = nat byte_length;
               w1 = wr_update (to_bytes_be 8 n) (wr_update marker_b w)
           in case consume_chunks n 0 chunks w1 of
                (w2, Inl e) \<Rightarrow> (w2, Inl e)
              | (w2, Inr consumed) \<Rightarrow>
                  if consumed \<noteq> n
                  then (w2, Inl (StageContractError ''fingerprint stream is shorter than declared length''))
                  else (w2\<lparr>wr_parts := Suc (wr_parts w2)\<rparr>, Inr ()))"

definition finalize :: "(bytes \<Rightarrow> string) \<Rightarrow> fp_writer \<Rightarrow> exc + stage_fingerprint" where
  "finalize hexdigest w =
     (if wr_parts w = 0
      then Inl (StageContractError ''stage fingerprint requires at least one canonical part'')
      else make_fingerprint (''sha256:'' @ hexdigest (wr_bytes w)))"

datatype hash_part = TextPart string | BytesPart bytes

fun add_part :: "hash_part \<Rightarrow> fp_writer \<Rightarrow> fp_writer \<times> (exc + unit)" where
  "add_part (TextPart s) w = add_text s w"
| "add_part (BytesPart b) w = add_bytes b w"

fun add_parts :: "hash_part list \<Rightarrow> fp_writer \<Rightarrow> fp_writer \<times> (exc + unit)" where
  "add_parts [] w = (w, Inr ())"
| "add_parts (p # ps) w =
     (case add_part p w of (w', Inl e) \<Rightarrow> (w', Inl e) | (w', Inr _) \<Rightarrow> add_parts ps w')"

definition build_stage_fingerprint :: "(bytes \<Rightarrow> string) \<Rightarrow> hash_part list \<Rightarrow> exc + stage_fingerprint" where
  "build_stage_fingerprint hexdigest parts =
     (case add_parts parts new_writer of (w, Inl e) \<Rightarrow> Inl e | (w, Inr _) \<Rightarrow> finalize hexdigest w)"

subsection \<open>The wire format\<close>

text \<open>What one canonical part contributes to the hashed bytes.\<close>

fun part_payload :: "hash_part \<Rightarrow> bytes" where
  "part_payload (TextPart s) = utf8_encode s"
| "part_payload (BytesPart b) = b"

fun part_marker :: "hash_part \<Rightarrow> bytes" where
  "part_marker (TextPart s) = marker_s"
| "part_marker (BytesPart b) = marker_b"

definition part_wire :: "hash_part \<Rightarrow> bytes" where
  "part_wire p = part_marker p @ to_bytes_be 8 (length (part_payload p)) @ part_payload p"

lemma markers: "marker_s = [115]" "marker_b = [98]"
  by (simp_all add: marker_s_def marker_b_def utf8_encode_def utf8_char_def chr_code_def)

lemma framed_inj:
  assumes "to_bytes_be 8 (length a) @ a @ xs = to_bytes_be 8 (length b) @ b @ ys"
    and "length a < 2 ^ 64" "length b < 2 ^ 64"
  shows "a = b \<and> xs = ys"
proof -
  have "to_bytes_be 8 (length a) = to_bytes_be 8 (length b)" and rest: "a @ xs = b @ ys"
    using assms(1) by (simp_all add: append_eq_append_conv)
  then have "length a = length b"
    using to_bytes_be_inj[of "length a" 8 "length b"] assms(2,3) by simp
  with rest show ?thesis by simp
qed

lemma part_wire_prefix_free:
  assumes "part_wire p @ xs = part_wire q @ ys"
    and "length (part_payload p) < 2 ^ 64" "length (part_payload q) < 2 ^ 64"
  shows "p = q \<and> xs = ys"
proof -
  from assms have m: "part_marker p = part_marker q"
    and f: "part_payload p = part_payload q \<and> xs = ys"
    using framed_inj[of "part_payload p" xs "part_payload q" ys]
    by (cases p; cases q; auto simp: part_wire_def markers)+
  with f show ?thesis
    by (cases p; cases q) (auto simp: markers dest: utf8_encode_inj)
qed

lemma part_wire_not_Nil [simp]: "part_wire p \<noteq> []"
  by (cases p) (auto simp: part_wire_def markers)

lemma wire_inj:
  assumes "concat (map part_wire ps) = concat (map part_wire qs)"
    and "\<forall>p \<in> set ps. length (part_payload p) < 2 ^ 64"
    and "\<forall>q \<in> set qs. length (part_payload q) < 2 ^ 64"
  shows "ps = qs"
  using assms
proof (induction ps arbitrary: qs)
  case Nil
  then show ?case by (cases qs) auto
next
  case (Cons p ps)
  then obtain q qs' where qs: "qs = q # qs'" by (cases qs) auto
  with Cons.prems have "part_wire p @ concat (map part_wire ps) = part_wire q @ concat (map part_wire qs')"
    and "length (part_payload p) < 2 ^ 64" "length (part_payload q) < 2 ^ 64" by auto
  then have "p = q \<and> concat (map part_wire ps) = concat (map part_wire qs')"
    by (rule part_wire_prefix_free)
  with Cons.IH[of qs'] Cons.prems qs show ?case by auto
qed

lemma fp_add_eq:
  "fp_add m b w = (if length b \<ge> 2 ^ 64 then (wr_update m w, Inl (OtherError ''OverflowError''))
     else (w\<lparr>wr_bytes := wr_bytes w @ m @ to_bytes_be 8 (length b) @ b, wr_parts := Suc (wr_parts w)\<rparr>, Inr ()))"
  by (simp add: fp_add_def wr_update_def Let_def)

lemma add_part_Inr:
  "add_part p w = (w', Inr ()) \<longleftrightarrow> length (part_payload p) < 2 ^ 64 \<and>
     w' = w\<lparr>wr_bytes := wr_bytes w @ part_wire p, wr_parts := Suc (wr_parts w)\<rparr>"
  by (cases p) (auto simp: add_text_def add_bytes_def fp_add_eq part_wire_def split: if_splits)

lemma add_parts_Inr:
  "add_parts ps w = (w', Inr ()) \<longleftrightarrow> (\<forall>p \<in> set ps. length (part_payload p) < 2 ^ 64) \<and>
     w' = w\<lparr>wr_bytes := wr_bytes w @ concat (map part_wire ps), wr_parts := wr_parts w + length ps\<rparr>"
proof (induction ps arbitrary: w)
  case Nil
  then show ?case by auto
next
  case (Cons p ps)
  show ?case
  proof (cases "length (part_payload p) < 2 ^ 64")
    case True
    then have "add_part p w = (w\<lparr>wr_bytes := wr_bytes w @ part_wire p, wr_parts := Suc (wr_parts w)\<rparr>, Inr ())"
      by (simp add: add_part_Inr)
    with True show ?thesis by (auto simp: Cons.IH)
  next
    case False
    then have "\<nexists>w1. add_part p w = (w1, Inr ())" by (simp add: add_part_Inr)
    then obtain w1 e where "add_part p w = (w1, Inl e)"
      by (cases "add_part p w") (metis old.unit.exhaust sum.exhaust)
    with False show ?thesis by auto
  qed
qed

lemma build_stage_fingerprint_Inr:
  "build_stage_fingerprint h ps = Inr f \<longleftrightarrow> ps \<noteq> [] \<and> (\<forall>p \<in> set ps. length (part_payload p) < 2 ^ 64)
     \<and> make_fingerprint (''sha256:'' @ h (fp_prefix @ concat (map part_wire ps))) = Inr f"
  (is "?l = ?r")
proof (cases "\<forall>p \<in> set ps. length (part_payload p) < 2 ^ 64")
  case True
  then have "add_parts ps new_writer = (\<lparr>wr_bytes = fp_prefix @ concat (map part_wire ps), wr_parts = length ps\<rparr>, Inr ())"
    by (simp add: add_parts_Inr new_writer_def)
  with True show ?thesis
    by (auto simp: build_stage_fingerprint_def finalize_def)
next
  case False
  then have "\<nexists>w1. add_parts ps new_writer = (w1, Inr ())" by (simp add: add_parts_Inr)
  then obtain w1 e where "add_parts ps new_writer = (w1, Inl e)"
    by (cases "add_parts ps new_writer") (metis old.unit.exhaust sum.exhaust)
  with False show ?thesis by (auto simp: build_stage_fingerprint_def)
qed

lemma make_fingerprint_Inr: "make_fingerprint v = Inr f \<longleftrightarrow> sha256_token v \<and> f = StageFingerprint v"
  by (auto simp: make_fingerprint_def)

text \<open>
  C32. The bytes a fingerprint hashes identify the canonical parts: two runs of the writer over
  part lists feed the digest the same bytes exactly when the lists are equal, text and binary
  parts told apart, so equal fingerprints of different parts can only be a SHA-256 collision.
\<close>

theorem fingerprint_bytes_identify_parts:
  assumes "add_parts ps new_writer = (w, Inr ())" and "add_parts qs new_writer = (w', Inr ())"
  shows "wr_bytes w = wr_bytes w' \<longleftrightarrow> ps = qs"
  using assms by (auto simp: add_parts_Inr new_writer_def intro: wire_inj)

theorem fingerprint_bytes_identify_parts_witness:
  "wr_bytes (fst (add_parts [TextPart ''ab'', TextPart ''c''] new_writer))
     \<noteq> wr_bytes (fst (add_parts [TextPart ''a'', TextPart ''bc''] new_writer))"
proof -
  let ?run = "\<lambda>ps. add_parts ps new_writer"
  have ok: "\<exists>w. ?run ps = (w, Inr ())" if "\<forall>p \<in> set ps. length (part_payload p) < 2 ^ 64" for ps
    using that by (simp add: add_parts_Inr)
  obtain w where w: "?run [TextPart ''ab'', TextPart ''c''] = (w, Inr ())"
    using ok[of "[TextPart ''ab'', TextPart ''c'']"]
    by (auto simp: utf8_encode_def utf8_char_def chr_code_def)
  obtain w' where w': "?run [TextPart ''a'', TextPart ''bc''] = (w', Inr ())"
    using ok[of "[TextPart ''a'', TextPart ''bc'']"]
    by (auto simp: utf8_encode_def utf8_char_def chr_code_def)
  from fingerprint_bytes_identify_parts[OF w w'] w w' show ?thesis by simp
qed

lemma consume_chunks_spec:
  "c \<le> n \<Longrightarrow>
   consume_chunks n c chunks w = (w', Inr m) \<longleftrightarrow>
     m = c + length (concat chunks) \<and> m \<le> n \<and> w' = wr_update (concat chunks) w"
  by (induction n c chunks w rule: consume_chunks.induct)
     (auto simp: Let_def wr_update_def split: if_splits)

text \<open>
  Streaming a byte sequence in chunks is the same as adding it as one bytes part, whatever
  the chunking: the call returns exactly when the declared length is the streamed length (and
  fits in 8 bytes), and then leaves the same writer as \<open>add_bytes\<close> of the whole sequence.
\<close>

lemma stream_chunks_equals_add_bytes:
  "add_binary_chunks n chunks w = (w', Inr ()) \<longleftrightarrow>
     n = int (length (concat chunks)) \<and> add_bytes (concat chunks) w = (w', Inr ())"
proof (cases "0 \<le> n \<and> n < 2 ^ 64")
  case True
  let ?k = "nat n"
  let ?w1 = "wr_update (to_bytes_be 8 ?k) (wr_update marker_b w)"
  obtain w2 r where c: "consume_chunks ?k 0 chunks ?w1 = (w2, r)" by force
  show ?thesis
  proof (cases r)
    case (Inl e)
    with c consume_chunks_spec[of 0 ?k chunks ?w1 "wr_update (concat chunks) ?w1" "length (concat chunks)"]
    have "\<not> length (concat chunks) \<le> ?k" by auto
    with True c Inl show ?thesis by (auto simp: add_binary_chunks_def)
  next
    case (Inr m)
    with c consume_chunks_spec[of 0 ?k chunks ?w1 w2 m]
    have "m = length (concat chunks)" "w2 = wr_update (concat chunks) ?w1" by auto
    with True c Inr show ?thesis
      by (auto simp: add_binary_chunks_def add_bytes_def fp_add_eq wr_update_def Let_def nat_less_iff)
  qed
next
  case False
  then show ?thesis by (auto simp: add_binary_chunks_def add_bytes_def fp_add_eq)
qed

end
