(* ===== verification/Database.thy ===== *)
theory Database
  imports Artifact Stage_Contract
begin

text \<open>
  The rows of \<open>backend/app/models\<close> that the job, run, stage and batch services share, and the
  database as a record of tables. \<open>flush\<close> is what PostgreSQL checks when the session writes: the
  CHECK and UNIQUE constraints of the models, and the guard triggers of the migrations. A
  transaction is a function from the database to an exception (rolled back) or a value and the
  new database; transactions run one after the other, which is what the row locks of the code
  (\<open>with_for_update\<close>) provide for the rows a transaction reads and writes.
\<close>

subsection \<open>Rows\<close>

datatype status = Queued | Running | Succeeded | Failed | Cancelled | Other_status string

fun status_value :: "status \<Rightarrow> string" where
  "status_value Queued = ''queued''"
| "status_value Running = ''running''"
| "status_value Succeeded = ''succeeded''"
| "status_value Failed = ''failed''"
| "status_value Cancelled = ''cancelled''"
| "status_value (Other_status s) = s"

definition terminal :: "status \<Rightarrow> bool" where
  "terminal s = (s \<in> {Succeeded, Failed, Cancelled})"

datatype stage_status = SPending | SRunning | SSucceeded | SFailed | SCancelled | SSkipped

datatype batch_status = BDraft | BQueued | BRunning | BSucceeded | BFailed | BCancelled

definition batch_terminal :: "batch_status \<Rightarrow> bool" where
  "batch_terminal s = (s \<in> {BSucceeded, BFailed, BCancelled})"

datatype outbox_status = Pending | Dispatched

record project =
  project_id :: uuid
  project_boundary_srid :: "int option"
  project_working_srid :: int

record dataset =
  dataset_id :: uuid
  dataset_project_id :: uuid
  dataset_kind :: string

record dataset_version =
  version_id :: uuid
  version_dataset_id :: uuid
  version_number :: int
  version_checksum :: "string option"
  version_status :: string
  version_metadata :: "(string \<times> json) list"

record run =
  run_id :: uuid
  run_project_id :: uuid
  run_rerun_source :: "uuid option"
  run_status :: status
  run_mode :: string
  run_seed :: int
  run_working_srid :: int
  run_config :: json
  run_schema_version :: string
  run_commit_sha :: "string option"
  run_error :: "json option"
  run_started_at :: "time option"
  run_finished_at :: "time option"
  run_created_at :: time
  run_dataset_versions :: "uuid list"

record job =
  job_id :: uuid
  job_project_id :: uuid
  job_run_id :: "uuid option"
  job_type :: string
  job_key :: string
  job_status :: status
  job_attempts :: int
  job_max_attempts :: int
  job_error_class :: "string option"
  job_error_code :: "string option"
  job_error :: "json option"
  job_cancel_requested_at :: "time option"
  job_started_at :: "time option"
  job_finished_at :: "time option"

record outbox =
  outbox_id :: uuid
  outbox_job_id :: uuid
  outbox_queue :: string
  outbox_payload :: "(string \<times> json) list"
  outbox_status :: outbox_status
  outbox_attempts :: int
  outbox_last_error :: "string option"
  outbox_last_attempt_at :: "time option"
  outbox_next_attempt_at :: "time option"
  outbox_dispatched_at :: "time option"
  outbox_created_at :: time

record stage_row =
  srow_id :: uuid
  srow_run_id :: uuid
  srow_stage :: string
  srow_version :: string
  srow_status :: stage_status
  srow_progress :: int
  srow_input_hash :: string
  srow_config_hash :: string
  srow_fingerprint :: "string option"
  srow_diagnostics :: "json list"
  srow_artifact_refs :: "string list"
  srow_started_at :: "time option"
  srow_finished_at :: "time option"
  srow_created_at :: time

record batch =
  batch_id :: uuid
  batch_project_id :: uuid
  batch_status :: batch_status
  batch_limit :: int
  batch_created_at :: time
  batch_started_at :: "time option"
  batch_finished_at :: "time option"

record member =
  member_batch_id :: uuid
  member_run_id :: uuid
  member_position :: int

record db =
  db_projects :: "project list"
  db_datasets :: "dataset list"
  db_versions :: "dataset_version list"
  db_artifacts :: "artifact list"
  db_runs :: "run list"
  db_jobs :: "job list"
  db_outbox :: "outbox list"
  db_stages :: "stage_row list"
  db_batches :: "batch list"
  db_members :: "member list"

text \<open>\<open>Job.record_failure\<close>.\<close>

definition record_failure :: "ug_error \<Rightarrow> job \<Rightarrow> job" where
  "record_failure e j =
     j\<lparr>job_status := (if err_cancelled e then Cancelled else Failed),
       job_error_class := Some (category_value (err_category e)),
       job_error_code := Some (code_value (err_code e)),
       job_error := Some (JObj [(''message'', JStr (err_message e)), (''details'', str_json (err_details e)),
          (''retryable'', JBool (err_retryable e)), (''cancelled'', JBool (err_cancelled e))])\<rparr>"

subsection \<open>Selections\<close>

definition find_project :: "uuid \<Rightarrow> db \<Rightarrow> project option" where
  "find_project i d = lookup project_id i (db_projects d)"

definition find_run :: "uuid \<Rightarrow> db \<Rightarrow> run option" where
  "find_run i d = lookup run_id i (db_runs d)"

definition find_job :: "uuid \<Rightarrow> db \<Rightarrow> job option" where
  "find_job i d = lookup job_id i (db_jobs d)"

definition find_batch :: "uuid \<Rightarrow> db \<Rightarrow> batch option" where
  "find_batch i d = lookup batch_id i (db_batches d)"

definition find_stage_row :: "uuid \<Rightarrow> string \<Rightarrow> db \<Rightarrow> stage_row option" where
  "find_stage_row i n d = lookup (\<lambda>s. (srow_run_id s, srow_stage s)) (i, n) (db_stages d)"

definition stage_rows :: "uuid \<Rightarrow> db \<Rightarrow> stage_row list" where
  "stage_rows i d = filter (\<lambda>s. srow_run_id s = i) (db_stages d)"

definition batch_members :: "uuid \<Rightarrow> db \<Rightarrow> member list" where
  "batch_members b d = filter (\<lambda>m. member_batch_id m = b) (db_members d)"

definition run_status_of :: "uuid \<Rightarrow> db \<Rightarrow> status option" where
  "run_status_of i d = map_option run_status (find_run i d)"

text \<open>The statuses of a batch's children: the join of the memberships with the runs.\<close>

definition child_statuses :: "uuid \<Rightarrow> db \<Rightarrow> status list" where
  "child_statuses b d = List.map_filter (\<lambda>m. run_status_of (member_run_id m) d) (batch_members b d)"

subsection \<open>Row updates\<close>

definition set_run :: "run \<Rightarrow> db \<Rightarrow> db" where
  "set_run r d = d\<lparr>db_runs := put_row run_id r (db_runs d)\<rparr>"

definition set_job :: "job \<Rightarrow> db \<Rightarrow> db" where
  "set_job j d = d\<lparr>db_jobs := put_row job_id j (db_jobs d)\<rparr>"

definition set_batch :: "batch \<Rightarrow> db \<Rightarrow> db" where
  "set_batch b d = d\<lparr>db_batches := put_row batch_id b (db_batches d)\<rparr>"

definition set_outbox :: "outbox \<Rightarrow> db \<Rightarrow> db" where
  "set_outbox m d = d\<lparr>db_outbox := put_row outbox_id m (db_outbox d)\<rparr>"

definition set_stage_row :: "stage_row \<Rightarrow> db \<Rightarrow> db" where
  "set_stage_row s d = d\<lparr>db_stages := put_row srow_id s (db_stages d)\<rparr>"

definition set_version :: "dataset_version \<Rightarrow> db \<Rightarrow> db" where
  "set_version v d = d\<lparr>db_versions := put_row version_id v (db_versions d)\<rparr>"

definition set_artifact :: "artifact \<Rightarrow> db \<Rightarrow> db" where
  "set_artifact a d = d\<lparr>db_artifacts := put_row artifact_id a (db_artifacts d)\<rparr>"

definition add_run :: "run \<Rightarrow> db \<Rightarrow> db" where
  "add_run r d = d\<lparr>db_runs := db_runs d @ [r]\<rparr>"

definition add_job :: "job \<Rightarrow> db \<Rightarrow> db" where
  "add_job j d = d\<lparr>db_jobs := db_jobs d @ [j]\<rparr>"

definition add_outbox :: "outbox \<Rightarrow> db \<Rightarrow> db" where
  "add_outbox m d = d\<lparr>db_outbox := db_outbox d @ [m]\<rparr>"

definition add_stage_row :: "stage_row \<Rightarrow> db \<Rightarrow> db" where
  "add_stage_row s d = d\<lparr>db_stages := db_stages d @ [s]\<rparr>"

subsection \<open>CHECK constraints\<close>

definition snake64_re :: "string \<Rightarrow> bool" where
  "snake64_re = token_match is_lower_az (\<lambda>c. is_lower_az c \<or> is_digit09 c \<or> c = CHR ''_'') 63"

definition opt_ok :: "('a \<Rightarrow> bool) \<Rightarrow> 'a option \<Rightarrow> bool" where
  "opt_ok P x = (case x of None \<Rightarrow> True | Some y \<Rightarrow> P y)"

definition run_checks :: "run \<Rightarrow> bool" where
  "run_checks r =
     (opt_ok (\<lambda>s. s \<noteq> run_id r) (run_rerun_source r) \<and>
      run_mode r \<in> {''EXPANSION'', ''FROM_SCRATCH''} \<and>
      0 < run_working_srid r \<and>
      run_schema_version r \<noteq> [] \<and>
      opt_ok commit_re (run_commit_sha r) \<and>
      (run_status r = Succeeded \<longrightarrow> run_commit_sha r \<noteq> None))"

definition job_checks :: "job \<Rightarrow> bool" where
  "job_checks j =
     (snake64_re (job_type j) \<and>
      btrim_nonempty (job_key j) \<and>
      job_status j \<in> {Queued, Running, Succeeded, Failed, Cancelled} \<and>
      0 \<le> job_attempts j \<and> 0 < job_max_attempts j \<and>
      job_attempts j \<le> job_max_attempts j \<and>
      opt_ok (\<lambda>c. c \<in> {''domain'', ''config'', ''data'', ''transient'', ''permanent'', ''cancelled''}) (job_error_class j) \<and>
      opt_ok btrim_nonempty (job_error_code j))"

definition queue_re :: "string \<Rightarrow> bool" where
  "queue_re = token_match is_lower_az
     (\<lambda>c. is_lower_az c \<or> is_digit09 c \<or> c = CHR ''_'' \<or> c = CHR ''.'' \<or> c = CHR ''-'') 63"

definition outbox_checks :: "outbox \<Rightarrow> bool" where
  "outbox_checks m =
     (queue_re (outbox_queue m) \<and>
      0 \<le> outbox_attempts m \<and>
      (outbox_status m = Pending \<and> outbox_dispatched_at m = None \<or>
       outbox_status m = Dispatched \<and> outbox_dispatched_at m \<noteq> None))"

definition stage_row_checks :: "stage_row \<Rightarrow> bool" where
  "stage_row_checks s =
     (stage_name_re (srow_stage s) \<and>
      stage_version_re (srow_version s) \<and>
      0 \<le> srow_progress s \<and> srow_progress s \<le> 100 \<and>
      (srow_status s = SSucceeded \<longrightarrow> srow_progress s = 100) \<and>
      sha256_token (srow_input_hash s) \<and>
      sha256_token (srow_config_hash s) \<and>
      opt_ok sha256_token (srow_fingerprint s))"

definition batch_checks :: "batch \<Rightarrow> bool" where
  "batch_checks b = (1 \<le> batch_limit b \<and> batch_limit b \<le> 10)"

definition member_checks :: "member \<Rightarrow> bool" where
  "member_checks m = (0 \<le> member_position m \<and> member_position m \<le> 9)"

definition version_checks :: "dataset_version \<Rightarrow> bool" where
  "version_checks v = (0 < version_number v \<and> opt_ok (exact_match is_lower_hex 64) (version_checksum v))"

definition rows_ok :: "db \<Rightarrow> bool" where
  "rows_ok d =
     (list_all run_checks (db_runs d) \<and> list_all job_checks (db_jobs d) \<and>
      list_all outbox_checks (db_outbox d) \<and> list_all stage_row_checks (db_stages d) \<and>
      list_all batch_checks (db_batches d) \<and> list_all member_checks (db_members d) \<and>
      list_all version_checks (db_versions d) \<and> list_all artifact_checks (db_artifacts d))"

text \<open>Primary keys and UNIQUE constraints.\<close>

definition unique_ok :: "db \<Rightarrow> bool" where
  "unique_ok d =
     (distinct (map project_id (db_projects d)) \<and>
      distinct (map dataset_id (db_datasets d)) \<and>
      distinct (map version_id (db_versions d)) \<and>
      distinct (map (\<lambda>v. (version_dataset_id v, version_number v)) (db_versions d)) \<and>
      distinct (map artifact_id (db_artifacts d)) \<and>
      distinct (map artifact_uri (db_artifacts d)) \<and>
      distinct (map run_id (db_runs d)) \<and>
      distinct (map job_id (db_jobs d)) \<and>
      distinct (map (\<lambda>j. (job_project_id j, job_type j, job_key j)) (db_jobs d)) \<and>
      distinct (map outbox_id (db_outbox d)) \<and>
      distinct (map outbox_job_id (db_outbox d)) \<and>
      distinct (map srow_id (db_stages d)) \<and>
      distinct (map (\<lambda>s. (srow_run_id s, srow_stage s)) (db_stages d)) \<and>
      distinct (map batch_id (db_batches d)) \<and>
      distinct (map member_run_id (db_members d)) \<and>
      distinct (map (\<lambda>m. (member_batch_id m, member_position m)) (db_members d)))"

text \<open>FOREIGN KEY constraints.\<close>

definition run_fk :: "db \<Rightarrow> run \<Rightarrow> bool" where
  "run_fk d r =
     (run_project_id r \<in> set (map project_id (db_projects d)) \<and>
      opt_ok (\<lambda>s. s \<in> set (map run_id (db_runs d))) (run_rerun_source r) \<and>
      list_all (\<lambda>v. v \<in> set (map version_id (db_versions d))) (run_dataset_versions r))"

definition job_fk :: "db \<Rightarrow> job \<Rightarrow> bool" where
  "job_fk d j =
     (job_project_id j \<in> set (map project_id (db_projects d)) \<and>
      opt_ok (\<lambda>r. r \<in> set (map run_id (db_runs d))) (job_run_id j))"

definition member_fk :: "db \<Rightarrow> member \<Rightarrow> bool" where
  "member_fk d m =
     (member_batch_id m \<in> set (map batch_id (db_batches d)) \<and> member_run_id m \<in> set (map run_id (db_runs d)))"

definition fk_ok :: "db \<Rightarrow> bool" where
  "fk_ok d =
     (list_all (run_fk d) (db_runs d) \<and> list_all (job_fk d) (db_jobs d) \<and> list_all (member_fk d) (db_members d) \<and>
      list_all (\<lambda>m. outbox_job_id m \<in> set (map job_id (db_jobs d))) (db_outbox d) \<and>
      list_all (\<lambda>s. srow_run_id s \<in> set (map run_id (db_runs d))) (db_stages d) \<and>
      list_all (\<lambda>b. batch_project_id b \<in> set (map project_id (db_projects d))) (db_batches d) \<and>
      list_all (\<lambda>v. version_dataset_id v \<in> set (map dataset_id (db_datasets d))) (db_versions d) \<and>
      list_all (\<lambda>x. dataset_project_id x \<in> set (map project_id (db_projects d))) (db_datasets d))"

subsection \<open>Guard triggers\<close>

text \<open>A succeeded run row never changes.\<close>

definition succeeded_runs_unchanged :: "db \<Rightarrow> db \<Rightarrow> bool" where
  "succeeded_runs_unchanged old new =
     list_all (\<lambda>r. run_status r = Succeeded \<longrightarrow> find_run (run_id r) new = Some r) (db_runs old)"

text \<open>The stage rows of a succeeded run never change.\<close>

definition guard_completed_run_stage_results :: "db \<Rightarrow> db \<Rightarrow> bool" where
  "guard_completed_run_stage_results old new =
     list_all (\<lambda>r. run_status r = Succeeded \<longrightarrow> stage_rows (run_id r) new = stage_rows (run_id r) old) (db_runs old)"

text \<open>A new membership needs a draft batch, and a queued child of the same project.\<close>

definition guard_scenario_batch_membership :: "db \<Rightarrow> db \<Rightarrow> bool" where
  "guard_scenario_batch_membership old new =
     (take (length (db_members old)) (db_members new) = db_members old \<and>
      list_all (\<lambda>m. case (find_batch (member_batch_id m) new, find_run (member_run_id m) new) of
          (Some b, Some r) \<Rightarrow> batch_status b = BDraft \<and> run_project_id r = batch_project_id b \<and> run_status r = Queued
        | _ \<Rightarrow> False)
        (drop (length (db_members old)) (db_members new)))"

definition count_children :: "(status \<Rightarrow> bool) \<Rightarrow> uuid \<Rightarrow> db \<Rightarrow> nat" where
  "count_children P b d = length (filter P (child_statuses b d))"

definition batch_update_ok :: "db \<Rightarrow> batch \<Rightarrow> batch \<Rightarrow> bool" where
  "batch_update_ok new old_b b =
     (if old_b = b then True
      else if batch_terminal (batch_status old_b) then False
      else if batch_status old_b \<noteq> BDraft \<and> (batch_project_id b \<noteq> batch_project_id old_b \<or>
         batch_limit b \<noteq> batch_limit old_b \<or> batch_created_at b \<noteq> batch_created_at old_b) then False
      else if batch_status b = batch_status old_b then True
      else if batch_status old_b = BDraft \<and> batch_status b = BQueued then
        (let n = length (batch_members (batch_id b) new) in
         3 \<le> n \<and> n \<le> 10 \<and> batch_limit b \<le> int n)
      else if \<not> (batch_status old_b = BQueued \<and> batch_status b \<in> {BRunning, BSucceeded, BFailed, BCancelled} \<or>
                 batch_status old_b = BRunning \<and> batch_terminal (batch_status b)) then False
      else if batch_terminal (batch_status b) then
        (let n = length (child_statuses (batch_id b) new);
             failed = count_children (\<lambda>s. s = Failed) (batch_id b) new;
             cancelled = count_children (\<lambda>s. s = Cancelled) (batch_id b) new in
         count_children terminal (batch_id b) new = n \<and> 3 \<le> n \<and> n \<le> 10 \<and>
         \<not> (batch_status b = BSucceeded \<and> (failed > 0 \<or> cancelled > 0) \<or>
            batch_status b = BFailed \<and> failed = 0 \<or>
            batch_status b = BCancelled \<and> (failed > 0 \<or> cancelled = 0)) \<and>
         batch_finished_at b \<noteq> None)
      else True)"

definition guard_scenario_batch_state :: "db \<Rightarrow> db \<Rightarrow> bool" where
  "guard_scenario_batch_state old new =
     list_all (\<lambda>b. case find_batch (batch_id b) new of None \<Rightarrow> True | Some b' \<Rightarrow> batch_update_ok new b b') (db_batches old)"

definition artifact_updates_ok :: "db \<Rightarrow> db \<Rightarrow> bool" where
  "artifact_updates_ok old new =
     list_all (\<lambda>a. case lookup artifact_id (artifact_id a) (db_artifacts new) of None \<Rightarrow> True
        | Some a' \<Rightarrow> a' = a \<or> prevent_invalid_artifact_update a a' = Inr ()) (db_artifacts old)"

text \<open>The listener of \<open>DatasetVersion\<close>: content never changes, and \<open>ready\<close> is terminal.\<close>

definition prevent_dataset_version_content_update :: "dataset_version \<Rightarrow> dataset_version \<Rightarrow> exc + unit" where
  "prevent_dataset_version_content_update old new =
     (if version_status old = ''ready'' \<and> version_status new \<noteq> ''ready''
      then Inl (DatasetVersionImmutableError ''ready dataset version status is terminal; create a new version'')
      else if version_dataset_id new \<noteq> version_dataset_id old \<or> version_number new \<noteq> version_number old \<or>
         version_checksum new \<noteq> version_checksum old \<or> version_metadata new \<noteq> version_metadata old
      then Inl (DatasetVersionImmutableError ''dataset version content is immutable; changed fields'')
      else Inr ())"

definition version_updates_ok :: "db \<Rightarrow> db \<Rightarrow> bool" where
  "version_updates_ok old new =
     list_all (\<lambda>v. case lookup version_id (version_id v) (db_versions new) of None \<Rightarrow> True
        | Some v' \<Rightarrow> v' = v \<or> prevent_dataset_version_content_update v v' = Inr ()) (db_versions old)"

definition flush :: "db \<Rightarrow> db \<Rightarrow> exc + db" where
  "flush old new =
     (if \<not> artifact_updates_ok old new
      then Inl (ArtifactLifecycleError ''invalid artifact update'')
      else if \<not> version_updates_ok old new
      then Inl (DatasetVersionImmutableError ''invalid dataset version update'')
      else if \<not> succeeded_runs_unchanged old new
      then Inl (GenerationRunImmutableError ''successful generation run is immutable'')
      else if \<not> guard_completed_run_stage_results old new
      then Inl (DatabaseError ''stage results of a successful generation run are immutable'')
      else if \<not> guard_scenario_batch_membership old new
      then Inl (DatabaseError ''scenario batch membership guard'')
      else if \<not> guard_scenario_batch_state old new
      then Inl (DatabaseError ''scenario batch state guard'')
      else if \<not> rows_ok new \<or> \<not> unique_ok new \<or> \<not> fk_ok new
      then Inl (IntegrityError ''constraint violation'')
      else Inr new)"

end
