(* ===== verification/Database_Facts.thy ===== *)
theory Database_Facts
  imports Database
begin

text \<open>
  When a write passes \<open>flush\<close>: the laws of the tables' lookups and updates, one lemma per guard
  for the tables a transaction leaves alone, and the combined lemmas the transactions use.
\<close>

definition wf_db :: "db \<Rightarrow> bool" where
  "wf_db d \<longleftrightarrow> rows_ok d \<and> unique_ok d \<and> fk_ok d"

lemma opt_ok_simps [simp]: "opt_ok P None" "opt_ok P (Some x) = P x"
  by (simp_all add: opt_ok_def)

lemma flush_Inr: "flush old new = Inr d \<longleftrightarrow> d = new \<and> artifact_updates_ok old new \<and> version_updates_ok old new \<and>
    succeeded_runs_unchanged old new \<and> guard_completed_run_stage_results old new \<and>
    guard_scenario_batch_membership old new \<and> guard_scenario_batch_state old new \<and> wf_db new"
  by (auto simp: flush_def wf_db_def)

lemma flush_wf: "flush old new = Inr d \<Longrightarrow> d = new \<and> wf_db d"
  by (simp add: flush_Inr)

lemma record_failure_fields [simp]:
  "job_type (record_failure e j) = job_type j" "job_key (record_failure e j) = job_key j"
  "job_id (record_failure e j) = job_id j" "job_project_id (record_failure e j) = job_project_id j"
  "job_run_id (record_failure e j) = job_run_id j" "job_attempts (record_failure e j) = job_attempts j"
  "job_max_attempts (record_failure e j) = job_max_attempts j"
  "job_cancel_requested_at (record_failure e j) = job_cancel_requested_at j"
  "job_error_class (record_failure e j) = Some (category_value (err_category e))"
  "job_error_code (record_failure e j) = Some (code_value (err_code e))"
  by (simp_all add: record_failure_def)

lemma wf_checks:
  assumes "wf_db d"
  shows "r \<in> set (db_runs d) \<Longrightarrow> run_checks r" "j \<in> set (db_jobs d) \<Longrightarrow> job_checks j"
    "s \<in> set (db_stages d) \<Longrightarrow> stage_row_checks s" "b \<in> set (db_batches d) \<Longrightarrow> batch_checks b"
  using assms by (simp_all add: wf_db_def rows_ok_def list_all_iff)

lemma recorded_error_ok:
  "opt_ok (\<lambda>c. c \<in> {''domain'', ''config'', ''data'', ''transient'', ''permanent'', ''cancelled''})
     (Some (category_value (err_category e)))"
  "opt_ok btrim_nonempty (Some (code_value (err_code e)))"
  by (cases "err_category e"; simp) (cases "err_code e"; simp add: btrim_nonempty_def)

lemma job_checks_status:
  assumes "job_checks j0" and "job_type j = job_type j0" "job_key j = job_key j0"
    and "job_status j \<in> {Queued, Running, Succeeded, Failed, Cancelled}"
    and "job_attempts j = job_attempts j0" "job_max_attempts j = job_max_attempts j0"
    and "opt_ok (\<lambda>c. c \<in> {''domain'', ''config'', ''data'', ''transient'', ''permanent'', ''cancelled''}) (job_error_class j)"
    and "opt_ok btrim_nonempty (job_error_code j)"
  shows "job_checks j"
  using assms by (simp add: job_checks_def)

subsection \<open>Lookups after updates\<close>

lemmas set_defs = set_run_def set_job_def set_batch_def set_outbox_def set_stage_row_def set_version_def
  set_artifact_def add_run_def add_job_def add_outbox_def add_stage_row_def

lemma set_tables [simp]:
  "db_projects (set_run r d) = db_projects d" "db_datasets (set_run r d) = db_datasets d"
  "db_versions (set_run r d) = db_versions d" "db_artifacts (set_run r d) = db_artifacts d"
  "db_jobs (set_run r d) = db_jobs d" "db_outbox (set_run r d) = db_outbox d"
  "db_stages (set_run r d) = db_stages d" "db_batches (set_run r d) = db_batches d"
  "db_members (set_run r d) = db_members d" "db_runs (set_run r d) = put_row run_id r (db_runs d)"
  by (simp_all add: set_run_def)

lemma set_job_tables [simp]:
  "db_projects (set_job j d) = db_projects d" "db_datasets (set_job j d) = db_datasets d"
  "db_versions (set_job j d) = db_versions d" "db_artifacts (set_job j d) = db_artifacts d"
  "db_runs (set_job j d) = db_runs d" "db_outbox (set_job j d) = db_outbox d"
  "db_stages (set_job j d) = db_stages d" "db_batches (set_job j d) = db_batches d"
  "db_members (set_job j d) = db_members d" "db_jobs (set_job j d) = put_row job_id j (db_jobs d)"
  by (simp_all add: set_job_def)

lemma set_batch_tables [simp]:
  "db_projects (set_batch b d) = db_projects d" "db_datasets (set_batch b d) = db_datasets d"
  "db_versions (set_batch b d) = db_versions d" "db_artifacts (set_batch b d) = db_artifacts d"
  "db_runs (set_batch b d) = db_runs d" "db_outbox (set_batch b d) = db_outbox d"
  "db_stages (set_batch b d) = db_stages d" "db_jobs (set_batch b d) = db_jobs d"
  "db_members (set_batch b d) = db_members d" "db_batches (set_batch b d) = put_row batch_id b (db_batches d)"
  by (simp_all add: set_batch_def)

lemma set_stage_row_tables [simp]:
  "db_projects (set_stage_row s d) = db_projects d" "db_datasets (set_stage_row s d) = db_datasets d"
  "db_versions (set_stage_row s d) = db_versions d" "db_artifacts (set_stage_row s d) = db_artifacts d"
  "db_runs (set_stage_row s d) = db_runs d" "db_outbox (set_stage_row s d) = db_outbox d"
  "db_jobs (set_stage_row s d) = db_jobs d" "db_batches (set_stage_row s d) = db_batches d"
  "db_members (set_stage_row s d) = db_members d" "db_stages (set_stage_row s d) = put_row srow_id s (db_stages d)"
  by (simp_all add: set_stage_row_def)

lemma add_stage_row_tables [simp]:
  "db_projects (add_stage_row s d) = db_projects d" "db_datasets (add_stage_row s d) = db_datasets d"
  "db_versions (add_stage_row s d) = db_versions d" "db_artifacts (add_stage_row s d) = db_artifacts d"
  "db_runs (add_stage_row s d) = db_runs d" "db_outbox (add_stage_row s d) = db_outbox d"
  "db_jobs (add_stage_row s d) = db_jobs d" "db_batches (add_stage_row s d) = db_batches d"
  "db_members (add_stage_row s d) = db_members d" "db_stages (add_stage_row s d) = db_stages d @ [s]"
  by (simp_all add: add_stage_row_def)

lemma set_outbox_tables [simp]:
  "db_projects (set_outbox m d) = db_projects d" "db_datasets (set_outbox m d) = db_datasets d"
  "db_versions (set_outbox m d) = db_versions d" "db_artifacts (set_outbox m d) = db_artifacts d"
  "db_runs (set_outbox m d) = db_runs d" "db_jobs (set_outbox m d) = db_jobs d"
  "db_stages (set_outbox m d) = db_stages d" "db_batches (set_outbox m d) = db_batches d"
  "db_members (set_outbox m d) = db_members d" "db_outbox (set_outbox m d) = put_row outbox_id m (db_outbox d)"
  by (simp_all add: set_outbox_def)

lemma lookup_self: "distinct (map key rows) \<Longrightarrow> r \<in> set rows \<Longrightarrow> lookup key (key r) rows = Some r"
  by (simp add: lookup_iff)

lemma unique_pks:
  assumes "unique_ok d"
  shows "distinct (map artifact_id (db_artifacts d))" "distinct (map version_id (db_versions d))"
    "distinct (map batch_id (db_batches d))" "distinct (map run_id (db_runs d))"
  using assms by (simp_all add: unique_ok_def)

lemma wf_pks:
  assumes "wf_db d"
  shows "distinct (map artifact_id (db_artifacts d))" "distinct (map version_id (db_versions d))"
    "distinct (map batch_id (db_batches d))" "distinct (map run_id (db_runs d))"
    "distinct (map job_id (db_jobs d))" "distinct (map srow_id (db_stages d))"
    "distinct (map outbox_id (db_outbox d))"
    "distinct (map (\<lambda>s. (srow_run_id s, srow_stage s)) (db_stages d))"
    "distinct (map member_run_id (db_members d))"
  using assms by (simp_all add: wf_db_def unique_ok_def)

lemma find_run_Some: "find_run i d = Some r \<Longrightarrow> r \<in> set (db_runs d) \<and> run_id r = i"
  unfolding find_run_def by (rule lookup_Some)

lemma find_run_iff: "wf_db d \<Longrightarrow> find_run i d = Some r \<longleftrightarrow> r \<in> set (db_runs d) \<and> run_id r = i"
  unfolding find_run_def by (rule lookup_iff[OF wf_pks(4)])

lemma find_batch_Some: "find_batch i d = Some b \<Longrightarrow> b \<in> set (db_batches d) \<and> batch_id b = i"
  unfolding find_batch_def by (rule lookup_Some)

lemma find_batch_iff: "wf_db d \<Longrightarrow> find_batch i d = Some b \<longleftrightarrow> b \<in> set (db_batches d) \<and> batch_id b = i"
  unfolding find_batch_def by (rule lookup_iff[OF wf_pks(3)])

lemma find_run_set_run: "find_run i (set_run r d) =
    (if i = run_id r then (if find_run i d = None then None else Some r) else find_run i d)"
  using lookup_None[of run_id i "db_runs d"] by (cases "i = run_id r") (auto simp: find_run_def lookup_put_row)

lemma find_run_other [simp]:
  "find_run i (set_job j d) = find_run i d" "find_run i (set_batch b d) = find_run i d"
  "find_run i (set_stage_row s d) = find_run i d" "find_run i (add_stage_row s d) = find_run i d"
  "find_run i (set_outbox m d) = find_run i d"
  by (simp_all add: find_run_def)

lemma find_batch_set_batch: "find_batch i (set_batch b d) =
    (if i = batch_id b then (if find_batch i d = None then None else Some b) else find_batch i d)"
  using lookup_None[of batch_id i "db_batches d"] by (cases "i = batch_id b") (auto simp: find_batch_def lookup_put_row)

lemma find_batch_other [simp]:
  "find_batch i (set_job j d) = find_batch i d" "find_batch i (set_run r d) = find_batch i d"
  "find_batch i (set_stage_row s d) = find_batch i d" "find_batch i (add_stage_row s d) = find_batch i d"
  by (simp_all add: find_batch_def)

lemma batch_members_other [simp]:
  "batch_members i (set_job j d) = batch_members i d" "batch_members i (set_run r d) = batch_members i d"
  "batch_members i (set_batch b d) = batch_members i d"
  "batch_members i (set_stage_row s d) = batch_members i d" "batch_members i (add_stage_row s d) = batch_members i d"
  by (simp_all add: batch_members_def)

lemma stage_rows_other [simp]:
  "stage_rows i (set_job j d) = stage_rows i d" "stage_rows i (set_run r d) = stage_rows i d"
  "stage_rows i (set_batch b d) = stage_rows i d"
  by (simp_all add: stage_rows_def)

subsection \<open>Guards on tables that do not change\<close>

lemma artifact_updates_same:
  "unique_ok old \<Longrightarrow> db_artifacts new = db_artifacts old \<Longrightarrow> artifact_updates_ok old new"
  by (simp add: artifact_updates_ok_def list_all_iff lookup_self unique_pks)

lemma version_updates_same:
  "unique_ok old \<Longrightarrow> db_versions new = db_versions old \<Longrightarrow> version_updates_ok old new"
  by (simp add: version_updates_ok_def list_all_iff lookup_self unique_pks)

lemma membership_same: "db_members new = db_members old \<Longrightarrow> guard_scenario_batch_membership old new"
  by (simp add: guard_scenario_batch_membership_def)

lemma batch_state_same: "unique_ok old \<Longrightarrow> db_batches new = db_batches old \<Longrightarrow> guard_scenario_batch_state old new"
  by (simp add: guard_scenario_batch_state_def list_all_iff find_batch_def lookup_self unique_pks batch_update_ok_def)

lemma stage_results_same: "db_stages new = db_stages old \<Longrightarrow> guard_completed_run_stage_results old new"
  by (simp add: guard_completed_run_stage_results_def stage_rows_def list_all_iff)

lemma succeeded_runs_same: "unique_ok old \<Longrightarrow> db_runs new = db_runs old \<Longrightarrow> succeeded_runs_unchanged old new"
  by (simp add: succeeded_runs_unchanged_def list_all_iff find_run_def lookup_self unique_pks)

lemma succeeded_runs_set_run:
  assumes "wf_db old" "find_run (run_id r) old = Some r0" "run_status r0 \<noteq> Succeeded"
    and "db_runs new = put_row run_id r (db_runs old)"
  shows "succeeded_runs_unchanged old new"
proof -
  have u: "distinct (map run_id (db_runs old))" using assms(1) by (rule wf_pks)
  have "find_run (run_id x) new = Some x" if x: "x \<in> set (db_runs old)" "run_status x = Succeeded" for x
  proof -
    have l: "lookup run_id (run_id x) (db_runs old) = Some x" using u x(1) by (rule lookup_self)
    then have "run_id x \<noteq> run_id r" using assms(2,3) x(2) by (auto simp: find_run_def)
    with l show ?thesis by (simp add: find_run_def assms(4) lookup_put_row)
  qed
  then show ?thesis by (simp add: succeeded_runs_unchanged_def list_all_iff)
qed

subsection \<open>Combined lemmas\<close>

definition same_job_key :: "job \<Rightarrow> job \<Rightarrow> bool" where
  "same_job_key j j0 \<longleftrightarrow> job_id j = job_id j0 \<and> job_project_id j = job_project_id j0 \<and> job_type j = job_type j0
     \<and> job_key j = job_key j0 \<and> job_run_id j = job_run_id j0"

lemma unique_ok_tables:
  assumes "unique_ok d"
    and "db_projects d' = db_projects d" "db_datasets d' = db_datasets d" "db_versions d' = db_versions d"
    and "db_artifacts d' = db_artifacts d" "map run_id (db_runs d') = map run_id (db_runs d)"
    and "map job_id (db_jobs d') = map job_id (db_jobs d)"
    and "map (\<lambda>j. (job_project_id j, job_type j, job_key j)) (db_jobs d')
       = map (\<lambda>j. (job_project_id j, job_type j, job_key j)) (db_jobs d)"
    and "db_outbox d' = db_outbox d"
    and "distinct (map srow_id (db_stages d'))"
    and "distinct (map (\<lambda>s. (srow_run_id s, srow_stage s)) (db_stages d'))"
    and "map batch_id (db_batches d') = map batch_id (db_batches d)" "db_members d' = db_members d"
  shows "unique_ok d'"
  using assms unfolding unique_ok_def by simp

lemma job_columns_put:
  assumes "wf_db d" "j0 \<in> set (db_jobs d)" "same_job_key j j0"
  shows "map job_id (put_row job_id j (db_jobs d)) = map job_id (db_jobs d)"
    and "map (\<lambda>j. (job_project_id j, job_type j, job_key j)) (put_row job_id j (db_jobs d))
       = map (\<lambda>j. (job_project_id j, job_type j, job_key j)) (db_jobs d)"
    and "map job_run_id (put_row job_id j (db_jobs d)) = map job_run_id (db_jobs d)"
proof -
  have u: "distinct (map job_id (db_jobs d))" using assms(1) by (rule wf_pks)
  then have l: "lookup job_id (job_id j) (db_jobs d) = Some j0"
    using assms(2,3) by (simp add: lookup_iff same_job_key_def)
  show "map job_id (put_row job_id j (db_jobs d)) = map job_id (db_jobs d)" by (rule map_key_put_row)
  show "map (\<lambda>j. (job_project_id j, job_type j, job_key j)) (put_row job_id j (db_jobs d))
       = map (\<lambda>j. (job_project_id j, job_type j, job_key j)) (db_jobs d)"
    by (rule map_put_row_lookup[OF u l]) (use assms(3) in \<open>auto simp: same_job_key_def\<close>)
  show "map job_run_id (put_row job_id j (db_jobs d)) = map job_run_id (db_jobs d)"
    by (rule map_put_row_lookup[OF u l]) (use assms(3) in \<open>auto simp: same_job_key_def\<close>)
qed

lemma fk_ok_tables:
  assumes "db_projects d' = db_projects d" "db_datasets d' = db_datasets d" "db_versions d' = db_versions d"
    and "map run_id (db_runs d') = map run_id (db_runs d)" "map job_id (db_jobs d') = map job_id (db_jobs d)"
    and "map batch_id (db_batches d') = map batch_id (db_batches d)" and "fk_ok d"
    and "list_all (run_fk d) (db_runs d')" "list_all (job_fk d) (db_jobs d')" "db_members d' = db_members d"
    and "list_all (\<lambda>m. outbox_job_id m \<in> set (map job_id (db_jobs d))) (db_outbox d')"
    and "list_all (\<lambda>s. srow_run_id s \<in> set (map run_id (db_runs d))) (db_stages d')"
    and "list_all (\<lambda>b. batch_project_id b \<in> set (map project_id (db_projects d))) (db_batches d')"
  shows "fk_ok d'"
proof -
  have "run_fk d' = run_fk d" "job_fk d' = job_fk d" "member_fk d' = member_fk d"
    unfolding run_fk_def[abs_def] job_fk_def[abs_def] member_fk_def[abs_def] assms(1-6) by (rule refl)+
  with assms(7-) show ?thesis unfolding fk_ok_def assms(1-6) by simp
qed

lemma run_fk_same:
  "run_fk d r0 \<Longrightarrow> run_project_id r = run_project_id r0 \<Longrightarrow> run_rerun_source r = run_rerun_source r0 \<Longrightarrow>
     run_dataset_versions r = run_dataset_versions r0 \<Longrightarrow> run_fk d r"
  by (simp add: run_fk_def)

lemma job_fk_same: "job_fk d j0 \<Longrightarrow> same_job_key j j0 \<Longrightarrow> job_fk d j"
  by (simp add: job_fk_def same_job_key_def)

lemma wf_fks:
  assumes "wf_db d"
  shows "\<And>r. r \<in> set (db_runs d) \<Longrightarrow> run_fk d r" "\<And>j. j \<in> set (db_jobs d) \<Longrightarrow> job_fk d j"
    "\<And>s. s \<in> set (db_stages d) \<Longrightarrow> srow_run_id s \<in> set (map run_id (db_runs d))"
    "\<And>b. b \<in> set (db_batches d) \<Longrightarrow> batch_project_id b \<in> set (map project_id (db_projects d))"
    "\<And>m. m \<in> set (db_members d) \<Longrightarrow> member_fk d m"
  using assms by (simp_all add: wf_db_def fk_ok_def list_all_iff)

definition same_run_refs :: "run \<Rightarrow> run \<Rightarrow> bool" where
  "same_run_refs r r0 \<longleftrightarrow> run_id r = run_id r0 \<and> run_project_id r = run_project_id r0 \<and>
     run_rerun_source r = run_rerun_source r0 \<and> run_dataset_versions r = run_dataset_versions r0"

text \<open>The update of one run that is not succeeded, its job, and possibly its batch.\<close>

lemma flush_run_job:
  assumes wf: "wf_db d" and r: "find_run (run_id r) d = Some r0" "run_status r0 \<noteq> Succeeded" "run_checks r"
    and refs: "same_run_refs r r0"
    and j: "j0 \<in> set (db_jobs d)" "same_job_key j j0" "job_checks j"
  shows "flush d (set_job j (set_run r d)) = Inr (set_job j (set_run r d))"
proof -
  let ?n = "set_job j (set_run r d)"
  have u: "unique_ok d" and ok: "rows_ok d" and fk: "fk_ok d" using wf by (simp_all add: wf_db_def)
  have "rows_ok ?n" using ok r(3) j(3) by (simp add: rows_ok_def list_all_put_row)
  moreover have "unique_ok ?n"
    using u job_columns_put[OF wf j(1,2)] by (intro unique_ok_tables[OF u]) (simp_all add: map_key_put_row unique_ok_def)
  moreover have "succeeded_runs_unchanged d ?n" using wf r(1,2) by (rule succeeded_runs_set_run) simp
  moreover have "fk_ok ?n"
  proof (rule fk_ok_tables[of _ d])
    have "run_fk d r" using wf_fks(1)[OF wf] find_run_Some[OF r(1)] refs run_fk_same by (auto simp: same_run_refs_def)
    with fk show "list_all (run_fk d) (db_runs ?n)" by (simp add: fk_ok_def list_all_put_row)
    have "job_fk d j" using job_fk_same[OF wf_fks(2)[OF wf j(1)] j(2)] .
    with fk show "list_all (job_fk d) (db_jobs ?n)" by (simp add: fk_ok_def list_all_put_row)
  qed (use fk in \<open>simp_all add: fk_ok_def map_key_put_row\<close>)
  ultimately show ?thesis using u
    by (simp add: flush_Inr wf_db_def artifact_updates_same version_updates_same membership_same
        batch_state_same stage_results_same)
qed

lemma flush_job:
  assumes wf: "wf_db d" and j: "j0 \<in> set (db_jobs d)" "same_job_key j j0" "job_checks j"
  shows "flush d (set_job j d) = Inr (set_job j d)"
proof -
  have u: "unique_ok d" and ok: "rows_ok d" and fk: "fk_ok d" using wf by (simp_all add: wf_db_def)
  have "rows_ok (set_job j d)" using ok j(3) by (simp add: rows_ok_def list_all_put_row)
  moreover have "unique_ok (set_job j d)"
    using u job_columns_put[OF wf j(1,2)] by (intro unique_ok_tables[OF u]) (simp_all add: unique_ok_def)
  moreover have "fk_ok (set_job j d)"
  proof (rule fk_ok_tables[of _ d])
    have "job_fk d j" using job_fk_same[OF wf_fks(2)[OF wf j(1)] j(2)] .
    with fk show "list_all (job_fk d) (db_jobs (set_job j d))" by (simp add: fk_ok_def list_all_put_row)
  qed (use fk in \<open>simp_all add: fk_ok_def map_key_put_row\<close>)
  ultimately show ?thesis using u
    by (simp add: flush_Inr wf_db_def artifact_updates_same version_updates_same membership_same
        batch_state_same stage_results_same succeeded_runs_same)
qed

text \<open>The update of one batch that the state trigger allows.\<close>

lemma put_row_same: "distinct (map key rows) \<Longrightarrow> r \<in> set rows \<Longrightarrow> put_row key r rows = rows"
  by (auto simp: put_row_def distinct_map inj_on_def intro!: map_idI)

lemma set_batch_same: "wf_db d \<Longrightarrow> find_batch (batch_id b) d = Some b \<Longrightarrow> set_batch b d = d"
  using put_row_same[OF wf_pks(3)] find_batch_Some by (simp add: set_batch_def)

lemma batch_state_set_batch:
  assumes "wf_db old" "find_batch (batch_id b) old = Some b0" "batch_update_ok new b0 b"
    and "db_batches new = put_row batch_id b (db_batches old)"
  shows "guard_scenario_batch_state old new"
proof -
  have u: "distinct (map batch_id (db_batches old))" using assms(1) by (rule wf_pks)
  have "case find_batch (batch_id x) new of None \<Rightarrow> True | Some b' \<Rightarrow> batch_update_ok new x b'"
    if x: "x \<in> set (db_batches old)" for x
  proof (cases "batch_id x = batch_id b")
    case True
    have "x = b0" using lookup_self[OF u x] assms(2) True by (simp add: find_batch_def)
    with assms(3,4) True show ?thesis by (simp add: find_batch_def lookup_put_row)
  next
    case False
    then show ?thesis using lookup_self[OF u x] assms(4) by (simp add: find_batch_def lookup_put_row batch_update_ok_def)
  qed
  then show ?thesis by (simp add: guard_scenario_batch_state_def list_all_iff)
qed

lemma flush_set_batch:
  assumes wf: "wf_db d" and b: "find_batch (batch_id b) d = Some b0" "batch_update_ok (set_batch b d) b0 b" "batch_checks b"
      "batch_project_id b = batch_project_id b0"
  shows "flush d (set_batch b d) = Inr (set_batch b d)"
proof -
  have u: "unique_ok d" and ok: "rows_ok d" and fk: "fk_ok d" using wf by (simp_all add: wf_db_def)
  have "rows_ok (set_batch b d)" using ok b(3) by (simp add: rows_ok_def list_all_put_row)
  moreover have "unique_ok (set_batch b d)"
    using u by (intro unique_ok_tables[OF u]) (simp_all add: unique_ok_def map_key_put_row)
  moreover have "fk_ok (set_batch b d)"
  proof (rule fk_ok_tables[of _ d])
    show "list_all (\<lambda>b. batch_project_id b \<in> set (map project_id (db_projects d))) (db_batches (set_batch b d))"
      using fk b(4) wf_fks(4)[OF wf] find_batch_Some[OF b(1)] by (simp add: fk_ok_def list_all_put_row)
  qed (use fk in \<open>simp_all add: fk_ok_def map_key_put_row\<close>)
  moreover have "guard_scenario_batch_state d (set_batch b d)" by (rule batch_state_set_batch[OF wf b(1,2)]) simp
  ultimately show ?thesis using u
    by (simp add: flush_Inr wf_db_def artifact_updates_same version_updates_same membership_same
        stage_results_same succeeded_runs_same)
qed

text \<open>Writing a stage row of a run that is not succeeded.\<close>

lemma guard_stages_put:
  assumes wf: "wf_db d" and r: "find_run (srow_run_id s) d = Some r0" "run_status r0 \<noteq> Succeeded"
    and s: "s0 \<in> set (db_stages d)" "srow_id s = srow_id s0" "srow_run_id s = srow_run_id s0"
  shows "guard_completed_run_stage_results d (set_stage_row s d)"
proof -
  have "stage_rows (run_id q) (set_stage_row s d) = stage_rows (run_id q) d"
    if q: "q \<in> set (db_runs d)" "run_status q = Succeeded" for q
  proof -
    have "run_id q \<noteq> srow_run_id s"
        using r q lookup_self[OF wf_pks(4)[OF wf] q(1)] by (auto simp: find_run_def)
    moreover have "srow_run_id x = srow_run_id s" if "x \<in> set (db_stages d)" "srow_id x = srow_id s" for x
      using lookup_self[OF wf_pks(6)[OF wf] that(1)] lookup_self[OF wf_pks(6)[OF wf] s(1)] that(2) s(2,3)
      by (metis option.inject)
    ultimately show ?thesis unfolding stage_rows_def set_stage_row_tables
      by (intro filter_put_row_out) metis+
  qed
  then show ?thesis by (simp add: guard_completed_run_stage_results_def list_all_iff)
qed

lemma flush_set_stage_row:
  assumes wf: "wf_db d" and r: "find_run (srow_run_id s) d = Some r0" "run_status r0 \<noteq> Succeeded"
    and s: "s0 \<in> set (db_stages d)" "srow_id s = srow_id s0" "srow_run_id s = srow_run_id s0"
    "srow_stage s = srow_stage s0" "stage_row_checks s"
  shows "flush d (set_stage_row s d) = Inr (set_stage_row s d)"
proof -
  have u: "unique_ok d" and ok: "rows_ok d" and fk: "fk_ok d" using wf by (simp_all add: wf_db_def)
  have l: "lookup srow_id (srow_id s) (db_stages d) = Some s0"
    using lookup_self[OF wf_pks(6)[OF wf] s(1)] s(2) by simp
  have "map (\<lambda>s. (srow_run_id s, srow_stage s)) (put_row srow_id s (db_stages d))
      = map (\<lambda>s. (srow_run_id s, srow_stage s)) (db_stages d)"
    by (rule map_put_row_lookup[OF _ l]) (use u s in \<open>auto simp: unique_ok_def\<close>)
  then have "unique_ok (set_stage_row s d)"
    using u by (intro unique_ok_tables[OF u]) (simp_all add: unique_ok_def map_key_put_row)
  moreover have "rows_ok (set_stage_row s d)" using ok s(5) by (simp add: rows_ok_def list_all_put_row)
  moreover have "fk_ok (set_stage_row s d)"
  proof (rule fk_ok_tables[of _ d])
    show "list_all (\<lambda>s. srow_run_id s \<in> set (map run_id (db_runs d))) (db_stages (set_stage_row s d))"
      using fk s(3) wf_fks(3)[OF wf s(1)] by (simp add: fk_ok_def list_all_put_row)
  qed (use fk in \<open>simp_all add: fk_ok_def map_key_put_row\<close>)
  ultimately show ?thesis using u guard_stages_put[OF wf r s(1-3)]
    by (simp add: flush_Inr wf_db_def artifact_updates_same version_updates_same membership_same
        batch_state_same succeeded_runs_same)
qed

lemma flush_add_stage_row:
  assumes wf: "wf_db d" and r: "find_run (srow_run_id s) d = Some r0" "run_status r0 \<noteq> Succeeded"
    and s: "srow_id s \<notin> srow_id ` set (db_stages d)" "find_stage_row (srow_run_id s) (srow_stage s) d = None"
      "stage_row_checks s"
  shows "flush d (add_stage_row s d) = Inr (add_stage_row s d)"
proof -
  have u: "unique_ok d" and ok: "rows_ok d" and fk: "fk_ok d" using wf by (simp_all add: wf_db_def)
  have "(srow_run_id s, srow_stage s) \<notin> (\<lambda>s. (srow_run_id s, srow_stage s)) ` set (db_stages d)"
    using s(2) by (simp add: find_stage_row_def lookup_None)
  then have "unique_ok (add_stage_row s d)"
    using u s(1) by (intro unique_ok_tables[OF u]) (auto simp: unique_ok_def)
  moreover have "rows_ok (add_stage_row s d)" using ok s(3) by (simp add: rows_ok_def)
  moreover have "fk_ok (add_stage_row s d)"
  proof (rule fk_ok_tables[of _ d])
    show "list_all (\<lambda>s. srow_run_id s \<in> set (map run_id (db_runs d))) (db_stages (add_stage_row s d))"
      using fk imageI[of r0 "set (db_runs d)" run_id] find_run_Some[OF r(1)] by (simp add: fk_ok_def)
  qed (use fk in \<open>simp_all add: fk_ok_def\<close>)
  moreover have "guard_completed_run_stage_results d (add_stage_row s d)"
  proof -
    have "stage_rows (run_id q) (add_stage_row s d) = stage_rows (run_id q) d"
      if q: "q \<in> set (db_runs d)" "run_status q = Succeeded" for q
    proof -
      have "run_id q \<noteq> srow_run_id s"
        using r q lookup_self[OF wf_pks(4)[OF wf] q(1)] by (auto simp: find_run_def)
      then show ?thesis by (simp add: stage_rows_def)
    qed
    then show ?thesis by (simp add: guard_completed_run_stage_results_def list_all_iff)
  qed
  ultimately show ?thesis using u
    by (simp add: flush_Inr wf_db_def artifact_updates_same version_updates_same membership_same
        batch_state_same succeeded_runs_same)
qed

definition empty_db :: db where
  "empty_db = \<lparr>db_projects = [], db_datasets = [], db_versions = [], db_artifacts = [], db_runs = [], db_jobs = [],
     db_outbox = [], db_stages = [], db_batches = [], db_members = []\<rparr>"

end
