(* ===== verification/Job_Admission.thy ===== *)
theory Job_Admission
  imports Database_Facts
begin

text \<open>
  Admission of background jobs (\<open>backend/app/db/job_admission.py\<close>): queued and running jobs of a
  project consume slots, in total and per class of job. The caller holds the project's row lock.
\<close>

record admission_limits =
  lim_project :: int
  lim_generation :: int
  lim_ingest :: int
  lim_export :: int

definition check_capacity :: "string \<Rightarrow> int \<Rightarrow> exc + unit" where
  "check_capacity name v =
     (if 1 \<le> v \<and> v \<le> 128 then Inr ()
      else Inl (ValueError (name @ '' capacity must be an integer between 1 and 128'')))"

definition make_limits :: "int \<Rightarrow> int \<Rightarrow> int \<Rightarrow> int \<Rightarrow> exc + admission_limits" where
  "make_limits p g i e =
     bindE (check_capacity ''project'' p) (\<lambda>_. bindE (check_capacity ''generation'' g) (\<lambda>_.
     bindE (check_capacity ''ingest'' i) (\<lambda>_. bindE (check_capacity ''export'' e) (\<lambda>_.
     Inr \<lparr>lim_project = p, lim_generation = g, lim_ingest = i, lim_export = e\<rparr>))))"

datatype job_scope = GENERATION | INGEST | EXPORT

fun scope_name :: "job_scope \<Rightarrow> string" where
  "scope_name GENERATION = ''generation''"
| "scope_name INGEST = ''ingest''"
| "scope_name EXPORT = ''export''"

fun scope_types :: "job_scope \<Rightarrow> string list" where
  "scope_types GENERATION = [''generation_run'']"
| "scope_types INGEST = [''ingest_dataset'']"
| "scope_types EXPORT = [''geojson_export'', ''geopackage_export'']"

fun scope_limit :: "admission_limits \<Rightarrow> job_scope \<Rightarrow> int" where
  "scope_limit l GENERATION = lim_generation l"
| "scope_limit l INGEST = lim_ingest l"
| "scope_limit l EXPORT = lim_export l"

definition scope_of :: "string \<Rightarrow> job_scope option" where
  "scope_of jt =
     (if jt \<in> set (scope_types GENERATION) then Some GENERATION
      else if jt \<in> set (scope_types INGEST) then Some INGEST
      else if jt \<in> set (scope_types EXPORT) then Some EXPORT
      else None)"

definition job_active :: "job \<Rightarrow> bool" where
  "job_active j = (job_status j \<in> {Queued, Running})"

definition active_jobs :: "uuid \<Rightarrow> db \<Rightarrow> job list" where
  "active_jobs p d = filter (\<lambda>j. job_project_id j = p \<and> job_active j) (db_jobs d)"

text \<open>\<open>by_type.get(name, 0)\<close> of the grouped count.\<close>

definition count_type :: "string \<Rightarrow> job list \<Rightarrow> nat" where
  "count_type jt js = length (filter (\<lambda>j. job_type j = jt) js)"

definition enforce_project_job_capacity ::
  "admission_limits \<Rightarrow> uuid \<Rightarrow> string \<Rightarrow> int \<Rightarrow> db \<Rightarrow> exc + unit" where
  "enforce_project_job_capacity bounds p jt additional d =
     (if \<not> (1 \<le> additional \<and> additional \<le> 10)
      then Inl (ValueError ''additional_jobs must be between 1 and 10'')
      else case scope_of jt of
          None \<Rightarrow> Inl (ValueError ''unknown background job type for admission'')
        | Some scope \<Rightarrow>
            let active = active_jobs p d in
            if int (length active) + additional > lim_project bounds
            then Inl (JobCapacityExceeded ''project'' (lim_project bounds))
            else if int (sum_list (map (\<lambda>t. count_type t active) (scope_types scope))) + additional > scope_limit bounds scope
            then Inl (JobCapacityExceeded (scope_name scope) (scope_limit bounds scope))
            else Inr ())"

subsection \<open>Admission keeps the slots within the limits\<close>

definition scope_count :: "job_scope \<Rightarrow> job list \<Rightarrow> nat" where
  "scope_count s js = length (filter (\<lambda>j. job_type j \<in> set (scope_types s)) js)"

lemma sum_count_type: "sum_list (map (\<lambda>t. count_type t js) (scope_types s)) = scope_count s js"
  by (cases s; induction js) (auto simp: count_type_def scope_count_def)

definition within_limits :: "admission_limits \<Rightarrow> uuid \<Rightarrow> db \<Rightarrow> bool" where
  "within_limits l p d \<longleftrightarrow> int (length (active_jobs p d)) \<le> lim_project l \<and>
     (\<forall>s. int (scope_count s (active_jobs p d)) \<le> scope_limit l s)"

lemma enforce_Inr:
  "enforce_project_job_capacity l p jt n d = Inr u \<longleftrightarrow> 1 \<le> n \<and> n \<le> 10 \<and>
     (\<exists>s. scope_of jt = Some s \<and> int (length (active_jobs p d)) + n \<le> lim_project l \<and>
        int (scope_count s (active_jobs p d)) + n \<le> scope_limit l s)"
  by (auto simp: enforce_project_job_capacity_def sum_count_type Let_def split: option.splits)

lemma scope_of_iff: "jt \<in> set (scope_types s) \<longleftrightarrow> scope_of jt = Some s"
  by (cases s) (auto simp: scope_of_def)

text \<open>
  C31. An admitted submission keeps the project within its limits: when the check passes for
  \<open>n\<close> jobs of a type and at most \<open>n\<close> queued jobs of that type are then inserted for the
  project, the number of active jobs stays within the project limit and every class limit.
\<close>

theorem admission_keeps_limits:
  assumes "within_limits l p d" and "enforce_project_job_capacity l p jt n d = Inr ()"
    and "\<forall>j \<in> set new. job_project_id j = p \<and> job_type j = jt" and "int (length new) \<le> n"
  shows "within_limits l p (d\<lparr>db_jobs := db_jobs d @ new\<rparr>)"
proof -
  let ?new = "filter (\<lambda>j. job_project_id j = p \<and> job_active j) new"
  have act: "active_jobs p (d\<lparr>db_jobs := db_jobs d @ new\<rparr>) = active_jobs p d @ ?new"
    by (simp add: active_jobs_def)
  have n: "int (length ?new) \<le> n" using assms(4) length_filter_le[of "\<lambda>j. job_project_id j = p \<and> job_active j" new] by linarith
  obtain s where s: "scope_of jt = Some s" "int (length (active_jobs p d)) + n \<le> lim_project l"
    "int (scope_count s (active_jobs p d)) + n \<le> scope_limit l s"
    using assms(2) by (auto simp: enforce_Inr)
  have "int (scope_count s' (active_jobs p d @ ?new)) \<le> scope_limit l s'" for s'
  proof (cases "s' = s")
    case True
    have "scope_count s ?new \<le> length ?new" unfolding scope_count_def by (rule length_filter_le)
    with s(3) n True show ?thesis by (simp add: scope_count_def)
  next
    case False
    then have "jt \<notin> set (scope_types s')" using s(1) scope_of_iff[of jt s'] by auto
    then have none: "\<forall>j \<in> set ?new. job_type j \<notin> set (scope_types s')" using assms(3) by auto
    have "scope_count s' ?new = 0" unfolding scope_count_def using none by (simp only: length_0_conv filter_empty_conv)
    then have "scope_count s' (active_jobs p d @ ?new) = scope_count s' (active_jobs p d)" by (simp add: scope_count_def)
    with assms(1) show ?thesis by (simp add: within_limits_def)
  qed
  with s(2) n show ?thesis by (simp add: within_limits_def act)
qed

text \<open>
  The last slot is not given twice: with a project at its limit every further submission of
  any known type is refused with the project scope and the configured limit.
\<close>

lemma admission_refuses_full_project:
  assumes "1 \<le> n" "n \<le> 10" and "scope_of jt \<noteq> None" and "lim_project l \<le> int (length (active_jobs p d))"
  shows "enforce_project_job_capacity l p jt n d = Inl (JobCapacityExceeded ''project'' (lim_project l))"
  using assms by (auto simp: enforce_project_job_capacity_def Let_def)

definition demo_limits :: admission_limits where
  "demo_limits = \<lparr>lim_project = 2, lim_generation = 1, lim_ingest = 1, lim_export = 1\<rparr>"

definition queued_job :: "uuid \<Rightarrow> uuid \<Rightarrow> uuid option \<Rightarrow> string \<Rightarrow> string \<Rightarrow> job" where
  "queued_job i p r jt key = \<lparr>job_id = i, job_project_id = p, job_run_id = r, job_type = jt, job_key = key,
     job_status = Queued, job_attempts = 0, job_max_attempts = 3, job_error_class = None, job_error_code = None,
     job_error = None, job_cancel_requested_at = None, job_started_at = None, job_finished_at = None\<rparr>"

theorem admission_keeps_limits_witness:
  "within_limits demo_limits 1 (empty_db\<lparr>db_jobs := db_jobs empty_db @ [queued_job 3 1 None ''ingest_dataset'' ''k'']\<rparr>)"
proof (rule admission_keeps_limits)
  have "scope_count s [] = 0 \<and> 0 \<le> scope_limit demo_limits s" for s
    by (cases s) (auto simp: scope_count_def demo_limits_def)
  then show "within_limits demo_limits 1 empty_db"
    by (simp add: within_limits_def active_jobs_def empty_db_def demo_limits_def)
  show "enforce_project_job_capacity demo_limits 1 ''ingest_dataset'' 1 empty_db = Inr ()" by code_simp
qed (simp_all add: queued_job_def)

lemma admission_refuses_full_project_witness:
  "enforce_project_job_capacity demo_limits 1 ''generation_run'' 1
     (empty_db\<lparr>db_jobs := [queued_job 3 1 None ''ingest_dataset'' ''k'', queued_job 4 1 None ''geojson_export'' ''l'']\<rparr>)
   = Inl (JobCapacityExceeded ''project'' 2)"
proof -
  let ?d = "empty_db\<lparr>db_jobs := [queued_job 3 1 None ''ingest_dataset'' ''k'', queued_job 4 1 None ''geojson_export'' ''l'']\<rparr>"
  have "scope_of ''generation_run'' \<noteq> None" by code_simp
  moreover have "lim_project demo_limits \<le> int (length (active_jobs 1 ?d))"
    by (simp add: active_jobs_def queued_job_def job_active_def demo_limits_def)
  ultimately show ?thesis
    using admission_refuses_full_project[of 1 "''generation_run''" demo_limits 1 ?d] by (simp add: demo_limits_def)
qed

end
