(* ===== verification/Scenario_Batch.thy ===== *)
theory Scenario_Batch
  imports Job_Admission
begin

text \<open>
  Scenario batches (\<open>backend/app/db/scenario_batch.py\<close>): sealing a batch of queued runs,
  recomputing its status from its children, and the capacity check of a claim. The UUID of a new
  batch and the clock are arguments. Matrix creation is in theory \<open>Matrix_Batch\<close>.
\<close>

definition MIN_BATCH_RUNS :: nat where "MIN_BATCH_RUNS = 3"
definition MAX_BATCH_RUNS :: nat where "MAX_BATCH_RUNS = 10"
definition BATCH_CAPACITY_RETRY_SECONDS :: int where "BATCH_CAPACITY_RETRY_SECONDS = 30"

record batch_snapshot =
  snap_batch_id :: uuid
  snap_project_id :: uuid
  snap_status :: batch_status
  snap_limit :: int
  snap_run_ids :: "uuid list"
  snap_active :: nat

definition add_batch :: "batch \<Rightarrow> db \<Rightarrow> db" where
  "add_batch b d = d\<lparr>db_batches := db_batches d @ [b]\<rparr>"

definition new_members :: "uuid \<Rightarrow> uuid list \<Rightarrow> member list" where
  "new_members b run_ids =
     map (\<lambda>(i, r). \<lparr>member_batch_id = b, member_run_id = r, member_position = int i\<rparr>) (enumerate 0 run_ids)"

definition seal :: "uuid \<Rightarrow> time \<Rightarrow> uuid \<Rightarrow> uuid list \<Rightarrow> int \<Rightarrow> db \<Rightarrow> exc + uuid \<times> db" where
  "seal fresh now p run_ids limit d =
     (let b = \<lparr>batch_id = fresh, batch_project_id = p, batch_status = BDraft, batch_limit = limit,
               batch_created_at = now, batch_started_at = None, batch_finished_at = None\<rparr> in
      bindE (flush d (add_batch b d)) (\<lambda>d1.
      bindE (flush d1 (d1\<lparr>db_members := db_members d1 @ new_members fresh run_ids\<rparr>)) (\<lambda>d2.
      bindE (flush d2 (set_batch (b\<lparr>batch_status := BQueued\<rparr>) d2)) (\<lambda>d3.
      Inr (fresh, d3)))))"

definition create_batch :: "uuid \<Rightarrow> time \<Rightarrow> uuid \<Rightarrow> uuid list \<Rightarrow> int \<Rightarrow> db \<Rightarrow> exc + uuid \<times> db" where
  "create_batch fresh now p run_ids limit d =
     (if \<not> (MIN_BATCH_RUNS \<le> length run_ids \<and> length run_ids \<le> MAX_BATCH_RUNS)
      then Inl (ScenarioBatchError ''batch requires 3-10 ordered child run IDs'')
      else if \<not> distinct run_ids
      then Inl (ScenarioBatchError ''batch child runs must be distinct'')
      else if \<not> (1 \<le> limit \<and> limit \<le> int (length run_ids))
      then Inl (ScenarioBatchError ''concurrency_limit must be between 1 and child count'')
      else
        let children = filter (\<lambda>r. run_id r \<in> set run_ids) (db_runs d) in
        if length children \<noteq> length run_ids
        then Inl (ScenarioBatchError ''a child generation run does not exist'')
        else if list_ex (\<lambda>r. run_project_id r \<noteq> p) children
        then Inl (ScenarioBatchError ''batch children must belong to the same project'')
        else if list_ex (\<lambda>r. run_status r \<noteq> Queued) children
        then Inl (ScenarioBatchError ''batch children must be queued'')
        else if list_ex (\<lambda>m. member_run_id m \<in> set run_ids) (db_members d)
        then Inl (ScenarioBatchError ''a child run already belongs to a batch'')
        else seal fresh now p run_ids limit d)"

text \<open>The children in position order, joined with their run's status.\<close>

definition ordered_children :: "uuid \<Rightarrow> db \<Rightarrow> (uuid \<times> status) list" where
  "ordered_children b d =
     List.map_filter (\<lambda>m. map_option (Pair (member_run_id m)) (run_status_of (member_run_id m) d))
       (sort_key member_position (batch_members b d))"

definition aggregate_status :: "status list \<Rightarrow> batch_status" where
  "aggregate_status ss = (if Failed \<in> set ss then BFailed else if Cancelled \<in> set ss then BCancelled else BSucceeded)"

definition refreshed_batch :: "time \<Rightarrow> status list \<Rightarrow> batch \<Rightarrow> batch" where
  "refreshed_batch now statuses b =
     (if batch_status b \<noteq> BDraft \<and> \<not> batch_terminal (batch_status b) then
        if statuses \<noteq> [] \<and> list_all terminal statuses then
          b\<lparr>batch_status := aggregate_status statuses, batch_finished_at := Some now\<rparr>
        else if list_ex (\<lambda>s. s \<noteq> Queued) statuses \<and> batch_status b = BQueued then
          b\<lparr>batch_status := BRunning, batch_started_at := Some now\<rparr>
        else b
      else b)"

definition refresh_batch :: "uuid \<Rightarrow> time \<Rightarrow> db \<Rightarrow> exc + batch_snapshot \<times> db" where
  "refresh_batch i now d =
     (case find_batch i d of
        None \<Rightarrow> Inl (ScenarioBatchError ''scenario batch does not exist'')
      | Some b \<Rightarrow>
          let rows = ordered_children i d;
              statuses = map snd rows;
              b' = refreshed_batch now statuses b in
          bindE (flush d (set_batch b' d)) (\<lambda>d'.
          Inr (\<lparr>snap_batch_id = batch_id b', snap_project_id = batch_project_id b', snap_status = batch_status b',
                 snap_limit = batch_limit b', snap_run_ids = map fst rows,
                 snap_active = length (filter (\<lambda>s. s = Running) statuses)\<rparr>, d')))"

definition locked_batch_for_run :: "uuid \<Rightarrow> db \<Rightarrow> batch option" where
  "locked_batch_for_run i d =
     (case lookup member_run_id i (db_members d) of
        None \<Rightarrow> None
      | Some m \<Rightarrow> find_batch (member_batch_id m) d)"

definition running_children :: "uuid \<Rightarrow> db \<Rightarrow> nat" where
  "running_children b d = length (filter (\<lambda>s. s = Running) (child_statuses b d))"

definition require_batch_capacity :: "batch \<Rightarrow> db \<Rightarrow> exc + unit" where
  "require_batch_capacity b d =
     (if batch_status b \<notin> {BQueued, BRunning}
      then Inl (ScenarioBatchError ''batch does not accept new running children'')
      else if int (running_children (batch_id b) d) \<ge> batch_limit b
      then Inl (GenerationRetryScheduled BATCH_CAPACITY_RETRY_SECONDS)
      else Inr ())"

subsection \<open>Refreshing a batch\<close>

lemma map_filter_Cons: "List.map_filter f (x # xs) = (case f x of None \<Rightarrow> List.map_filter f xs | Some y \<Rightarrow> y # List.map_filter f xs)"
  by (simp add: List.map_filter_def split: option.split)

lemma map_filter_set: "set (List.map_filter f xs) = {y. \<exists>x \<in> set xs. f x = Some y}"
  by (induction xs) (auto simp: map_filter_Cons List.map_filter_def split: option.splits)

lemma ordered_children_statuses:
  "map snd (ordered_children i d) =
     List.map_filter (\<lambda>m. run_status_of (member_run_id m) d) (sort_key member_position (batch_members i d))"
  unfolding ordered_children_def
  by (induction "sort_key member_position (batch_members i d)")
     (auto simp: List.map_filter_def comp_def intro!: arg_cong[where f = "\<lambda>f. map f _"])

lemma ordered_statuses_set: "set (map snd (ordered_children i d)) = set (child_statuses i d)"
  unfolding ordered_children_statuses child_statuses_def map_filter_set by simp

lemma list_all_set_eq: "set xs = set ys \<Longrightarrow> list_all P xs = list_all P ys"
  by (simp add: list_all_iff)

lemma list_ex_set_eq: "set xs = set ys \<Longrightarrow> list_ex P xs = list_ex P ys"
  by (simp add: list_ex_iff)

lemma refreshed_batch_set:
  "set ss = set ss' \<Longrightarrow> refreshed_batch now ss b = refreshed_batch now ss' b"
proof -
  assume eq: "set ss = set ss'"
  then have "ss = [] \<longleftrightarrow> ss' = []" by (metis set_empty)
  then show ?thesis
    by (simp add: refreshed_batch_def aggregate_status_def list_all_set_eq[OF eq] list_ex_set_eq[OF eq] eq)
qed

lemma child_statuses_set_batch [simp]: "child_statuses i (set_batch b d) = child_statuses i d"
  by (simp add: child_statuses_def run_status_of_def)

lemma count_children_set_batch [simp]: "count_children P i (set_batch b d) = count_children P i d"
  by (simp add: count_children_def)

lemma length_filter_all: "length (filter P xs) = length xs \<longleftrightarrow> list_all P xs"
proof (induction xs)
  case (Cons x xs)
  have "length (filter P xs) < Suc (length xs)" by (simp add: less_Suc_eq_le)
  then have "length (filter P xs) \<noteq> Suc (length xs)" by (rule less_imp_neq)
  with Cons show ?case by simp
qed simp

lemma count_terminal_all: "count_children terminal i d = length (child_statuses i d) \<longleftrightarrow> list_all terminal (child_statuses i d)"
  unfolding count_children_def by (rule length_filter_all)

lemma count_pos: "0 < count_children (\<lambda>s. s = x) i d \<longleftrightarrow> x \<in> set (child_statuses i d)"
  by (auto simp: count_children_def filter_empty_conv)

lemma count_none: "count_children (\<lambda>s. s = x) i d = 0 \<longleftrightarrow> x \<notin> set (child_statuses i d)"
  by (auto simp: count_children_def filter_empty_conv)

text \<open>The children that make a non-draft batch well composed.\<close>

definition sealed :: "batch \<Rightarrow> db \<Rightarrow> bool" where
  "sealed b d \<longleftrightarrow> (let n = length (child_statuses (batch_id b) d) in
     3 \<le> n \<and> n \<le> 10 \<and> length (batch_members (batch_id b) d) = n \<and> batch_limit b \<le> int n)"

lemma refreshed_fields [simp]:
  "batch_id (refreshed_batch now ss b) = batch_id b" "batch_project_id (refreshed_batch now ss b) = batch_project_id b"
  "batch_limit (refreshed_batch now ss b) = batch_limit b" "batch_created_at (refreshed_batch now ss b) = batch_created_at b"
  by (simp_all add: refreshed_batch_def)

lemma refreshed_update_ok:
  assumes "find_batch (batch_id b) d = Some b" and "batch_status b \<noteq> BDraft \<Longrightarrow> sealed b d"
  shows "batch_update_ok (set_batch (refreshed_batch now (child_statuses (batch_id b) d) b) d) b
     (refreshed_batch now (child_statuses (batch_id b) d) b)"
proof (cases "batch_status b \<in> {BQueued, BRunning}")
  case True
  let ?ss = "child_statuses (batch_id b) d"
  have s: "3 \<le> length ?ss" "length ?ss \<le> 10" using assms(2) True by (auto simp: sealed_def Let_def)
  show ?thesis
  proof (cases "list_all terminal ?ss")
    case all: True
    then have "count_children terminal (batch_id b) d = length ?ss" by (simp add: count_terminal_all)
    moreover have "?ss \<noteq> []" using s(1) by auto
    ultimately show ?thesis using True all s
      by (auto simp: refreshed_batch_def batch_update_ok_def batch_terminal_def aggregate_status_def Let_def count_none count_pos)
  next
    case False
    with True show ?thesis by (auto simp: refreshed_batch_def batch_update_ok_def batch_terminal_def)
  qed
next
  case False
  then have "refreshed_batch now (child_statuses (batch_id b) d) b = b"
    by (cases "batch_status b") (auto simp: refreshed_batch_def batch_terminal_def)
  then show ?thesis by (simp add: batch_update_ok_def)
qed

lemma refresh_batch_eq:
  assumes wf: "wf_db d" and b: "find_batch i d = Some b" and sealed: "batch_status b \<noteq> BDraft \<Longrightarrow> sealed b d"
  shows "\<exists>snap. refresh_batch i now d = Inr (snap, set_batch (refreshed_batch now (child_statuses i d) b) d)
     \<and> snap_status snap = batch_status (refreshed_batch now (child_statuses i d) b)"
proof -
  let ?b = "refreshed_batch now (child_statuses i d) b"
  have i: "batch_id b = i" using find_batch_Some[OF b] by simp
  have eq: "refreshed_batch now (map snd (ordered_children i d)) b = ?b"
    by (rule refreshed_batch_set[OF ordered_statuses_set])
  have "batch_checks b" using wf find_batch_Some[OF b] by (auto simp: wf_db_def rows_ok_def list_all_iff)
  then have c: "batch_checks ?b" by (simp add: batch_checks_def)
  have "flush d (set_batch ?b d) = Inr (set_batch ?b d)"
    using b i c refreshed_update_ok[of b d now] sealed by (intro flush_set_batch[OF wf, of _ b]) auto
  with b eq show ?thesis by (simp add: refresh_batch_def Let_def)
qed

lemma refreshed_idem: "refreshed_batch now' ss (refreshed_batch now ss b) = refreshed_batch now ss b"
  by (auto simp: refreshed_batch_def batch_terminal_def aggregate_status_def)

text \<open>
  C13. \<open>refresh\<close> recomputes a sealed batch from its children and never conflicts with the guard
  trigger: a draft or terminal batch is left alone; otherwise the batch becomes terminal exactly
  when all children are terminal, as failed if one failed, else cancelled if one was cancelled,
  else succeeded; before that it is running once a child has left the queue. Refreshing again
  changes nothing.
\<close>

theorem refresh_recomputes_batch_status:
  assumes wf: "wf_db d" and b: "find_batch i d = Some b" and sealed: "batch_status b \<noteq> BDraft \<Longrightarrow> sealed b d"
  shows "\<exists>snap d' b'. refresh_batch i now d = Inr (snap, d') \<and> wf_db d' \<and> find_batch i d' = Some b' \<and>
     snap_status snap = batch_status b' \<and> db_runs d' = db_runs d \<and>
     (batch_status b \<in> {BDraft, BSucceeded, BFailed, BCancelled} \<longrightarrow> d' = d) \<and>
     (batch_status b \<in> {BQueued, BRunning} \<longrightarrow>
        batch_status b' =
          (if list_all terminal (child_statuses i d) then aggregate_status (child_statuses i d)
           else if batch_status b = BQueued \<and> list_all (\<lambda>s. s = Queued) (child_statuses i d) then BQueued
           else BRunning)) \<and>
     (\<forall>now'. \<exists>snap'. refresh_batch i now' d' = Inr (snap', d'))"
proof -
  let ?b = "refreshed_batch now (child_statuses i d) b"
  let ?d = "set_batch ?b d"
  have i: "batch_id b = i" using find_batch_Some[OF b] by simp
  obtain snap where r: "refresh_batch i now d = Inr (snap, ?d)" and s: "snap_status snap = batch_status ?b"
    using refresh_batch_eq[OF assms] by blast
  have fl: "flush d ?d = Inr ?d" using r b by (auto simp: refresh_batch_def Let_def bindE_Inr_iff refreshed_batch_set[OF ordered_statuses_set] dest: flush_wf)
  then have wf': "wf_db ?d" using flush_wf by blast
  have fb: "find_batch i ?d = Some ?b" using b i by (simp add: find_batch_set_batch)
  have st: "batch_status ?b \<noteq> BDraft \<Longrightarrow> sealed ?b ?d"
    using sealed i by (auto simp: sealed_def refreshed_batch_def split: if_splits)
  have again: "\<exists>snap'. refresh_batch i now' ?d = Inr (snap', ?d)" for now'
  proof -
    obtain snap' where "refresh_batch i now' ?d = Inr (snap', set_batch (refreshed_batch now' (child_statuses i ?d) ?b) ?d)"
      using refresh_batch_eq[OF wf' fb st] by blast
    moreover have "set_batch ?b ?d = ?d" using wf' fb i by (intro set_batch_same) auto
    ultimately show ?thesis by (auto simp: refreshed_idem)
  qed
  have same: "batch_status b \<in> {BDraft, BSucceeded, BFailed, BCancelled} \<Longrightarrow> ?d = d"
    using set_batch_same[OF wf] b i by (auto simp: refreshed_batch_def batch_terminal_def)
  have upd: "batch_status ?b =
          (if list_all terminal (child_statuses i d) then aggregate_status (child_statuses i d)
           else if batch_status b = BQueued \<and> list_all (\<lambda>s. s = Queued) (child_statuses i d) then BQueued
           else BRunning)" if "batch_status b \<in> {BQueued, BRunning}"
  proof -
    have "child_statuses i d \<noteq> []" using sealed that i by (auto simp: sealed_def Let_def)
    with that show ?thesis
      by (auto simp: refreshed_batch_def batch_terminal_def list_all_iff list_ex_iff)
  qed
  show ?thesis using r wf' fb s same upd again by (intro exI[of _ snap] exI[of _ ?d] exI[of _ ?b]) simp
qed

definition demo_project :: project where
  "demo_project = \<lparr>project_id = 1, project_boundary_srid = Some 32637, project_working_srid = 32637\<rparr>"

definition demo_run :: "uuid \<Rightarrow> status \<Rightarrow> run" where
  "demo_run i st = \<lparr>run_id = i, run_project_id = 1, run_rerun_source = None, run_status = st, run_mode = ''EXPANSION'',
     run_seed = 7, run_working_srid = 32637, run_config = JObj [], run_schema_version = ''1'',
     run_commit_sha = Some (replicate 40 CHR ''a''), run_error = None, run_started_at = None, run_finished_at = None,
     run_created_at = 0, run_dataset_versions = []\<rparr>"

definition demo_batch :: "batch_status \<Rightarrow> batch" where
  "demo_batch st = \<lparr>batch_id = 50, batch_project_id = 1, batch_status = st, batch_limit = 2, batch_created_at = 0,
     batch_started_at = None, batch_finished_at = None\<rparr>"

definition demo_batch_db :: db where
  "demo_batch_db = empty_db\<lparr>db_projects := [demo_project], db_runs := [demo_run 10 Succeeded, demo_run 11 Failed, demo_run 12 Cancelled],
     db_batches := [demo_batch BRunning], db_members := new_members 50 [10, 11, 12]\<rparr>"

theorem refresh_recomputes_batch_status_witness:
  "\<exists>snap d'. refresh_batch 50 99 demo_batch_db = Inr (snap, d') \<and> snap_status snap = BFailed"
proof -
  have 1: "wf_db demo_batch_db" unfolding wf_db_def by code_simp
  have 2: "find_batch 50 demo_batch_db = Some (demo_batch BRunning)" by code_simp
  have 3: "sealed (demo_batch BRunning) demo_batch_db" unfolding sealed_def by code_simp
  have 4: "list_all terminal (child_statuses 50 demo_batch_db)"
    "aggregate_status (child_statuses 50 demo_batch_db) = BFailed" by code_simp+
  show ?thesis using refresh_recomputes_batch_status[OF 1 2 3, of 99] 4 by (auto simp: demo_batch_def)
qed

end
