(* ===== verification/Checkpoints.thy ===== *)
theory Checkpoints
  imports Database_Facts
begin

text \<open>
  Checkpoint provenance: \<open>backend/app/application/checkpoints.py\<close> (the identity of a stage
  result and the two hash formats) and \<open>backend/app/adapters/checkpoints.py\<close> (resolving the
  identity of a stage from the persisted results of its dependencies). The digest is a parameter
  (\<open>hexdigest\<close>), as in theory \<open>Stage_Contract\<close>; what is fed to it is modelled byte for byte.
\<close>

subsection \<open>Identities\<close>

record dependency_output =
  dep_stage :: string
  dep_fingerprint :: stage_fingerprint

record checkpoint_identity =
  cp_stage :: string
  cp_version :: string
  cp_input_hash :: string
  cp_config_hash :: string

definition validate_stage_identity :: "string \<Rightarrow> string \<Rightarrow> exc + unit" where
  "validate_stage_identity name version =
     (case validate_stage_metadata name version [] of
        Inl (StageContractError m) \<Rightarrow> Inl (CheckpointContractError m)
      | r \<Rightarrow> r)"

definition require_hash :: "string \<Rightarrow> string \<Rightarrow> exc + unit" where
  "require_hash field v =
     (if sha256_token v then Inr ()
      else Inl (CheckpointContractError (field @ '' must use sha256:<64 lowercase hex chars>'')))"

definition make_identity :: "string \<Rightarrow> string \<Rightarrow> string \<Rightarrow> string \<Rightarrow> exc + checkpoint_identity" where
  "make_identity name version input_hash config_hash =
     bindE (validate_stage_identity name version) (\<lambda>_.
     bindE (require_hash ''input_hash'' input_hash) (\<lambda>_.
     bindE (require_hash ''config_hash'' config_hash) (\<lambda>_.
     Inr \<lparr>cp_stage = name, cp_version = version, cp_input_hash = input_hash, cp_config_hash = config_hash\<rparr>)))"

definition is_eligible_match :: "checkpoint_identity \<Rightarrow> checkpoint_identity \<Rightarrow> bool" where
  "is_eligible_match expected candidate = (expected = candidate)"

definition make_dependency_output :: "string \<Rightarrow> stage_fingerprint \<Rightarrow> exc + dependency_output" where
  "make_dependency_output name fp =
     bindE (validate_stage_identity name ''checkpoint'') (\<lambda>_.
     Inr \<lparr>dep_stage = name, dep_fingerprint = fp\<rparr>)"

subsection \<open>Hash formats\<close>

definition len8 :: "nat \<Rightarrow> exc + bytes" where
  "len8 n = (if n \<ge> 2 ^ 64 then Inl (OtherError ''OverflowError'') else Inr (to_bytes_be 8 n))"

definition new_digest :: "string \<Rightarrow> bytes" where
  "new_digest namespace =
     utf8_encode ''urban-development-generator:checkpoint-provenance:'' @ utf8_encode namespace @ [0]"

definition part_bytes :: "hash_part \<Rightarrow> exc + bytes" where
  "part_bytes p =
     (case p of
        TextPart s \<Rightarrow> bindE (len8 (length (utf8_encode s))) (\<lambda>l. Inr (marker_s @ l @ utf8_encode s))
      | BytesPart b \<Rightarrow> bindE (len8 (length b)) (\<lambda>l. Inr (marker_b @ l @ b)))"

definition update_parts :: "bytes \<Rightarrow> hash_part list \<Rightarrow> exc + bytes" where
  "update_parts digest parts =
     bindE (len8 (length parts)) (\<lambda>n.
     bindE (mapE part_bytes parts) (\<lambda>bs.
     Inr (digest @ n @ concat bs)))"

definition text_bytes :: "string \<Rightarrow> exc + bytes" where
  "text_bytes v = bindE (len8 (length (utf8_encode v))) (\<lambda>l. Inr (l @ utf8_encode v))"

fun require_dependency_names :: "string list \<Rightarrow> string list \<Rightarrow> exc + unit" where
  "require_dependency_names seen [] = Inr ()"
| "require_dependency_names seen (d # ds) =
     bindE (validate_stage_identity d ''checkpoint'') (\<lambda>_.
     if d \<in> set seen then Inl (CheckpointContractError (''duplicate expected dependency: '' @ d))
     else require_dependency_names (d # seen) ds)"

definition resolved_input_bytes ::
  "hash_part list \<Rightarrow> string list \<Rightarrow> dependency_output list \<Rightarrow> exc + bytes" where
  "resolved_input_bytes input_parts expected_dependencies dependency_outputs =
     bindE (require_dependency_names [] expected_dependencies) (\<lambda>_.
     if map dep_stage dependency_outputs \<noteq> expected_dependencies then
       Inl (CheckpointContractError ''dependency output order must exactly match Stage.dependencies'')
     else if input_parts = [] \<and> dependency_outputs = [] then
       Inl (CheckpointContractError ''resolved input identity requires input parts or dependency outputs'')
     else
       bindE (update_parts (new_digest ''resolved-stage-input:v1'') input_parts) (\<lambda>digest.
       bindE (len8 (length dependency_outputs)) (\<lambda>n.
       bindE (mapE (\<lambda>d. bindE (text_bytes (dep_stage d)) (\<lambda>a.
                        bindE (text_bytes (fp_value (dep_fingerprint d))) (\<lambda>b. Inr (a @ b))))
                dependency_outputs) (\<lambda>bs.
       Inr (digest @ n @ concat bs)))))"

definition build_resolved_input_hash ::
  "(bytes \<Rightarrow> string) \<Rightarrow> hash_part list \<Rightarrow> string list \<Rightarrow> dependency_output list \<Rightarrow> exc + string" where
  "build_resolved_input_hash hexdigest input_parts expected_dependencies dependency_outputs =
     bindE (resolved_input_bytes input_parts expected_dependencies dependency_outputs) (\<lambda>bs.
     Inr (''sha256:'' @ hexdigest bs))"

definition config_bytes :: "hash_part list \<Rightarrow> exc + bytes" where
  "config_bytes parts = update_parts (new_digest ''resolved-stage-config:v1'') parts"

definition build_config_hash :: "(bytes \<Rightarrow> string) \<Rightarrow> hash_part list \<Rightarrow> exc + string" where
  "build_config_hash hexdigest parts = bindE (config_bytes parts) (\<lambda>bs. Inr (''sha256:'' @ hexdigest bs))"

subsection \<open>The persisted store\<close>

record reusable_checkpoint =
  reuse_run_id :: uuid
  reuse_result_id :: uuid
  reuse_identity :: checkpoint_identity
  reuse_fingerprint :: stage_fingerprint

record checkpoint_resolution =
  resolved_identity :: checkpoint_identity
  resolved_outputs :: "dependency_output list"
  resolved_reusable :: "reusable_checkpoint option"

definition adapter_validate_identity :: "string \<Rightarrow> string \<Rightarrow> exc + unit" where
  "adapter_validate_identity name version =
     (case validate_stage_metadata name version [] of
        Inl (StageContractError m) \<Rightarrow> Inl (PersistedCheckpointError m)
      | r \<Rightarrow> r)"

fun validate_dependencies :: "string list \<Rightarrow> string list \<Rightarrow> exc + unit" where
  "validate_dependencies seen [] = Inr ()"
| "validate_dependencies seen (d # ds) =
     bindE (adapter_validate_identity d ''checkpoint'') (\<lambda>_.
     if d \<in> set seen then Inl (PersistedCheckpointError (''duplicate expected dependency: '' @ d))
     else validate_dependencies (d # seen) ds)"

definition persisted_fingerprint :: "string \<Rightarrow> string \<Rightarrow> exc + stage_fingerprint" where
  "persisted_fingerprint v field =
     (case make_fingerprint v of
        Inl (StageContractError _) \<Rightarrow> Inl (PersistedCheckpointError (''invalid persisted '' @ field))
      | r \<Rightarrow> r)"

definition load_dependency :: "uuid \<Rightarrow> db \<Rightarrow> string \<Rightarrow> exc + dependency_output" where
  "load_dependency i d name =
     (case find_stage_row i name d of
        None \<Rightarrow> Inl (PersistedCheckpointError (''missing persisted dependency stage result: '' @ name))
      | Some row \<Rightarrow>
          if srow_status row \<noteq> SSucceeded then
            Inl (PersistedCheckpointError (''dependency stage is not succeeded: '' @ name))
          else (case srow_fingerprint row of
              None \<Rightarrow> Inl (PersistedCheckpointError (''dependency stage is missing output_fingerprint: '' @ name))
            | Some v \<Rightarrow>
                bindE (persisted_fingerprint v (''dependency '' @ name @ '' output_fingerprint'')) (\<lambda>fp.
                make_dependency_output name fp)))"

definition load_dependency_outputs :: "uuid \<Rightarrow> string list \<Rightarrow> db \<Rightarrow> exc + dependency_output list" where
  "load_dependency_outputs i expected d =
     bindE (validate_dependencies [] expected) (\<lambda>_. mapE (load_dependency i d) expected)"

definition find_reusable :: "uuid \<Rightarrow> checkpoint_identity \<Rightarrow> db \<Rightarrow> exc + reusable_checkpoint option" where
  "find_reusable i expected d =
     (case find_stage_row i (cp_stage expected) d of
        None \<Rightarrow> Inr None
      | Some row \<Rightarrow>
          bindE (make_identity (srow_stage row) (srow_version row) (srow_input_hash row) (srow_config_hash row)) (\<lambda>candidate.
          if \<not> is_eligible_match expected candidate then Inr None
          else if srow_status row \<noteq> SSucceeded then Inr None
          else (case srow_fingerprint row of
              None \<Rightarrow> Inl (PersistedCheckpointError ''eligible succeeded checkpoint is missing output_fingerprint'')
            | Some v \<Rightarrow>
                bindE (persisted_fingerprint v ''checkpoint output_fingerprint'') (\<lambda>fp.
                Inr (Some \<lparr>reuse_run_id = i, reuse_result_id = srow_id row,
                   reuse_identity = candidate, reuse_fingerprint = fp\<rparr>)))))"

definition resolve_checkpoint ::
  "(bytes \<Rightarrow> string) \<Rightarrow> uuid \<Rightarrow> string \<Rightarrow> string \<Rightarrow> hash_part list \<Rightarrow> hash_part list \<Rightarrow> string list
     \<Rightarrow> db \<Rightarrow> exc + checkpoint_resolution" where
  "resolve_checkpoint hexdigest i name version input_parts config_parts expected d =
     bindE (adapter_validate_identity name version) (\<lambda>_.
     bindE (load_dependency_outputs i expected d) (\<lambda>outputs.
     bindE (build_resolved_input_hash hexdigest input_parts expected outputs) (\<lambda>ih.
     bindE (build_config_hash hexdigest config_parts) (\<lambda>ch.
     bindE (make_identity name version ih ch) (\<lambda>identity.
     bindE (find_reusable i identity d) (\<lambda>reusable.
     Inr \<lparr>resolved_identity = identity, resolved_outputs = outputs, resolved_reusable = reusable\<rparr>))))))"

subsection \<open>The formats are unambiguous\<close>

lemma len8_Inr: "len8 n = Inr b \<longleftrightarrow> n < 2 ^ 64 \<and> b = to_bytes_be 8 n"
  by (auto simp: len8_def)

lemma part_bytes_Inr: "part_bytes p = Inr b \<longleftrightarrow> length (part_payload p) < 2 ^ 64 \<and> b = part_wire p"
  by (cases p) (auto simp: part_bytes_def bindE_Inr_iff len8_Inr part_wire_def)

lemma mapE_Inr_map:
  assumes "\<And>x y. f x = Inr y \<longleftrightarrow> P x \<and> y = g x"
  shows "mapE f xs = Inr ys \<longleftrightarrow> (\<forall>x \<in> set xs. P x) \<and> ys = map g xs"
  by (induction xs arbitrary: ys) (auto simp: bindE_Inr_iff assms)

lemma update_parts_Inr:
  "update_parts dg ps = Inr b \<longleftrightarrow> length ps < 2 ^ 64 \<and> (\<forall>p \<in> set ps. length (part_payload p) < 2 ^ 64)
     \<and> b = dg @ to_bytes_be 8 (length ps) @ concat (map part_wire ps)"
  by (auto simp: update_parts_def bindE_Inr_iff len8_Inr mapE_Inr_map[OF part_bytes_Inr])

definition text_wire :: "string \<Rightarrow> bytes" where
  "text_wire v = to_bytes_be 8 (length (utf8_encode v)) @ utf8_encode v"

lemma text_bytes_Inr: "text_bytes v = Inr b \<longleftrightarrow> length (utf8_encode v) < 2 ^ 64 \<and> b = text_wire v"
  by (auto simp: text_bytes_def bindE_Inr_iff len8_Inr text_wire_def)

definition output_fits :: "dependency_output \<Rightarrow> bool" where
  "output_fits d \<longleftrightarrow> length (utf8_encode (dep_stage d)) < 2 ^ 64
     \<and> length (utf8_encode (fp_value (dep_fingerprint d))) < 2 ^ 64"

definition output_wire :: "dependency_output \<Rightarrow> bytes" where
  "output_wire d = text_wire (dep_stage d) @ text_wire (fp_value (dep_fingerprint d))"

lemma resolved_input_bytes_Inr:
  "resolved_input_bytes ps ds os = Inr b \<longleftrightarrow>
     require_dependency_names [] ds = Inr () \<and> map dep_stage os = ds \<and> \<not> (ps = [] \<and> os = []) \<and>
     length ps < 2 ^ 64 \<and> (\<forall>p \<in> set ps. length (part_payload p) < 2 ^ 64) \<and>
     length os < 2 ^ 64 \<and> (\<forall>d \<in> set os. output_fits d) \<and>
     b = new_digest ''resolved-stage-input:v1'' @ to_bytes_be 8 (length ps) @ concat (map part_wire ps)
         @ to_bytes_be 8 (length os) @ concat (map output_wire os)"
proof -
  have "bindE (text_bytes (dep_stage d)) (\<lambda>a. bindE (text_bytes (fp_value (dep_fingerprint d))) (\<lambda>b. Inr (a @ b))) = Inr y
      \<longleftrightarrow> output_fits d \<and> y = output_wire d" for d y
    by (auto simp: bindE_Inr_iff text_bytes_Inr output_fits_def output_wire_def)
  from mapE_Inr_map[of _ output_fits output_wire, OF this]
  show ?thesis
    by (auto simp: resolved_input_bytes_def bindE_Inr_iff update_parts_Inr len8_Inr)
qed

text \<open>A counted sequence of prefix-free items is read back uniquely, whatever follows it.\<close>

lemma counted_wire_inj:
  assumes free: "\<And>p q xs ys. ok p \<Longrightarrow> ok q \<Longrightarrow> wire p @ xs = wire q @ ys \<Longrightarrow> p = q \<and> xs = ys"
    and eq: "concat (map wire ps) @ xs = concat (map wire qs) @ ys" "length ps = length qs"
    and ok: "\<forall>p \<in> set ps. ok p" "\<forall>q \<in> set qs. ok q"
  shows "ps = qs \<and> xs = ys"
  using eq(2,1) ok
proof (induction ps qs rule: list_induct2)
  case (Cons p ps q qs)
  then have "p = q \<and> concat (map wire ps) @ xs = concat (map wire qs) @ ys" by (intro free) auto
  with Cons show ?case by auto
qed simp

lemma text_wire_free:
  assumes "text_wire a @ xs = text_wire b @ ys"
    and "length (utf8_encode a) < 2 ^ 64" "length (utf8_encode b) < 2 ^ 64"
  shows "a = b \<and> xs = ys"
  using framed_inj[of "utf8_encode a" xs "utf8_encode b" ys] assms utf8_encode_inj[of a b]
  by (auto simp: text_wire_def)

lemma output_wire_free:
  assumes "output_fits p" "output_fits q" "output_wire p @ xs = output_wire q @ ys"
  shows "p = q \<and> xs = ys"
proof -
  have "text_wire (dep_stage p) @ (text_wire (fp_value (dep_fingerprint p)) @ xs)
      = text_wire (dep_stage q) @ (text_wire (fp_value (dep_fingerprint q)) @ ys)"
    using assms(3) by (simp add: output_wire_def)
  from text_wire_free[OF this] have 1: "dep_stage p = dep_stage q"
    and 2: "text_wire (fp_value (dep_fingerprint p)) @ xs = text_wire (fp_value (dep_fingerprint q)) @ ys"
    using assms(1,2) by (simp_all add: output_fits_def)
  from text_wire_free[OF 2] have "fp_value (dep_fingerprint p) = fp_value (dep_fingerprint q)" "xs = ys"
    using assms(1,2) by (simp_all add: output_fits_def)
  with 1 show ?thesis by (simp add: stage_fingerprint.expand)
qed

lemma length_to_bytes_inj:
  "to_bytes_be 8 m @ xs = to_bytes_be 8 n @ ys \<Longrightarrow> m < 2 ^ 64 \<Longrightarrow> n < 2 ^ 64 \<Longrightarrow> m = n \<and> xs = ys"
  using to_bytes_be_inj[of m 8 n] by simp

lemma part_wire_free':
  "length (part_payload p) < 2 ^ 64 \<Longrightarrow> length (part_payload q) < 2 ^ 64 \<Longrightarrow>
     part_wire p @ xs = part_wire q @ ys \<Longrightarrow> p = q \<and> xs = ys"
  using part_wire_prefix_free by blast

lemma resolved_input_bytes_inj:
  assumes "resolved_input_bytes ps ds os = Inr b" "resolved_input_bytes ps' ds' os' = Inr b"
  shows "ps = ps' \<and> os = os'"
proof -
  note a = assms[unfolded resolved_input_bytes_Inr]
  have e: "to_bytes_be 8 (length ps) @ concat (map part_wire ps) @ to_bytes_be 8 (length os) @ concat (map output_wire os)
      = to_bytes_be 8 (length ps') @ concat (map part_wire ps') @ to_bytes_be 8 (length os') @ concat (map output_wire os')"
    using a by (metis append.assoc same_append_eq)
  have len: "length ps < 2 ^ 64" "length ps' < 2 ^ 64" using a by blast+
  from length_to_bytes_inj[OF e len]
  have l: "length ps = length ps'" and
    e2: "concat (map part_wire ps) @ (to_bytes_be 8 (length os) @ concat (map output_wire os))
      = concat (map part_wire ps') @ (to_bytes_be 8 (length os') @ concat (map output_wire os'))"
    by blast+
  have "ps = ps' \<and> to_bytes_be 8 (length os) @ concat (map output_wire os)
      = to_bytes_be 8 (length os') @ concat (map output_wire os')"
    by (rule counted_wire_inj[where ok = "\<lambda>p. length (part_payload p) < 2 ^ 64" and wire = part_wire, OF part_wire_free' e2 l])
      (use a in blast)+
  then have p: "ps = ps'" and e3: "to_bytes_be 8 (length os) @ concat (map output_wire os)
      = to_bytes_be 8 (length os') @ concat (map output_wire os')" by blast+
  have leno: "length os < 2 ^ 64" "length os' < 2 ^ 64" using a by blast+
  from length_to_bytes_inj[OF e3 leno] have lo: "length os = length os'"
    and e4: "concat (map output_wire os) @ [] = concat (map output_wire os') @ []" by simp_all
  have "os = os' \<and> ([]::bytes) = []"
    by (rule counted_wire_inj[where ok = output_fits and wire = output_wire, OF output_wire_free e4 lo])
      (use a in blast)+
  with p show ?thesis by blast
qed

lemma config_bytes_inj:
  assumes "config_bytes ps = Inr b" "config_bytes qs = Inr b"
  shows "ps = qs"
proof -
  note a = assms[unfolded config_bytes_def update_parts_Inr]
  have e: "to_bytes_be 8 (length ps) @ concat (map part_wire ps) = to_bytes_be 8 (length qs) @ concat (map part_wire qs)"
    using a by simp
  from length_to_bytes_inj[OF this] a have "length ps = length qs"
    and e2: "concat (map part_wire ps) = concat (map part_wire qs)" by blast+
  from wire_inj[OF e2] a show ?thesis by blast
qed

text \<open>
  C12. What a checkpoint identity hashes determines its provenance: the input hash is computed
  over bytes that identify the resolved input parts and the ordered direct dependencies with
  their output fingerprints, the config hash over bytes that identify the config parts, and no
  input preimage is a config preimage. Equal hashes of different provenance can only be digest
  collisions.
\<close>

theorem checkpoint_preimages_identify_provenance:
  assumes "resolved_input_bytes ps ds os = Inr b" and "resolved_input_bytes ps' ds' os' = Inr b'"
    and "config_bytes cs = Inr c" and "config_bytes cs' = Inr c'"
  shows "(b = b' \<longleftrightarrow> ps = ps' \<and> ds = ds' \<and> os = os') \<and> (c = c' \<longleftrightarrow> cs = cs') \<and> b \<noteq> c"
proof -
  have "b = b' \<longleftrightarrow> ps = ps' \<and> ds = ds' \<and> os = os'"
    using assms(1,2) resolved_input_bytes_inj[of ps ds os b ps' ds' os'] by (auto simp: resolved_input_bytes_Inr)
  moreover have "c = c' \<longleftrightarrow> cs = cs'" using assms(3,4) config_bytes_inj by auto
  moreover have "b \<noteq> c"
  proof
    let ?p = "utf8_encode ''urban-development-generator:checkpoint-provenance:''"
    assume "b = c"
    with assms(1,3) have "take 20 (drop (length ?p) b) = take 20 (utf8_encode ''resolved-stage-input:v1'')"
      "take 20 (drop (length ?p) b) = take 20 (utf8_encode ''resolved-stage-config:v1'')"
      by (auto simp: resolved_input_bytes_Inr config_bytes_def update_parts_Inr new_digest_def
          utf8_encode_def utf8_char_def chr_code_def)
    then show False by (simp add: utf8_encode_def utf8_char_def chr_code_def)
  qed
  ultimately show ?thesis by blast
qed

theorem checkpoint_preimages_identify_provenance_witness:
  "\<exists>b b' c c'. resolved_input_bytes [TextPart ''a''] [] [] = Inr b \<and> resolved_input_bytes [BytesPart [97]] [] [] = Inr b'
     \<and> config_bytes [] = Inr c \<and> config_bytes [TextPart ''a''] = Inr c' \<and> b \<noteq> b' \<and> c \<noteq> c' \<and> b \<noteq> c"
proof -
  have len: "length (part_payload (TextPart ''a'')) < 2 ^ 64" "length (part_payload (BytesPart [97])) < 2 ^ 64"
    by (simp_all add: utf8_encode_def utf8_char_def chr_code_def)
  obtain b where b: "resolved_input_bytes [TextPart ''a''] [] [] = Inr b"
    using len by (simp add: resolved_input_bytes_Inr)
  obtain b' where b': "resolved_input_bytes [BytesPart [97]] [] [] = Inr b'"
    using len by (simp add: resolved_input_bytes_Inr)
  obtain c where c: "config_bytes [] = Inr c" by (simp add: config_bytes_def update_parts_Inr)
  obtain c' where c': "config_bytes [TextPart ''a''] = Inr c'"
    using len by (simp add: config_bytes_def update_parts_Inr)
  from checkpoint_preimages_identify_provenance[OF b b' c c'] b b' c c' show ?thesis by auto
qed

subsection \<open>Resolution\<close>

lemma validate_stage_identity_Inr:
  "validate_stage_identity n v = Inr u \<longleftrightarrow> stage_name_re n \<and> stage_version_re v"
  by (cases "validate_stage_metadata n v []")
     (auto simp: validate_stage_identity_def validate_stage_metadata_Inr
       validate_stage_metadata_def require_pattern_def split: if_splits)

lemma adapter_validate_identity_Inr:
  "adapter_validate_identity n v = Inr u \<longleftrightarrow> stage_name_re n \<and> stage_version_re v"
  by (cases "validate_stage_metadata n v []")
     (auto simp: adapter_validate_identity_def validate_stage_metadata_Inr
       validate_stage_metadata_def require_pattern_def split: if_splits)

lemma checkpoint_version_ok [simp]: "stage_version_re ''checkpoint''"
  by code_simp

lemma validate_dependencies_Inr:
  "validate_dependencies seen ds = Inr () \<longleftrightarrow> distinct ds \<and> set ds \<inter> set seen = {} \<and> (\<forall>d \<in> set ds. stage_name_re d)"
  by (induction ds arbitrary: seen) (auto simp: bindE_Inr_iff adapter_validate_identity_Inr split: if_splits)

lemma require_dependency_names_Inr:
  "require_dependency_names seen ds = Inr () \<longleftrightarrow> distinct ds \<and> set ds \<inter> set seen = {} \<and> (\<forall>d \<in> set ds. stage_name_re d)"
  by (induction ds arbitrary: seen) (auto simp: bindE_Inr_iff validate_stage_identity_Inr split: if_splits)

lemma persisted_fingerprint_Inr:
  "persisted_fingerprint v field = Inr f \<longleftrightarrow> sha256_token v \<and> f = StageFingerprint v"
  by (auto simp: persisted_fingerprint_def make_fingerprint_def)

text \<open>A dependency is usable when its row succeeded with a well-formed fingerprint.\<close>

definition dep_usable :: "uuid \<Rightarrow> db \<Rightarrow> string \<Rightarrow> bool" where
  "dep_usable i d n \<longleftrightarrow> stage_name_re n \<and> (\<exists>row v. find_stage_row i n d = Some row \<and> srow_status row = SSucceeded
     \<and> srow_fingerprint row = Some v \<and> sha256_token v)"

definition dep_output :: "uuid \<Rightarrow> db \<Rightarrow> string \<Rightarrow> dependency_output" where
  "dep_output i d n = \<lparr>dep_stage = n,
     dep_fingerprint = StageFingerprint (the (srow_fingerprint (the (find_stage_row i n d))))\<rparr>"

lemma load_dependency_Inr: "load_dependency i d n = Inr out \<longleftrightarrow> dep_usable i d n \<and> out = dep_output i d n"
  by (auto simp: load_dependency_def dep_usable_def dep_output_def bindE_Inr_iff persisted_fingerprint_Inr
      make_dependency_output_def validate_stage_identity_Inr split: option.splits if_splits)

lemma load_dependency_outputs_Inr:
  "load_dependency_outputs i ds d = Inr outs \<longleftrightarrow>
     distinct ds \<and> (\<forall>n \<in> set ds. dep_usable i d n) \<and> outs = map (dep_output i d) ds"
  by (auto simp: load_dependency_outputs_def bindE_Inr_iff validate_dependencies_Inr
      mapE_Inr_map[OF load_dependency_Inr] dep_usable_def)

lemma make_identity_Inr:
  "make_identity n v ih ch = Inr x \<longleftrightarrow> stage_name_re n \<and> stage_version_re v \<and> sha256_token ih \<and> sha256_token ch \<and>
     x = \<lparr>cp_stage = n, cp_version = v, cp_input_hash = ih, cp_config_hash = ch\<rparr>"
  by (auto simp: make_identity_def bindE_Inr_iff validate_stage_identity_Inr require_hash_def split: if_splits)

text \<open>With no row of the stage itself there is nothing to reuse.\<close>

lemma find_reusable_fresh: "find_stage_row i (cp_stage x) d = None \<Longrightarrow> find_reusable i x d = Inr None"
  by (simp add: find_reusable_def)

text \<open>
  C30. A reused checkpoint is exact: what \<open>resolve\<close> offers for reuse is a persisted row of the
  same run that succeeded, with the same stage, version, input hash and config hash as the
  freshly computed identity, and the offered fingerprint is the one persisted in that row.
\<close>

theorem reused_checkpoint_is_exact:
  assumes "resolve_checkpoint h i name version ips cps deps d = Inr res" and "resolved_reusable res = Some c"
  shows "\<exists>row. find_stage_row i name d = Some row \<and> srow_status row = SSucceeded \<and> reuse_result_id c = srow_id row \<and>
     reuse_run_id c = i \<and> srow_version row = version \<and>
     srow_input_hash row = cp_input_hash (resolved_identity res) \<and>
     srow_config_hash row = cp_config_hash (resolved_identity res) \<and>
     srow_fingerprint row = Some (fp_value (reuse_fingerprint c)) \<and>
     build_resolved_input_hash h ips deps (resolved_outputs res) = Inr (srow_input_hash row) \<and>
     build_config_hash h cps = Inr (srow_config_hash row)"
proof -
  from assms obtain ih ch identity where
    ih: "build_resolved_input_hash h ips deps (resolved_outputs res) = Inr ih"
    and ch: "build_config_hash h cps = Inr ch"
    and id: "identity = \<lparr>cp_stage = name, cp_version = version, cp_input_hash = ih, cp_config_hash = ch\<rparr>"
    and rid: "resolved_identity res = identity" and reuse: "find_reusable i identity d = Inr (Some c)"
    by (auto simp: resolve_checkpoint_def bindE_Inr_iff make_identity_Inr)
  from reuse obtain row v where row: "find_stage_row i name d = Some row" "srow_status row = SSucceeded"
    "srow_fingerprint row = Some v" "c = \<lparr>reuse_run_id = i, reuse_result_id = srow_id row,
       reuse_identity = identity, reuse_fingerprint = StageFingerprint v\<rparr>"
    "identity = \<lparr>cp_stage = srow_stage row, cp_version = srow_version row,
       cp_input_hash = srow_input_hash row, cp_config_hash = srow_config_hash row\<rparr>"
    by (auto simp: find_reusable_def id is_eligible_match_def bindE_Inr_iff make_identity_Inr
        persisted_fingerprint_Inr split: option.splits if_splits)
  with id rid ih ch show ?thesis by simp
qed

definition zero_hash :: string where
  "zero_hash = ''sha256:'' @ replicate 64 CHR ''0''"

definition zero_hex :: "bytes \<Rightarrow> string" where
  "zero_hex bs = replicate 64 CHR ''0''"

definition done_row :: "uuid \<Rightarrow> uuid \<Rightarrow> string \<Rightarrow> stage_row" where
  "done_row i r name = \<lparr>srow_id = i, srow_run_id = r, srow_stage = name, srow_version = ''1.0.0'',
     srow_status = SSucceeded, srow_progress = 100, srow_input_hash = zero_hash, srow_config_hash = zero_hash,
     srow_fingerprint = Some zero_hash, srow_diagnostics = [], srow_artifact_refs = [],
     srow_started_at = Some 0, srow_finished_at = Some 1, srow_created_at = 0\<rparr>"

theorem reused_checkpoint_is_exact_witness:
  "\<exists>row. find_stage_row 1 ''zoning'' (empty_db\<lparr>db_stages := [done_row 9 1 ''zoning'']\<rparr>) = Some row
     \<and> srow_status row = SSucceeded"
proof -
  let ?d = "empty_db\<lparr>db_stages := [done_row 9 1 ''zoning'']\<rparr>"
  let ?r = "resolve_checkpoint zero_hex 1 ''zoning'' ''1.0.0'' [TextPart ''x''] [] [] ?d"
  have tok: "sha256_token zero_hash" "stage_name_re ''zoning''" "stage_version_re ''1.0.0''" by code_simp+
  have ih: "build_resolved_input_hash zero_hex [TextPart ''x''] [] [] = Inr zero_hash"
    by (simp add: build_resolved_input_hash_def bindE_Inr_iff resolved_input_bytes_Inr zero_hex_def zero_hash_def
        utf8_encode_def utf8_char_def chr_code_def)
  have ch: "build_config_hash zero_hex [] = Inr zero_hash"
    by (simp add: build_config_hash_def bindE_Inr_iff config_bytes_def update_parts_Inr zero_hex_def zero_hash_def)
  have row: "find_stage_row 1 ''zoning'' ?d = Some (done_row 9 1 ''zoning'')"
    by (simp add: find_stage_row_def lookup_Cons done_row_def)
  let ?x = "\<lparr>cp_stage = ''zoning'', cp_version = ''1.0.0'', cp_input_hash = zero_hash, cp_config_hash = zero_hash\<rparr>"
  let ?c = "\<lparr>reuse_run_id = 1, reuse_result_id = 9, reuse_identity = ?x, reuse_fingerprint = StageFingerprint zero_hash\<rparr>"
  have x: "make_identity ''zoning'' ''1.0.0'' zero_hash zero_hash = Inr ?x" using tok by (simp add: make_identity_Inr)
  have "find_reusable 1 ?x ?d = Inr (Some ?c)"
    using x tok by (simp add: find_reusable_def row, simp add: done_row_def is_eligible_match_def bindE_Inr_iff persisted_fingerprint_Inr)
  then have "?r = Inr \<lparr>resolved_identity = ?x, resolved_outputs = [], resolved_reusable = Some ?c\<rparr>"
    using tok x by (simp add: resolve_checkpoint_def bindE_Inr_iff adapter_validate_identity_Inr
        load_dependency_outputs_Inr ih ch)
  from reused_checkpoint_is_exact[OF this, of ?c] show ?thesis by auto
qed

end
