(* ===== verification/Stage_Registry.thy ===== *)
theory Stage_Registry
  imports Stage_Contract
begin

text \<open>
  Registry validation of \<open>core/urban_generator/stages/registry.py\<close>: metadata,
  unique names, known dependencies and the depth-first cycle check. The recursion of \<open>visit\<close>
  is modelled with fuel (the depth it may still go); running out is \<open>RecursionError\<close>, and the
  fuel handed out, one more than the number of stages, is proved never to run out.
\<close>

subsection \<open>Registry validation\<close>

fun collect_stages :: "string list \<Rightarrow> stage list \<Rightarrow> exc + unit" where
  "collect_stages seen [] = Inr ()"
| "collect_stages seen (s # ss) =
     (case validate_stage_metadata (stage_name s) (stage_version s) (stage_dependencies s) of
        Inl (StageContractError m) \<Rightarrow>
          Inl (StageRegistryError (''invalid stage metadata for '' @ stage_name s @ '': '' @ m))
      | Inl e \<Rightarrow> Inl e
      | Inr _ \<Rightarrow>
          if stage_name s \<in> set seen
          then Inl (StageRegistryError (''duplicate stage name: '' @ stage_name s))
          else collect_stages (stage_name s # seen) ss)"

fun check_known :: "string set \<Rightarrow> string \<Rightarrow> string list \<Rightarrow> exc + unit" where
  "check_known known name [] = Inr ()"
| "check_known known name (d # ds) =
     (if d \<notin> known
      then Inl (StageRegistryError (''stage '' @ name @ '' depends on missing stage '' @ d))
      else check_known known name ds)"

fun check_all_known :: "string set \<Rightarrow> stage list \<Rightarrow> exc + unit" where
  "check_all_known known [] = Inr ()"
| "check_all_known known (s # ss) =
     bindE (check_known known (stage_name s) (stage_dependencies s)) (\<lambda>_. check_all_known known ss)"

text \<open>The dictionary \<open>dependencies\<close>: name to dependency names, a later entry replacing an earlier one.\<close>

definition dep_map :: "stage list \<Rightarrow> (string \<rightharpoonup> string list)" where
  "dep_map stages = map_of (rev (map (\<lambda>s. (stage_name s, stage_dependencies s)) stages))"

subsubsection \<open>\<open>_validate_acyclic\<close>\<close>

text \<open>\<open>state\<close> marks a name 1 while it is on the stack and 2 when it is done.\<close>

record dfs =
  dfs_state :: "string \<rightharpoonup> nat"
  dfs_stack :: "string list"

definition list_index :: "string list \<Rightarrow> string \<Rightarrow> nat" where
  "list_index xs x = length (takeWhile (\<lambda>y. y \<noteq> x) xs)"

definition cycle_of :: "string list \<Rightarrow> string \<Rightarrow> string list" where
  "cycle_of stack name = drop (list_index stack name) stack @ [name]"

definition arrow_join :: "string list \<Rightarrow> string" where
  "arrow_join names = (case names of [] \<Rightarrow> [] | n # ns \<Rightarrow> n @ concat (map (\<lambda>m. '' -> '' @ m) ns))"

function (sequential) visit :: "nat \<Rightarrow> (string \<rightharpoonup> string list) \<Rightarrow> string \<Rightarrow> dfs \<Rightarrow> exc + dfs"
and visit_all :: "nat \<Rightarrow> (string \<rightharpoonup> string list) \<Rightarrow> string list \<Rightarrow> dfs \<Rightarrow> exc + dfs" where
  "visit 0 deps name st = Inl RecursionError"
| "visit (Suc fuel) deps name st =
     (let marker = (case dfs_state st name of None \<Rightarrow> 0 | Some m \<Rightarrow> m) in
      if marker = 2 then Inr st
      else if marker = 1 then
        Inl (StageRegistryError (''stage dependency cycle: '' @ arrow_join (cycle_of (dfs_stack st) name)))
      else case deps name of
        None \<Rightarrow> Inl (KeyError name)
      | Some ds \<Rightarrow>
          bindE (visit_all fuel deps ds
                   (st\<lparr>dfs_state := (dfs_state st)(name \<mapsto> 1), dfs_stack := dfs_stack st @ [name]\<rparr>))
            (\<lambda>st'. Inr (st'\<lparr>dfs_stack := butlast (dfs_stack st'), dfs_state := (dfs_state st')(name \<mapsto> 2)\<rparr>)))"
| "visit_all fuel deps [] st = Inr st"
| "visit_all fuel deps (d # ds) st = bindE (visit fuel deps d st) (\<lambda>st'. visit_all fuel deps ds st')"
  by pat_completeness auto
termination
  by (relation "measures [\<lambda>x. case x of Inl (f, _) \<Rightarrow> f | Inr (f, _) \<Rightarrow> f,
        \<lambda>x. case x of Inl _ \<Rightarrow> 0 | Inr (_, _, ds, _) \<Rightarrow> Suc (length ds)]") auto

definition validate_acyclic :: "stage list \<Rightarrow> exc + unit" where
  "validate_acyclic stages =
     bindE (visit_all (Suc (length stages)) (dep_map stages) (map stage_name stages)
              \<lparr>dfs_state = Map.empty, dfs_stack = []\<rparr>) (\<lambda>_. Inr ())"

text \<open>\<open>StageRegistry.__post_init__\<close>; a validated registry is the list of its stages.\<close>

definition validate_registry :: "stage list \<Rightarrow> exc + stage list" where
  "validate_registry stages =
     (if stages = [] then Inl (StageRegistryError ''stage registry must not be empty'')
      else bindE (collect_stages [] stages) (\<lambda>_.
        bindE (check_all_known (set (map stage_name stages)) stages) (\<lambda>_.
        bindE (validate_acyclic stages) (\<lambda>_. Inr stages))))"

definition registry_names :: "stage list \<Rightarrow> string list" where
  "registry_names stages = map stage_name stages"

subsection \<open>What validation accepts\<close>

text \<open>The dependency relation of a set of stages, and the registries the code promises to accept.\<close>

definition dep_rel :: "stage list \<Rightarrow> (string \<times> string) set" where
  "dep_rel stages = {(n, d). \<exists>s \<in> set stages. stage_name s = n \<and> d \<in> set (stage_dependencies s)}"

definition metadata_ok :: "stage \<Rightarrow> bool" where
  "metadata_ok s \<longleftrightarrow> validate_stage_metadata (stage_name s) (stage_version s) (stage_dependencies s) = Inr ()"

definition dag_ok :: "stage list \<Rightarrow> bool" where
  "dag_ok stages \<longleftrightarrow> stages \<noteq> [] \<and> distinct (map stage_name stages) \<and> (\<forall>s \<in> set stages. metadata_ok s)
     \<and> (\<forall>s \<in> set stages. set (stage_dependencies s) \<subseteq> set (map stage_name stages))
     \<and> acyclic (dep_rel stages)"

lemma validate_stage_metadata_error:
  "validate_stage_metadata n v ds = Inl e \<Longrightarrow> \<exists>m. e = StageContractError m"
proof -
  have "check_dependencies n seen ds = Inl e \<Longrightarrow> \<exists>m. e = StageContractError m" for seen
    by (induction n seen ds rule: check_dependencies.induct)
       (auto simp: bindE_Inl_iff require_pattern_def split: if_splits)
  then show "validate_stage_metadata n v ds = Inl e \<Longrightarrow> \<exists>m. e = StageContractError m"
    by (auto simp: validate_stage_metadata_def bindE_Inl_iff require_pattern_def split: if_splits)
qed

lemma collect_stages_Inr:
  "collect_stages seen ss = Inr () \<longleftrightarrow> distinct (map stage_name ss) \<and>
     set (map stage_name ss) \<inter> set seen = {} \<and> (\<forall>s \<in> set ss. metadata_ok s)"
proof (induction seen ss rule: collect_stages.induct)
  case (1 seen)
  then show ?case by simp
next
  case (2 seen s ss)
  show ?case
  proof (cases "validate_stage_metadata (stage_name s) (stage_version s) (stage_dependencies s)")
    case (Inl e)
    then obtain m where "e = StageContractError m" using validate_stage_metadata_error by blast
    with Inl show ?thesis by (simp add: metadata_ok_def)
  next
    case (Inr u)
    with 2 show ?thesis by (auto simp: metadata_ok_def)
  qed
qed

lemma check_known_Inr: "check_known known n ds = Inr () \<longleftrightarrow> set ds \<subseteq> known"
  by (induction ds) auto

lemma check_all_known_Inr:
  "check_all_known known ss = Inr () \<longleftrightarrow> (\<forall>s \<in> set ss. set (stage_dependencies s) \<subseteq> known)"
  by (induction ss) (auto simp: bindE_Inr_iff check_known_Inr)

lemma dep_map_eq:
  "distinct (map stage_name ss) \<Longrightarrow> s \<in> set ss \<Longrightarrow> dep_map ss (stage_name s) = Some (stage_dependencies s)"
  unfolding dep_map_def by (rule map_of_is_SomeI) (auto simp: rev_map [symmetric] comp_def)

lemma dep_map_SomeD: "dep_map ss n = Some ds \<Longrightarrow> \<exists>s \<in> set ss. stage_name s = n \<and> stage_dependencies s = ds"
  unfolding dep_map_def by (auto dest!: map_of_SomeD)

subsubsection \<open>The depth-first check\<close>

text \<open>Edges along the map the check walks.\<close>

definition map_rel :: "(string \<rightharpoonup> string list) \<Rightarrow> (string \<times> string) set" where
  "map_rel deps = {(n, d). \<exists>ds. deps n = Some ds \<and> d \<in> set ds}"

definition black :: "dfs \<Rightarrow> string set" where
  "black st = {n. dfs_state st n = Some 2}"

text \<open>Finished names are closed under dependencies, and no cycle starts at one.\<close>

definition black_ok :: "(string \<rightharpoonup> string list) \<Rightarrow> dfs \<Rightarrow> bool" where
  "black_ok deps st \<longleftrightarrow> (\<forall>n d. n \<in> black st \<longrightarrow> (n, d) \<in> map_rel deps \<longrightarrow> d \<in> black st)
     \<and> acyclic (map_rel deps \<inter> black st \<times> UNIV)"

lemma acyclic_add_source:
  assumes "acyclic R" "x \<notin> Range R" "x \<notin> D"
  shows "acyclic (R \<union> {x} \<times> D)"
proof -
  have no_in: "(a, x) \<notin> R \<union> {x} \<times> D" for a using assms by auto
  have "(a, b) \<in> (R \<union> {x} \<times> D)\<^sup>+ \<Longrightarrow> a \<noteq> x \<Longrightarrow> (a, b) \<in> R\<^sup>+" for a b
  proof (induction rule: trancl_induct)
    case (base y)
    then show ?case by auto
  next
    case (step y z)
    from step.hyps(1) no_in have "y \<noteq> x" by (metis tranclE)
    with step show ?case by (auto intro: trancl_into_trancl)
  qed
  moreover have "(x, x) \<notin> (R \<union> {x} \<times> D)\<^sup>+" using no_in by (meson tranclE)
  ultimately show ?thesis using assms(1) unfolding acyclic_def by metis
qed

text \<open>A successful visit keeps every mark it finds and leaves the stack as it was.\<close>

definition keeps :: "dfs \<Rightarrow> dfs \<Rightarrow> bool" where
  "keeps st st' \<longleftrightarrow> dfs_stack st' = dfs_stack st \<and>
     (\<forall>n m. dfs_state st n = Some m \<longrightarrow> m \<in> {1, 2} \<longrightarrow> dfs_state st' n = Some m) \<and>
     (\<forall>n. dfs_state st' n = Some 1 \<longrightarrow> dfs_state st n = Some 1)"

definition push_open :: "string \<Rightarrow> dfs \<Rightarrow> dfs" where
  "push_open name st = st\<lparr>dfs_state := (dfs_state st)(name \<mapsto> 1), dfs_stack := dfs_stack st @ [name]\<rparr>"

definition close_name :: "string \<Rightarrow> dfs \<Rightarrow> dfs" where
  "close_name name st = st\<lparr>dfs_stack := butlast (dfs_stack st), dfs_state := (dfs_state st)(name \<mapsto> 2)\<rparr>"

definition marker :: "dfs \<Rightarrow> string \<Rightarrow> nat" where
  "marker st name = (case dfs_state st name of None \<Rightarrow> 0 | Some m \<Rightarrow> m)"

lemma visit_Suc:
  "visit (Suc fuel) deps name st =
     (if marker st name = 2 then Inr st
      else if marker st name = 1 then
        Inl (StageRegistryError (''stage dependency cycle: '' @ arrow_join (cycle_of (dfs_stack st) name)))
      else case deps name of
        None \<Rightarrow> Inl (KeyError name)
      | Some ds \<Rightarrow> bindE (visit_all fuel deps ds (push_open name st)) (\<lambda>st'. Inr (close_name name st')))"
  by (simp add: marker_def push_open_def close_name_def Let_def split: option.split)

lemma keeps_refl: "keeps st st"
  by (simp add: keeps_def)

lemma keeps_trans: "keeps a b \<Longrightarrow> keeps b c \<Longrightarrow> keeps a c"
  unfolding keeps_def by (metis insertCI)

lemma keeps_visit:
  assumes "keeps (push_open name st) st1" "marker st name \<noteq> 1" "marker st name \<noteq> 2"
  shows "keeps st (close_name name st1)"
  using assms by (auto simp: keeps_def push_open_def close_name_def marker_def)

text \<open>The two halves of the induction over a successful search, as one rule.\<close>

lemma visit_success_induct [consumes 1, case_names finished visit empty step]:
  fixes P :: "nat \<Rightarrow> string \<Rightarrow> dfs \<Rightarrow> dfs \<Rightarrow> bool" and Q :: "nat \<Rightarrow> string list \<Rightarrow> dfs \<Rightarrow> dfs \<Rightarrow> bool"
  assumes run: "visit_all fuel deps names st = Inr st'"
    and finished: "\<And>fuel name st. marker st name = 2 \<Longrightarrow> P fuel name st st"
    and visit: "\<And>fuel name st ds st1. marker st name \<noteq> 1 \<Longrightarrow> marker st name \<noteq> 2 \<Longrightarrow> deps name = Some ds
      \<Longrightarrow> Q fuel ds (push_open name st) st1 \<Longrightarrow> P (Suc fuel) name st (close_name name st1)"
    and empty: "\<And>fuel st. Q fuel [] st st"
    and step: "\<And>fuel d ds st st1 st2. P fuel d st st1 \<Longrightarrow> Q fuel ds st1 st2 \<Longrightarrow> Q fuel (d # ds) st st2"
  shows "Q fuel names st st'"
proof -
  have "(visit fuel deps name st = Inr st' \<longrightarrow> P fuel name st st') \<and>
      (visit_all fuel deps names st = Inr st' \<longrightarrow> Q fuel names st st')" for name names st st'
  proof (induction fuel arbitrary: name names st st')
    case 0
    have "visit_all 0 deps names st = Inr st' \<longrightarrow> Q 0 names st st'"
      by (cases names) (auto intro: empty)
    then show ?case by simp
  next
    case (Suc fuel)
    have v: "visit (Suc fuel) deps name st = Inr st' \<Longrightarrow> P (Suc fuel) name st st'" for name st st'
      using Suc.IH
      by (auto simp: visit_Suc bindE_Inr_iff split: if_splits option.splits intro: finished visit
          simp del: visit.simps)
    have "visit_all (Suc fuel) deps names st = Inr st' \<Longrightarrow> Q (Suc fuel) names st st'" for names st st'
    proof (induction names arbitrary: st)
      case Nil
      then show ?case by (auto intro: empty)
    next
      case (Cons d ds)
      then obtain st1 where "visit (Suc fuel) deps d st = Inr st1" "visit_all (Suc fuel) deps ds st1 = Inr st'"
        by (auto simp: bindE_Inr_iff simp del: visit.simps)
      with Cons.IH v show ?case by (blast intro: step)
    qed
    with v show ?case by blast
  qed
  with run show ?thesis by blast
qed

lemma visit_all_keeps: "visit_all fuel deps names st = Inr st' \<Longrightarrow> keeps st st'"
  by (induction rule: visit_success_induct [where P = "\<lambda>_ _ st st'. keeps st st'"])
     (auto intro: keeps_refl keeps_trans keeps_visit)

lemma black_push_open: "marker st name \<noteq> 2 \<Longrightarrow> black (push_open name st) = black st"
  by (auto simp: black_def push_open_def marker_def)

lemma keeps_black: "keeps st st' \<Longrightarrow> black st \<subseteq> black st'"
  unfolding keeps_def black_def by blast

lemma black_ok_close:
  assumes ok: "black_ok deps st1" and k: "keeps (push_open name st) st1"
    and ds: "deps name = Some ds" "set ds \<subseteq> black st1"
  shows "black_ok deps (close_name name st1) \<and> black (close_name name st1) = insert name (black st1)"
proof -
  let ?B = "black st1" and ?R = "map_rel deps"
  have "dfs_state st1 name = Some 1" using k by (simp add: keeps_def push_open_def)
  then have notB: "name \<notin> ?B" by (simp add: black_def)
  have b: "black (close_name name st1) = insert name ?B"
    by (auto simp: black_def close_name_def)
  have "?R \<inter> insert name ?B \<times> UNIV = (?R \<inter> ?B \<times> UNIV) \<union> {name} \<times> set ds"
    using ds(1) by (auto simp: map_rel_def)
  moreover have "acyclic ((?R \<inter> ?B \<times> UNIV) \<union> {name} \<times> set ds)"
    using ok ds(2) notB by (intro acyclic_add_source) (auto simp: black_ok_def)
  ultimately have "acyclic (?R \<inter> insert name ?B \<times> UNIV)" by simp
  with b ok ds show ?thesis by (auto simp: black_ok_def map_rel_def)
qed

lemma visit_all_black:
  assumes "visit_all fuel deps names st = Inr st'" "black_ok deps st"
  shows "black_ok deps st' \<and> set names \<subseteq> black st'"
proof -
  have "keeps st st' \<and> (black_ok deps st \<longrightarrow> black_ok deps st' \<and> set names \<subseteq> black st')"
    using assms(1)
  proof (induction rule: visit_success_induct
      [where P = "\<lambda>_ name st st'. keeps st st' \<and> (black_ok deps st \<longrightarrow> black_ok deps st' \<and> name \<in> black st')"])
    case (finished fuel name st)
    then show ?case by (auto simp: keeps_refl black_def marker_def split: option.splits)
  next
    case (visit fuel name st ds st1)
    then have k: "keeps (push_open name st) st1" and d: "deps name = Some ds"
      and "black_ok deps st \<Longrightarrow> black_ok deps st1 \<and> set ds \<subseteq> black st1"
      by (auto simp: black_ok_def black_push_open)
    with visit.hyps show ?case
      using black_ok_close[where st = st, OF _ k] keeps_visit[OF k] by auto
  next
    case (empty fuel st)
    then show ?case by (simp add: keeps_refl)
  next
    case (step fuel d ds st st1 st2)
    then show ?case using keeps_black keeps_trans by (metis insert_subset list.simps(15) subset_iff)
  qed
  with assms(2) show ?thesis by blast
qed

text \<open>A failing visit reports a cycle of the walked relation, when every name is known and there is fuel.\<close>

definition is_cycle :: "('a \<times> 'a) set \<Rightarrow> 'a list \<Rightarrow> bool" where
  "is_cycle R ns \<longleftrightarrow> 2 \<le> length ns \<and> hd ns = last ns \<and> successively (\<lambda>a b. (a, b) \<in> R) ns"

lemma successively_trancl:
  "successively (\<lambda>a b. (a, b) \<in> R) (x # xs) \<Longrightarrow> xs \<noteq> [] \<Longrightarrow> (x, last xs) \<in> R\<^sup>+"
proof (induction xs arbitrary: x)
  case Nil
  then show ?case by simp
next
  case (Cons y ys)
  then show ?case by (cases "ys = []") (auto intro: trancl_into_trancl2)
qed

lemma is_cycle_not_acyclic: "is_cycle R ns \<Longrightarrow> \<not> acyclic R"
  using successively_trancl[of R "hd ns" "tl ns"]
  by (cases ns) (auto simp: is_cycle_def acyclic_def Suc_le_eq split: if_splits)

definition path_ok :: "(string \<rightharpoonup> string list) \<Rightarrow> dfs \<Rightarrow> bool" where
  "path_ok deps st \<longleftrightarrow> distinct (dfs_stack st) \<and> set (dfs_stack st) \<subseteq> dom deps \<and>
     successively (\<lambda>a b. (a, b) \<in> map_rel deps) (dfs_stack st) \<and>
     (\<forall>n. dfs_state st n = Some 1 \<longleftrightarrow> n \<in> set (dfs_stack st))"

definition next_ok :: "(string \<rightharpoonup> string list) \<Rightarrow> dfs \<Rightarrow> string \<Rightarrow> bool" where
  "next_ok deps st name \<longleftrightarrow> dfs_stack st = [] \<or> (last (dfs_stack st), name) \<in> map_rel deps"

lemma path_ok_keeps: "keeps st st' \<Longrightarrow> path_ok deps st \<Longrightarrow> path_ok deps st'"
  unfolding keeps_def path_ok_def by (metis insertCI)

lemma path_ok_push:
  assumes "path_ok deps st" "next_ok deps st name" "marker st name \<noteq> 1" "name \<in> dom deps"
  shows "path_ok deps (push_open name st)"
proof -
  have "dfs_state st name \<noteq> Some 1" using assms(3) by (auto simp: marker_def)
  with assms show ?thesis
    by (auto simp: path_ok_def next_ok_def push_open_def successively_append_iff)
qed

lemma hd_drop_list_index: "x \<in> set xs \<Longrightarrow> drop (list_index xs x) xs \<noteq> [] \<and> hd (drop (list_index xs x) xs) = x"
  by (induction xs) (auto simp: list_index_def)

lemma cycle_of_is_cycle:
  assumes "path_ok deps st" "next_ok deps st name" "marker st name = 1"
  shows "is_cycle (map_rel deps) (cycle_of (dfs_stack st) name)"
proof -
  let ?s = "dfs_stack st" and ?i = "list_index (dfs_stack st) name"
  have "name \<in> set ?s" using assms by (auto simp: path_ok_def marker_def split: option.splits)
  then have drop: "drop ?i ?s \<noteq> [] \<and> hd (drop ?i ?s) = name" by (rule hd_drop_list_index)
  have "successively (\<lambda>a b. (a, b) \<in> map_rel deps) (take ?i ?s @ drop ?i ?s)"
    using assms(1) by (simp add: path_ok_def)
  then have succ: "successively (\<lambda>a b. (a, b) \<in> map_rel deps) (drop ?i ?s)"
    by (simp add: successively_append_iff del: append_take_drop_id)
  moreover have "(last (drop ?i ?s), name) \<in> map_rel deps"
    using drop assms(2) by (auto simp: next_ok_def)
  ultimately show ?thesis
    using drop by (auto simp: is_cycle_def cycle_of_def successively_append_iff Suc_le_eq)
qed

text \<open>The outcome of a failing search: a genuine cycle, in the words of the code.\<close>

definition cycle_error :: "(string \<rightharpoonup> string list) \<Rightarrow> exc \<Rightarrow> bool" where
  "cycle_error deps e \<longleftrightarrow> (\<exists>ns. is_cycle (map_rel deps) ns \<and>
     e = StageRegistryError (''stage dependency cycle: '' @ arrow_join ns))"

definition known_deps :: "(string \<rightharpoonup> string list) \<Rightarrow> bool" where
  "known_deps deps \<longleftrightarrow> finite (dom deps) \<and> (\<forall>n ds. deps n = Some ds \<longrightarrow> set ds \<subseteq> dom deps)"

lemma stack_le_dom: "known_deps deps \<Longrightarrow> path_ok deps st \<Longrightarrow> length (dfs_stack st) \<le> card (dom deps)"
  by (metis card_mono distinct_card known_deps_def path_ok_def)

lemma visit_error:
  assumes kd: "known_deps deps"
  shows "(visit fuel deps name st = Inl e \<longrightarrow> path_ok deps st \<longrightarrow> next_ok deps st name \<longrightarrow> name \<in> dom deps
            \<longrightarrow> card (dom deps) < fuel + length (dfs_stack st) \<longrightarrow> cycle_error deps e) \<and>
         (visit_all fuel deps names st = Inl e \<longrightarrow> path_ok deps st \<longrightarrow> (\<forall>d \<in> set names. next_ok deps st d)
            \<longrightarrow> set names \<subseteq> dom deps
            \<longrightarrow> card (dom deps) < fuel + length (dfs_stack st) \<longrightarrow> cycle_error deps e)"
proof (induction fuel arbitrary: name names st)
  case 0
  then show ?case using stack_le_dom[OF kd, of st] by auto
next
  case (Suc fuel)
  have v: "cycle_error deps e"
    if run: "visit (Suc fuel) deps name st = Inl e" and st: "path_ok deps st" "next_ok deps st name"
      and name: "name \<in> dom deps" and fuel: "card (dom deps) < Suc fuel + length (dfs_stack st)" for name st
  proof (cases "marker st name = 1")
    case True
    with run have "e = StageRegistryError (''stage dependency cycle: '' @ arrow_join (cycle_of (dfs_stack st) name))"
      by (simp add: visit_Suc del: visit.simps)
    with cycle_of_is_cycle[OF st True] show ?thesis unfolding cycle_error_def by blast
  next
    case False
    obtain ds where ds: "deps name = Some ds" using name by blast
    from run False ds have all: "visit_all fuel deps ds (push_open name st) = Inl e"
      by (auto simp: visit_Suc bindE_Inl_iff simp del: visit.simps split: if_splits)
    have push: "path_ok deps (push_open name st)" using path_ok_push[OF st False name] .
    have "\<forall>d \<in> set ds. next_ok deps (push_open name st) d"
      using ds by (auto simp: next_ok_def push_open_def map_rel_def)
    moreover have "set ds \<subseteq> dom deps" using kd ds by (auto simp: known_deps_def)
    moreover have "card (dom deps) < fuel + length (dfs_stack (push_open name st))"
      using fuel by (simp add: push_open_def)
    ultimately show ?thesis using Suc.IH all push by blast
  qed
  have "cycle_error deps e"
    if "visit_all (Suc fuel) deps names st = Inl e" "path_ok deps st" "\<forall>d \<in> set names. next_ok deps st d"
      "set names \<subseteq> dom deps" "card (dom deps) < Suc fuel + length (dfs_stack st)" for names st
    using that
  proof (induction names arbitrary: st)
    case Nil
    then show ?case by simp
  next
    case (Cons d ds)
    from Cons.prems(1) consider "visit (Suc fuel) deps d st = Inl e"
      | st1 where "visit (Suc fuel) deps d st = Inr st1" "visit_all (Suc fuel) deps ds st1 = Inl e"
      by (auto simp: bindE_Inl_iff simp del: visit.simps)
    then show ?case
    proof cases
      case 1
      with v Cons.prems show ?thesis by auto
    next
      case (2 st1)
      then have "visit_all (Suc fuel) deps [d] st = Inr st1" by simp
      then have k: "keeps st st1" by (rule visit_all_keeps)
      then have same: "dfs_stack st1 = dfs_stack st" by (simp add: keeps_def)
      from 2 Cons.prems path_ok_keeps[OF k] show ?thesis
        by (intro Cons.IH[of st1]) (auto simp: next_ok_def same simp del: visit.simps)
    qed
  qed
  with v show ?case by blast
qed

lemma dep_map_dom: "dom (dep_map ss) = set (map stage_name ss)"
  by (force simp: dep_map_def dom_map_of_conv_image_fst)

lemma map_rel_dep_map: "distinct (map stage_name ss) \<Longrightarrow> map_rel (dep_map ss) = dep_rel ss"
  by (auto simp: map_rel_def dep_rel_def dep_map_eq dest: dep_map_SomeD)

lemma dep_rel_names: "dep_rel ss \<subseteq> set (map stage_name ss) \<times> UNIV"
  by (auto simp: dep_rel_def)

lemma validate_acyclic_Inr:
  assumes d: "distinct (map stage_name ss)"
    and closed: "\<forall>s \<in> set ss. set (stage_dependencies s) \<subseteq> set (map stage_name ss)"
  shows "validate_acyclic ss = Inr () \<longleftrightarrow> acyclic (dep_rel ss)"
    and "validate_acyclic ss = Inl e \<Longrightarrow> cycle_error (dep_map ss) e"
proof -
  let ?st = "\<lparr>dfs_state = Map.empty, dfs_stack = []\<rparr>"
  let ?run = "visit_all (Suc (length ss)) (dep_map ss) (map stage_name ss) ?st"
  have kd: "known_deps (dep_map ss)"
    unfolding known_deps_def dep_map_dom using closed dep_map_SomeD by fastforce
  have err: "cycle_error (dep_map ss) e" if "?run = Inl e" for e
  proof -
    have "path_ok (dep_map ss) ?st" by (simp add: path_ok_def)
    moreover have "card (dom (dep_map ss)) < Suc (length ss) + length (dfs_stack ?st)"
      by (simp add: dep_map_dom le_imp_less_Suc card_length[of "map stage_name ss", simplified])
    ultimately show ?thesis
      using that visit_error[OF kd, of "Suc (length ss)" _ ?st e "map stage_name ss"]
      by (auto simp: next_ok_def dep_map_dom simp del: visit_all.simps)
  qed
  then show "validate_acyclic ss = Inl e \<Longrightarrow> cycle_error (dep_map ss) e" for e
    by (auto simp: validate_acyclic_def bindE_Inl_iff simp del: visit_all.simps)
  show "validate_acyclic ss = Inr () \<longleftrightarrow> acyclic (dep_rel ss)"
  proof (cases ?run)
    case (Inl e)
    with err have "\<not> acyclic (map_rel (dep_map ss))"
      unfolding cycle_error_def using is_cycle_not_acyclic by blast
    with Inl d show ?thesis by (simp add: validate_acyclic_def map_rel_dep_map del: visit_all.simps)
  next
    case (Inr st')
    have "black_ok (dep_map ss) ?st" by (simp add: black_ok_def black_def acyclic_def)
    with Inr have "black_ok (dep_map ss) st'" "set (map stage_name ss) \<subseteq> black st'"
      using visit_all_black by blast+
    then have "acyclic (dep_rel ss)"
      using dep_rel_names[of ss] d unfolding black_ok_def map_rel_dep_map[OF d]
      by (metis acyclic_subset inf.absorb_iff1 Sigma_mono subset_refl dual_order.trans)
    with Inr show ?thesis by (simp add: validate_acyclic_def del: visit_all.simps)
  qed
qed

lemma validate_registry_Inr:
  "validate_registry stages = Inr r \<longleftrightarrow> r = stages \<and> dag_ok stages"
proof (cases "stages \<noteq> [] \<and> collect_stages [] stages = Inr ()
    \<and> check_all_known (set (map stage_name stages)) stages = Inr ()")
  case True
  then have "distinct (map stage_name stages)"
    and "\<forall>s \<in> set stages. set (stage_dependencies s) \<subseteq> set (map stage_name stages)"
    by (simp_all add: collect_stages_Inr check_all_known_Inr)
  then have "validate_acyclic stages = Inr () \<longleftrightarrow> acyclic (dep_rel stages)"
    by (rule validate_acyclic_Inr(1))
  with True show ?thesis
    by (auto simp: validate_registry_def bindE_Inr_iff dag_ok_def collect_stages_Inr check_all_known_Inr)
next
  case False
  then show ?thesis
    by (auto simp: validate_registry_def bindE_Inr_iff dag_ok_def collect_stages_Inr check_all_known_Inr)
qed

text \<open>
  C27. A stage registry is accepted exactly when it is a non-empty DAG: valid metadata, distinct
  names, every dependency registered, and an acyclic dependency relation; an accepted registry
  keeps its stages unchanged and in order.
\<close>

theorem validate_registry_accepts_exactly_dags:
  "validate_registry stages = Inr r \<longleftrightarrow> r = stages \<and> dag_ok stages"
  by (rule validate_registry_Inr)

text \<open>
  C28. When every other check passes, the only rejection is a dependency cycle, and the cycle named
  in the message is a real closed walk along declared dependencies.
\<close>

theorem validate_registry_reports_real_cycle:
  assumes "validate_registry stages = Inl e"
    and "stages \<noteq> []" and "collect_stages [] stages = Inr ()"
    and "check_all_known (set (map stage_name stages)) stages = Inr ()"
  shows "\<exists>ns. is_cycle (dep_rel stages) ns \<and>
     e = StageRegistryError (''stage dependency cycle: '' @ arrow_join ns)"
proof -
  from assms have d: "distinct (map stage_name stages)"
    and "\<forall>s \<in> set stages. set (stage_dependencies s) \<subseteq> set (map stage_name stages)"
    by (simp_all add: collect_stages_Inr check_all_known_Inr)
  moreover from assms have "validate_acyclic stages = Inl e"
    by (auto simp: validate_registry_def bindE_Inl_iff)
  ultimately have "cycle_error (dep_map stages) e" using validate_acyclic_Inr(2) by blast
  then show ?thesis by (simp add: cycle_error_def map_rel_dep_map[OF d])
qed

definition two_cycle :: "stage list" where
  "two_cycle = [\<lparr>stage_name = ''a'', stage_version = ''1'', stage_dependencies = [''b'']\<rparr>,
     \<lparr>stage_name = ''b'', stage_version = ''1'', stage_dependencies = [''a'']\<rparr>]"

theorem validate_registry_reports_real_cycle_witness:
  "validate_registry two_cycle = Inl (StageRegistryError ''stage dependency cycle: a -> b -> a'') \<and>
   (\<exists>ns. is_cycle (dep_rel two_cycle) ns \<and>
     StageRegistryError ''stage dependency cycle: a -> b -> a''
       = StageRegistryError (''stage dependency cycle: '' @ arrow_join ns))"
proof -
  have 1: "validate_registry two_cycle = Inl (StageRegistryError ''stage dependency cycle: a -> b -> a'')"
    by code_simp
  have 2: "two_cycle \<noteq> []" and 3: "collect_stages [] two_cycle = Inr ()"
    and 4: "check_all_known (set (map stage_name two_cycle)) two_cycle = Inr ()"
    by code_simp+
  show ?thesis using 1 validate_registry_reports_real_cycle[OF 1 2 3 4] by blast
qed

end
