(* ===== verification/Greedy_Order.thy ===== *)
theory Greedy_Order
  imports Main "HOL-Library.Multiset"
begin

text \<open>
  The abstract specification of the stage order: from the finished set, always take the least
  name whose dependencies are finished. The interface \<open>stage_dag\<close> (a finite acyclic
  dependency relation over the names) is what the order needs; under it the greedy order lists
  every name once, dependencies first.
\<close>

definition ready_set :: "'a set \<Rightarrow> ('a \<Rightarrow> 'a set) \<Rightarrow> 'a set \<Rightarrow> 'a set" where
  "ready_set names deps fin = {n \<in> names. n \<notin> fin \<and> deps n \<subseteq> fin}"

fun greedy_order :: "nat \<Rightarrow> 'a::linorder set \<Rightarrow> ('a \<Rightarrow> 'a set) \<Rightarrow> 'a set \<Rightarrow> 'a list" where
  "greedy_order 0 names deps fin = []"
| "greedy_order (Suc k) names deps fin =
     (let r = ready_set names deps fin in
      if r = {} then [] else Min r # greedy_order k names deps (insert (Min r) fin))"

text \<open>Every element comes after its dependencies, those in \<open>fin\<close> counting as done.\<close>

fun deps_first :: "('a \<Rightarrow> 'a set) \<Rightarrow> 'a set \<Rightarrow> 'a list \<Rightarrow> bool" where
  "deps_first deps fin [] = True"
| "deps_first deps fin (x # xs) = (deps x \<subseteq> fin \<and> deps_first deps (insert x fin) xs)"

lemma deps_first_nth:
  "deps_first deps fin xs \<Longrightarrow> i < length xs \<Longrightarrow> deps (xs ! i) \<subseteq> fin \<union> set (take i xs)"
proof (induction xs arbitrary: fin i)
  case Nil
  then show ?case by simp
next
  case (Cons x xs)
  show ?case
  proof (cases i)
    case 0
    with Cons.prems show ?thesis by simp
  next
    case (Suc j)
    with Cons.prems Cons.IH[of "insert x fin" j] show ?thesis by auto
  qed
qed

lemma deps_first_append:
  "deps_first deps fin (xs @ ys) \<longleftrightarrow> deps_first deps fin xs \<and> deps_first deps (fin \<union> set xs) ys"
  by (induction xs arbitrary: fin) auto

lemma Min_ready_set:
  assumes "finite names" "ready_set names deps fin \<noteq> {}"
  shows "Min (ready_set names deps fin) \<in> ready_set names deps fin"
  using assms by (intro Min_in) (auto simp: ready_set_def)

lemma greedy_order_sound:
  assumes "finite names"
  shows "distinct (greedy_order k names deps fin) \<and> set (greedy_order k names deps fin) \<subseteq> names - fin
     \<and> deps_first deps fin (greedy_order k names deps fin)"
proof (induction k arbitrary: fin)
  case 0
  then show ?case by simp
next
  case (Suc k)
  show ?case
  proof (cases "ready_set names deps fin = {}")
    case True
    then show ?thesis by simp
  next
    case False
    let ?x = "Min (ready_set names deps fin)"
    have x: "?x \<in> ready_set names deps fin" using assms False by (rule Min_ready_set)
    moreover have "set (greedy_order k names deps (insert ?x fin)) \<subseteq> names - insert ?x fin"
      using Suc.IH by blast
    ultimately show ?thesis using False Suc.IH[of "insert ?x fin"]
      by (auto simp: Let_def ready_set_def)
  qed
qed

locale stage_dag =
  fixes names :: "'a::linorder set" and deps :: "'a \<Rightarrow> 'a set"
  assumes finite_names: "finite names"
    and deps_closed: "n \<in> names \<Longrightarrow> deps n \<subseteq> names"
    and acyclic_deps: "acyclic {(n, d). n \<in> names \<and> d \<in> deps n}"
begin

lemma some_ready:
  assumes "fin \<subseteq> names" "fin \<noteq> names"
  shows "ready_set names deps fin \<noteq> {}"
proof -
  let ?R = "{(n, d). n \<in> names \<and> d \<in> deps n}"
  have "?R \<subseteq> names \<times> names" using deps_closed by blast
  then have "finite ?R" using finite_names by (meson finite_SigmaI finite_subset)
  then have "wf (?R\<inverse>)" using acyclic_deps finite_acyclic_wf_converse by blast
  moreover obtain m where "m \<in> names - fin" using assms by blast
  ultimately obtain z where z: "z \<in> names - fin"
    and min: "\<forall>y. (y, z) \<in> ?R\<inverse> \<longrightarrow> y \<notin> names - fin"
    unfolding wf_eq_minimal by blast
  then have "deps z \<subseteq> fin" using deps_closed by blast
  with z show ?thesis by (auto simp: ready_set_def)
qed

lemma greedy_complete:
  assumes "fin \<subseteq> names" "card (names - fin) \<le> k"
  shows "set (greedy_order k names deps fin) = names - fin"
  using assms
proof (induction k arbitrary: fin)
  case 0
  then have "names - fin = {}" using finite_names by simp
  then show ?case by simp
next
  case (Suc k)
  show ?case
  proof (cases "fin = names")
    case True
    then have "ready_set names deps fin = {}" by (auto simp: ready_set_def)
    with True show ?thesis by simp
  next
    case False
    let ?x = "Min (ready_set names deps fin)"
    from False Suc.prems have r: "ready_set names deps fin \<noteq> {}" by (intro some_ready)
    then have x: "?x \<in> names - fin"
      using Min_ready_set[OF finite_names r] by (simp add: ready_set_def)
    then have "card (names - insert ?x fin) < card (names - fin)"
      using finite_names by (intro psubset_card_mono) auto
    with Suc.prems x have "set (greedy_order k names deps (insert ?x fin)) = names - insert ?x fin"
      by (intro Suc.IH) auto
    with r x show ?thesis by (auto simp: Let_def)
  qed
qed

lemma greedy_length:
  assumes "fin \<subseteq> names" "card (names - fin) \<le> k"
  shows "length (greedy_order k names deps fin) = card (names - fin)"
  using greedy_order_sound[OF finite_names, of k deps fin] greedy_complete[OF assms]
  by (metis distinct_card)

end

end
