(* ===== verification/Stage_Plan.thy ===== *)
theory Stage_Plan
  imports Stage_Registry Greedy_Order
begin

text \<open>
  The execution order and the skip plan of \<open>core/urban_generator/stages/registry.py\<close>, and
  the canonical catalog of \<open>catalog.py\<close>. The heap of \<open>topological_stages\<close> is kept as a
  sorted list, which is what \<open>heappop\<close> and \<open>heappush\<close> make observable; its loop has fuel
  (one unit per stage), proved to be enough. The loop refines the greedy order of
  theory \<open>Greedy_Order\<close>, from which its properties follow.
\<close>

subsection \<open>\<open>topological_stages\<close>\<close>

record kahn =
  k_indegree :: "string \<Rightarrow> int"
  k_ready :: "string list"
  k_ordered :: "string list"

definition dependents_of :: "stage list \<Rightarrow> string \<Rightarrow> string list" where
  "dependents_of stages d =
     concat (map (\<lambda>s. map (\<lambda>_. stage_name s) (filter (\<lambda>x. x = d) (stage_dependencies s))) stages)"

text \<open>The body of the inner loop: lower the indegree, push the name when it reaches 0.\<close>

definition release :: "string \<Rightarrow> kahn \<Rightarrow> kahn" where
  "release name k =
     (let k' = k\<lparr>k_indegree := (k_indegree k)(name := k_indegree k name - 1)\<rparr> in
      if k_indegree k' name = 0 then k'\<lparr>k_ready := insort name (k_ready k')\<rparr> else k')"

fun kahn_loop :: "nat \<Rightarrow> (string \<Rightarrow> string list) \<Rightarrow> kahn \<Rightarrow> string list option" where
  "kahn_loop fuel dependents k =
     (case k_ready k of
        [] \<Rightarrow> Some (k_ordered k)
      | name # rest \<Rightarrow>
          (case fuel of
             0 \<Rightarrow> None
           | Suc fuel' \<Rightarrow>
               kahn_loop fuel' dependents
                 (fold release (sort (dependents name))
                    (k\<lparr>k_ready := rest, k_ordered := k_ordered k @ [name]\<rparr>))))"

declare kahn_loop.simps [simp del]

text \<open>The dictionaries \<open>indegree\<close> and \<open>by_name\<close>; for equal keys the later stage wins.\<close>

definition stage_indegree :: "stage list \<Rightarrow> string \<Rightarrow> int" where
  "stage_indegree stages n =
     (case map_of (rev (map (\<lambda>s. (stage_name s, int (length (stage_dependencies s)))) stages)) n of
        None \<Rightarrow> 0 | Some i \<Rightarrow> i)"

definition kahn_start :: "stage list \<Rightarrow> kahn" where
  "kahn_start stages =
     \<lparr>k_indegree = stage_indegree stages,
      k_ready = sort (filter (\<lambda>n. stage_indegree stages n = 0) (remdups (map stage_name stages))),
      k_ordered = []\<rparr>"

definition by_name :: "stage list \<Rightarrow> (string \<rightharpoonup> stage)" where
  "by_name stages = map_of (rev (map (\<lambda>s. (stage_name s, s)) stages))"

definition topological_stages :: "stage list \<Rightarrow> exc + stage list" where
  "topological_stages stages =
     (case kahn_loop (length stages) (dependents_of stages) (kahn_start stages) of
        None \<Rightarrow> Inl RecursionError
      | Some names \<Rightarrow>
          bindE (mapE (\<lambda>n. case by_name stages n of None \<Rightarrow> Inl (KeyError n) | Some s \<Rightarrow> Inr s) names) (\<lambda>ordered.
          if length ordered \<noteq> length stages
          then Inl (StageRegistryError ''stage registry contains an unresolved dependency cycle'')
          else Inr ordered))"

fun registry_get :: "stage list \<Rightarrow> string \<Rightarrow> exc + stage" where
  "registry_get [] name = Inl (StageRegistryError (''stage is not registered: '' @ name))"
| "registry_get (s # ss) name = (if stage_name s = name then Inr s else registry_get ss name)"

subsection \<open>\<open>build_plan\<close>\<close>

datatype skip_reason = REQUESTED | DEPENDENCY_SKIPPED

fun skip_value :: "skip_reason \<Rightarrow> string" where
  "skip_value REQUESTED = ''REQUESTED''"
| "skip_value DEPENDENCY_SKIPPED = ''DEPENDENCY_SKIPPED''"

record plan_entry =
  entry_stage :: stage
  entry_skip :: "skip_reason option"
  entry_blocked :: "string list"

definition make_plan_entry :: "stage \<Rightarrow> skip_reason option \<Rightarrow> string list \<Rightarrow> exc + plan_entry" where
  "make_plan_entry s skip blocked =
     (if skip = Some REQUESTED \<and> blocked \<noteq> []
      then Inl (StageRegistryError ''requested skip must not have blocked dependencies'')
      else if skip = Some DEPENDENCY_SKIPPED \<and> blocked = []
      then Inl (StageRegistryError ''dependency skip requires at least one blocked dependency'')
      else if skip = None \<and> blocked \<noteq> []
      then Inl (StageRegistryError ''executable stage must not have blocked dependencies'')
      else Inr \<lparr>entry_stage = s, entry_skip = skip, entry_blocked = blocked\<rparr>)"

definition should_execute :: "plan_entry \<Rightarrow> bool" where
  "should_execute e = (entry_skip e = None)"

fun check_skips :: "string list \<Rightarrow> string list \<Rightarrow> exc + unit" where
  "check_skips names [] = Inr ()"
| "check_skips names (n # ns) =
     (if n = [] then Inl (StageRegistryError ''skip stage name must be a non-empty string'')
      else if n \<notin> set names
      then Inl (StageRegistryError (''skip stage is not registered: '' @ n))
      else check_skips names ns)"

fun plan_loop :: "string list \<Rightarrow> string set \<Rightarrow> stage list \<Rightarrow> exc + plan_entry list" where
  "plan_loop explicit skipped [] = Inr []"
| "plan_loop explicit skipped (s # ss) =
     (if stage_name s \<in> set explicit then
        bindE (make_plan_entry s (Some REQUESTED) []) (\<lambda>e.
        bindE (plan_loop explicit (insert (stage_name s) skipped) ss) (\<lambda>es. Inr (e # es)))
      else
        let blocked_by = sort (filter (\<lambda>d. d \<in> skipped) (stage_dependencies s)) in
        if blocked_by \<noteq> [] then
          bindE (make_plan_entry s (Some DEPENDENCY_SKIPPED) blocked_by) (\<lambda>e.
          bindE (plan_loop explicit (insert (stage_name s) skipped) ss) (\<lambda>es. Inr (e # es)))
        else
          bindE (make_plan_entry s None []) (\<lambda>e.
          bindE (plan_loop explicit skipped ss) (\<lambda>es. Inr (e # es))))"

definition build_plan :: "stage list \<Rightarrow> string list \<Rightarrow> exc + plan_entry list" where
  "build_plan stages skip_stages =
     (if \<not> distinct skip_stages
      then Inl (StageRegistryError ''skip_stages must not contain duplicates'')
      else bindE (check_skips (registry_names stages) skip_stages) (\<lambda>_.
           bindE (topological_stages stages) (\<lambda>ordered.
           plan_loop skip_stages {} ordered)))"

subsection \<open>The canonical catalog\<close>

definition canonical_stage_order :: "string list" where
  "canonical_stage_order =
     [''prepare_snapshot'', ''evaluate_constraints'', ''suitability'', ''zoning'', ''roads'',
      ''blocks_and_parcels'', ''buildings'', ''demography'', ''infrastructure'',
      ''final_validation'', ''metrics'', ''persist_manifest'']"

definition canonical_stage_dependencies :: "(string \<times> string list) list" where
  "canonical_stage_dependencies =
     [(''prepare_snapshot'', []),
      (''evaluate_constraints'', [''prepare_snapshot'']),
      (''suitability'', [''evaluate_constraints'']),
      (''zoning'', [''suitability'']),
      (''roads'', [''zoning'']),
      (''blocks_and_parcels'', [''roads'']),
      (''buildings'', [''blocks_and_parcels'']),
      (''demography'', [''buildings'']),
      (''infrastructure'', [''demography'', ''roads'']),
      (''final_validation'', [''infrastructure'']),
      (''metrics'', [''final_validation'']),
      (''persist_manifest'', [''metrics''])]"

definition canonical_stages :: "string \<Rightarrow> stage list" where
  "canonical_stages version = map (\<lambda>(n, ds). \<lparr>stage_name = n, stage_version = version,
     stage_dependencies = ds\<rparr>) canonical_stage_dependencies"

subsection \<open>The loop refines the greedy order\<close>

text \<open>The dependencies of a registered name, as a set.\<close>

definition dep_set :: "stage list \<Rightarrow> string \<Rightarrow> string set" where
  "dep_set stages n = {d. (n, d) \<in> dep_rel stages}"

lemma dep_set_eq:
  "distinct (map stage_name ss) \<Longrightarrow> s \<in> set ss \<Longrightarrow> dep_set ss (stage_name s) = set (stage_dependencies s)"
  unfolding dep_set_def dep_rel_def distinct_map inj_on_def by blast

lemma dag_ok_metadata: "dag_ok ss \<Longrightarrow> s \<in> set ss \<Longrightarrow> distinct (stage_dependencies s)"
  by (auto simp: dag_ok_def metadata_ok_def validate_stage_metadata_Inr)

lemma dag_ok_stage_dag: "dag_ok ss \<Longrightarrow> stage_dag (set (map stage_name ss)) (dep_set ss)"
proof
  assume ok: "dag_ok ss"
  then have d: "distinct (map stage_name ss)" by (simp add: dag_ok_def)
  show "finite (set (map stage_name ss))" by simp
  show "dep_set ss n \<subseteq> set (map stage_name ss)" if "n \<in> set (map stage_name ss)" for n
    using that ok dep_set_eq[OF d] by (auto simp: dag_ok_def subset_iff)
  have "{(n, e). n \<in> set (map stage_name ss) \<and> e \<in> dep_set ss n} \<subseteq> dep_rel ss"
    by (auto simp: dep_set_def)
  then show "acyclic {(n, e). n \<in> set (map stage_name ss) \<and> e \<in> dep_set ss n}"
    using ok acyclic_subset by (auto simp: dag_ok_def)
qed

lemma filter_eq_distinct: "distinct xs \<Longrightarrow> filter (\<lambda>x. x = d) xs = (if d \<in> set xs then [d] else [])"
  by (induction xs) auto

lemma dependents_of_eq:
  assumes "\<forall>s \<in> set ss. distinct (stage_dependencies s)"
  shows "dependents_of ss d = map stage_name (filter (\<lambda>s. d \<in> set (stage_dependencies s)) ss)"
  using assms by (induction ss) (auto simp: dependents_of_def filter_eq_distinct)

lemma dependents_of_props:
  assumes "dag_ok ss"
  shows "distinct (dependents_of ss d)"
    and "set (dependents_of ss d) = {n \<in> set (map stage_name ss). d \<in> dep_set ss n}"
proof -
  have dn: "distinct (map stage_name ss)" using assms by (simp add: dag_ok_def)
  have eq: "dependents_of ss d = map stage_name (filter (\<lambda>s. d \<in> set (stage_dependencies s)) ss)"
    using assms dag_ok_metadata by (intro dependents_of_eq) blast
  show "distinct (dependents_of ss d)"
    using dn by (simp add: eq distinct_map inj_on_def)
  show "set (dependents_of ss d) = {n \<in> set (map stage_name ss). d \<in> dep_set ss n}"
    using dep_set_eq[OF dn] by (auto simp: eq)
qed

lemma card_Diff_1:
  assumes "x \<in> A" "x \<notin> B"
  shows "card (A - B) = 1 \<longleftrightarrow> A \<subseteq> insert x B"
proof
  assume "card (A - B) = 1"
  then obtain y where "A - B = {y}" by (auto simp: card_1_singleton_iff)
  moreover from this assms have "x = y" by blast
  ultimately show "A \<subseteq> insert x B" by blast
next
  assume "A \<subseteq> insert x B"
  with assms have "A - B = {x}" by blast
  then show "card (A - B) = 1" by simp
qed

lemma fold_release:
  assumes "distinct xs"
  shows "k_indegree (fold release xs k) = (\<lambda>n. if n \<in> set xs then k_indegree k n - 1 else k_indegree k n)"
    and "k_ordered (fold release xs k) = k_ordered k"
    and "k_ready (fold release xs k) = fold insort (filter (\<lambda>n. k_indegree k n = 1) xs) (k_ready k)"
  using assms
proof (induction xs arbitrary: k)
  case (Cons x xs)
  {
    case 1
    then have "distinct xs" "x \<notin> set xs" by auto
    with Cons.IH(1)[of "release x k"] show ?case by (auto simp: release_def Let_def fun_eq_iff)
  next
    case 2
    with Cons.IH(2)[of "release x k"] show ?case by (simp add: release_def Let_def)
  next
    case 3
    then have d: "distinct xs" "x \<notin> set xs" by auto
    have "filter (\<lambda>n. k_indegree (release x k) n = 1) xs = filter (\<lambda>n. k_indegree k n = 1) xs"
      using d(2) by (intro filter_cong) (auto simp: release_def Let_def)
    with Cons.IH(3)[of "release x k"] d show ?case by (simp add: release_def Let_def)
  }
qed auto

lemma fold_insort_set: "set (fold insort xs ys) = set xs \<union> set ys"
  by (induction xs arbitrary: ys) (auto simp: set_insort_key)

lemma fold_insort_sorted: "sorted ys \<Longrightarrow> sorted (fold insort xs ys)"
  by (induction xs arbitrary: ys) (auto simp: sorted_insort)

lemma fold_insort_distinct: "distinct (xs @ ys) \<Longrightarrow> distinct (fold insort xs ys)"
  by (induction xs arbitrary: ys) (auto simp: distinct_insort set_insort_key)

text \<open>What the loop keeps between its variables.\<close>

definition kahn_inv :: "stage list \<Rightarrow> kahn \<Rightarrow> bool" where
  "kahn_inv ss k \<longleftrightarrow> set (k_ordered k) \<subseteq> set (map stage_name ss) \<and>
     (\<forall>n \<in> set (map stage_name ss). k_indegree k n = int (card (dep_set ss n - set (k_ordered k)))) \<and>
     (\<forall>m \<in> set (k_ordered k). dep_set ss m \<subseteq> set (k_ordered k)) \<and>
     sorted (k_ready k) \<and> distinct (k_ready k) \<and>
     set (k_ready k) = ready_set (set (map stage_name ss)) (dep_set ss) (set (k_ordered k))"

lemma finite_dep_set [simp]: "finite (dep_set ss n)"
proof -
  have "dep_set ss n \<subseteq> \<Union> (set ` stage_dependencies ` set ss)" by (auto simp: dep_set_def dep_rel_def)
  then show ?thesis by (rule finite_subset) auto
qed

lemma kahn_inv_start: "dag_ok ss \<Longrightarrow> kahn_inv ss (kahn_start ss)"
proof -
  assume ok: "dag_ok ss"
  then have d: "distinct (map stage_name ss)" by (simp add: dag_ok_def)
  have indeg: "stage_indegree ss (stage_name s) = int (card (dep_set ss (stage_name s)))" if "s \<in> set ss" for s
  proof -
    have "map_of (rev (map (\<lambda>s. (stage_name s, int (length (stage_dependencies s)))) ss)) (stage_name s)
        = Some (int (length (stage_dependencies s)))"
      using d that by (intro map_of_is_SomeI) (auto simp: rev_map [symmetric] comp_def)
    then show ?thesis
      using dag_ok_metadata[OF ok that] dep_set_eq[OF d that] by (simp add: stage_indegree_def distinct_card)
  qed
  then have "k_indegree (kahn_start ss) n = int (card (dep_set ss n - {}))" if "n \<in> set (map stage_name ss)" for n
    using that by (auto simp: kahn_start_def)
  moreover have "set (k_ready (kahn_start ss)) = ready_set (set (map stage_name ss)) (dep_set ss) {}"
    using indeg by (auto simp: kahn_start_def ready_set_def)
  ultimately show ?thesis by (simp add: kahn_inv_def kahn_start_def)
qed

lemma kahn_inv_step:
  assumes ok: "dag_ok ss" and inv: "kahn_inv ss k" and ready: "k_ready k = x # rest"
  shows "kahn_inv ss (fold release (sort (dependents_of ss x))
           (k\<lparr>k_ready := rest, k_ordered := k_ordered k @ [x]\<rparr>))" (is "kahn_inv ss ?k'")
    and "x = Min (ready_set (set (map stage_name ss)) (dep_set ss) (set (k_ordered k)))"
    and "k_ordered (fold release (sort (dependents_of ss x))
           (k\<lparr>k_ready := rest, k_ordered := k_ordered k @ [x]\<rparr>)) = k_ordered k @ [x]"
proof -
  let ?N = "set (map stage_name ss)" and ?D = "dep_set ss" and ?F = "set (k_ordered k)"
  let ?xs = "sort (dependents_of ss x)"
  have r: "set (x # rest) = ready_set ?N ?D ?F" and sd: "sorted (x # rest)" "distinct (x # rest)"
    and ind: "\<And>n. n \<in> ?N \<Longrightarrow> k_indegree k n = int (card (?D n - ?F))"
    using inv ready by (auto simp: kahn_inv_def)
  have xs: "distinct ?xs" "set ?xs = {n \<in> ?N. x \<in> ?D n}" using dependents_of_props[OF ok] by auto
  have x: "x \<in> ?N" "x \<notin> ?F" "?D x \<subseteq> ?F" using r by (auto simp: ready_set_def)
  show "x = Min (ready_set ?N ?D ?F)"
    using sd(1) by (subst r[symmetric]) (auto intro!: Min_eqI[symmetric])
  show ord: "k_ordered ?k' = k_ordered k @ [x]" by (simp add: fold_release(2)[OF xs(1)])
  have card_step: "card (?D n - insert x ?F) = card (?D n - ?F) - 1" if "x \<in> ?D n" for n
    using that x(2) by (subst Diff_insert) simp
  have pos: "card (?D n - ?F) > 0" if "x \<in> ?D n" for n
    using that x(2) by (auto simp: card_gt_0_iff)
  have ind': "k_indegree ?k' n = int (card (?D n - insert x ?F))" if "n \<in> ?N" for n
  proof (cases "x \<in> ?D n")
    case True
    with that xs(2) have "k_indegree ?k' n = k_indegree k n - 1" by (simp add: fold_release(1)[OF xs(1)])
    with ind[OF that] card_step[OF True] pos[OF True] show ?thesis by simp
  next
    case False
    with xs(2) have "k_indegree ?k' n = k_indegree k n" by (simp add: fold_release(1)[OF xs(1)])
    moreover have "?D n - insert x ?F = ?D n - ?F" using False by blast
    ultimately show ?thesis using ind[OF that] by simp
  qed
  have new: "set (filter (\<lambda>n. k_indegree k n = 1) ?xs) = {n \<in> ?N. x \<in> ?D n \<and> ?D n \<subseteq> insert x ?F}"
  proof -
    have "card (?D n - ?F) = 1 \<longleftrightarrow> ?D n \<subseteq> insert x ?F" if "x \<in> ?D n" for n
      using card_Diff_1[OF that x(2)] by simp
    with ind xs(2) show ?thesis by auto
  qed
  have rdy: "k_ready ?k' = fold insort (filter (\<lambda>n. k_indegree k n = 1) ?xs) rest"
    by (simp add: fold_release(3)[OF xs(1)])
  have cl: "n \<in> ?F \<Longrightarrow> x \<notin> ?D n" for n using inv x(2) by (auto simp: kahn_inv_def)
  have rest: "set rest = ready_set ?N ?D ?F - {x}" using r sd(2) by auto
  have "set (k_ready ?k') = ready_set ?N ?D (insert x ?F)"
    using cl x unfolding rdy fold_insort_set new rest by (auto simp: ready_set_def)
  moreover have "distinct (k_ready ?k')"
  proof -
    have "set (filter (\<lambda>n. k_indegree k n = 1) ?xs) \<inter> set rest = {}"
      using x unfolding new rest by (auto simp: ready_set_def)
    with xs(1) sd(2) show ?thesis unfolding rdy by (intro fold_insort_distinct) auto
  qed
  moreover have "sorted (k_ready ?k')" using sd(1) unfolding rdy by (auto intro: fold_insort_sorted)
  ultimately show "kahn_inv ss ?k'"
    using ind' x inv unfolding kahn_inv_def ord by auto
qed

lemma kahn_loop_greedy:
  assumes ok: "dag_ok ss" and inv: "kahn_inv ss k"
    and fuel: "card (set (map stage_name ss) - set (k_ordered k)) \<le> fuel"
  shows "kahn_loop fuel (dependents_of ss) k
    = Some (k_ordered k @ greedy_order fuel (set (map stage_name ss)) (dep_set ss) (set (k_ordered k)))"
  using inv fuel
proof (induction fuel arbitrary: k)
  case 0
  then have "set (k_ready k) = {}" by (auto simp: kahn_inv_def ready_set_def)
  then have "k_ready k = []" by simp
  then show ?case by (simp add: kahn_loop.simps)
next
  case (Suc fuel)
  let ?N = "set (map stage_name ss)"
  show ?case
  proof (cases "k_ready k")
    case Nil
    then have "ready_set ?N (dep_set ss) (set (k_ordered k)) = {}" using Suc.prems(1) by (auto simp: kahn_inv_def)
    with Nil show ?thesis by (simp add: kahn_loop.simps)
  next
    case (Cons x rest)
    let ?k' = "fold release (sort (dependents_of ss x)) (k\<lparr>k_ready := rest, k_ordered := k_ordered k @ [x]\<rparr>)"
    note step = kahn_inv_step[OF ok Suc.prems(1) Cons]
    have r: "set (x # rest) = ready_set ?N (dep_set ss) (set (k_ordered k))"
      using Suc.prems(1) Cons by (simp add: kahn_inv_def)
    then have "x \<in> ?N - set (k_ordered k)" by (auto simp: ready_set_def)
    then have "card (?N - set (k_ordered ?k')) < card (?N - set (k_ordered k))"
      unfolding step(3) by (intro psubset_card_mono) auto
    with Suc.prems(2) have "card (?N - set (k_ordered ?k')) \<le> fuel" by simp
    with Suc.IH[OF step(1)] Cons r step(2,3) show ?thesis
      by (auto simp: kahn_loop.simps[of "Suc fuel"] Let_def)
  qed
qed


definition name_order :: "stage list \<Rightarrow> string list" where
  "name_order ss = greedy_order (length ss) (set (map stage_name ss)) (dep_set ss) {}"

lemma dag_ok_card: "dag_ok ss \<Longrightarrow> card (set (map stage_name ss)) = length ss"
  by (metis dag_ok_def distinct_card length_map)

lemma kahn_loop_start:
  assumes "dag_ok ss"
  shows "kahn_loop (length ss) (dependents_of ss) (kahn_start ss) = Some (name_order ss)"
  using kahn_loop_greedy[OF assms kahn_inv_start[OF assms], of "length ss"] dag_ok_card[OF assms]
  by (simp add: kahn_start_def name_order_def)

lemma name_order_props:
  assumes "dag_ok ss"
  shows "distinct (name_order ss)" and "set (name_order ss) = set (map stage_name ss)"
    and "deps_first (dep_set ss) {} (name_order ss)" and "length (name_order ss) = length ss"
  using greedy_order_sound[of "set (map stage_name ss)" "length ss" "dep_set ss" "{}"]
    stage_dag.greedy_complete[OF dag_ok_stage_dag[OF assms], of "{}" "length ss"]
    stage_dag.greedy_length[OF dag_ok_stage_dag[OF assms], of "{}" "length ss"] dag_ok_card[OF assms]
  by (auto simp: name_order_def)

subsection \<open>The canonical catalog is a valid registry\<close>

lemma canonical_stages_valid: "validate_registry (canonical_stages ''1.0.0'') = Inr (canonical_stages ''1.0.0'')"
  by code_simp

lemma canonical_dag_ok: "dag_ok (canonical_stages ''1.0.0'')"
  using canonical_stages_valid by (simp add: validate_registry_Inr)

interpretation canonical: stage_dag "set (map stage_name (canonical_stages ''1.0.0''))" "dep_set (canonical_stages ''1.0.0'')"
  by (rule dag_ok_stage_dag[OF canonical_dag_ok])

subsection \<open>The stages behind the names\<close>

lemma by_name_Some:
  "distinct (map stage_name ss) \<Longrightarrow> by_name ss n = Some s \<longleftrightarrow> s \<in> set ss \<and> stage_name s = n"
proof -
  assume d: "distinct (map stage_name ss)"
  then have "distinct (map fst (rev (map (\<lambda>s. (stage_name s, s)) ss)))"
    by (simp add: rev_map [symmetric] comp_def)
  from map_of_eq_Some_iff[OF this] show ?thesis by (auto simp: by_name_def)
qed

lemma topological_stages_eq:
  assumes ok: "dag_ok ss"
  shows "topological_stages ss = Inr (map (\<lambda>n. the (by_name ss n)) (name_order ss))"
proof -
  have d: "distinct (map stage_name ss)" using ok by (simp add: dag_ok_def)
  have "mapE (\<lambda>n. case by_name ss n of None \<Rightarrow> Inl (KeyError n) | Some s \<Rightarrow> Inr s) xs
      = Inr (map (\<lambda>n. the (by_name ss n)) xs)" if "set xs \<subseteq> set (map stage_name ss)" for xs
    using that
  proof (induction xs)
    case (Cons x xs)
    then obtain s where "s \<in> set ss" "stage_name s = x" by auto
    then have "by_name ss x = Some s" using by_name_Some[OF d] by blast
    with Cons show ?case by simp
  qed simp
  with name_order_props[OF ok] show ?thesis
    by (simp add: topological_stages_def kahn_loop_start[OF ok])
qed


lemma map_name_by_name:
  assumes ok: "dag_ok ss"
  shows "map stage_name (map (\<lambda>n. the (by_name ss n)) (name_order ss)) = name_order ss"
    and "mset (map (\<lambda>n. the (by_name ss n)) (name_order ss)) = mset ss"
proof -
  let ?out = "map (\<lambda>n. the (by_name ss n)) (name_order ss)"
  have d: "distinct (map stage_name ss)" using ok by (simp add: dag_ok_def)
  have get: "\<exists>s \<in> set ss. stage_name s = n \<and> the (by_name ss n) = s" if "n \<in> set (name_order ss)" for n
  proof -
    from that name_order_props(2)[OF ok] obtain s where "s \<in> set ss" "stage_name s = n" by auto
    then show ?thesis using by_name_Some[OF d, of n s] by auto
  qed
  then have "stage_name (the (by_name ss n)) = n" if "n \<in> set (name_order ss)" for n
    using that by blast
  then show names: "map stage_name ?out = name_order ss" by (simp add: map_idI)
  have "distinct (map stage_name ?out)" unfolding names by (rule name_order_props(1)[OF ok])
  then have "distinct ?out" by (simp only: distinct_map)
  moreover have "distinct ss" using d by (simp only: distinct_map)
  moreover have "set ?out = set ss"
  proof
    show "set ?out \<subseteq> set ss" using get by auto
    show "set ss \<subseteq> set ?out"
    proof
      fix s assume "s \<in> set ss"
      then have "by_name ss (stage_name s) = Some s" "stage_name s \<in> set (name_order ss)"
        using by_name_Some[OF d] name_order_props(2)[OF ok] by auto
      then have "s = (\<lambda>n. the (by_name ss n)) (stage_name s)" by simp
      then show "s \<in> set ?out" unfolding set_map using \<open>stage_name s \<in> set (name_order ss)\<close> by (rule image_eqI)
    qed
  qed
  ultimately show "mset ?out = mset ss" using set_eq_iff_mset_eq_distinct by blast
qed

text \<open>What one step of the greedy order picks, read off at a position of its result.\<close>

lemma greedy_order_nth:
  assumes "i < length (greedy_order k names deps fin)"
  shows "greedy_order k names deps fin ! i
     = Min (ready_set names deps (fin \<union> set (take i (greedy_order k names deps fin))))"
  using assms
proof (induction k arbitrary: fin i)
  case (Suc k)
  then show ?case by (cases i) (auto simp: Let_def split: if_splits)
qed simp

lemma greedy_order_least:
  assumes "finite names" and "i < length (greedy_order k names deps {})"
    and "n \<in> names" and "n \<notin> set (take i (greedy_order k names deps {}))"
    and "deps n \<subseteq> set (take i (greedy_order k names deps {}))"
  shows "greedy_order k names deps {} ! i \<le> n"
proof -
  have "n \<in> ready_set names deps ({} \<union> set (take i (greedy_order k names deps {})))"
    using assms by (auto simp: ready_set_def)
  then show ?thesis using assms(1) unfolding greedy_order_nth[OF assms(2)]
    by (intro Min_le) (auto simp: ready_set_def)
qed

lemma topological_stages_deps:
  assumes ok: "dag_ok ss" and out: "topological_stages ss = Inr out"
  shows "mset out = mset ss" and "map stage_name out = name_order ss"
    and "deps_first (dep_set ss) {} (map stage_name out)"
  using topological_stages_eq[OF ok] out map_name_by_name[OF ok] name_order_props(3)[OF ok] by auto

text \<open>
  C7. On a valid registry \<open>topological_stages\<close> never raises: it returns every registered stage
  exactly once, each after all of its dependencies, and at each position it takes the least
  name among the stages whose dependencies are all placed (the tie-breaking of the heap).
\<close>

theorem topological_stages_least_dependency_order:
  assumes ok: "dag_ok ss"
  shows "\<exists>out. topological_stages ss = Inr out \<and> mset out = mset ss \<and>
     (\<forall>i < length out. set (stage_dependencies (out ! i)) \<subseteq> set (map stage_name (take i out)) \<and>
        (\<forall>s \<in> set ss. s \<notin> set (take i out) \<and> set (stage_dependencies s) \<subseteq> set (map stage_name (take i out))
           \<longrightarrow> stage_name (out ! i) \<le> stage_name s))"
proof -
  let ?out = "map (\<lambda>n. the (by_name ss n)) (name_order ss)"
  have d: "distinct (map stage_name ss)" using ok by (simp add: dag_ok_def)
  have out: "topological_stages ss = Inr ?out" by (rule topological_stages_eq[OF ok])
  have names: "map stage_name ?out = name_order ss" and ms: "mset ?out = mset ss"
    by (rule map_name_by_name[OF ok])+
  have sub: "set ?out = set ss" using ms by (metis set_mset_mset)
  {
    fix i assume i: "i < length ?out"
    then have iss: "?out ! i \<in> set ss" using sub nth_mem by blast
    have ith: "stage_name (?out ! i) = name_order ss ! i" and li: "i < length (name_order ss)"
      and tk: "map stage_name (take i ?out) = take i (name_order ss)"
      using i names by (metis nth_map, simp, metis take_map)
    have "dep_set ss (name_order ss ! i) \<subseteq> set (take i (name_order ss))"
      using deps_first_nth[OF name_order_props(3)[OF ok] li] by simp
    then have 1: "set (stage_dependencies (?out ! i)) \<subseteq> set (map stage_name (take i ?out))"
      using dep_set_eq[OF d iss] unfolding tk ith by simp
    have 2: "stage_name (?out ! i) \<le> stage_name s"
      if s: "s \<in> set ss" "s \<notin> set (take i ?out)" "set (stage_dependencies s) \<subseteq> set (map stage_name (take i ?out))" for s
    proof -
      have "stage_name s \<notin> set (map stage_name (take i ?out))"
      proof
        assume "stage_name s \<in> set (map stage_name (take i ?out))"
        then obtain t where "t \<in> set (take i ?out)" "stage_name t = stage_name s" by auto
        moreover from this sub have "t \<in> set ss" by (metis in_set_takeD)
        ultimately show False using s(1,2) d by (metis distinct_map inj_onD)
      qed
      then have "stage_name s \<notin> set (take i (name_order ss))"
        "dep_set ss (stage_name s) \<subseteq> set (take i (name_order ss))"
        using s(3) dep_set_eq[OF d s(1)] unfolding tk by simp_all
      then show ?thesis using s(1) li unfolding ith unfolding name_order_def
        by (intro greedy_order_least) auto
    qed
    note 1 2
  }
  with out ms show ?thesis by blast
qed

theorem topological_stages_least_dependency_order_witness:
  "\<exists>out. topological_stages (canonical_stages ''1.0.0'') = Inr out \<and> mset out = mset (canonical_stages ''1.0.0'')"
  using topological_stages_least_dependency_order[OF canonical_dag_ok] by blast


subsection \<open>The result does not depend on the registration order\<close>

lemma dag_ok_permuted: "dag_ok ss \<Longrightarrow> mset ss = mset ss' \<Longrightarrow> dag_ok ss'"
proof -
  assume ok: "dag_ok ss" and m: "mset ss = mset ss'"
  have "set ss = set ss'" using m by (metis set_mset_mset)
  moreover from this have "dep_rel ss = dep_rel ss'" by (simp add: dep_rel_def)
  moreover have "mset (map stage_name ss) = mset (map stage_name ss')" using m by (metis mset_map)
  then have "distinct (map stage_name ss) = distinct (map stage_name ss')" by (rule mset_eq_imp_distinct_iff)
  ultimately show ?thesis using ok by (auto simp: dag_ok_def)
qed

text \<open>
  The execution order depends only on which stages are registered, not on the order of their
  registration.
\<close>

lemma topological_stages_ignores_registration_order:
  assumes ok: "dag_ok ss" and m: "mset ss = mset ss'"
  shows "topological_stages ss = topological_stages ss'"
proof -
  have ok': "dag_ok ss'" by (rule dag_ok_permuted[OF ok m])
  have sets: "set ss = set ss'" and len: "length ss = length ss'"
    using m by (metis set_mset_mset, metis size_mset)
  have "dep_set ss = dep_set ss'" using sets by (simp add: dep_set_def dep_rel_def fun_eq_iff)
  then have "name_order ss = name_order ss'" using sets len by (simp add: name_order_def)
  moreover have "by_name ss = by_name ss'"
  proof
    fix n
    have "by_name ss n = Some s \<longleftrightarrow> by_name ss' n = Some s" for s
      using ok ok' sets by (simp add: by_name_Some dag_ok_def)
    then show "by_name ss n = by_name ss' n" by (metis not_None_eq)
  qed
  ultimately show ?thesis using topological_stages_eq[OF ok] topological_stages_eq[OF ok'] by simp
qed

lemma topological_stages_ignores_registration_order_witness:
  "topological_stages (canonical_stages ''1.0.0'') = topological_stages (rev (canonical_stages ''1.0.0''))"
  by (rule topological_stages_ignores_registration_order[OF canonical_dag_ok mset_rev[symmetric]])

subsection \<open>The skip plan\<close>

lemma check_skips_Inr: "check_skips names xs = Inr () \<longleftrightarrow> (\<forall>x \<in> set xs. x \<noteq> [] \<and> x \<in> set names)"
  by (induction xs) auto

text \<open>Names reachable from an explicitly skipped stage against the dependency direction.\<close>

definition skip_closure :: "stage list \<Rightarrow> string list \<Rightarrow> string set" where
  "skip_closure ss skips = {n. \<exists>d \<in> set skips. (n, d) \<in> (dep_rel ss)\<^sup>*}"

definition planned :: "stage list \<Rightarrow> string list \<Rightarrow> stage \<Rightarrow> plan_entry" where
  "planned ss skips s =
     \<lparr>entry_stage = s,
      entry_skip = (if stage_name s \<in> set skips then Some REQUESTED
        else if stage_name s \<in> skip_closure ss skips then Some DEPENDENCY_SKIPPED else None),
      entry_blocked = (if stage_name s \<in> set skips then []
        else sort (filter (\<lambda>d. d \<in> skip_closure ss skips) (stage_dependencies s)))\<rparr>"

lemma skip_closure_step:
  assumes "distinct (map stage_name ss)" "s \<in> set ss"
  shows "stage_name s \<in> skip_closure ss skips \<longleftrightarrow>
     stage_name s \<in> set skips \<or> (\<exists>d \<in> set (stage_dependencies s). d \<in> skip_closure ss skips)"
proof -
  have "(stage_name s, d) \<in> dep_rel ss \<longleftrightarrow> d \<in> set (stage_dependencies s)" for d
    using dep_set_eq[OF assms] by (auto simp: dep_set_def)
  then show ?thesis unfolding skip_closure_def by (auto elim: converse_rtranclE intro: converse_rtrancl_into_rtrancl)
qed

lemma plan_loop_planned:
  assumes d: "distinct (map stage_name ss)" and sub: "set out \<subseteq> set ss"
    and first: "deps_first (dep_set ss) fin (map stage_name out)"
    and skipped: "skipped = skip_closure ss skips \<inter> fin"
  shows "plan_loop skips skipped out = Inr (map (planned ss skips) out)"
  using sub first skipped
proof (induction out arbitrary: fin skipped)
  case (Cons s out)
  have s: "s \<in> set ss" using Cons.prems by simp
  have deps: "set (stage_dependencies s) \<subseteq> fin" using Cons.prems(2) dep_set_eq[OF d s] by simp
  have f: "filter (\<lambda>d. d \<in> skipped) (stage_dependencies s)
      = filter (\<lambda>d. d \<in> skip_closure ss skips) (stage_dependencies s)"
    using deps Cons.prems(3) by (intro filter_cong) auto
  note step = skip_closure_step[OF d s, of skips]
  have blocked: "sort (filter (\<lambda>d. d \<in> skip_closure ss skips) (stage_dependencies s)) = []
      \<longleftrightarrow> (\<forall>d \<in> set (stage_dependencies s). d \<notin> skip_closure ss skips)"
    by (simp add: filter_empty_conv Ball_def flip: set_empty)
  have IH: "plan_loop skips sk out = Inr (map (planned ss skips) out)"
    if "sk = skip_closure ss skips \<inter> insert (stage_name s) fin" for sk
    using Cons.prems that by (intro Cons.IH[of "insert (stage_name s) fin"]) auto
  consider (req) "stage_name s \<in> set skips"
    | (dep) "stage_name s \<notin> set skips" "stage_name s \<in> skip_closure ss skips"
    | (run) "stage_name s \<notin> skip_closure ss skips" "stage_name s \<notin> set skips"
    by blast
  then show ?case
  proof cases
    case req
    with step have "stage_name s \<in> skip_closure ss skips" by blast
    with Cons.prems(3) have "plan_loop skips (insert (stage_name s) skipped) out = Inr (map (planned ss skips) out)"
      by (intro IH) auto
    with req show ?thesis by (simp add: make_plan_entry_def planned_def)
  next
    case dep
    with Cons.prems(3) have "plan_loop skips (insert (stage_name s) skipped) out = Inr (map (planned ss skips) out)"
      by (intro IH) auto
    moreover have "sort (filter (\<lambda>d. d \<in> skip_closure ss skips) (stage_dependencies s)) \<noteq> []"
      using dep step blocked by blast
    ultimately show ?thesis using dep by (simp add: f Let_def make_plan_entry_def planned_def)
  next
    case run
    have "plan_loop skips skipped out = Inr (map (planned ss skips) out)"
      using run Cons.prems(3) by (intro IH) auto
    moreover have "sort (filter (\<lambda>d. d \<in> skip_closure ss skips) (stage_dependencies s)) = []"
      using run step blocked by blast
    ultimately show ?thesis using run by (simp add: f Let_def make_plan_entry_def planned_def)
  qed
qed simp

lemma build_plan_eq:
  assumes ok: "dag_ok ss" and skips: "distinct skips" "set skips \<subseteq> set (registry_names ss)"
    and out: "topological_stages ss = Inr out"
  shows "build_plan ss skips = Inr (map (planned ss skips) out)"
proof -
  have d: "distinct (map stage_name ss)" using ok by (simp add: dag_ok_def)
  have "[] \<notin> set (registry_names ss)" using ok by (auto simp: registry_names_def dag_ok_def metadata_ok_def
        validate_stage_metadata_Inr stage_name_re_def token_match_def)
  with skips(2) have "check_skips (registry_names ss) skips = Inr ()" by (auto simp: check_skips_Inr)
  moreover have "set out \<subseteq> set ss" using topological_stages_deps(1)[OF ok out] by (metis set_mset_mset order_refl)
  then have "plan_loop skips {} out = Inr (map (planned ss skips) out)"
    using topological_stages_deps(3)[OF ok out] by (intro plan_loop_planned[OF d]) auto
  ultimately show ?thesis using skips(1) out by (simp add: build_plan_def)
qed

text \<open>The entries of a plan that are skipped are the stages of the closure.\<close>

lemma planned_skipped: "entry_skip (planned ss skips s) \<noteq> None \<longleftrightarrow> stage_name s \<in> skip_closure ss skips"
  by (auto simp: planned_def skip_closure_def)

definition skipped_in :: "plan_entry list \<Rightarrow> string \<Rightarrow> bool" where
  "skipped_in plan n \<longleftrightarrow> (\<exists>e \<in> set plan. stage_name (entry_stage e) = n \<and> entry_skip e \<noteq> None)"

lemma skipped_in_planned:
  assumes "n \<in> set (map stage_name out)"
  shows "skipped_in (map (planned ss skips) out) n \<longleftrightarrow> n \<in> skip_closure ss skips"
proof -
  have "entry_stage (planned ss skips s) = s" for s by (simp add: planned_def)
  then show ?thesis using assms unfolding skipped_in_def by (force simp del: not_None_eq simp: planned_skipped)
qed

lemma registered_dependency:
  assumes ok: "dag_ok ss" and out: "topological_stages ss = Inr out" and s: "s \<in> set out"
    and x: "x \<in> set (stage_dependencies s)"
  shows "x \<in> set (map stage_name out)"
proof -
  note facts = topological_stages_deps[OF ok out]
  have d: "distinct (map stage_name ss)" using ok by (simp add: dag_ok_def)
  have "s \<in> set ss" using facts(1) s by (metis set_mset_mset)
  then have "x \<in> dep_set ss (stage_name s)" using dep_set_eq[OF d] x by simp
  moreover obtain i where i: "i < length out" "out ! i = s" using s by (auto simp: in_set_conv_nth)
  then have "dep_set ss (map stage_name out ! i) \<subseteq> {} \<union> set (take i (map stage_name out))"
    by (intro deps_first_nth[OF facts(3)]) simp
  ultimately show ?thesis using i by (auto simp: take_map dest: in_set_takeD)
qed

text \<open>
  C8. With distinct registered skip names \<open>build_plan\<close> never raises; the plan is the execution
  order with one decision per stage: REQUESTED exactly for the requested names,
  DEPENDENCY\_SKIPPED exactly for the other stages that depend (transitively) on a requested one.
  A dependency-skipped entry is blocked by exactly those of its direct dependencies that are
  themselves skipped in the plan, in sorted order, and there is at least one; the other entries are
  blocked by nothing.
\<close>

theorem build_plan_skips_downstream_closure:
  assumes ok: "dag_ok ss" and skips: "distinct skips" "set skips \<subseteq> set (registry_names ss)"
  shows "\<exists>out plan. topological_stages ss = Inr out \<and> build_plan ss skips = Inr plan \<and>
     map entry_stage plan = out \<and>
     (\<forall>e \<in> set plan. let n = stage_name (entry_stage e) in
        (entry_skip e = Some REQUESTED \<longleftrightarrow> n \<in> set skips) \<and>
        (entry_skip e = Some DEPENDENCY_SKIPPED \<longleftrightarrow>
           n \<notin> set skips \<and> (\<exists>d \<in> set skips. (n, d) \<in> (dep_rel ss)\<^sup>+)) \<and>
        entry_blocked e = (if entry_skip e = Some DEPENDENCY_SKIPPED
          then sort (filter (skipped_in plan) (stage_dependencies (entry_stage e))) else []) \<and>
        sorted (entry_blocked e) \<and>
        (entry_blocked e \<noteq> [] \<longleftrightarrow> entry_skip e = Some DEPENDENCY_SKIPPED))"
proof -
  have d: "distinct (map stage_name ss)" using ok by (simp add: dag_ok_def)
  obtain out where out: "topological_stages ss = Inr out" using topological_stages_eq[OF ok] by blast
  let ?plan = "map (planned ss skips) out"
  note facts = topological_stages_deps[OF ok out]
  have sub: "set out \<subseteq> set ss" using facts(1) by (metis set_mset_mset order_refl)
  have cl: "n \<in> skip_closure ss skips \<longleftrightarrow> (\<exists>d \<in> set skips. (n, d) \<in> (dep_rel ss)\<^sup>+)" if "n \<notin> set skips" for n
    using that unfolding skip_closure_def by (auto simp: rtrancl_eq_or_trancl)
  have step: "stage_name s \<in> skip_closure ss skips \<longleftrightarrow>
      stage_name s \<in> set skips \<or> (\<exists>x \<in> set (stage_dependencies s). x \<in> skip_closure ss skips)" if "s \<in> set out" for s
    using skip_closure_step[OF d, of s skips] that sub by blast
  have deps: "filter (skipped_in ?plan) (stage_dependencies s) =
      filter (\<lambda>x. x \<in> skip_closure ss skips) (stage_dependencies s)" if s: "s \<in> set out" for s
  proof (rule filter_cong[OF refl])
    fix x assume "x \<in> set (stage_dependencies s)"
    then have "x \<in> set (map stage_name out)" by (rule registered_dependency[OF ok out s])
    then show "skipped_in ?plan x \<longleftrightarrow> x \<in> skip_closure ss skips" by (rule skipped_in_planned)
  qed
  have none: "sort (filter (\<lambda>x. x \<in> skip_closure ss skips) (stage_dependencies s)) = []
        \<longleftrightarrow> (\<forall>x \<in> set (stage_dependencies s). x \<notin> skip_closure ss skips)" for s
    by (simp add: filter_empty_conv Ball_def flip: set_empty)
  show ?thesis
  proof (intro exI conjI ballI)
    fix e assume "e \<in> set ?plan"
    then obtain s where s: "s \<in> set out" "e = planned ss skips s" by auto
    have e: "entry_stage e = s" by (simp add: s planned_def)
    show "let n = stage_name (entry_stage e) in
        (entry_skip e = Some REQUESTED \<longleftrightarrow> n \<in> set skips) \<and>
        (entry_skip e = Some DEPENDENCY_SKIPPED \<longleftrightarrow>
           n \<notin> set skips \<and> (\<exists>d \<in> set skips. (n, d) \<in> (dep_rel ss)\<^sup>+)) \<and>
        entry_blocked e = (if entry_skip e = Some DEPENDENCY_SKIPPED
          then sort (filter (skipped_in ?plan) (stage_dependencies (entry_stage e))) else []) \<and>
        sorted (entry_blocked e) \<and>
        (entry_blocked e \<noteq> [] \<longleftrightarrow> entry_skip e = Some DEPENDENCY_SKIPPED)"
      unfolding e deps[OF s(1)] using cl[of "stage_name s"] step[OF s(1)] none[of s]
      by (cases "stage_name s \<in> set skips"; cases "stage_name s \<in> skip_closure ss skips")
         (simp_all add: s(2) planned_def Let_def)
  qed (use out build_plan_eq[OF ok skips out] in \<open>simp_all add: planned_def comp_def\<close>)
qed

theorem build_plan_skips_downstream_closure_witness:
  "\<exists>plan. build_plan (canonical_stages ''1.0.0'') [''roads''] = Inr plan \<and>
     (\<forall>e \<in> set plan. entry_skip e = Some DEPENDENCY_SKIPPED \<longrightarrow> entry_blocked e =
        sort (filter (skipped_in plan) (stage_dependencies (entry_stage e))))"
proof -
  have "distinct [''roads'']" "set [''roads''] \<subseteq> set (registry_names (canonical_stages ''1.0.0''))"
    by code_simp+
  from build_plan_skips_downstream_closure[OF canonical_dag_ok this] show ?thesis
    unfolding Let_def by force
qed

text \<open>
  In a plan every dependency of an executable entry is an executable entry that stands earlier in
  the plan.
\<close>

lemma plan_dependencies_first:
  assumes ok: "dag_ok ss" and plan: "build_plan ss skips = Inr plan"
    and i: "i < length plan" "should_execute (plan ! i)"
    and d: "d \<in> set (stage_dependencies (entry_stage (plan ! i)))"
  shows "\<exists>j < i. should_execute (plan ! j) \<and> stage_name (entry_stage (plan ! j)) = d"
proof -
  have dist: "distinct (map stage_name ss)" using ok by (simp add: dag_ok_def)
  obtain out where out: "topological_stages ss = Inr out" using topological_stages_eq[OF ok] by blast
  have skips: "distinct skips" "set skips \<subseteq> set (registry_names ss)"
    using plan by (auto simp: build_plan_def bindE_Inr_iff check_skips_Inr split: if_splits)
  have p: "plan = map (planned ss skips) out" using plan build_plan_eq[OF ok skips out] by simp
  have li: "i < length out" using i(1) p by simp
  let ?s = "out ! i"
  have s: "?s \<in> set ss" using li topological_stages_deps(1)[OF ok out] by (metis nth_mem set_mset_mset)
  have d': "d \<in> dep_set ss (stage_name ?s)" using d li dep_set_eq[OF dist s] by (simp add: p planned_def)
  moreover have "dep_set ss (map stage_name out ! i) \<subseteq> {} \<union> set (take i (map stage_name out))"
    using li by (intro deps_first_nth[OF topological_stages_deps(3)[OF ok out]]) simp
  ultimately have "d \<in> set (take i (map stage_name out))" using li by auto
  then obtain j where j: "j < i" "stage_name (out ! j) = d" using li by (auto simp: in_set_conv_nth)
  have "stage_name ?s \<notin> skip_closure ss skips" "stage_name ?s \<notin> set skips"
    using i li by (auto simp: p planned_def should_execute_def split: if_splits)
  then have "d \<notin> skip_closure ss skips"
    using skip_closure_step[OF dist s] d' dep_set_eq[OF dist s] by blast
  moreover have "out ! j \<in> set ss"
    using j li topological_stages_deps(1)[OF ok out] by (metis nth_mem set_mset_mset order.strict_trans)
  ultimately have "should_execute (planned ss skips (out ! j))"
    using j(2) skip_closure_step[OF dist, of "out ! j" skips] by (auto simp: planned_def should_execute_def)
  with j li show ?thesis by (auto simp: p planned_def)
qed

text \<open>
  \<open>build_plan\<close> fails exactly for a skip list with duplicates or with a name that is not
  registered.
\<close>

lemma build_plan_rejects_exactly_bad_skips:
  assumes ok: "dag_ok ss"
  shows "(\<exists>e. build_plan ss skips = Inl e) \<longleftrightarrow>
     \<not> distinct skips \<or> \<not> set skips \<subseteq> set (registry_names ss)"
proof
  assume "\<exists>e. build_plan ss skips = Inl e"
  then show "\<not> distinct skips \<or> \<not> set skips \<subseteq> set (registry_names ss)"
    using build_plan_eq[OF ok] topological_stages_eq[OF ok] by fastforce
next
  assume "\<not> distinct skips \<or> \<not> set skips \<subseteq> set (registry_names ss)"
  moreover have "build_plan ss skips = Inr plan \<Longrightarrow>
      distinct skips \<and> set skips \<subseteq> set (registry_names ss)" for plan
    by (auto simp: build_plan_def bindE_Inr_iff check_skips_Inr split: if_splits)
  ultimately show "\<exists>e. build_plan ss skips = Inl e" by (cases "build_plan ss skips") auto
qed

lemma build_plan_rejects_exactly_bad_skips_witness:
  "\<exists>e. build_plan (canonical_stages ''1.0.0'') [''parks''] = Inl e"
proof -
  have "\<not> set [''parks''] \<subseteq> set (registry_names (canonical_stages ''1.0.0''))" by code_simp
  then show ?thesis using build_plan_rejects_exactly_bad_skips[OF canonical_dag_ok] by blast
qed

text \<open>
  The canonical catalog is executed exactly in the documented order
  \<open>CANONICAL_STAGE_ORDER\<close>: the declared dependencies admit no other order under the
  registry's tie-breaking, and nothing is rejected.
\<close>

lemma canonical_catalog_order:
  "bindE (validate_registry (canonical_stages ''1.0.0'')) topological_stages = Inr (canonical_stages ''1.0.0'') \<and>
   map stage_name (canonical_stages ''1.0.0'') = canonical_stage_order"
  by code_simp

end
