(* ===== verification/Generation_State.thy ===== *)
theory Generation_State
  imports Scenario_Batch Checkpoints Stage_Plan
begin

text \<open>
  The database-authoritative lifecycle of a generation run
  (\<open>backend/app/db/generation_state.py\<close>), one function per transaction, with the clock reading and
  new row ids as arguments; the claim dispositions and the retry backoff of
  \<open>backend/app/application/generation.py\<close>. The two clock readings of a claim are two arguments.
\<close>

subsection \<open>Errors recorded in rows\<close>

definition generation_retry_delay_seconds :: "int \<Rightarrow> exc + int" where
  "generation_retry_delay_seconds attempt_count =
     (if attempt_count < 1 then Inl (ValueError ''attempt_count must be a positive integer'')
      else Inr (min (30 * 2 ^ nat (min (attempt_count - 1) 4)) 300))"

definition gen_error :: "string \<Rightarrow> exc" where
  "gen_error m = GenerationExecutionError m"

text \<open>\<open>except GenerationExecutionError\<close>: \<open>GenerationRetryScheduled\<close> is a subclass.\<close>

definition is_generation_error :: "exc \<Rightarrow> bool" where
  "is_generation_error e =
     (case e of GenerationExecutionError _ \<Rightarrow> True | GenerationRetryScheduled _ \<Rightarrow> True | _ \<Rightarrow> False)"

subsection \<open>Row loading\<close>

definition GENERATION_JOB_TYPE :: string where
  "GENERATION_JOB_TYPE = ''generation_run''"

definition get_run :: "uuid \<Rightarrow> db \<Rightarrow> exc + run" where
  "get_run i d =
     (case find_run i d of
        None \<Rightarrow> Inl (gen_error (''generation run does not exist: '' @ uuid_str i))
      | Some r \<Rightarrow> Inr r)"

definition generation_jobs :: "uuid \<Rightarrow> db \<Rightarrow> job list" where
  "generation_jobs i d = filter (\<lambda>j. job_run_id j = Some i \<and> job_type j = GENERATION_JOB_TYPE) (db_jobs d)"

definition get_job :: "run \<Rightarrow> db \<Rightarrow> exc + job" where
  "get_job r d =
     (case generation_jobs (run_id r) d of
        [j] \<Rightarrow> if job_project_id j \<noteq> run_project_id r
               then Inl (gen_error ''generation job project does not own the run'') else Inr j
      | _ \<Rightarrow> Inl (gen_error ''generation requires exactly one matching DB-authoritative job''))"

definition require_running :: "uuid \<Rightarrow> db \<Rightarrow> exc + run" where
  "require_running i d =
     bindE (get_run i d) (\<lambda>r.
     if run_status r \<noteq> Running then Inl (gen_error ''generation run must be running'') else Inr r)"

definition require_not_cancelled :: "job \<Rightarrow> exc + unit" where
  "require_not_cancelled j =
     (if job_cancel_requested_at j \<noteq> None
      then Inl (ug_exc CancelledError ''generation cancellation requested'' []) else Inr ())"

definition get_stage :: "uuid \<Rightarrow> string \<Rightarrow> db \<Rightarrow> exc + stage_row" where
  "get_stage i name d =
     (case find_stage_row i name d of
        None \<Rightarrow> Inl (gen_error (''stage result does not exist: '' @ name))
      | Some s \<Rightarrow> Inr s)"

subsection \<open>Claim\<close>

datatype claim_disposition = STARTED | ALREADY_SUCCEEDED | IN_PROGRESS | CLAIM_CANCELLED

text \<open>The remaining backoff in whole seconds, rounded up: \<open>max(1, ceil(remaining))\<close>.\<close>

definition ceil_seconds :: "int \<Rightarrow> int" where
  "ceil_seconds us = (us + 999999) div 1000000"

definition retry_gate :: "time \<Rightarrow> job \<Rightarrow> exc + unit" where
  "retry_gate check_time j =
     (case (job_error j, job_finished_at j) of
        (Some err, Some fin) \<Rightarrow>
          if job_error_class j = Some ''transient'' \<and> json_get ''retryable'' err = Some (JBool True) then
            bindE (generation_retry_delay_seconds (job_attempts j)) (\<lambda>delay.
            let remaining = fin + seconds delay - check_time in
            if remaining > 0 then Inl (GenerationRetryScheduled (max 1 (ceil_seconds remaining))) else Inr ())
          else Inr ()
      | _ \<Rightarrow> Inr ())"

definition start_run :: "time \<Rightarrow> run \<Rightarrow> run" where
  "start_run now r = r\<lparr>run_status := Running, run_started_at := Some now, run_finished_at := None, run_error := None\<rparr>"

definition start_job :: "time \<Rightarrow> job \<Rightarrow> job" where
  "start_job now j = j\<lparr>job_status := Running, job_attempts := job_attempts j + 1, job_started_at := Some now,
     job_finished_at := None, job_error_class := None, job_error_code := None, job_error := None\<rparr>"

definition start_batch :: "time \<Rightarrow> batch option \<Rightarrow> db \<Rightarrow> db" where
  "start_batch now ob d =
     (case ob of
        Some b \<Rightarrow> if batch_status b = BQueued
                  then set_batch (b\<lparr>batch_status := BRunning, batch_started_at := Some now\<rparr>) d else d
      | None \<Rightarrow> d)"

definition claim :: "uuid \<Rightarrow> time \<Rightarrow> time \<Rightarrow> db \<Rightarrow> exc + claim_disposition \<times> db" where
  "claim i check_time now d =
     (let ob = locked_batch_for_run i d in
      bindE (get_run i d) (\<lambda>r. bindE (get_job r d) (\<lambda>j.
      if run_status r = Succeeded \<and> job_status j = Succeeded then Inr (ALREADY_SUCCEEDED, d)
      else if run_status r = Cancelled \<and> job_status j = Cancelled then Inr (CLAIM_CANCELLED, d)
      else if run_status r = Running \<and> job_status j = Running then Inr (IN_PROGRESS, d)
      else if run_status r \<noteq> Queued \<or> job_status j \<noteq> Queued
        then Inl (gen_error ''generation requires matching queued run and job states'')
      else bindE (require_not_cancelled j) (\<lambda>_. bindE (retry_gate check_time j) (\<lambda>_.
      if job_attempts j \<ge> job_max_attempts j
        then Inl (gen_error ''generation job attempt budget exhausted'')
      else if \<not> (case run_commit_sha r of None \<Rightarrow> False | Some c \<Rightarrow> commit_re c)
        then Inl (gen_error ''generation requires a persisted 40-character code commit SHA'')
      else bindE (case ob of None \<Rightarrow> Inr () | Some b \<Rightarrow> require_batch_capacity b d) (\<lambda>_.
      bindE (flush d (set_job (start_job now j) (set_run (start_run now r) (start_batch now ob d)))) (\<lambda>d'.
      Inr (STARTED, d')))))))) "

subsection \<open>Cancellation\<close>

definition cancellation :: "string option \<Rightarrow> ug_error" where
  "cancellation sn =
     \<lparr>err_class = CancelledError, err_message = ''generation cancelled'',
       err_details = [(''stage_name'', case sn of None \<Rightarrow> ''assembly''
                                        | Some s \<Rightarrow> if s = [] then ''assembly'' else s)]\<rparr>"

definition cancel_run_row :: "string option \<Rightarrow> time \<Rightarrow> run \<Rightarrow> run" where
  "cancel_run_row sn now r =
     r\<lparr>run_status := Cancelled, run_finished_at := Some now,
       run_error := Some (JObj [(''error_class'', JStr (category_value (err_category (cancellation sn)))),
         (''error_code'', JStr (code_value (err_code (cancellation sn)))),
         (''message'', JStr (err_message (cancellation sn))),
         (''details'', str_json (err_details (cancellation sn)))])\<rparr>"

definition cancel_job_row :: "string option \<Rightarrow> time \<Rightarrow> job \<Rightarrow> job" where
  "cancel_job_row sn now j = (record_failure (cancellation sn) j)\<lparr>job_finished_at := Some now\<rparr>"

definition request_cancel :: "uuid \<Rightarrow> time \<Rightarrow> db \<Rightarrow> exc + bool \<times> db" where
  "request_cancel i now d =
     bindE (get_run i d) (\<lambda>r. bindE (get_job r d) (\<lambda>j.
     if run_status r \<in> {Succeeded, Failed, Cancelled} then Inr (False, d)
     else if run_status r \<notin> {Queued, Running} \<or> job_status j \<noteq> run_status r
       then Inl (gen_error ''generation cancellation requires matching run and job states'')
     else if job_cancel_requested_at j \<noteq> None then Inr (False, d)
     else
       let j1 = j\<lparr>job_cancel_requested_at := Some now\<rparr> in
       if run_status r = Queued then
         bindE (flush d (set_job (cancel_job_row (Some ''queued'') now j1) (set_run (cancel_run_row (Some ''queued'') now r) d)))
           (\<lambda>d'. Inr (True, d'))
       else bindE (flush d (set_job j1 d)) (\<lambda>d'. Inr (True, d'))))"

definition check_cancelled :: "uuid \<Rightarrow> db \<Rightarrow> exc + unit" where
  "check_cancelled i d = bindE (get_run i d) (\<lambda>r. bindE (get_job r d) require_not_cancelled)"

definition diag_json :: "string \<Rightarrow> string \<Rightarrow> string \<Rightarrow> json" where
  "diag_json code message level = JObj [(''code'', JStr code), (''message'', JStr message), (''level'', JStr level)]"

definition cancel_stage :: "uuid \<Rightarrow> string \<Rightarrow> time \<Rightarrow> db \<Rightarrow> exc + db" where
  "cancel_stage i name now d =
     bindE (get_run i d) (\<lambda>r.
     if run_status r \<noteq> Running then Inr d
     else case find_stage_row i name d of
         None \<Rightarrow> Inr d
       | Some s \<Rightarrow>
           if srow_status s \<notin> {SRunning, SFailed} then Inr d
           else flush d (set_stage_row (s\<lparr>srow_status := SCancelled, srow_finished_at := Some now,
                  srow_fingerprint := None,
                  srow_diagnostics := [diag_json ''stage.cancelled'' ''generation cancellation requested'' ''INFO'']\<rparr>) d))"

definition cancel_run :: "uuid \<Rightarrow> string option \<Rightarrow> time \<Rightarrow> db \<Rightarrow> exc + db" where
  "cancel_run i sn now d =
     bindE (get_run i d) (\<lambda>r. bindE (get_job r d) (\<lambda>j.
     if run_status r = Cancelled \<and> job_status j = Cancelled then Inr d
     else if run_status r \<noteq> Running \<or> job_status j \<noteq> Running
       then Inl (gen_error ''only a matching running generation can be cancelled'')
     else
       let j1 = (if job_cancel_requested_at j = None then j\<lparr>job_cancel_requested_at := Some now\<rparr> else j) in
       flush d (set_job (cancel_job_row sn now j1) (set_run (cancel_run_row sn now r) d))))"

subsection \<open>Stages\<close>

record 'v stage_invocation =
  inv_stage_input :: 'v
  inv_input_parts :: "hash_part list"
  inv_config_parts :: "hash_part list"

definition resolve_identity ::
  "(bytes \<Rightarrow> string) \<Rightarrow> uuid \<Rightarrow> stage \<Rightarrow> 'v stage_invocation \<Rightarrow> db \<Rightarrow> exc + checkpoint_identity" where
  "resolve_identity hexdigest i s iv d =
     bindE (resolve_checkpoint hexdigest i (stage_name s) (stage_version s) (inv_input_parts iv)
              (inv_config_parts iv) (stage_dependencies s) d) (\<lambda>res.
     if resolved_reusable res \<noteq> None
     then Inl (gen_error ''persisted checkpoint output cannot be used without typed output hydration'')
     else Inr (resolved_identity res))"

definition running_row :: "uuid \<Rightarrow> uuid \<Rightarrow> time \<Rightarrow> checkpoint_identity \<Rightarrow> stage_row" where
  "running_row fresh i now x =
     \<lparr>srow_id = fresh, srow_run_id = i, srow_stage = cp_stage x, srow_version = cp_version x,
       srow_status = SRunning, srow_progress = 0, srow_input_hash = cp_input_hash x,
       srow_config_hash = cp_config_hash x, srow_fingerprint = None, srow_diagnostics = [],
       srow_artifact_refs = [], srow_started_at = Some now, srow_finished_at = None, srow_created_at = now\<rparr>"

definition start_stage :: "uuid \<Rightarrow> uuid \<Rightarrow> checkpoint_identity \<Rightarrow> time \<Rightarrow> db \<Rightarrow> exc + db" where
  "start_stage fresh i x now d =
     bindE (require_running i d) (\<lambda>r. bindE (get_job r d) (\<lambda>j. bindE (require_not_cancelled j) (\<lambda>_.
     if find_stage_row i (cp_stage x) d \<noteq> None
     then Inl (gen_error (''stage result already exists: '' @ cp_stage x))
     else flush d (add_stage_row (running_row fresh i now x) d))))"

definition result_diagnostics :: "'o stage_result \<Rightarrow> json list" where
  "result_diagnostics res =
     map (\<lambda>x. diag_json (diag_code x) (diag_message x) (level_value (diag_level x))) (res_diagnostics res)"

definition complete_stage :: "uuid \<Rightarrow> string \<Rightarrow> 'o stage_result \<Rightarrow> time \<Rightarrow> db \<Rightarrow> exc + db" where
  "complete_stage i name res now d =
     bindE (require_running i d) (\<lambda>r. bindE (get_job r d) (\<lambda>j. bindE (require_not_cancelled j) (\<lambda>_.
     bindE (get_stage i name d) (\<lambda>s.
     if srow_status s \<noteq> SRunning
     then Inl (gen_error (''stage must be running before completion: '' @ name))
     else flush d (set_stage_row (s\<lparr>srow_status := SSucceeded, srow_progress := 100,
            srow_fingerprint := Some (fp_value (res_fingerprint res)),
            srow_diagnostics := result_diagnostics res, srow_finished_at := Some now\<rparr>) d)))))"

definition skip_parts :: "stage \<Rightarrow> skip_reason \<Rightarrow> string list \<Rightarrow> hash_part list" where
  "skip_parts s reason blocked =
     TextPart ''stage-skip:v1'' # TextPart (skip_value reason) # TextPart (stage_name s) # map TextPart blocked"

definition skipped_row ::
  "uuid \<Rightarrow> uuid \<Rightarrow> stage \<Rightarrow> skip_reason \<Rightarrow> string list \<Rightarrow> string \<Rightarrow> string \<Rightarrow> time \<Rightarrow> stage_row" where
  "skipped_row fresh i s reason blocked ih ch now =
     \<lparr>srow_id = fresh, srow_run_id = i, srow_stage = stage_name s, srow_version = stage_version s,
       srow_status = SSkipped, srow_progress = 100, srow_input_hash = ih, srow_config_hash = ch,
       srow_fingerprint = None,
       srow_diagnostics = [JObj [(''code'', JStr ''stage.skipped''), (''message'', JStr (skip_value reason)),
          (''level'', JStr ''INFO''), (''blocked_by'', JArr (map JStr blocked))]],
       srow_artifact_refs = [], srow_started_at = Some now, srow_finished_at = Some now, srow_created_at = now\<rparr>"

definition skip_stage ::
  "(bytes \<Rightarrow> string) \<Rightarrow> uuid \<Rightarrow> uuid \<Rightarrow> stage \<Rightarrow> skip_reason \<Rightarrow> string list \<Rightarrow> time \<Rightarrow> db \<Rightarrow> exc + db" where
  "skip_stage hexdigest fresh i s reason blocked now d =
     bindE (require_running i d) (\<lambda>r. bindE (get_job r d) (\<lambda>j. bindE (require_not_cancelled j) (\<lambda>_.
     if find_stage_row i (stage_name s) d \<noteq> None
     then Inl (gen_error (''stage result already exists: '' @ stage_name s))
     else
       bindE (build_resolved_input_hash hexdigest (skip_parts s reason blocked) [] []) (\<lambda>ih.
       bindE (build_config_hash hexdigest [TextPart ''stage-skip:v1'']) (\<lambda>ch.
       flush d (add_stage_row (skipped_row fresh i s reason blocked ih ch now) d))))))"

definition fail_stage :: "uuid \<Rightarrow> string \<Rightarrow> time \<Rightarrow> db \<Rightarrow> exc + db" where
  "fail_stage i name now d =
     bindE (get_run i d) (\<lambda>r.
     if run_status r \<noteq> Running then Inr d
     else case find_stage_row i name d of
         None \<Rightarrow> Inr d
       | Some s \<Rightarrow>
           if srow_status s \<noteq> SRunning then Inr d
           else bindE (get_job r d) (\<lambda>j. bindE (require_not_cancelled j) (\<lambda>_.
             flush d (set_stage_row (s\<lparr>srow_status := SFailed, srow_finished_at := Some now,
               srow_diagnostics := [diag_json ''stage.execution_failed'' ''stage execution failed'' ''WARNING'']\<rparr>) d))))"

subsection \<open>Completion and failure of a run\<close>

definition stage_row_done :: "stage_row \<Rightarrow> bool" where
  "stage_row_done s =
     (srow_status s \<in> {SSucceeded, SSkipped} \<and> (srow_status s = SSucceeded \<longrightarrow> srow_fingerprint s \<noteq> None))"

definition complete_run :: "uuid \<Rightarrow> string list \<Rightarrow> time \<Rightarrow> db \<Rightarrow> exc + db" where
  "complete_run i expected now d =
     bindE (require_running i d) (\<lambda>r. bindE (get_job r d) (\<lambda>j. bindE (require_not_cancelled j) (\<lambda>_.
     let rows = stage_rows i d in
     if length rows \<noteq> length expected \<or> set (map srow_stage rows) \<noteq> set expected
        \<or> \<not> list_all stage_row_done rows
     then Inl (gen_error ''cannot complete generation with missing or incomplete stage results'')
     else if run_commit_sha r = None
     then Inl (gen_error ''cannot complete generation without code commit SHA'')
     else if job_status j \<noteq> Running
     then Inl (gen_error ''generation job must be running before completion'')
     else flush d (set_job (j\<lparr>job_status := Succeeded, job_finished_at := Some now, job_error_class := None,
                      job_error_code := None, job_error := None\<rparr>)
                    (set_run (r\<lparr>run_status := Succeeded, run_finished_at := Some now\<rparr>) d)))))"

definition failure_details :: "string option \<Rightarrow> ug_error \<Rightarrow> (string \<times> string) list" where
  "failure_details sn e =
     dict_merge [(''stage_name'', case sn of None \<Rightarrow> ''assembly''
                                    | Some s \<Rightarrow> if s = [] then ''assembly'' else s)] (err_details e)"

definition fail_run :: "uuid \<Rightarrow> string option \<Rightarrow> ug_error \<Rightarrow> time \<Rightarrow> db \<Rightarrow> exc + int option \<times> db" where
  "fail_run i sn e now d =
     bindE (get_run i d) (\<lambda>r.
     if run_status r \<noteq> Running then Inl (gen_error ''generation run must be running to record failure'')
     else bindE (get_job r d) (\<lambda>j.
     if job_status j \<noteq> Running then Inl (gen_error ''generation job must be running to record failure'')
     else bindE (require_not_cancelled j) (\<lambda>_.
     let retryable = err_retryable e \<and> \<not> err_cancelled e \<and> stage_rows i d = [] \<and> job_attempts j < job_max_attempts j;
         details = failure_details sn e;
         r1 = r\<lparr>run_status := (if retryable then Queued else Failed), run_finished_at := Some now,
                run_error := Some (JObj [(''error_class'', JStr (category_value (err_category e))),
                   (''error_code'', JStr (code_value (err_code e))), (''message'', JStr (err_message e)),
                   (''details'', str_json details), (''retryable'', JBool retryable)])\<rparr>;
         j1 = (record_failure e j)\<lparr>job_status := (if retryable then Queued else Failed),
                job_error := Some (JObj [(''message'', JStr (err_message e)), (''details'', str_json details),
                   (''retryable'', JBool retryable), (''cancelled'', JBool (err_cancelled e))]),
                job_finished_at := Some now\<rparr> in
     bindE (flush d (set_job j1 (set_run r1 d))) (\<lambda>d'.
     if retryable then bindE (generation_retry_delay_seconds (job_attempts j)) (\<lambda>s. Inr (Some s, d'))
     else Inr (None, d')))))"

end
