(* ===== verification/Floats.thy ===== *)
theory Floats
  imports Complex_Main Rows
begin

text \<open>
  The numbers of the numeric core: a Python \<open>float\<close> is its rational value and each operation is
  rounded to binary64 (\<open>fl\<close>), a \<open>Decimal\<close> is its rational value and each operation is rounded to
  the 28 digits of the default context (\<open>dec\<close>); both round half to even. A magnitude of at least
  \<open>2 ^ 1024\<close> stands for an infinity, so \<open>math.isfinite\<close> is a comparison; there is no NaN.
\<close>

subsection \<open>Rounding to a number of significant digits\<close>

fun ndigits :: "nat \<Rightarrow> nat \<Rightarrow> nat" where
  "ndigits b n = (if n = 0 \<or> b < 2 then 0 else Suc (ndigits b (n div b)))"

declare ndigits.simps [simp del]

lemma ndigits_upper: "2 \<le> b \<Longrightarrow> n < b ^ ndigits b n"
proof (induction b n rule: ndigits.induct)
  case (1 b n)
  show ?case
  proof (cases "n = 0")
    case False
    then have "n div b < b ^ ndigits b (n div b)" using 1 by simp
    then have "n div b + 1 \<le> b ^ ndigits b (n div b)" by simp
    then have "b * (n div b + 1) \<le> b * b ^ ndigits b (n div b)" by (rule mult_left_mono) simp
    moreover have "n < b * (n div b + 1)" using 1(2)
      by (metis Suc_1 Suc_eq_plus1 dividend_less_times_div less_le_trans mult_Suc_right not_less_eq_eq pos2 add.commute)
    ultimately show ?thesis using False 1(2) by (simp add: ndigits.simps[of b n])
  qed (simp add: ndigits.simps)
qed

lemma ndigits_lower: "2 \<le> b \<Longrightarrow> 0 < n \<Longrightarrow> b ^ (ndigits b n - 1) \<le> n"
proof (induction b n rule: ndigits.induct)
  case (1 b n)
  show ?case
  proof (cases "n div b = 0")
    case True
    then have "ndigits b n = 1" using 1(2,3) by (simp add: ndigits.simps[of b n] ndigits.simps[of b 0])
    then show ?thesis using 1(3) by simp
  next
    case False
    then have "b ^ (ndigits b (n div b) - 1) \<le> n div b" using 1 by simp
    then have "b * b ^ (ndigits b (n div b) - 1) \<le> b * (n div b)" by (rule mult_left_mono) simp
    moreover have "0 < ndigits b (n div b)" using False 1(2) by (simp add: ndigits.simps[of b "n div b"])
    ultimately have "b ^ ndigits b (n div b) \<le> b * (n div b)" by (metis Suc_diff_1 power_Suc)
    then show ?thesis using 1(2,3) by (simp add: ndigits.simps[of b n]) (metis dual_order.trans times_div_less_eq_dividend)
  qed
qed

text \<open>The scale of a positive number: the power of the base below its \<open>k\<close>-th significant digit.\<close>

definition scale_of :: "nat \<Rightarrow> nat \<Rightarrow> rat \<Rightarrow> int" where
  "scale_of b k x = (case quotient_of x of (p, q) \<Rightarrow>
     let d = int (ndigits b (nat p)) - int (ndigits b (nat q)) in
     if x < of_nat b powi d then d - int k else d - int k + 1)"

definition round_even :: "rat \<Rightarrow> int" where
  "round_even x = (let f = \<lfloor>x\<rfloor>; r = x - of_int f in if r < 1 / 2 \<or> r = 1 / 2 \<and> even f then f else f + 1)"

definition round_at :: "nat \<Rightarrow> int \<Rightarrow> rat \<Rightarrow> rat" where
  "round_at b s x = sgn x * of_int (round_even (\<bar>x\<bar> / of_nat b powi s)) * of_nat b powi s"

definition sig_round :: "nat \<Rightarrow> nat \<Rightarrow> rat \<Rightarrow> rat" where
  "sig_round b k x = (if x = 0 then 0 else round_at b (scale_of b k \<bar>x\<bar>) x)"

lemma scale_of_range:
  assumes "2 \<le> b" "0 < x"
  shows "of_nat b powi (scale_of b k x + int k - 1) \<le> x \<and> x < of_nat b powi (scale_of b k x + int k)"
proof -
  obtain p q where pq: "quotient_of x = (p, q)" by (cases "quotient_of x")
  have q: "0 < q" and x: "x = of_int p / of_int q" using quotient_of_denom_pos[OF pq] quotient_of_div[OF pq] by auto
  have p: "0 < p" using assms(2) x q by (simp add: zero_less_divide_iff)
  let ?m = "ndigits b (nat p)" and ?n = "ndigits b (nat q)" and ?b = "of_nat b :: rat"
  have b0: "0 < ?b" "?b \<noteq> 0" "1 < ?b" using assms(1) by auto
  have digits: "?b ^ (ndigits b (nat z) - 1) \<le> of_int z \<and> of_int z < ?b ^ ndigits b (nat z)" if z: "0 < z" for z
  proof -
    have n: "of_nat (nat z) = (of_int z :: rat)" "0 < nat z" using z by simp_all
    have "of_nat (b ^ (ndigits b (nat z) - 1)) \<le> (of_nat (nat z) :: rat)"
      unfolding of_nat_le_iff by (rule ndigits_lower[OF assms(1) n(2)])
    moreover have "(of_nat (nat z) :: rat) < of_nat (b ^ ndigits b (nat z))"
      unfolding of_nat_less_iff by (rule ndigits_upper[OF assms(1)])
    ultimately show ?thesis unfolding n(1) by simp
  qed
  note P = conjunct1[OF digits[OF p]] conjunct2[OF digits[OF p]] and Q = conjunct1[OF digits[OF q]] conjunct2[OF digits[OF q]]
  have mn: "0 < ?m" "0 < ?n" using p q assms(1) by (simp_all add: ndigits.simps)
  have "x < ?b ^ ?m / ?b ^ (?n - 1)"
    unfolding x using P Q q p b0 by (intro frac_less) auto
  also have "\<dots> = ?b powi (int ?m - int (?n - 1))" using b0 by (simp add: power_int_diff)
  finally have up: "x < ?b powi (int ?m - int ?n + 1)" using mn by (simp add: of_nat_diff algebra_simps)
  have "?b powi (int (?m - 1) - int ?n) = ?b ^ (?m - 1) / ?b ^ ?n" using b0 by (simp add: power_int_diff)
  also have "\<dots> \<le> x" unfolding x using P Q q p b0 by (intro frac_le) auto
  finally have lo: "?b powi (int ?m - int ?n - 1) \<le> x" using mn by (simp add: of_nat_diff algebra_simps)
  show ?thesis using up lo by (auto simp: scale_of_def pq Let_def algebra_simps)
qed

lemma round_even_error: "\<bar>of_int (round_even x) - x\<bar> \<le> 1 / 2"
proof -
  have "of_int \<lfloor>x\<rfloor> \<le> x" "x < of_int \<lfloor>x\<rfloor> + 1" by linarith+
  then show ?thesis by (simp add: round_even_def Let_def abs_le_iff)
qed

lemma round_even_int [simp]: "round_even (of_int n) = n"
  by (simp add: round_even_def)

lemma round_even_nonneg: "0 \<le> x \<Longrightarrow> 0 \<le> round_even x"
  by (simp add: round_even_def Let_def)

lemma round_at_error:
  assumes "0 < b"
  shows "\<bar>round_at b s x - x\<bar> \<le> of_nat b powi s / 2"
proof -
  let ?u = "of_nat b powi s :: rat"
  have u: "0 < ?u" using assms by (simp add: zero_less_power_int)
  have "x = sgn x * (\<bar>x\<bar> / ?u) * ?u" using u assms by (simp add: sgn_mult_abs)
  then have "round_at b s x - x = sgn x * (of_int (round_even (\<bar>x\<bar> / ?u)) - \<bar>x\<bar> / ?u) * ?u"
    unfolding round_at_def by (simp add: algebra_simps)
  then have "\<bar>round_at b s x - x\<bar> \<le> \<bar>of_int (round_even (\<bar>x\<bar> / ?u)) - \<bar>x\<bar> / ?u\<bar> * ?u"
    using u by (simp add: abs_mult abs_sgn_eq)
  also have "\<dots> \<le> (1 / 2) * ?u" using u round_even_error by (intro mult_right_mono) auto
  finally show ?thesis by simp
qed

lemma sig_round_error:
  assumes "2 \<le> b"
  shows "\<bar>sig_round b k x - x\<bar> \<le> \<bar>x\<bar> * of_nat b powi (1 - int k) / 2"
proof (cases "x = 0")
  case False
  let ?s = "scale_of b k \<bar>x\<bar>"
  have "of_nat b powi (?s + int k - 1) \<le> \<bar>x\<bar>" using scale_of_range[OF assms, of "\<bar>x\<bar>" k] False by simp
  then have "of_nat b powi (?s + int k - 1) * of_nat b powi (1 - int k) \<le> \<bar>x\<bar> * of_nat b powi (1 - int k)"
    by (rule mult_right_mono) simp
  then have "of_nat b powi ?s \<le> \<bar>x\<bar> * of_nat b powi (1 - int k)"
    using assms by (simp flip: power_int_add)
  then show ?thesis using round_at_error[of b ?s x] assms False by (simp add: sig_round_def)
qed (simp add: sig_round_def)

lemma sig_round_nonneg: "0 \<le> x \<Longrightarrow> 0 \<le> sig_round b k x"
  by (simp add: sig_round_def round_at_def round_even_nonneg)

lemma sig_round_0 [simp]: "sig_round b k 0 = 0"
  by (simp add: sig_round_def)

lemma round_at_exact:
  assumes "0 < b" "x = of_int m * of_nat b powi s"
  shows "round_at b s x = x"
proof -
  let ?u = "of_nat b powi s :: rat"
  have u: "0 < ?u" using assms(1) by (simp add: zero_less_power_int)
  have "\<bar>x\<bar> / ?u = of_int \<bar>m\<bar>" using u assms(1) by (simp add: assms(2) abs_mult)
  then have "round_even (\<bar>x\<bar> / ?u) = \<bar>m\<bar>" by (simp only: round_even_int)
  moreover have "of_int \<bar>m\<bar> * ?u = \<bar>x\<bar>" using u by (simp add: assms(2) abs_mult)
  ultimately have "round_at b s x = sgn x * \<bar>x\<bar>" unfolding round_at_def by (simp add: mult.assoc)
  then show ?thesis by (simp add: sgn_mult_abs)
qed

lemma sig_round_int:
  assumes "2 \<le> b" "\<bar>n\<bar> < int b ^ k"
  shows "sig_round b k (of_int n) = of_int n"
proof (cases "n = 0")
  case False
  let ?s = "scale_of b k \<bar>of_int n\<bar>" and ?b = "of_nat b :: rat"
  have b: "1 < ?b" using assms(1) by simp
  have "?b powi (?s + int k - 1) \<le> \<bar>of_int n\<bar>" using scale_of_range[OF assms(1), of "\<bar>of_int n\<bar>" k] False by simp
  also have "\<bar>of_int n\<bar> < ?b powi int k"
  proof -
    have "(of_int \<bar>n\<bar> :: rat) < of_int (int b ^ k)" using assms(2) unfolding of_int_less_iff .
    then show ?thesis by simp
  qed
  finally have "?b powi (?s + int k - 1) < ?b powi int k" .
  then have s: "?s \<le> 0" using power_int_increasing[of "int k" "?s + int k - 1" ?b] b by (cases "?s \<le> 0") auto
  have "of_int (n * int b ^ nat (- ?s)) * ?b powi ?s = of_int n * (?b powi (- ?s) * ?b powi ?s)"
    using s by (simp add: power_int_def)
  also have "\<dots> = of_int n" using b by (simp flip: power_int_add)
  finally have eq: "of_int n = of_int (n * int b ^ nat (- ?s)) * ?b powi ?s" ..
  have "0 < b" using assms(1) by simp
  from round_at_exact[OF this eq] show ?thesis using False by (simp add: sig_round_def)
qed simp

subsection \<open>binary64 and \<open>Decimal\<close>\<close>

text \<open>Subnormal numbers share the smallest scale.\<close>

definition fl :: "rat \<Rightarrow> rat" where
  "fl x = (if x = 0 then 0 else round_at 2 (max (scale_of 2 53 \<bar>x\<bar>) (- 1074)) x)"

definition is_finite :: "rat \<Rightarrow> bool" where
  "is_finite x = (\<bar>x\<bar> < 2 ^ 1024)"

definition dec :: "rat \<Rightarrow> rat" where
  "dec x = sig_round 10 28 x"

text \<open>\<open>math.isclose\<close>.\<close>

definition isclose :: "rat \<Rightarrow> rat \<Rightarrow> rat \<Rightarrow> rat \<Rightarrow> bool" where
  "isclose a b rel_tol abs_tol = (a = b \<or>
     (let diff = \<bar>fl (b - a)\<bar> in diff \<le> \<bar>fl (rel_tol * b)\<bar> \<or> diff \<le> \<bar>fl (rel_tol * a)\<bar> \<or> diff \<le> abs_tol))"

text \<open>
  The decimal that \<open>repr\<close> writes: the nearest of the shortest decimals that are read back as the same
  number (17 digits always suffice).
\<close>

definition decimal_candidates :: "nat \<Rightarrow> rat \<Rightarrow> rat list" where
  "decimal_candidates k x = (let s = scale_of 10 k x; u = 10 powi s; f = \<lfloor>x / u\<rfloor>; r = x / u - of_int f in
     map (\<lambda>n. of_int n * u) (if r < 1 / 2 \<or> r = 1 / 2 \<and> even f then [f, f + 1] else [f + 1, f]))"

fun repr_from :: "nat \<Rightarrow> nat \<Rightarrow> rat \<Rightarrow> rat" where
  "repr_from 0 k x = sig_round 10 k x"
| "repr_from (Suc m) k x = (case filter (\<lambda>d. fl d = x) (decimal_candidates k x) of
     d # _ \<Rightarrow> d | [] \<Rightarrow> repr_from m (Suc k) x)"

definition repr_value :: "rat \<Rightarrow> rat" where
  "repr_value x = (if x = 0 then 0 else sgn x * repr_from 16 1 \<bar>x\<bar>)"

lemma fl_0 [simp]: "fl 0 = 0"
  by (simp add: fl_def)

lemma fl_nonneg: "0 \<le> x \<Longrightarrow> 0 \<le> fl x"
  by (simp add: fl_def round_at_def round_even_nonneg)

lemma isclose_refl [simp]: "isclose a a r t"
  by (simp add: isclose_def)

lemma dec_nonneg: "0 \<le> x \<Longrightarrow> 0 \<le> dec x"
  by (simp add: dec_def sig_round_nonneg)

lemma dec_error: "\<bar>dec x - x\<bar> \<le> \<bar>x\<bar> / (2 * 10 ^ 27)"
  using sig_round_error[of 10 28 x] by (simp add: dec_def power_int_def field_simps)

lemma repr_from_nonneg: "0 < x \<Longrightarrow> 0 \<le> repr_from m k x"
proof (induction m k x rule: repr_from.induct)
  case (2 m k x)
  have "0 \<le> d" if "d \<in> set (decimal_candidates k x)" for d
    using that 2(2) by (auto simp: decimal_candidates_def Let_def split: if_splits)
  then show ?case using 2 by (auto split: list.splits dest: sym[of _ "filter P l" for P l] simp: filter_eq_Cons_iff)
qed (simp add: sig_round_nonneg)

lemma repr_value_nonneg: "0 \<le> x \<Longrightarrow> 0 \<le> repr_value x"
  using repr_from_nonneg[of x] by (simp add: repr_value_def)

end
