(* ===== verification/Json_Text.thy ===== *)
theory Json_Text
  imports Floats "HOL-Library.AList"
begin

text \<open>
  The canonical JSON text of configurations: \<open>json.dumps(..., sort_keys=True,
  separators=(",", ":"), ensure_ascii=False, allow_nan=False)\<close> and \<open>json.loads\<close> of such text,
  as \<open>backend/app/application/scenario_matrix.py\<close> uses them. A Python float is its \<open>repr\<close> token:
  a literal is read as the binary64 number it denotes and kept as that number's \<open>repr\<close>. An object
  with a repeated key keeps the last value. The reader is the part of \<open>json.loads\<close> that compact text needs (no white space between
  tokens); its fuel is the length of the text, which is proved to be enough.
\<close>

subsection \<open>Writing\<close>

fun json_finite :: "json \<Rightarrow> bool" where
  "json_finite (JArr xs) = (\<forall>x \<in> set xs. json_finite x)"
| "json_finite (JObj kvs) = (\<forall>kv \<in> set kvs. json_finite (snd kv))"
| "json_finite JNonFinite = False"
| "json_finite j = True"

fun json_norm :: "json \<Rightarrow> json" where
  "json_norm (JArr xs) = JArr (map json_norm xs)"
| "json_norm (JObj kvs) = JObj (sort_key fst (map (\<lambda>(k, v). (k, json_norm v)) kvs))"
| "json_norm j = j"

definition esc_char :: "char \<Rightarrow> string" where
  "esc_char c =
     (if c = CHR 0x22 then [CHR 0x5C, CHR 0x22]
      else if c = CHR 0x5C then [CHR 0x5C, CHR 0x5C]
      else if c = CHR 0x08 then [CHR 0x5C, CHR ''b'']
      else if c = CHR 0x0C then [CHR 0x5C, CHR ''f'']
      else if c = CHR 0x0A then [CHR 0x5C, CHR ''n'']
      else if c = CHR 0x0D then [CHR 0x5C, CHR ''r'']
      else if c = CHR 0x09 then [CHR 0x5C, CHR ''t'']
      else if chr_code c < 32 then [CHR 0x5C, CHR ''u''] @ hex_digits 4 (chr_code c)
      else [c])"

definition json_str :: "string \<Rightarrow> string" where
  "json_str s = [CHR 0x22] @ concat (map esc_char s) @ [CHR 0x22]"

fun dec_digits :: "nat \<Rightarrow> string" where
  "dec_digits n = (if n < 10 then [hex_digit n] else dec_digits (n div 10) @ [hex_digit (n mod 10)])"

declare dec_digits.simps [simp del]

definition dec_int :: "int \<Rightarrow> string" where
  "dec_int i = (if i < 0 then ''-'' @ dec_digits (nat (- i)) else dec_digits (nat i))"

subsection \<open>The text of a float\<close>

text \<open>
  \<open>repr\<close> of a float: the digits of its shortest decimal without trailing zeros, with the point at
  \<open>p\<close>; an exponent below \<open>-4\<close> or from 16 on is written.
\<close>

fun strip_zeros :: "nat \<Rightarrow> nat \<Rightarrow> nat" where
  "strip_zeros 0 n = n"
| "strip_zeros (Suc f) n = (if n \<noteq> 0 \<and> n mod 10 = 0 then strip_zeros f (n div 10) else n)"

definition pad2 :: "nat \<Rightarrow> string" where
  "pad2 n = (if n < 10 then ''0'' else []) @ dec_digits n"

definition positive_repr :: "rat \<Rightarrow> string" where
  "positive_repr d = (let s = scale_of 10 17 d; ds = dec_digits (strip_zeros 17 (nat \<lfloor>d / 10 powi s\<rfloor>)); p = s + 17 in
     if - 4 < p \<and> p \<le> 0 then ''0.'' @ replicate (nat (- p)) (CHR ''0'') @ ds
     else if 0 < p \<and> p \<le> 16 then
       (if nat p < length ds then take (nat p) ds @ ''.'' @ drop (nat p) ds
        else ds @ replicate (nat p - length ds) (CHR ''0'') @ ''.0'')
     else take 1 ds @ (if length ds = 1 then [] else ''.'' @ drop 1 ds)
       @ (if p \<le> 0 then ''e-'' @ pad2 (nat (1 - p)) else ''e+'' @ pad2 (nat (p - 1))))"

definition float_repr :: "rat \<Rightarrow> string" where
  "float_repr x = (if x = 0 then ''0.0'' else if x < 0 then ''-'' @ positive_repr (repr_value (- x))
     else positive_repr (repr_value x))"

fun comma_sep :: "string list \<Rightarrow> string" where
  "comma_sep [] = []"
| "comma_sep [x] = x"
| "comma_sep (x # xs) = x @ '','' @ comma_sep xs"

fun json_text :: "json \<Rightarrow> string" where
  "json_text JNull = ''null''"
| "json_text (JBool True) = ''true''"
| "json_text (JBool False) = ''false''"
| "json_text (JInt i) = dec_int i"
| "json_text (JFloat t) = t"
| "json_text JNonFinite = ''NaN''"
| "json_text (JStr s) = json_str s"
| "json_text (JArr xs) = ''['' @ comma_sep (map json_text xs) @ '']''"
| "json_text (JObj kvs) = ''{'' @ comma_sep (map (\<lambda>(k, v). json_str k @ '':'' @ json_text v) kvs) @ ''}''"

definition json_dumps :: "json \<Rightarrow> exc + string" where
  "json_dumps j =
     (if json_finite j then Inr (json_text (json_norm j))
      else Inl (ValueError ''Out of range float values are not JSON compliant''))"

subsection \<open>Reading\<close>

definition hex_value :: "char \<Rightarrow> nat option" where
  "hex_value c = (let n = chr_code c in
     if 48 \<le> n \<and> n \<le> 57 then Some (n - 48) else if 97 \<le> n \<and> n \<le> 102 then Some (n - 87)
     else if 65 \<le> n \<and> n \<le> 70 then Some (n - 55) else None)"

definition unescape :: "char \<Rightarrow> char option" where
  "unescape c =
     (if c = CHR 0x22 \<or> c = CHR 0x5C \<or> c = CHR ''/'' then Some c
      else if c = CHR ''b'' then Some (CHR 0x08)
      else if c = CHR ''f'' then Some (CHR 0x0C)
      else if c = CHR ''n'' then Some (CHR 0x0A)
      else if c = CHR ''r'' then Some (CHR 0x0D)
      else if c = CHR ''t'' then Some (CHR 0x09)
      else None)"

definition unicode_escape :: "char \<Rightarrow> char \<Rightarrow> char \<Rightarrow> char \<Rightarrow> char option" where
  "unicode_escape a b c d =
     (case (hex_value a, hex_value b, hex_value c, hex_value d) of
        (Some 0, Some 0, Some x, Some y) \<Rightarrow> Some (char_of (16 * x + y))
      | _ \<Rightarrow> None)"

fun read_string :: "string \<Rightarrow> (string \<times> string) option" where
  "read_string [] = None"
| "read_string (c # r) =
     (if c = CHR 0x22 then Some ([], r)
      else if c = CHR 0x5C then
        (case r of
           [] \<Rightarrow> None
         | e # r' \<Rightarrow>
             if e = CHR ''u'' then
               (case r' of
                  h1 # h2 # h3 # h4 # r'' \<Rightarrow>
                    (case (unicode_escape h1 h2 h3 h4, read_string r'') of
                       (Some x, Some (s, q)) \<Rightarrow> Some (x # s, q)
                     | _ \<Rightarrow> None)
                | _ \<Rightarrow> None)
             else
               (case (unescape e, read_string r') of
                  (Some x, Some (s, q)) \<Rightarrow> Some (x # s, q)
                | _ \<Rightarrow> None))
      else if chr_code c < 32 then None
      else (case read_string r of Some (s, q) \<Rightarrow> Some (c # s, q) | None \<Rightarrow> None))"

definition num_char :: "char \<Rightarrow> bool" where
  "num_char c = (is_digit09 c \<or> c \<in> set ''+-.eE'')"

definition float_mark :: "char \<Rightarrow> bool" where
  "float_mark c = (c \<in> set ''.eE'')"

definition read_nat :: "string \<Rightarrow> nat" where
  "read_nat s = foldl (\<lambda>n c. 10 * n + (chr_code c - 48)) 0 s"

text \<open>The integer part of a number: digits without a leading zero.\<close>

definition plain_digits :: "string \<Rightarrow> bool" where
  "plain_digits ds = (ds \<noteq> [] \<and> list_all is_digit09 ds \<and> (ds = ''0'' \<or> hd ds \<noteq> CHR ''0''))"

definition read_exponent :: "string \<Rightarrow> int option" where
  "read_exponent s =
     (case s of
        [] \<Rightarrow> Some 0
      | c # r \<Rightarrow>
          let neg = (r \<noteq> [] \<and> hd r = CHR ''-''); ds = (if r \<noteq> [] \<and> hd r \<in> set ''+-'' then tl r else r) in
          if c \<in> set ''eE'' \<and> ds \<noteq> [] \<and> list_all is_digit09 ds
          then Some (if neg then - int (read_nat ds) else int (read_nat ds)) else None)"

text \<open>The value of an unsigned literal \<open>int frac? exp?\<close>.\<close>

definition literal_value :: "string \<Rightarrow> rat option" where
  "literal_value s =
     (let ip = takeWhile is_digit09 s; r = dropWhile is_digit09 s; point = (r \<noteq> [] \<and> hd r = CHR ''.'');
          fp = (if point then takeWhile is_digit09 (tl r) else []); q = (if point then dropWhile is_digit09 (tl r) else r) in
      if \<not> plain_digits ip \<or> point \<and> fp = [] then None
      else map_option (\<lambda>e. of_nat (read_nat (ip @ fp)) * 10 powi (e - int (length fp))) (read_exponent q))"

text \<open>\<open>float(token)\<close>: correctly rounded; too large a literal is an infinity.\<close>

definition read_float :: "string \<Rightarrow> json option" where
  "read_float tok =
     (let neg = (tok \<noteq> [] \<and> hd tok = CHR ''-'') in
      map_option (\<lambda>v. let x = fl v in
          if is_finite x then JFloat ((if neg then ''-'' else []) @ float_repr x) else JNonFinite)
        (literal_value (if neg then tl tok else tok)))"

definition read_number :: "string \<Rightarrow> json option" where
  "read_number tok =
     (if list_ex float_mark tok then read_float tok
      else case tok of
          c # ds \<Rightarrow>
            if c = CHR ''-'' then (if plain_digits ds then Some (JInt (- int (read_nat ds))) else None)
            else if plain_digits tok then Some (JInt (int (read_nat tok))) else None
        | [] \<Rightarrow> None)"

text \<open>The dictionary of the members of an object: a repeated key keeps its place and takes the new value.\<close>

definition py_dict :: "(string \<times> json) list \<Rightarrow> (string \<times> json) list" where
  "py_dict kvs = fold (\<lambda>(k, v) d. AList.update k v d) kvs []"

fun read_value :: "nat \<Rightarrow> string \<Rightarrow> (json \<times> string) option"
  and read_items :: "nat \<Rightarrow> string \<Rightarrow> (json list \<times> string) option"
  and read_members :: "nat \<Rightarrow> string \<Rightarrow> ((string \<times> json) list \<times> string) option"
where
  "read_value 0 s = None"
| "read_value (Suc f) s =
     (case s of
        [] \<Rightarrow> None
      | c # r \<Rightarrow>
          if c = CHR 0x22 then map_option (\<lambda>(x, q). (JStr x, q)) (read_string r)
          else if c = CHR ''['' then
            (if r \<noteq> [] \<and> hd r = CHR '']'' then Some (JArr [], tl r)
             else map_option (\<lambda>(xs, q). (JArr xs, q)) (read_items f r))
          else if c = CHR ''{'' then
            (if r \<noteq> [] \<and> hd r = CHR ''}'' then Some (JObj [], tl r)
             else map_option (\<lambda>(kvs, q). (JObj (py_dict kvs), q)) (read_members f r))
          else if take 4 s = ''null'' then Some (JNull, drop 4 s)
          else if take 4 s = ''true'' then Some (JBool True, drop 4 s)
          else if take 5 s = ''false'' then Some (JBool False, drop 5 s)
          else map_option (\<lambda>x. (x, dropWhile num_char s)) (read_number (takeWhile num_char s)))"
| "read_items 0 s = None"
| "read_items (Suc f) s =
     (case read_value f s of
        Some (x, c # r) \<Rightarrow>
          if c = CHR '','' then map_option (\<lambda>(xs, q). (x # xs, q)) (read_items f r)
          else if c = CHR '']'' then Some ([x], r)
          else None
      | _ \<Rightarrow> None)"
| "read_members 0 s = None"
| "read_members (Suc f) s =
     (case s of
        [] \<Rightarrow> None
      | c # r \<Rightarrow>
          if c = CHR 0x22 then
            (case read_string r of
               Some (k, d # r') \<Rightarrow>
                 if d = CHR '':'' then
                   (case read_value f r' of
                      Some (v, e # r'') \<Rightarrow>
                        if e = CHR '','' then map_option (\<lambda>(kvs, q). ((k, v) # kvs, q)) (read_members f r'')
                        else if e = CHR ''}'' then Some ([(k, v)], r'')
                        else None
                    | _ \<Rightarrow> None)
                 else None
             | _ \<Rightarrow> None)
          else None)"

definition json_loads :: "string \<Rightarrow> exc + json" where
  "json_loads s =
     (case read_value (Suc (length s)) s of
        Some (j, []) \<Rightarrow> Inr j
      | _ \<Rightarrow> Inl (ValueError ''JSONDecodeError''))"

subsection \<open>Reading back what was written\<close>

text \<open>
  Values Python can hold: distinct keys in every object, a float by its \<open>repr\<close>, a token with a point or
  an exponent that reads back as the same float.
\<close>

fun json_ok :: "json \<Rightarrow> bool" where
  "json_ok (JArr xs) = (\<forall>x \<in> set xs. json_ok x)"
| "json_ok (JObj kvs) = (distinct (map fst kvs) \<and> (\<forall>kv \<in> set kvs. json_ok (snd kv)))"
| "json_ok (JFloat t) = (list_all num_char t \<and> list_ex float_mark t \<and> read_float t = Some (JFloat t))"
| "json_ok j = True"

lemma hex_value_digit: "n < 16 \<Longrightarrow> hex_value (hex_digit n) = Some n"
  by (auto simp: hex_value_def hex_digit_def chr_code_def)

lemma hex_digits_4: "n < 256 \<Longrightarrow> hex_digits 4 n = [hex_digit 0, hex_digit 0, hex_digit (n div 16), hex_digit (n mod 16)]"
proof -
  assume n: "n < 256"
  have e: "hex_digits (Suc (Suc (Suc (Suc 0)))) n
      = [hex_digit (n div 16 div 16 div 16 mod 16), hex_digit (n div 16 div 16 mod 16), hex_digit (n div 16 mod 16), hex_digit (n mod 16)]"
    by simp
  have four: "(4::nat) = Suc (Suc (Suc (Suc 0)))" by simp
  have "hex_digits 4 n
      = [hex_digit (n div 16 div 16 div 16 mod 16), hex_digit (n div 16 div 16 mod 16), hex_digit (n div 16 mod 16), hex_digit (n mod 16)]"
    unfolding four by (rule e)
  with n show ?thesis by simp
qed

lemma unicode_escape_digits:
  "chr_code c < 256 \<Longrightarrow> unicode_escape (hex_digit 0) (hex_digit 0) (hex_digit (chr_code c div 16)) (hex_digit (chr_code c mod 16)) = Some c"
  by (simp add: unicode_escape_def hex_value_digit) (simp add: chr_code_def)

lemma read_string_esc:
  "read_string (esc_char c @ t) = map_option (\<lambda>(s, q). (c # s, q)) (read_string t)"
proof (cases "chr_code c < 32 \<and> esc_char c = [CHR 0x5C, CHR ''u''] @ hex_digits 4 (chr_code c)")
  case True
  have "chr_code c < 256" by (rule chr_code_less)
  with True show ?thesis
    by (simp add: hex_digits_4 unicode_escape_digits split: option.split)
next
  case False
  then show ?thesis
    by (auto simp: esc_char_def unescape_def split: option.split if_splits)
qed

lemma read_string_json: "read_string (concat (map esc_char s) @ CHR 0x22 # r) = Some (s, r)"
  by (induction s) (simp_all add: read_string_esc)

lemma dec_digits_props:
  "read_nat (dec_digits n) = n \<and> list_all is_digit09 (dec_digits n) \<and> dec_digits n \<noteq> []"
proof (induction n rule: dec_digits.induct)
  case (1 n)
  have d: "chr_code (hex_digit k) - 48 = k \<and> is_digit09 (hex_digit k)" if "k < 10" for k
    using that by (simp add: hex_digit_def chr_code_def is_digit09_def)
  show ?case
  proof (cases "n < 10")
    case True
    with d[OF True] show ?thesis by (simp add: dec_digits.simps[of n] read_nat_def)
  next
    case False
    with 1 d[of "n mod 10"] show ?thesis by (simp add: dec_digits.simps[of n] read_nat_def)
  qed
qed

lemma dec_digits_plain: "plain_digits (dec_digits n)"
proof -
  have "n \<noteq> 0 \<Longrightarrow> hd (dec_digits n) \<noteq> CHR ''0''" for n
  proof (induction n rule: dec_digits.induct)
    case (1 n)
    show ?case
    proof (cases "n < 10")
      case True
      then have "chr_code (hex_digit n) = 48 + n" "chr_code (CHR ''0'') = 48" by (simp_all add: hex_digit_def chr_code_def)
      with 1(2) have "hex_digit n \<noteq> CHR ''0''" by (metis add_cancel_left_right)
      then show ?thesis using True by (simp add: dec_digits.simps[of n])
    next
      case False
      then have "hd (dec_digits (n div 10)) \<noteq> CHR ''0''" using 1(1) by auto
      moreover have "dec_digits (n div 10) \<noteq> []" using dec_digits_props by blast
      ultimately show ?thesis using False by (simp add: dec_digits.simps[of n])
    qed
  qed
  moreover have "dec_digits 0 = ''0''" by code_simp
  ultimately show ?thesis using dec_digits_props[of n] by (cases "n = 0") (auto simp: plain_digits_def)
qed

lemma update_new: "k \<notin> fst ` set d \<Longrightarrow> AList.update k v d = d @ [(k, v)]"
  by (induction d) auto

lemma py_dict_distinct: "distinct (map fst kvs) \<Longrightarrow> py_dict kvs = kvs"
proof -
  have "distinct (map fst (d @ kvs)) \<Longrightarrow> fold (\<lambda>(k, v) d. AList.update k v d) kvs d = d @ kvs" for d
    by (induction kvs arbitrary: d) (auto simp: update_new)
  from this[of "[]"] show "distinct (map fst kvs) \<Longrightarrow> py_dict kvs = kvs" by (simp add: py_dict_def)
qed

definition stops :: "string \<Rightarrow> bool" where
  "stops rest \<longleftrightarrow> rest = [] \<or> \<not> num_char (hd rest)"

lemma takeWhile_token:
  "list_all num_char tok \<Longrightarrow> stops rest \<Longrightarrow>
     takeWhile num_char (tok @ rest) = tok \<and> dropWhile num_char (tok @ rest) = rest"
  by (cases rest) (auto simp: stops_def list_all_iff takeWhile_append dropWhile_append3)

lemma digits_num: "list_all is_digit09 ds \<Longrightarrow> list_all num_char ds"
  by (auto simp: list_all_iff num_char_def)

lemma digit_not_special:
  assumes "is_digit09 c"
  shows "\<not> float_mark c" "c \<noteq> CHR ''-''"
  using assms by (auto simp: is_digit09_def float_mark_def chr_code_def)

lemma dec_int_number: "list_all num_char (dec_int i) \<and> read_number (dec_int i) = Some (JInt i) \<and> dec_int i \<noteq> []"
proof -
  have no_mark: "list_all is_digit09 ds \<Longrightarrow> \<not> list_ex float_mark ds" for ds
    using digit_not_special(1) by (auto simp: list_all_iff list_ex_iff)
  note p = dec_digits_props[of "nat \<bar>i\<bar>"]
  show ?thesis
  proof (cases "i < 0")
    case True
    then have eq: "dec_int i = CHR ''-'' # dec_digits (nat \<bar>i\<bar>)" by (simp add: dec_int_def)
    have "\<not> float_mark CHR ''-''" by (simp add: float_mark_def)
    with p True no_mark[of "dec_digits (nat \<bar>i\<bar>)"] digits_num show ?thesis
      unfolding eq by (auto simp: read_number_def num_char_def dec_digits_plain)
  next
    case False
    then have eq: "dec_int i = dec_digits (nat \<bar>i\<bar>)" by (simp add: dec_int_def)
    obtain c ds where cd: "dec_digits (nat \<bar>i\<bar>) = c # ds" using p by (cases "dec_digits (nat \<bar>i\<bar>)") auto
    with p digit_not_special(2) have "c \<noteq> CHR ''-''" by auto
    moreover have "plain_digits (c # ds)" using dec_digits_plain[of "nat \<bar>i\<bar>"] cd by simp
    ultimately show ?thesis using False p cd no_mark[of "c # ds"] digits_num[of "c # ds"]
      unfolding eq by (simp add: read_number_def)
  qed
qed

text \<open>A number token starts none of the other values.\<close>

lemma num_char_special:
  "num_char c \<Longrightarrow> c \<noteq> CHR 0x22 \<and> c \<noteq> CHR ''['' \<and> c \<noteq> CHR ''{'' \<and> c \<noteq> CHR '']'' \<and> c \<noteq> CHR ''n'' \<and> c \<noteq> CHR ''t'' \<and> c \<noteq> CHR ''f''"
  by (auto simp: num_char_def is_digit09_def chr_code_def)

lemma read_value_number:
  assumes "list_all num_char tok" "tok \<noteq> []" "stops rest" "read_number tok = Some v"
  shows "read_value (Suc f) (tok @ rest) = Some (v, rest)"
proof -
  obtain c r where tok: "tok = c # r" using assms(2) by (cases tok) auto
  then have "num_char c" using assms(1) by simp
  note sp = num_char_special[OF this]
  have tw: "takeWhile num_char (c # r @ rest) = tok" "dropWhile num_char (c # r @ rest) = rest"
    using takeWhile_token[OF assms(1,3)] tok by auto
  show ?thesis unfolding tok append_Cons read_value.simps using sp assms(4) tw by simp
qed

lemma json_text_start: "json_ok v \<Longrightarrow> json_text v \<noteq> [] \<and> hd (json_text v) \<noteq> CHR '']''"
proof (cases v)
  case (JInt i)
  then show ?thesis using dec_int_number[of i] num_char_special by (cases "dec_int i") auto
next
  case (JFloat t)
  assume "json_ok v"
  with JFloat show ?thesis using num_char_special by (cases t) auto
next
  case (JBool b)
  then show ?thesis by (cases b) auto
qed (auto simp: json_str_def)

lemma comma_sep_Cons: "xs \<noteq> [] \<Longrightarrow> comma_sep (x # xs) = x @ CHR '','' # comma_sep xs"
  by (cases xs) auto

lemma stops_sep [simp]: "stops (CHR '','' # r)" "stops (CHR '']'' # r)" "stops (CHR ''}'' # r)" "stops []"
  by (simp_all add: stops_def num_char_def is_digit09_def chr_code_def)

lemma read_items_text:
  assumes "xs \<noteq> []" and "length (comma_sep (map json_text xs)) + 2 \<le> f"
    and "\<And>x f rest. x \<in> set xs \<Longrightarrow> Suc (length (json_text x)) \<le> f \<Longrightarrow> stops rest \<Longrightarrow>
       read_value f (json_text x @ rest) = Some (x, rest)"
  shows "read_items f (comma_sep (map json_text xs) @ CHR '']'' # rest) = Some (xs, rest)"
  using assms
proof (induction xs arbitrary: f)
  case (Cons x xs)
  obtain f' where f: "f = Suc f'" using Cons.prems(2) by (cases f) auto
  show ?case
  proof (cases "xs = []")
    case True
    with Cons.prems f show ?thesis by simp
  next
    case False
    let ?t = "comma_sep (map json_text xs)"
    have eq: "comma_sep (map json_text (x # xs)) = json_text x @ CHR '','' # ?t"
      using False by (simp add: comma_sep_Cons)
    have "Suc (length (json_text x)) \<le> f'" using Cons.prems(2) f unfolding eq by simp
    then have "read_value f' (json_text x @ CHR '','' # ?t @ CHR '']'' # rest) = Some (x, CHR '','' # ?t @ CHR '']'' # rest)"
      using Cons.prems(3) by simp
    moreover have "read_items f' (?t @ CHR '']'' # rest) = Some (xs, rest)"
      using False Cons.prems f eq by (intro Cons.IH) auto
    ultimately show ?thesis unfolding eq f by simp
  qed
qed simp

lemma read_members_text:
  assumes "kvs \<noteq> []" and "length (comma_sep (map (\<lambda>(k, v). json_str k @ '':'' @ json_text v) kvs)) + 2 \<le> f"
    and "\<And>kv f rest. kv \<in> set kvs \<Longrightarrow> Suc (length (json_text (snd kv))) \<le> f \<Longrightarrow> stops rest \<Longrightarrow>
       read_value f (json_text (snd kv) @ rest) = Some (snd kv, rest)"
  shows "read_members f (comma_sep (map (\<lambda>(k, v). json_str k @ '':'' @ json_text v) kvs) @ CHR ''}'' # rest) = Some (kvs, rest)"
  using assms
proof (induction kvs arbitrary: f)
  case (Cons kv kvs)
  obtain k v where kv: "kv = (k, v)" by force
  obtain f' where f: "f = Suc f'" using Cons.prems(2) by (cases f) auto
  have val: "read_value f' (json_text v @ r) = Some (v, r)" if "Suc (length (json_text v)) \<le> f'" "stops r" for r
    using Cons.prems(3)[of kv f' r] kv that by simp
  have str: "read_string (concat (map esc_char k) @ CHR 0x22 # CHR '':'' # json_text v @ r) = Some (k, CHR '':'' # json_text v @ r)" for r
    by (rule read_string_json)
  show ?case
  proof (cases "kvs = []")
    case True
    with Cons.prems(2) f kv have "Suc (length (json_text v)) \<le> f'" by (simp add: json_str_def)
    with True f kv val[of "CHR ''}'' # rest"] str show ?thesis by (simp add: json_str_def)
  next
    case False
    let ?t = "comma_sep (map (\<lambda>(k, v). json_str k @ '':'' @ json_text v) kvs)"
    have eq: "comma_sep (map (\<lambda>(k, v). json_str k @ '':'' @ json_text v) (kv # kvs)) = json_str k @ '':'' @ json_text v @ CHR '','' # ?t"
      using False kv by (simp add: comma_sep_Cons)
    have "Suc (length (json_text v)) \<le> f'" using Cons.prems(2) f unfolding eq by (simp add: json_str_def)
    moreover have "read_members f' (?t @ CHR ''}'' # rest) = Some (kvs, rest)"
      using False Cons.prems f eq by (intro Cons.IH) (auto simp: json_str_def)
    ultimately show ?thesis using val str unfolding eq f by (simp add: json_str_def kv)
  qed
qed simp

lemma read_value_text:
  "json_ok v \<Longrightarrow> json_finite v \<Longrightarrow> Suc (length (json_text v)) \<le> f \<Longrightarrow> stops rest \<Longrightarrow>
     read_value f (json_text v @ rest) = Some (v, rest)"
proof (induction v arbitrary: f rest)
  case (JInt i)
  then obtain f' where "f = Suc f'" by (cases f) auto
  with JInt dec_int_number[of i] show ?case using read_value_number by simp
next
  case (JFloat t)
  then obtain f' where "f = Suc f'" by (cases f) auto
  moreover have "t \<noteq> []" using JFloat by auto
  ultimately show ?case using JFloat read_value_number[of t rest "JFloat t"] by (simp add: read_number_def)
next
  case (JBool b)
  then obtain f' where "f = Suc f'" by (cases f) auto
  then show ?case by (cases b) simp_all
next
  case (JStr s)
  then obtain f' where "f = Suc f'" by (cases f) auto
  then show ?case by (simp add: json_str_def read_string_json)
next
  case (JArr xs)
  then obtain f' where f: "f = Suc f'" by (cases f) auto
  show ?case
  proof (cases "xs = []")
    case True
    with f show ?thesis by simp
  next
    case False
    have hd: "comma_sep (map json_text xs) \<noteq> [] \<and> hd (comma_sep (map json_text xs)) \<noteq> CHR '']''"
    proof -
      obtain y ys where xs: "xs = y # ys" using False by (cases xs) auto
      with JArr.prems(1) have "json_text y \<noteq> [] \<and> hd (json_text y) \<noteq> CHR '']''" by (intro json_text_start) simp
      then show ?thesis unfolding xs by (cases ys) auto
    qed
    have "read_items f' (comma_sep (map json_text xs) @ CHR '']'' # rest) = Some (xs, rest)"
      using False JArr f by (intro read_items_text) auto
    with f hd show ?thesis by (simp add: hd_append)
  qed
next
  case (JObj kvs)
  then obtain f' where f: "f = Suc f'" by (cases f) auto
  show ?case
  proof (cases "kvs = []")
    case True
    with f show ?thesis by simp
  next
    case False
    let ?t = "comma_sep (map (\<lambda>(k, v). json_str k @ '':'' @ json_text v) kvs)"
    have hd: "?t \<noteq> [] \<and> hd ?t \<noteq> CHR ''}''"
    proof -
      obtain y ys where kvs: "kvs = y # ys" using False by (cases kvs) auto
      then show ?thesis by (cases ys; cases y) (auto simp: json_str_def)
    qed
    have "read_members f' (?t @ CHR ''}'' # rest) = Some (kvs, rest)"
      using False JObj f by (intro read_members_text) (auto simp: snds.simps)
    with f hd JObj.prems(1) show ?thesis by (simp add: hd_append py_dict_distinct)
  qed
qed (auto simp: gr0_conv_Suc Suc_le_eq dest: less_imp_Suc_add)

lemma stable_sorted: "sorted (map f xs) \<Longrightarrow> sort_key f xs = xs"
  by (induction xs) (auto simp: insort_is_Cons)

lemma json_norm_idem [simp]: "json_norm (json_norm v) = json_norm v"
proof (induction v)
  case (JObj kvs)
  let ?g = "\<lambda>(k, v). (k, json_norm v)"
  have m: "map ?g (map ?g kvs) = map ?g kvs" using JObj by (auto simp: snds.simps)
  have "map ?g (sort_key fst (map ?g kvs)) = sort_key fst (map ?g kvs)"
  proof (rule map_idI)
    fix x assume "x \<in> set (sort_key fst (map ?g kvs))"
    then obtain y where "y \<in> set kvs" "x = ?g y" by auto
    with JObj show "?g x = x" by (cases y) (auto simp: snds.simps)
  qed
  moreover have "sort_key fst (sort_key fst (map ?g kvs)) = sort_key fst (map ?g kvs)"
    by (rule stable_sorted) simp
  ultimately show ?case by simp
qed (auto simp: list.map_comp)

lemma json_norm_ok [simp]: "json_ok (json_norm v) = json_ok v"
proof (induction v)
  case (JObj kvs)
  let ?g = "\<lambda>(k, v). (k, json_norm v)"
  have "map fst (map ?g kvs) = map fst kvs" by (auto simp: case_prod_beta)
  then have "distinct (map fst (sort_key fst (map ?g kvs))) = distinct (map fst kvs)"
    by (metis mset_eq_imp_distinct_iff mset_map mset_sort)
  moreover have "(\<forall>kv \<in> set (map ?g kvs). json_ok (snd kv)) = (\<forall>kv \<in> set kvs. json_ok (snd kv))"
    using JObj by (auto simp: snds.simps split_beta)
  ultimately show ?case by simp
qed auto

lemma json_norm_finite [simp]: "json_finite (json_norm v) = json_finite v"
proof (induction v)
  case (JObj kvs)
  let ?g = "\<lambda>(k, v). (k, json_norm v)"
  have "(\<forall>kv \<in> set (map ?g kvs). json_finite (snd kv)) = (\<forall>kv \<in> set kvs. json_finite (snd kv))"
    using JObj by (auto simp: snds.simps split_beta)
  then show ?case by simp
qed auto

lemma json_loads_text: "json_ok v \<Longrightarrow> json_finite v \<Longrightarrow> json_loads (json_text v) = Inr v"
  using read_value_text[of v "Suc (length (json_text v))" "[]"] by (simp add: json_loads_def)

lemma json_loads_dumps:
  assumes "json_ok v" "json_dumps v = Inr s"
  shows "json_loads s = Inr (json_norm v) \<and> json_dumps (json_norm v) = Inr s"
  using assms json_loads_text[of "json_norm v"] by (auto simp: json_dumps_def split: if_splits)

lemma json_dumps_Inr: "json_dumps v = Inr s \<longleftrightarrow> json_finite v \<and> s = json_text (json_norm v)"
  by (auto simp: json_dumps_def)

lemma json_dumps_inj:
  assumes "json_ok v" "json_ok w" "json_dumps v = Inr s" "json_dumps w = Inr s"
  shows "json_norm v = json_norm w"
  using json_loads_dumps[OF assms(1,3)] json_loads_dumps[OF assms(2,4)] by simp

end
