(* ===== verification/Scenario_Matrix.thy ===== *)
theory Scenario_Matrix
  imports Json_Text
begin

text \<open>
  Scenario matrices (\<open>backend/app/application/scenario_matrix.py\<close>): named configuration
  variants with their canonical text, the validated specification of a seed x variant product,
  and its expansion in canonical order.
\<close>

subsection \<open>Configuration variants\<close>

record config_variant =
  variant_name :: string
  variant_text :: string

definition variant_re :: "string \<Rightarrow> bool" where
  "variant_re = token_match is_lower_az (\<lambda>c. is_lower_az c \<or> is_digit09 c \<or> c \<in> set ''_-'') 63"

definition is_JObj :: "json \<Rightarrow> bool" where
  "is_JObj j = (case j of JObj _ \<Rightarrow> True | _ \<Rightarrow> False)"

text \<open>\<open>ScenarioConfigVariant.__post_init__\<close>.\<close>

definition make_variant :: "string \<Rightarrow> string \<Rightarrow> exc + config_variant" where
  "make_variant name txt =
     (if \<not> variant_re name
      then Inl (ScenarioMatrixError ''variant name must be a stable lowercase token'')
      else case json_loads txt of
          Inl _ \<Rightarrow> Inl (ScenarioMatrixError ''variant config must be valid JSON'')
        | Inr config \<Rightarrow>
            if \<not> is_JObj config
            then Inl (ScenarioMatrixError ''variant config must be a JSON object'')
            else case json_dumps config of
                Inl _ \<Rightarrow> Inl (ScenarioMatrixError ''variant config must be valid JSON'')
              | Inr normalized \<Rightarrow>
                  if normalized \<noteq> txt
                  then Inl (ScenarioMatrixError ''variant config must use canonical JSON encoding'')
                  else Inr \<lparr>variant_name = name, variant_text = txt\<rparr>)"

text \<open>\<open>from_config\<close>: the argument is a mapping, given by its items.\<close>

definition from_config :: "string \<Rightarrow> (string \<times> json) list \<Rightarrow> exc + config_variant" where
  "from_config name config_json =
     (case json_dumps (JObj config_json) of
        Inl _ \<Rightarrow> Inl (ScenarioMatrixError ''variant config must be finite valid JSON'')
      | Inr normalized \<Rightarrow> make_variant name normalized)"

definition variant_config :: "config_variant \<Rightarrow> exc + json" where
  "variant_config v = json_loads (variant_text v)"

subsection \<open>Specifications\<close>

datatype run_mode = EXPANSION | FROM_SCRATCH

fun mode_value :: "run_mode \<Rightarrow> string" where
  "mode_value EXPANSION = ''EXPANSION''"
| "mode_value FROM_SCRATCH = ''FROM_SCRATCH''"

record matrix_spec =
  spec_project :: uuid
  spec_mode :: run_mode
  spec_seeds :: "int list"
  spec_variants :: "config_variant list"
  spec_versions :: "uuid list"
  spec_schema :: string
  spec_commit :: string
  spec_limit :: int

definition MAX_PERSISTED_SEED :: int where
  "MAX_PERSISTED_SEED = 2 ^ 63 - 1"

definition validate_spec :: "matrix_spec \<Rightarrow> exc + unit" where
  "validate_spec s =
     (let n = length (spec_seeds s) * length (spec_variants s) in
      if spec_seeds s = [] \<or> spec_variants s = []
      then Inl (ScenarioMatrixError ''matrix requires seeds and config variants'')
      else if \<not> (3 \<le> n \<and> n \<le> 10)
      then Inl (ScenarioMatrixError ''matrix must expand to 3-10 child runs'')
      else if list_ex (\<lambda>x. \<not> (0 \<le> x \<and> x \<le> MAX_PERSISTED_SEED)) (spec_seeds s)
      then Inl (ScenarioMatrixError ''seed must fit the signed PostgreSQL BIGINT range'')
      else if \<not> distinct (spec_seeds s)
      then Inl (ScenarioMatrixError ''matrix seeds must be distinct'')
      else if \<not> distinct (map variant_name (spec_variants s))
      then Inl (ScenarioMatrixError ''matrix variant names must be distinct'')
      else if \<not> distinct (map variant_text (spec_variants s))
      then Inl (ScenarioMatrixError ''matrix full config snapshots must be distinct'')
      else if \<not> distinct (spec_versions s)
      then Inl (ScenarioMatrixError ''dataset version IDs must be distinct'')
      else if \<not> (0 < length (spec_schema s) \<and> length (spec_schema s) \<le> 64) \<or> blank (spec_schema s)
      then Inl (ScenarioMatrixError ''config_schema_version must be a non-empty token'')
      else if \<not> commit_re (spec_commit s)
      then Inl (ScenarioMatrixError ''commit_sha must be a real lowercase 40-hex SHA'')
      else if \<not> (1 \<le> spec_limit s \<and> spec_limit s \<le> int n)
      then Inl (ScenarioMatrixError ''concurrency_limit must fit child count'')
      else Inr ())"

record matrix_child =
  child_position :: nat
  child_variant :: string
  child_seed :: int
  child_text :: string

definition child_config :: "matrix_child \<Rightarrow> exc + json" where
  "child_config c = json_loads (child_text c)"

definition expand_scenario_matrix :: "matrix_spec \<Rightarrow> matrix_child list" where
  "expand_scenario_matrix s =
     map (\<lambda>(i, v, seed). \<lparr>child_position = i, child_variant = variant_name v, child_seed = seed,
            child_text = variant_text v\<rparr>)
       (enumerate 0 (concat (map (\<lambda>v. map (Pair v) (sort (spec_seeds s))) (sort_key variant_name (spec_variants s)))))"

subsection \<open>Variants carry canonical text\<close>

lemma make_variant_Inr:
  "make_variant name txt = Inr v \<longleftrightarrow> variant_re name \<and> v = \<lparr>variant_name = name, variant_text = txt\<rparr> \<and>
     (\<exists>c. json_loads txt = Inr c \<and> is_JObj c \<and> json_dumps c = Inr txt)"
  by (auto simp: make_variant_def split: sum.splits)

lemma is_JObj_norm: "is_JObj (json_norm (JObj kvs))"
  by (simp add: is_JObj_def)

lemma from_config_Inr:
  assumes "json_ok (JObj kvs)"
  shows "from_config name kvs = Inr v \<longleftrightarrow> variant_re name \<and> json_finite (JObj kvs) \<and>
     v = \<lparr>variant_name = name, variant_text = json_text (json_norm (JObj kvs))\<rparr>"
proof (cases "json_dumps (JObj kvs)")
  case (Inl e)
  then show ?thesis by (auto simp: from_config_def json_dumps_def split: if_splits)
next
  case (Inr s)
  note l = json_loads_dumps[OF assms Inr]
  have "json_finite (JObj kvs)" "s = json_text (json_norm (JObj kvs))" using Inr by (simp_all only: json_dumps_Inr)
  with l Inr is_JObj_norm show ?thesis
    by (simp add: from_config_def make_variant_Inr del: json_norm.simps json_finite.simps)
qed

text \<open>
  C33. Building a variant loses nothing and is canonical: for a configuration with distinct keys
  \<open>from_config\<close> succeeds exactly when the name is a token and every number is finite; the stored
  text reads back as the configuration with sorted keys, is accepted again by the constructor, and
  two configurations share a text exactly when they are equal up to key order.
\<close>

theorem variant_text_is_canonical:
  assumes ok: "json_ok (JObj kvs)" "json_ok (JObj kvs')"
    and fin: "json_finite (JObj kvs)" "json_finite (JObj kvs')" and names: "variant_re n" "variant_re n'"
  shows "\<exists>v v'. from_config n kvs = Inr v \<and> from_config n' kvs' = Inr v' \<and>
     variant_config v = Inr (json_norm (JObj kvs)) \<and> make_variant n (variant_text v) = Inr v \<and>
     (variant_text v = variant_text v' \<longleftrightarrow> json_norm (JObj kvs) = json_norm (JObj kvs'))"
proof -
  let ?v = "\<lambda>n kvs. \<lparr>variant_name = n, variant_text = json_text (json_norm (JObj kvs))\<rparr>"
  have v: "from_config n kvs = Inr (?v n kvs)" "from_config n' kvs' = Inr (?v n' kvs')"
    using from_config_Inr[OF ok(1)] from_config_Inr[OF ok(2)] fin names by blast+
  have d: "json_dumps (JObj kvs) = Inr (variant_text (?v n kvs))" "json_dumps (JObj kvs') = Inr (variant_text (?v n' kvs'))"
    using fin by (simp_all add: json_dumps_def)
  have "make_variant n (variant_text (?v n kvs)) = Inr (?v n kvs)" using v(1) d(1) by (simp add: from_config_def)
  moreover have "variant_config (?v n kvs) = Inr (json_norm (JObj kvs))"
    using json_loads_dumps[OF ok(1) d(1)] unfolding variant_config_def by blast
  moreover have "variant_text (?v n kvs) = variant_text (?v n' kvs') \<longleftrightarrow> json_norm (JObj kvs) = json_norm (JObj kvs')"
    using json_dumps_inj[OF ok d(1)] d(2) by (metis config_variant.select_convs(2))
  ultimately show ?thesis using v by blast
qed

theorem variant_text_is_canonical_witness:
  "\<exists>v v'. from_config ''base'' [(''b'', JInt 1), (''a'', JStr ''x'')] = Inr v \<and>
     from_config ''other'' [(''a'', JStr ''x''), (''b'', JInt 1)] = Inr v' \<and> variant_text v = variant_text v'"
proof -
  let ?a = "[(''b'', JInt 1), (''a'', JStr ''x'')]" and ?b = "[(''a'', JStr ''x''), (''b'', JInt 1)]"
  have n: "variant_re ''base''" "variant_re ''other''" by code_simp+
  have e: "json_norm (JObj ?a) = json_norm (JObj ?b)" by code_simp
  show ?thesis using variant_text_is_canonical[of ?a ?b "''base''" "''other''"] n e by auto
qed

subsection \<open>The expansion\<close>

lemma length_expand: "length (expand_scenario_matrix s) = length (spec_seeds s) * length (spec_variants s)"
  by (simp add: expand_scenario_matrix_def length_concat comp_def sum_list_triv)

lemma expand_pairs:
  "map (\<lambda>c. (child_variant c, child_seed c)) (expand_scenario_matrix s) =
     concat (map (\<lambda>v. map (Pair (variant_name v)) (sort (spec_seeds s))) (sort_key variant_name (spec_variants s)))"
proof -
  have f: "map (\<lambda>c. (child_variant c, child_seed c)) (map (\<lambda>(i, v, seed). \<lparr>child_position = i,
       child_variant = variant_name v, child_seed = seed, child_text = variant_text v\<rparr>) (enumerate n L))
     = map (\<lambda>(v, seed). (variant_name v, seed)) L" for n L
    by (induction L arbitrary: n) auto
  show ?thesis unfolding expand_scenario_matrix_def f by (simp add: map_concat comp_def)
qed

lemma sorted_concat_pairs:
  assumes "sorted xs" "distinct xs" "sorted ys" "distinct ys"
  shows "sorted (concat (map (\<lambda>x. map (Pair x) ys) xs)) \<and> distinct (concat (map (\<lambda>x. map (Pair x) ys) xs))"
  using assms(1,2)
proof (induction xs)
  case (Cons x xs)
  have "sorted (map (Pair x) ys)" using assms(3) by (simp add: sorted_map)
  moreover have "distinct (map (Pair x) ys)" using assms(4) by (simp add: distinct_map inj_on_def)
  ultimately show ?case using Cons by (auto simp: sorted_append order.strict_iff_order)
qed simp

lemma expand_pairs_names:
  "map (\<lambda>c. (child_variant c, child_seed c)) (expand_scenario_matrix s) =
     concat (map (\<lambda>n. map (Pair n) (sort (spec_seeds s))) (map variant_name (sort_key variant_name (spec_variants s))))"
  by (simp add: expand_pairs comp_def)

text \<open>
  C34. A validated matrix expands to between 3 and 10 children: exactly one per variant and seed,
  in ascending order of (variant name, seed), numbered from 0.
\<close>

theorem expand_matrix_is_ordered_product:
  assumes "validate_spec s = Inr ()"
  shows "3 \<le> length (expand_scenario_matrix s) \<and> length (expand_scenario_matrix s) \<le> 10 \<and>
     sorted (map (\<lambda>c. (child_variant c, child_seed c)) (expand_scenario_matrix s)) \<and>
     distinct (map (\<lambda>c. (child_variant c, child_seed c)) (expand_scenario_matrix s)) \<and>
     set (map (\<lambda>c. (child_variant c, child_seed c)) (expand_scenario_matrix s)) =
       variant_name ` set (spec_variants s) \<times> set (spec_seeds s) \<and>
     map child_position (expand_scenario_matrix s) = [0..<length (expand_scenario_matrix s)]"
proof -
  have v: "distinct (spec_seeds s)" "distinct (map variant_name (spec_variants s))"
    "3 \<le> length (spec_seeds s) * length (spec_variants s)" "length (spec_seeds s) * length (spec_variants s) \<le> 10"
    using assms by (auto simp: validate_spec_def Let_def split: if_splits)
  let ?names = "map variant_name (sort_key variant_name (spec_variants s))"
  have "distinct ?names" using v(2) by (metis mset_eq_imp_distinct_iff mset_map mset_sort)
  then have "sorted (map (\<lambda>c. (child_variant c, child_seed c)) (expand_scenario_matrix s)) \<and>
      distinct (map (\<lambda>c. (child_variant c, child_seed c)) (expand_scenario_matrix s))"
    unfolding expand_pairs_names using v(1) by (intro sorted_concat_pairs) simp_all
  moreover have "set (map (\<lambda>c. (child_variant c, child_seed c)) (expand_scenario_matrix s)) =
       variant_name ` set (spec_variants s) \<times> set (spec_seeds s)"
    unfolding expand_pairs_names by auto
  moreover have "map child_position (expand_scenario_matrix s) = [0..<length (expand_scenario_matrix s)]"
    by (simp add: expand_scenario_matrix_def comp_def case_prod_beta enumerate_eq_zip)
  ultimately show ?thesis using v(3,4) by (simp add: length_expand)
qed

text \<open>
  C35. The expansion does not depend on the order in which the caller lists seeds or variants.
\<close>

theorem expand_matrix_ignores_caller_order:
  assumes "validate_spec s = Inr ()"
    and "mset seeds = mset (spec_seeds s)" and "mset variants = mset (spec_variants s)"
  shows "expand_scenario_matrix (s\<lparr>spec_seeds := seeds, spec_variants := variants\<rparr>) = expand_scenario_matrix s"
proof -
  have "distinct (map variant_name (spec_variants s))"
    using assms(1) by (auto simp: validate_spec_def Let_def split: if_splits)
  then have "inj_on variant_name (set (spec_variants s))" by (simp add: distinct_map)
  then have "sort_key variant_name variants = sort_key variant_name (spec_variants s)"
    using assms(3) mset_eq_setD[OF assms(3)]
    by (intro sort_key_inj_key_eq) simp_all
  moreover have "sort seeds = sort (spec_seeds s)" using assms(2) by (intro properties_for_sort) simp_all
  ultimately show ?thesis by (simp add: expand_scenario_matrix_def)
qed

definition demo_spec :: matrix_spec where
  "demo_spec = \<lparr>spec_project = 1, spec_mode = EXPANSION, spec_seeds = [7, 2],
     spec_variants = [\<lparr>variant_name = ''dense'', variant_text = ''{}''\<rparr>, \<lparr>variant_name = ''base'', variant_text = ''[]''\<rparr>],
     spec_versions = [5], spec_schema = ''v1'', spec_commit = replicate 40 CHR ''a'', spec_limit = 2\<rparr>"

lemma demo_spec_valid: "validate_spec demo_spec = Inr ()"
  by code_simp

theorem expand_matrix_is_ordered_product_witness:
  "map (\<lambda>c. (child_variant c, child_seed c)) (expand_scenario_matrix demo_spec) =
     [(''base'', 2), (''base'', 7), (''dense'', 2), (''dense'', 7)] \<and>
   map child_position (expand_scenario_matrix demo_spec) = [0..<length (expand_scenario_matrix demo_spec)]"
  using expand_matrix_is_ordered_product[OF demo_spec_valid] by (simp, code_simp)

theorem expand_matrix_ignores_caller_order_witness:
  "expand_scenario_matrix (demo_spec\<lparr>spec_seeds := [2, 7], spec_variants := rev (spec_variants demo_spec)\<rparr>) =
     expand_scenario_matrix demo_spec"
  by (rule expand_matrix_ignores_caller_order[OF demo_spec_valid]) (simp_all add: demo_spec_def)

end
