(* ===== verification/Run_Control.thy ===== *)
theory Run_Control
  imports Generation_State Scenario_Matrix
begin

text \<open>
  Run control (\<open>backend/app/db/run_control.py\<close>): creation of a run with its job and outbox row,
  manual retry of a terminal run as a new linked run, cancellation, and the progress reads of
  \<open>backend/app/schemas/run_control.py\<close>. New UUIDs and the transaction time are arguments.
\<close>

subsection \<open>Reads\<close>

record run_job_read =
  rj_id :: uuid
  rj_status :: status
  rj_attempts :: int
  rj_max_attempts :: int
  rj_cancel_requested_at :: "time option"
  rj_error_class :: "string option"
  rj_error_code :: "string option"

record run_stage_read =
  rs_stage :: string
  rs_version :: string
  rs_status :: stage_status
  rs_progress :: int
  rs_started_at :: "time option"
  rs_finished_at :: "time option"

record run_state_read =
  rr_id :: uuid
  rr_project_id :: uuid
  rr_rerun_source :: "uuid option"
  rr_status :: status
  rr_mode :: string
  rr_seed :: int
  rr_job :: "run_job_read option"
  rr_stages :: "run_stage_read list"
  rr_error_message :: "string option"
  rr_created_at :: time
  rr_started_at :: "time option"
  rr_finished_at :: "time option"

record run_list_read =
  rl_project_id :: uuid
  rl_limit :: int
  rl_truncated :: bool
  rl_runs :: "run_state_read list"

definition job_read :: "job \<Rightarrow> run_job_read" where
  "job_read j = \<lparr>rj_id = job_id j, rj_status = job_status j, rj_attempts = job_attempts j,
     rj_max_attempts = job_max_attempts j, rj_cancel_requested_at = job_cancel_requested_at j,
     rj_error_class = job_error_class j, rj_error_code = job_error_code j\<rparr>"

definition stage_read :: "stage_row \<Rightarrow> run_stage_read" where
  "stage_read s = \<lparr>rs_stage = srow_stage s, rs_version = srow_version s, rs_status = srow_status s,
     rs_progress = srow_progress s, rs_started_at = srow_started_at s, rs_finished_at = srow_finished_at s\<rparr>"

definition error_message :: "json option \<Rightarrow> string option" where
  "error_message e =
     (case e of
        Some (JObj kvs) \<Rightarrow> (case map_of kvs ''message'' of Some (JStr s) \<Rightarrow> Some s | _ \<Rightarrow> None)
      | _ \<Rightarrow> None)"

definition snapshot :: "run \<Rightarrow> job option \<Rightarrow> stage_row list \<Rightarrow> run_state_read" where
  "snapshot r j stages =
     \<lparr>rr_id = run_id r, rr_project_id = run_project_id r, rr_rerun_source = run_rerun_source r,
      rr_status = run_status r, rr_mode = run_mode r, rr_seed = run_seed r, rr_job = map_option job_read j,
      rr_stages = map stage_read stages, rr_error_message = error_message (run_error r),
      rr_created_at = run_created_at r, rr_started_at = run_started_at r, rr_finished_at = run_finished_at r\<rparr>"

text \<open>The loop that indexes the jobs of the selected runs; the SELECT leaves no job without a run.\<close>

fun index_jobs :: "uuid \<Rightarrow> (uuid \<rightharpoonup> job) \<Rightarrow> job list \<Rightarrow> exc + (uuid \<rightharpoonup> job)" where
  "index_jobs p by_run [] = Inr by_run"
| "index_jobs p by_run (j # js) =
     (case job_run_id j of
        None \<Rightarrow> Inl (RunControlConflict ''generation job has foreign-project ownership'')
      | Some i \<Rightarrow>
          if by_run i \<noteq> None
          then Inl (RunControlConflict ''run has multiple authoritative generation jobs'')
          else if job_project_id j \<noteq> p
          then Inl (RunControlConflict ''generation job has foreign-project ownership'')
          else index_jobs p (by_run(i \<mapsto> j)) js)"

definition runs_jobs :: "uuid list \<Rightarrow> db \<Rightarrow> job list" where
  "runs_jobs ids d = sort_key job_id (filter (\<lambda>j. (case job_run_id j of None \<Rightarrow> False | Some i \<Rightarrow> i \<in> set ids)
     \<and> job_type j = GENERATION_JOB_TYPE) (db_jobs d))"

definition run_progress :: "uuid \<Rightarrow> db \<Rightarrow> stage_row list" where
  "run_progress i d = sort_key (\<lambda>s. (srow_created_at s, srow_stage s)) (stage_rows i d)"

definition project_runs :: "uuid \<Rightarrow> run list \<Rightarrow> db \<Rightarrow> exc + run_state_read list" where
  "project_runs p rs d =
     (if rs = [] then Inr []
      else bindE (index_jobs p Map.empty (runs_jobs (map run_id rs) d)) (\<lambda>by_run.
        Inr (map (\<lambda>r. snapshot r (by_run (run_id r)) (run_progress (run_id r) d)) rs)))"

definition require_project :: "uuid \<Rightarrow> db \<Rightarrow> exc + project" where
  "require_project p d =
     (case find_project p d of
        None \<Rightarrow> Inl (RunControlNotFound ''project not found'')
      | Some x \<Rightarrow> Inr x)"

definition project_run :: "uuid \<Rightarrow> uuid \<Rightarrow> db \<Rightarrow> exc + run" where
  "project_run p i d =
     (case find_run i d of
        None \<Rightarrow> Inl (RunControlNotFound ''run not found in project'')
      | Some r \<Rightarrow> if run_project_id r = p then Inr r
                  else Inl (RunControlNotFound ''run not found in project''))"

definition control_get :: "uuid \<Rightarrow> uuid \<Rightarrow> db \<Rightarrow> exc + run_state_read" where
  "control_get p i d =
     bindE (require_project p d) (\<lambda>_. bindE (project_run p i d) (\<lambda>r.
     bindE (project_runs p [r] d) (\<lambda>xs. Inr (hd xs))))"

definition control_list :: "uuid \<Rightarrow> int \<Rightarrow> db \<Rightarrow> exc + run_list_read" where
  "control_list p limit d =
     (if \<not> (1 \<le> limit \<and> limit \<le> 100) then Inl (ValueError ''limit must be 1-100'')
      else bindE (require_project p d) (\<lambda>_.
        let rows = take (nat (limit + 1)) (rev (sort_key (\<lambda>r. (run_created_at r, run_id r))
              (filter (\<lambda>r. run_project_id r = p) (db_runs d)))) in
        bindE (project_runs p (take (nat limit) rows) d) (\<lambda>xs.
        Inr \<lparr>rl_project_id = p, rl_limit = limit, rl_truncated = (int (length rows) > limit), rl_runs = xs\<rparr>)))"

subsection \<open>Writes\<close>

definition check_boundary :: "project \<Rightarrow> exc + unit" where
  "check_boundary x =
     (if project_boundary_srid x \<noteq> Some (project_working_srid x)
      then Inl (RunControlConflict ''project boundary must use its metric working SRID'') else Inr ())"

definition MAX_DATASET_VERSIONS :: nat where
  "MAX_DATASET_VERSIONS = 32"

text \<open>The ready versions of the project among the requested ones, in id order.\<close>

definition ready_versions :: "uuid \<Rightarrow> uuid list \<Rightarrow> db \<Rightarrow> dataset_version list" where
  "ready_versions p ids d =
     sort_key version_id (filter (\<lambda>v. version_id v \<in> set ids \<and> version_status v = ''ready'' \<and>
        (case lookup dataset_id (version_dataset_id v) (db_datasets d) of
           None \<Rightarrow> False | Some x \<Rightarrow> dataset_project_id x = p)) (db_versions d))"

definition run_versions :: "uuid \<Rightarrow> uuid list \<Rightarrow> db \<Rightarrow> exc + dataset_version list" where
  "run_versions p ids d =
     (if \<not> (1 \<le> length ids \<and> length ids \<le> MAX_DATASET_VERSIONS) \<or> \<not> distinct ids
      then Inl (RunControlConflict ''run requires 1-32 distinct dataset versions'')
      else if length (ready_versions p ids d) \<noteq> length ids
      then Inl (RunControlConflict ''dataset versions must exist, be ready and belong to project'')
      else Inr (ready_versions p ids d))"

definition generation_job :: "uuid \<Rightarrow> run \<Rightarrow> job" where
  "generation_job fresh r =
     \<lparr>job_id = fresh, job_project_id = run_project_id r, job_run_id = Some (run_id r),
      job_type = GENERATION_JOB_TYPE, job_key = ''run:'' @ uuid_str (run_id r), job_status = Queued,
      job_attempts = 0, job_max_attempts = 3, job_error_class = None, job_error_code = None, job_error = None,
      job_cancel_requested_at = None, job_started_at = None, job_finished_at = None\<rparr>"

definition generation_message :: "uuid \<Rightarrow> uuid \<Rightarrow> time \<Rightarrow> run \<Rightarrow> outbox" where
  "generation_message fresh j now r =
     \<lparr>outbox_id = fresh, outbox_job_id = j, outbox_queue = ''generation'',
      outbox_payload = [(''task'', JStr ''run_generation''), (''run_id'', JStr (uuid_str (run_id r)))],
      outbox_status = Pending, outbox_attempts = 0, outbox_last_error = None, outbox_last_attempt_at = None,
      outbox_next_attempt_at = None, outbox_dispatched_at = None, outbox_created_at = now\<rparr>"

definition enqueue_run :: "uuid \<Rightarrow> uuid \<Rightarrow> time \<Rightarrow> run \<Rightarrow> db \<Rightarrow> exc + db" where
  "enqueue_run fj fo now r d =
     bindE (flush d (add_run r d)) (\<lambda>d1.
     bindE (flush d1 (add_job (generation_job fj r) d1)) (\<lambda>d2.
     flush d2 (add_outbox (generation_message fo fj now r) d2)))"

text \<open>\<open>ScenarioConfigVariant.from_config\<close> on a stored or submitted value, its error rewritten.\<close>

definition replay_config :: "string \<Rightarrow> string \<Rightarrow> json \<Rightarrow> exc + config_variant" where
  "replay_config name message config =
     (case (case config of
              JObj kvs \<Rightarrow> from_config name kvs
            | _ \<Rightarrow> Inl (ScenarioMatrixError ''variant config must be a JSON object'')) of
        Inl (ScenarioMatrixError _) \<Rightarrow> Inl (RunControlConflict message)
      | m \<Rightarrow> m)"

definition new_run ::
  "uuid \<Rightarrow> uuid \<Rightarrow> uuid option \<Rightarrow> string \<Rightarrow> int \<Rightarrow> int \<Rightarrow> json \<Rightarrow> string \<Rightarrow> string option \<Rightarrow> time \<Rightarrow>
     dataset_version list \<Rightarrow> run" where
  "new_run fresh p src mode seed srid config schema commit now versions =
     \<lparr>run_id = fresh, run_project_id = p, run_rerun_source = src, run_status = Queued, run_mode = mode,
      run_seed = seed, run_working_srid = srid, run_config = config, run_schema_version = schema,
      run_commit_sha = commit, run_error = None, run_started_at = None, run_finished_at = None,
      run_created_at = now, run_dataset_versions = map version_id versions\<rparr>"

record run_request =
  rq_mode :: string
  rq_seed :: int
  rq_versions :: "uuid list"
  rq_config :: "(string \<times> json) list"
  rq_schema :: string
  rq_commit :: string

definition check_request :: "run_request \<Rightarrow> exc + config_variant" where
  "check_request q =
     (if rq_mode q \<notin> {''EXPANSION'', ''FROM_SCRATCH''} then Inl (RunControlConflict ''invalid run mode'')
      else if \<not> (0 \<le> rq_seed q \<and> rq_seed q \<le> MAX_PERSISTED_SEED)
      then Inl (RunControlConflict ''seed is outside persisted BIGINT range'')
      else if rq_schema q = [] \<or> blank (rq_schema q) \<or> length (rq_schema q) > 64
      then Inl (RunControlConflict ''invalid config schema version'')
      else if \<not> commit_re (rq_commit q)
      then Inl (RunControlConflict ''commit_sha must be a real lowercase 40-hex revision'')
      else replay_config ''manual_run'' ''config must be a finite canonical JSON object'' (JObj (rq_config q)))"

record fresh_ids =
  fresh_run :: uuid
  fresh_job :: uuid
  fresh_message :: uuid

definition create_run :: "admission_limits \<Rightarrow> fresh_ids \<Rightarrow> time \<Rightarrow> uuid \<Rightarrow> run_request \<Rightarrow> db \<Rightarrow> exc + uuid \<times> db" where
  "create_run lims f now p q d =
     bindE (check_request q) (\<lambda>variant.
     bindE (require_project p d) (\<lambda>x.
     bindE (check_boundary x) (\<lambda>_.
     bindE (run_versions p (rq_versions q) d) (\<lambda>versions.
     bindE (variant_config variant) (\<lambda>config.
     bindE (enforce_project_job_capacity lims p GENERATION_JOB_TYPE 1 d) (\<lambda>_.
     bindE (enqueue_run (fresh_job f) (fresh_message f) now
        (new_run (fresh_run f) p None (rq_mode q) (rq_seed q) (project_working_srid x) config (rq_schema q)
           (Some (rq_commit q)) now versions) d) (\<lambda>d'.
     Inr (fresh_run f, d'))))))))"

definition control_create ::
  "admission_limits \<Rightarrow> fresh_ids \<Rightarrow> time \<Rightarrow> uuid \<Rightarrow> run_request \<Rightarrow> db \<Rightarrow> exc + run_state_read \<times> db" where
  "control_create lims f now p q d =
     bindE (create_run lims f now p q d) (\<lambda>(i, d'). bindE (control_get p i d') (\<lambda>s. Inr (s, d')))"

text \<open>The oldest run linked to the source, if there is one.\<close>

definition first_rerun :: "uuid \<Rightarrow> db \<Rightarrow> uuid option" where
  "first_rerun i d =
     (case sort_key (\<lambda>r. (run_created_at r, run_id r)) (filter (\<lambda>r. run_rerun_source r = Some i) (db_runs d)) of
        [] \<Rightarrow> None
      | r # _ \<Rightarrow> Some (run_id r))"

definition replay_run :: "admission_limits \<Rightarrow> fresh_ids \<Rightarrow> time \<Rightarrow> project \<Rightarrow> run \<Rightarrow> db \<Rightarrow> exc + uuid \<times> db" where
  "replay_run lims f now x src d =
     bindE (check_boundary x) (\<lambda>_.
     if run_working_srid src \<noteq> project_working_srid x
     then Inl (RunControlConflict ''source working SRID has changed'')
     else if \<not> (case run_commit_sha src of None \<Rightarrow> False | Some c \<Rightarrow> commit_re c)
     then Inl (RunControlConflict ''source code revision is missing'')
     else bindE (replay_config ''manual_retry'' ''source config cannot be replayed'' (run_config src)) (\<lambda>variant.
       bindE (run_versions (project_id x) (run_dataset_versions src) d) (\<lambda>versions.
       bindE (enforce_project_job_capacity lims (project_id x) GENERATION_JOB_TYPE 1 d) (\<lambda>_.
       bindE (variant_config variant) (\<lambda>config.
       bindE (enqueue_run (fresh_job f) (fresh_message f) now
          (new_run (fresh_run f) (project_id x) (Some (run_id src)) (run_mode src) (run_seed src) (run_working_srid src)
             config (run_schema_version src) (run_commit_sha src) now versions) d) (\<lambda>d'.
       Inr (fresh_run f, d')))))))"

definition retry_run :: "admission_limits \<Rightarrow> fresh_ids \<Rightarrow> time \<Rightarrow> uuid \<Rightarrow> uuid \<Rightarrow> db \<Rightarrow> exc + uuid \<times> db" where
  "retry_run lims f now p i d =
     bindE (require_project p d) (\<lambda>x.
     bindE (project_run p i d) (\<lambda>src.
     if run_status src \<notin> {Failed, Cancelled}
     then Inl (RunControlConflict ''manual retry requires a failed or cancelled run'')
     else if \<not> (case generation_jobs (run_id src) d of [j] \<Rightarrow> job_status j = run_status src | _ \<Rightarrow> False)
     then Inl (RunControlConflict ''source run/job terminal states are inconsistent'')
     else case first_rerun (run_id src) d of
         Some existing \<Rightarrow> Inr (existing, d)
       | None \<Rightarrow> replay_run lims f now x src d))"

definition control_retry ::
  "admission_limits \<Rightarrow> fresh_ids \<Rightarrow> time \<Rightarrow> uuid \<Rightarrow> uuid \<Rightarrow> db \<Rightarrow> exc + run_state_read \<times> db" where
  "control_retry lims f now p i d =
     bindE (retry_run lims f now p i d) (\<lambda>(i', d'). bindE (control_get p i' d') (\<lambda>s. Inr (s, d')))"

definition control_cancel :: "time \<Rightarrow> uuid \<Rightarrow> uuid \<Rightarrow> db \<Rightarrow> exc + run_state_read \<times> db" where
  "control_cancel now p i d =
     bindE (control_get p i d) (\<lambda>_.
     bindE (case request_cancel i now d of
              Inl e \<Rightarrow> Inl (if is_generation_error e
                            then RunControlConflict ''run/job state is inconsistent for cancellation'' else e)
            | Inr m \<Rightarrow> Inr m) (\<lambda>(_, d').
     bindE (control_get p i d') (\<lambda>s. Inr (s, d'))))"

end
