(* ===== verification/Matrix_Batch.thy ===== *)
theory Matrix_Batch
  imports Run_Control
begin

text \<open>
  \<open>create_matrix\<close> of \<open>backend/app/db/scenario_batch.py\<close>: one transaction that inserts the runs of
  a validated matrix with their jobs and outbox rows and seals them into a batch. The new UUIDs of
  the child at position \<open>i\<close> are \<open>fresh i\<close>.
\<close>

definition add_rows :: "run list \<Rightarrow> job list \<Rightarrow> outbox list \<Rightarrow> db \<Rightarrow> db" where
  "add_rows rs js ms d = d\<lparr>db_runs := db_runs d @ rs, db_jobs := db_jobs d @ js, db_outbox := db_outbox d @ ms\<rparr>"

definition matrix_runs ::
  "(nat \<Rightarrow> fresh_ids) \<Rightarrow> time \<Rightarrow> matrix_spec \<Rightarrow> project \<Rightarrow> dataset_version list \<Rightarrow> matrix_child list \<Rightarrow> exc + run list" where
  "matrix_runs fresh now s x versions children =
     mapE (\<lambda>(i, c). bindE (child_config c) (\<lambda>config.
        Inr (new_run (fresh_run (fresh i)) (spec_project s) None (mode_value (spec_mode s)) (child_seed c)
          (project_working_srid x) config (spec_schema s) (Some (spec_commit s)) now versions)))
       (enumerate 0 children)"

definition matrix_jobs :: "(nat \<Rightarrow> fresh_ids) \<Rightarrow> run list \<Rightarrow> job list" where
  "matrix_jobs fresh rs = map (\<lambda>(i, r). generation_job (fresh_job (fresh i)) r) (enumerate 0 rs)"

definition matrix_messages :: "(nat \<Rightarrow> fresh_ids) \<Rightarrow> time \<Rightarrow> run list \<Rightarrow> outbox list" where
  "matrix_messages fresh now rs =
     map (\<lambda>(i, r). generation_message (fresh_message (fresh i)) (fresh_job (fresh i)) now r) (enumerate 0 rs)"

definition create_matrix ::
  "admission_limits \<Rightarrow> (nat \<Rightarrow> fresh_ids) \<Rightarrow> uuid \<Rightarrow> time \<Rightarrow> matrix_spec \<Rightarrow> db \<Rightarrow> exc + (uuid \<times> uuid list) \<times> db" where
  "create_matrix lims fresh fb now s d =
     (let children = expand_scenario_matrix s in
      case find_project (spec_project s) d of
        None \<Rightarrow> Inl (ScenarioBatchError ''matrix project does not exist'')
      | Some x \<Rightarrow>
          if project_boundary_srid x \<noteq> Some (project_working_srid x)
          then Inl (ScenarioBatchError ''matrix project needs a boundary in its metric working SRID'')
          else
            let versions = ready_versions (spec_project s) (sort (spec_versions s)) d in
            if length versions \<noteq> length (spec_versions s)
            then Inl (ScenarioBatchError ''matrix dataset versions must all be ready and project-owned'')
            else
              bindE (enforce_project_job_capacity lims (spec_project s) GENERATION_JOB_TYPE (int (length children)) d) (\<lambda>_.
              bindE (matrix_runs fresh now s x versions children) (\<lambda>rs.
              bindE (flush d (add_rows rs [] [] d)) (\<lambda>d1.
              bindE (flush d1 (add_rows [] (matrix_jobs fresh rs) [] d1)) (\<lambda>d2.
              bindE (flush d2 (add_rows [] [] (matrix_messages fresh now rs) d2)) (\<lambda>d3.
              bindE (seal fb now (spec_project s) (map run_id rs) (spec_limit s) d3) (\<lambda>(b, d4).
              Inr ((b, map run_id rs), d4))))))))"

end
