(* ===== verification/Lifecycle_Inv.thy ===== *)
theory Lifecycle_Inv
  imports Matrix_Batch
begin

text \<open>
  The invariant of the run lifecycle, and what keeps it: every run has exactly one generation job,
  in the same state, with the fields that state requires; every batch is sealed, within its
  concurrency limit, and terminal only when its children are. The lemmas say which row updates
  keep the invariant; theory \<open>Lifecycle\<close> applies them to the transactions.
\<close>

subsection \<open>The invariant\<close>

definition has_commit :: "run \<Rightarrow> bool" where
  "has_commit r = (case run_commit_sha r of None \<Rightarrow> False | Some c \<Rightarrow> commit_re c)"

definition lifecycle_ok :: "run \<Rightarrow> job \<Rightarrow> stage_row list \<Rightarrow> bool" where
  "lifecycle_ok r j rows =
     (job_project_id j = run_project_id r \<and> job_status j = run_status r \<and> has_commit r \<and>
      (case run_status r of
         Queued \<Rightarrow> job_cancel_requested_at j = None \<and> job_attempts j < job_max_attempts j \<and> rows = [] \<and>
           (job_error j \<noteq> None \<longrightarrow> 1 \<le> job_attempts j)
       | Running \<Rightarrow> 1 \<le> job_attempts j
       | Succeeded \<Rightarrow> job_cancel_requested_at j = None \<and> list_all stage_row_done rows
       | Failed \<Rightarrow> job_cancel_requested_at j = None
       | Cancelled \<Rightarrow> job_cancel_requested_at j \<noteq> None
       | Other_status _ \<Rightarrow> False))"

definition run_ok :: "db \<Rightarrow> run \<Rightarrow> bool" where
  "run_ok d r = (case generation_jobs (run_id r) d of
     [j] \<Rightarrow> lifecycle_ok r j (stage_rows (run_id r) d) | _ \<Rightarrow> False)"

definition batch_ok :: "db \<Rightarrow> batch \<Rightarrow> bool" where
  "batch_ok d b = (batch_status b \<noteq> BDraft \<and> sealed b d \<and> int (running_children (batch_id b) d) \<le> batch_limit b \<and>
     (batch_terminal (batch_status b) \<longrightarrow> list_all terminal (child_statuses (batch_id b) d)))"

definition lifecycle :: "db \<Rightarrow> bool" where
  "lifecycle d = (wf_db d \<and> list_all (run_ok d) (db_runs d) \<and> list_all (batch_ok d) (db_batches d))"

lemma run_ok_iff:
  "run_ok d r \<longleftrightarrow> (\<exists>j. generation_jobs (run_id r) d = [j] \<and> lifecycle_ok r j (stage_rows (run_id r) d))"
  by (auto simp: run_ok_def split: list.splits)

lemma lifecycle_wf: "lifecycle d \<Longrightarrow> wf_db d"
  by (simp add: lifecycle_def)

lemma generation_jobs_mem:
  "j \<in> set (generation_jobs i d) \<Longrightarrow> j \<in> set (db_jobs d) \<and> job_run_id j = Some i \<and> job_type j = GENERATION_JOB_TYPE"
  by (simp add: generation_jobs_def)

lemma lifecycle_run:
  assumes "lifecycle d" "find_run i d = Some r"
  obtains j where "generation_jobs i d = [j]" "lifecycle_ok r j (stage_rows i d)" "get_job r d = Inr j"
    "j \<in> set (db_jobs d)" "job_run_id j = Some i" "job_type j = GENERATION_JOB_TYPE" "run_id r = i" "r \<in> set (db_runs d)"
proof -
  have r: "r \<in> set (db_runs d)" "run_id r = i" using find_run_Some[OF assms(2)] by simp_all
  with assms(1) obtain j where j: "generation_jobs i d = [j]" "lifecycle_ok r j (stage_rows i d)"
    by (auto simp: lifecycle_def list_all_iff run_ok_iff)
  moreover have "get_job r d = Inr j" using j r by (simp add: get_job_def lifecycle_ok_def)
  moreover have "j \<in> set (db_jobs d) \<and> job_run_id j = Some i \<and> job_type j = GENERATION_JOB_TYPE"
    using j(1) by (intro generation_jobs_mem) simp
  ultimately show thesis using that r by blast
qed

lemma lifecycle_batch:
  "lifecycle d \<Longrightarrow> find_batch i d = Some b \<Longrightarrow> batch_ok d b \<and> batch_id b = i"
  using find_batch_Some by (fastforce simp: lifecycle_def list_all_iff)

subsection \<open>Jobs under updates\<close>

lemma filter_put_row_in:
  "(\<And>x. x \<in> set rows \<Longrightarrow> key x = key r \<Longrightarrow> P x = P r) \<Longrightarrow> filter P (put_row key r rows) = put_row key r (filter P rows)"
  by (induction rows) (auto simp: put_row_def)

lemma generation_jobs_set_job:
  assumes u: "distinct (map job_id (db_jobs d))" and j: "generation_jobs i d = [j0]" "same_job_key j j0"
  shows "generation_jobs k (set_job j d) = (if k = i then [j] else generation_jobs k d)"
proof -
  have j0: "j0 \<in> set (db_jobs d)" "job_run_id j0 = Some i" "job_type j0 = GENERATION_JOB_TYPE"
    using generation_jobs_mem[of j0 i d] j(1) by simp_all
  have uniq: "x = j0" if x: "x \<in> set (db_jobs d)" "job_id x = job_id j" for x
  proof -
    have "job_id x = job_id j0" using x(2) j(2) by (simp add: same_job_key_def)
    then show ?thesis
      using lookup_self[OF u x(1)] lookup_self[OF u j0(1)] by (metis option.inject)
  qed
  have "generation_jobs k (set_job j d) = put_row job_id j (generation_jobs k d)"
    unfolding generation_jobs_def set_job_tables
  proof (rule filter_put_row_in)
    fix x assume "x \<in> set (db_jobs d)" "job_id x = job_id j"
    then have "x = j0" by (rule uniq)
    then show "(job_run_id x = Some k \<and> job_type x = GENERATION_JOB_TYPE) = (job_run_id j = Some k \<and> job_type j = GENERATION_JOB_TYPE)"
      using j(2) by (simp add: same_job_key_def)
  qed
  moreover have "put_row job_id j (generation_jobs k d) = generation_jobs k d" if k: "k \<noteq> i"
  proof (rule put_row_absent)
    have "job_id x \<noteq> job_id j" if x: "x \<in> set (generation_jobs k d)" for x
      using uniq[of x] generation_jobs_mem[OF x] j0(2) k by auto
    then show "job_id j \<notin> job_id ` set (generation_jobs k d)" by (metis imageE)
  qed
  ultimately show ?thesis using j by (simp add: put_row_def same_job_key_def)
qed

lemma generation_jobs_other [simp]:
  "generation_jobs i (set_run r d) = generation_jobs i d" "generation_jobs i (set_batch b d) = generation_jobs i d"
  "generation_jobs i (set_stage_row s d) = generation_jobs i d" "generation_jobs i (add_stage_row s d) = generation_jobs i d"
  "generation_jobs i (set_outbox m d) = generation_jobs i d"
  by (simp_all add: generation_jobs_def)

subsection \<open>Children of a batch under updates\<close>

definition statuses_of :: "member list \<Rightarrow> (uuid \<Rightarrow> status option) \<Rightarrow> status list" where
  "statuses_of ms st = List.map_filter (\<lambda>m. st (member_run_id m)) ms"

lemma child_statuses_eq: "child_statuses b d = statuses_of (batch_members b d) (\<lambda>i. run_status_of i d)"
  by (simp add: child_statuses_def statuses_of_def)

lemma statuses_of_simps [simp]:
  "statuses_of [] st = []"
  "statuses_of (m # ms) st = (case st (member_run_id m) of None \<Rightarrow> statuses_of ms st | Some s \<Rightarrow> s # statuses_of ms st)"
  unfolding statuses_of_def by (simp_all only: map_filter_Cons) (simp add: List.map_filter_def)

lemma statuses_of_cong:
  "(\<And>m. m \<in> set ms \<Longrightarrow> st (member_run_id m) = st' (member_run_id m)) \<Longrightarrow> statuses_of ms st = statuses_of ms st'"
  by (induction ms) (auto split: option.split)

lemma statuses_of_outside: "i \<notin> member_run_id ` set ms \<Longrightarrow> statuses_of ms (st(i \<mapsto> s)) = statuses_of ms st"
  by (rule statuses_of_cong) auto

lemma statuses_of_upd_length: "st i \<noteq> None \<Longrightarrow> length (statuses_of ms (st(i \<mapsto> s))) = length (statuses_of ms st)"
  by (induction ms) (auto split: option.split)

lemma statuses_of_upd_count:
  assumes "st i \<noteq> None" "distinct (map member_run_id ms)"
  shows "length (filter P (statuses_of ms (st(i \<mapsto> s)))) \<le> length (filter P (statuses_of ms st)) + (if P s then 1 else 0)"
  using assms(2)
proof (induction ms)
  case (Cons m ms)
  show ?case
  proof (cases "member_run_id m = i")
    case True
    then have "statuses_of ms (st(i \<mapsto> s)) = statuses_of ms st" using Cons.prems by (intro statuses_of_outside) auto
    moreover obtain s0 where "st i = Some s0" using assms(1) by blast
    ultimately show ?thesis using True by (simp add: fun_upd_def)
  next
    case False
    then show ?thesis using Cons by (auto split: option.split)
  qed
qed simp

lemma statuses_of_mem: "m \<in> set ms \<Longrightarrow> st (member_run_id m) = Some s \<Longrightarrow> s \<in> set (statuses_of ms st)"
  by (induction ms) (auto split: option.split)

lemma run_status_of_set_run:
  "find_run (run_id r) d \<noteq> None \<Longrightarrow>
     (\<lambda>i. run_status_of i (set_run r d)) = (\<lambda>i. run_status_of i d)(run_id r \<mapsto> run_status r)"
  by (auto simp: run_status_of_def find_run_set_run)

lemma distinct_batch_members: "wf_db d \<Longrightarrow> distinct (map member_run_id (batch_members b d))"
  using wf_pks(9) by (auto simp: batch_members_def distinct_map intro: inj_on_subset)

lemma child_statuses_set_run:
  "find_run (run_id r) d \<noteq> None \<Longrightarrow>
     child_statuses b (set_run r d) = statuses_of (batch_members b d) ((\<lambda>i. run_status_of i d)(run_id r \<mapsto> run_status r))"
  by (simp add: child_statuses_eq run_status_of_set_run)

lemma child_statuses_other [simp]:
  "child_statuses i (set_job j d) = child_statuses i d" "child_statuses i (set_stage_row s d) = child_statuses i d"
  "child_statuses i (add_stage_row s d) = child_statuses i d"
  by (simp_all add: child_statuses_def run_status_of_def)

text \<open>A batch keeps its invariant when a run that is not finished changes state.\<close>

lemma batch_ok_set_run:
  assumes wf: "wf_db d" and b: "batch_ok d b" and r: "find_run (run_id r) d = Some r0" "\<not> terminal (run_status r0)"
    and cap: "run_status r = Running \<Longrightarrow> run_id r \<in> member_run_id ` set (batch_members (batch_id b) d) \<Longrightarrow>
      int (running_children (batch_id b) d) < batch_limit b"
  shows "batch_ok (set_run r d) b"
proof -
  let ?st = "\<lambda>i. run_status_of i d" and ?ms = "batch_members (batch_id b) d"
  have st: "?st (run_id r) = Some (run_status r0)" by (simp add: run_status_of_def r)
  have cs: "child_statuses (batch_id b) (set_run r d) = statuses_of ?ms (?st(run_id r \<mapsto> run_status r))"
    using r(1) by (simp add: child_statuses_set_run)
  have len: "length (child_statuses (batch_id b) (set_run r d)) = length (child_statuses (batch_id b) d)"
    unfolding cs unfolding child_statuses_eq by (rule statuses_of_upd_length) (simp add: st)
  have "int (running_children (batch_id b) (set_run r d)) \<le> batch_limit b"
  proof (cases "run_id r \<in> member_run_id ` set ?ms")
    case True
    have "running_children (batch_id b) (set_run r d)
        \<le> running_children (batch_id b) d + (if run_status r = Running then 1 else 0)"
      unfolding running_children_def cs unfolding child_statuses_eq
      by (rule statuses_of_upd_count[OF _ distinct_batch_members[OF wf]]) (simp add: st)
    then show ?thesis using b cap True by (auto simp: batch_ok_def split: if_splits)
  next
    case False
    then have "child_statuses (batch_id b) (set_run r d) = child_statuses (batch_id b) d"
      unfolding cs unfolding child_statuses_eq by (rule statuses_of_outside)
    then show ?thesis using b by (simp add: batch_ok_def running_children_def)
  qed
  moreover have "list_all terminal (child_statuses (batch_id b) (set_run r d))" if t: "batch_terminal (batch_status b)"
  proof -
    have all: "list_all terminal (child_statuses (batch_id b) d)" using b t by (simp add: batch_ok_def)
    have "run_id r \<notin> member_run_id ` set ?ms"
      using all r(2) st statuses_of_mem[of _ ?ms ?st "run_status r0"] by (auto simp: child_statuses_eq list_all_iff)
    then have "child_statuses (batch_id b) (set_run r d) = child_statuses (batch_id b) d"
      unfolding cs unfolding child_statuses_eq by (rule statuses_of_outside)
    with all show ?thesis by simp
  qed
  ultimately show ?thesis using b len by (simp add: batch_ok_def sealed_def)
qed

subsection \<open>Row updates that keep the invariant\<close>

lemma batch_ok_set_job [simp]: "batch_ok (set_job j d) b = batch_ok d b"
  by (simp add: batch_ok_def sealed_def running_children_def)

lemma run_ok_set_job_run:
  assumes lc: "lifecycle d" and j: "generation_jobs (run_id r) d = [j0]" "same_job_key j j0"
    and ok: "lifecycle_ok r j (stage_rows (run_id r) d)"
    and q: "q \<in> set (put_row run_id r (db_runs d))"
  shows "run_ok (set_job j (set_run r d)) q"
proof -
  have u: "distinct (map job_id (db_jobs (set_run r d)))" using wf_pks(5)[OF lifecycle_wf[OF lc]] by simp
  have g: "generation_jobs k (set_job j (set_run r d)) = (if k = run_id r then [j] else generation_jobs k d)" for k
    using generation_jobs_set_job[OF u, of "run_id r" j0 j k] j by simp
  consider "q = r" | "q \<in> set (db_runs d)" "run_id q \<noteq> run_id r" using put_row_set[OF q] by blast
  then show ?thesis
  proof cases
    case 1
    then show ?thesis using ok by (simp add: run_ok_def g)
  next
    case 2
    then have "run_ok d q" using lc by (simp add: lifecycle_def list_all_iff)
    with 2 show ?thesis by (auto simp: run_ok_iff g)
  qed
qed

definition free_slots :: "uuid \<Rightarrow> db \<Rightarrow> bool" where
  "free_slots i d \<longleftrightarrow> (\<forall>b \<in> set (db_batches d). i \<in> member_run_id ` set (batch_members (batch_id b) d) \<longrightarrow>
     int (running_children (batch_id b) d) < batch_limit b)"

lemma run_update:
  assumes lc: "lifecycle d" and r: "find_run (run_id r) d = Some r0" "\<not> terminal (run_status r0)" "run_checks r"
    and refs: "same_run_refs r r0"
    and j: "generation_jobs (run_id r) d = [j0]" "same_job_key j j0" "job_checks j"
    and ok: "lifecycle_ok r j (stage_rows (run_id r) d)" and cap: "run_status r = Running \<Longrightarrow> free_slots (run_id r) d"
  shows "flush d (set_job j (set_run r d)) = Inr (set_job j (set_run r d)) \<and> lifecycle (set_job j (set_run r d))"
proof -
  have wf: "wf_db d" using lc by (rule lifecycle_wf)
  have j0: "j0 \<in> set (db_jobs d)" using generation_jobs_mem[of j0 "run_id r" d] j(1) by simp
  have "run_status r0 \<noteq> Succeeded" using r(2) by (auto simp: terminal_def)
  then have fl: "flush d (set_job j (set_run r d)) = Inr (set_job j (set_run r d))"
    using flush_run_job[OF wf r(1) _ r(3) refs j0 j(2,3)] by blast
  then have "wf_db (set_job j (set_run r d))" using flush_wf by blast
  moreover have "batch_ok (set_run r d) b" if b: "b \<in> set (db_batches d)" for b
    using lc b cap by (intro batch_ok_set_run[OF wf _ r(1,2)]) (auto simp: lifecycle_def list_all_iff free_slots_def)
  ultimately show ?thesis using fl run_ok_set_job_run[OF lc j(1,2) ok] by (simp add: lifecycle_def list_all_iff)
qed

text \<open>Writes to the stage rows of a running run.\<close>

lemma lifecycle_stage_write:
  assumes lc: "lifecycle d" and r: "find_run i d = Some r0" "run_status r0 = Running" and wf: "wf_db d'"
    and same: "db_runs d' = db_runs d" "db_jobs d' = db_jobs d" "db_batches d' = db_batches d" "db_members d' = db_members d"
    and rows: "\<And>k. k \<noteq> i \<Longrightarrow> stage_rows k d' = stage_rows k d"
  shows "lifecycle d'"
proof -
  have g: "generation_jobs k d' = generation_jobs k d" for k by (simp add: generation_jobs_def same)
  have "child_statuses k d' = child_statuses k d" "batch_members k d' = batch_members k d" for k
    by (simp_all add: child_statuses_def batch_members_def run_status_of_def find_run_def same)
  then have "batch_ok d' b = batch_ok d b" for b by (simp add: batch_ok_def sealed_def running_children_def)
  moreover have "run_ok d' q" if q: "q \<in> set (db_runs d)" for q
  proof (cases "run_id q = i")
    case True
    then have "q = r0" using r(1) q find_run_iff[OF lifecycle_wf[OF lc], of i q] by simp
    moreover have "run_ok d q" using lc q by (simp add: lifecycle_def list_all_iff)
    ultimately show ?thesis using r(2) by (auto simp: run_ok_iff g lifecycle_ok_def)
  next
    case False
    have "run_ok d q" using lc q by (simp add: lifecycle_def list_all_iff)
    with False show ?thesis by (auto simp: run_ok_iff g rows)
  qed
  ultimately show ?thesis using lc wf by (simp add: lifecycle_def list_all_iff same)
qed

lemma find_stage_row_Some:
  "find_stage_row i n d = Some s \<Longrightarrow> s \<in> set (db_stages d) \<and> srow_run_id s = i \<and> srow_stage s = n"
  unfolding find_stage_row_def by (drule lookup_Some) simp

lemma stage_rows_put:
  assumes wf: "wf_db d" and s: "s0 \<in> set (db_stages d)" "srow_id s = srow_id s0" "srow_run_id s = srow_run_id s0"
    and k: "k \<noteq> srow_run_id s"
  shows "stage_rows k (set_stage_row s d) = stage_rows k d"
proof -
  have "x = s0" if x: "x \<in> set (db_stages d)" "srow_id x = srow_id s" for x
    using lookup_self[OF wf_pks(6)[OF wf] x(1)] lookup_self[OF wf_pks(6)[OF wf] s(1)] x(2) s(2)
    by (metis option.inject)
  then show ?thesis unfolding stage_rows_def set_stage_row_tables
    using s(3) k by (intro filter_put_row_out) metis+
qed

lemma stage_update:
  assumes lc: "lifecycle d" and r: "find_run i d = Some r0" "run_status r0 = Running"
    and s: "find_stage_row i n d = Some s0" "srow_id s = srow_id s0" "srow_run_id s = i" "srow_stage s = n" "stage_row_checks s"
  shows "flush d (set_stage_row s d) = Inr (set_stage_row s d) \<and> lifecycle (set_stage_row s d)"
proof -
  have wf: "wf_db d" using lc by (rule lifecycle_wf)
  have s0: "s0 \<in> set (db_stages d)" "srow_run_id s0 = i" "srow_stage s0 = n" using find_stage_row_Some[OF s(1)] by simp_all
  have ns: "run_status r0 \<noteq> Succeeded" using r(2) by simp
  have fl: "flush d (set_stage_row s d) = Inr (set_stage_row s d)"
    using s0 s r by (intro flush_set_stage_row[OF wf _ ns s0(1)]) simp_all
  then have "wf_db (set_stage_row s d)" using flush_wf by blast
  then have "lifecycle (set_stage_row s d)"
    by (rule lifecycle_stage_write[OF lc r]) (use stage_rows_put[OF wf s0(1) s(2)] s(3) s0(2) in simp_all)
  with fl show ?thesis by blast
qed

lemma stage_insert:
  assumes lc: "lifecycle d" and r: "find_run (srow_run_id s) d = Some r0" "run_status r0 = Running"
    and wf: "wf_db (add_stage_row s d)"
  shows "lifecycle (add_stage_row s d)"
  by (rule lifecycle_stage_write[OF lc r wf]) (simp_all add: stage_rows_def)

end
