(* ===== verification/Lifecycle_Runs.thy ===== *)
theory Lifecycle_Runs
  imports Lifecycle_Inv
begin

text \<open>
  The transactions of \<open>Generation_State\<close> on a database that satisfies the lifecycle invariant:
  each either raises one of the documented errors and writes nothing, or passes the database's
  constraints and keeps the invariant.
\<close>

subsection \<open>Row checks\<close>

lemma run_checks_status:
  assumes "run_checks r0" and "run_id r = run_id r0" "run_rerun_source r = run_rerun_source r0" "run_mode r = run_mode r0"
    "run_working_srid r = run_working_srid r0" "run_schema_version r = run_schema_version r0"
    "run_commit_sha r = run_commit_sha r0" and "has_commit r0"
  shows "run_checks r"
  using assms by (auto simp: run_checks_def has_commit_def split: option.splits)

subsection \<open>Claim\<close>

text \<open>What remains of the backoff after a retryable failure, in microseconds.\<close>

definition backoff_left :: "time \<Rightarrow> job \<Rightarrow> int" where
  "backoff_left clock j =
     (case (job_error j, job_finished_at j) of
        (Some err, Some fin) \<Rightarrow>
          if job_error_class j = Some ''transient'' \<and> json_get ''retryable'' err = Some (JBool True)
          then fin + seconds (min (30 * 2 ^ nat (min (job_attempts j - 1) 4)) 300) - clock else 0
      | _ \<Rightarrow> 0)"

lemma ceil_seconds_pos: "0 < us \<Longrightarrow> 1 \<le> ceil_seconds us"
  by (simp add: ceil_seconds_def)

lemma retry_gate_eq:
  assumes "job_error j \<noteq> None \<longrightarrow> 1 \<le> job_attempts j"
  shows "retry_gate clock j = (if backoff_left clock j > 0 then Inl (GenerationRetryScheduled (ceil_seconds (backoff_left clock j))) else Inr ())"
  using assms ceil_seconds_pos
  by (auto simp: retry_gate_def backoff_left_def generation_retry_delay_seconds_def Let_def split: option.splits)

definition batch_full :: "uuid \<Rightarrow> db \<Rightarrow> bool" where
  "batch_full i d = (case locked_batch_for_run i d of
     None \<Rightarrow> False | Some b \<Rightarrow> int (running_children (batch_id b) d) \<ge> batch_limit b)"

definition claimed_db :: "uuid \<Rightarrow> time \<Rightarrow> run \<Rightarrow> job \<Rightarrow> db \<Rightarrow> db" where
  "claimed_db i now r j d = set_job (start_job now j) (set_run (start_run now r) (start_batch now (locked_batch_for_run i d) d))"

lemma locked_batch_child:
  assumes lc: "lifecycle d" and b: "locked_batch_for_run i d = Some b"
  shows "find_batch (batch_id b) d = Some b \<and> batch_ok d b \<and> i \<in> member_run_id ` set (batch_members (batch_id b) d)"
proof -
  obtain m where m: "lookup member_run_id i (db_members d) = Some m" "find_batch (member_batch_id m) d = Some b"
    using b by (auto simp: locked_batch_for_run_def split: option.splits)
  have "m \<in> set (db_members d) \<and> member_run_id m = i" using m(1) by (rule lookup_Some)
  moreover have "batch_ok d b \<and> batch_id b = member_batch_id m" using lifecycle_batch[OF lc m(2)] .
  ultimately show ?thesis using m(2) by (auto simp: batch_members_def)
qed

lemma member_batch_unique:
  assumes lc: "lifecycle d" and b: "b \<in> set (db_batches d)" "i \<in> member_run_id ` set (batch_members (batch_id b) d)"
  shows "locked_batch_for_run i d = Some b"
proof -
  have wf: "wf_db d" using lc by (rule lifecycle_wf)
  obtain m where m: "m \<in> set (db_members d)" "member_batch_id m = batch_id b" "member_run_id m = i"
    using b(2) by (auto simp: batch_members_def)
  have "lookup member_run_id i (db_members d) = Some m" using lookup_self[OF wf_pks(9)[OF wf] m(1)] m(3) by simp
  then show ?thesis using m(2) find_batch_iff[OF wf, of "batch_id b" b] b(1) by (simp add: locked_batch_for_run_def)
qed

lemma queued_child_open:
  assumes lc: "lifecycle d" and r: "find_run i d = Some r" "run_status r = Queued" and b: "locked_batch_for_run i d = Some b"
  shows "batch_status b \<in> {BQueued, BRunning}"
proof -
  have c: "batch_ok d b" "i \<in> member_run_id ` set (batch_members (batch_id b) d)" using locked_batch_child[OF lc b] by blast+
  have "Queued \<in> set (child_statuses (batch_id b) d)"
    using c(2) r statuses_of_mem[of _ "batch_members (batch_id b) d" "\<lambda>i. run_status_of i d" Queued]
    by (auto simp: child_statuses_eq run_status_of_def)
  then have "\<not> list_all terminal (child_statuses (batch_id b) d)" by (auto simp: list_all_iff terminal_def)
  with c(1) show ?thesis by (cases "batch_status b") (auto simp: batch_ok_def batch_terminal_def)
qed

lemma start_batch_ok:
  assumes lc: "lifecycle d" and b: "locked_batch_for_run i d = Some b \<Longrightarrow> batch_status b \<in> {BQueued, BRunning}"
  shows "lifecycle (start_batch now (locked_batch_for_run i d) d)"
proof (cases "locked_batch_for_run i d")
  case None
  then show ?thesis using lc by (simp add: start_batch_def)
next
  case (Some b0)
  show ?thesis
  proof (cases "batch_status b0 = BQueued")
    case True
    let ?b = "b0\<lparr>batch_status := BRunning, batch_started_at := Some now\<rparr>"
    have c: "find_batch (batch_id b0) d = Some b0" "batch_ok d b0" using locked_batch_child[OF lc Some] by blast+
    have wf: "wf_db d" using lc by (rule lifecycle_wf)
    have "flush d (set_batch ?b d) = Inr (set_batch ?b d)"
      using c(1) wf_checks(4)[OF wf, of b0] find_batch_Some[OF c(1)] True
      by (intro flush_set_batch[OF wf, of ?b b0]) (auto simp: batch_update_ok_def batch_checks_def batch_terminal_def)
    then have "wf_db (set_batch ?b d)" using flush_wf by blast
    moreover have "run_ok (set_batch ?b d) q = run_ok d q" for q by (simp add: run_ok_iff)
    moreover have "batch_ok (set_batch ?b d) q" if q: "q \<in> set (put_row batch_id ?b (db_batches d))" for q
      using put_row_set[OF q] c(2) lc
      by (auto simp: batch_ok_def sealed_def running_children_def lifecycle_def list_all_iff batch_terminal_def)
    ultimately show ?thesis using lc True Some by (simp add: start_batch_def lifecycle_def list_all_iff)
  next
    case False
    then show ?thesis using lc Some by (simp add: start_batch_def)
  qed
qed

lemma start_batch_same [simp]:
  "find_run k (start_batch now ob d) = find_run k d" "generation_jobs k (start_batch now ob d) = generation_jobs k d"
  "stage_rows k (start_batch now ob d) = stage_rows k d" "child_statuses k (start_batch now ob d) = child_statuses k d"
  "batch_members k (start_batch now ob d) = batch_members k d"
  by (simp_all add: start_batch_def split: option.split)

lemma start_batch_limits:
  "b \<in> set (db_batches (start_batch now ob d)) \<Longrightarrow> \<exists>b0. (b0 \<in> set (db_batches d) \<or> ob = Some b0) \<and>
     batch_id b = batch_id b0 \<and> batch_limit b = batch_limit b0"
  by (auto simp: start_batch_def split: option.splits if_splits dest!: put_row_set)

lemma free_slots_start_batch:
  assumes lc: "lifecycle d" and "\<not> batch_full i d"
  shows "free_slots i (start_batch now (locked_batch_for_run i d) d)"
proof -
  have "int (running_children (batch_id b) d) < batch_limit b"
    if b: "b \<in> set (db_batches (start_batch now (locked_batch_for_run i d) d))"
      "i \<in> member_run_id ` set (batch_members (batch_id b) d)" for b
  proof -
    obtain b0 where b0: "b0 \<in> set (db_batches d) \<or> locked_batch_for_run i d = Some b0"
      "batch_id b = batch_id b0" "batch_limit b = batch_limit b0" using start_batch_limits[OF b(1)] by blast
    have "b0 \<in> set (db_batches d)" using b0(1) locked_batch_child[OF lc] find_batch_Some by blast
    then have "locked_batch_for_run i d = Some b0" using b0(2) b(2) by (intro member_batch_unique[OF lc]) simp_all
    then show ?thesis using assms(2) b0(2,3) by (simp add: batch_full_def)
  qed
  then show ?thesis by (simp add: free_slots_def running_children_def)
qed

text \<open>The claim's writes: parent, run and job in one flush.\<close>

lemma flush_claimed:
  assumes lc: "lifecycle d" and r: "find_run i d = Some r" "run_status r = Queued"
    and j: "generation_jobs i d = [j]" "lifecycle_ok r j (stage_rows i d)" and free: "\<not> batch_full i d"
  shows "flush d (claimed_db i now r j d) = Inr (claimed_db i now r j d) \<and> lifecycle (claimed_db i now r j d)"
proof -
  let ?ob = "locked_batch_for_run i d" and ?r = "start_run now r" and ?j = "start_job now j"
  let ?d1 = "start_batch now ?ob d"
  have wf: "wf_db d" using lc by (rule lifecycle_wf)
  have i: "run_id r = i" "r \<in> set (db_runs d)" using find_run_Some[OF r(1)] by simp_all
  have j0: "j \<in> set (db_jobs d)" using generation_jobs_mem[of j i d] j(1) by simp
  have lc1: "lifecycle ?d1" using queued_child_open[OF lc r] by (rule start_batch_ok[OF lc])
  have up: "flush ?d1 (set_job ?j (set_run ?r ?d1)) = Inr (set_job ?j (set_run ?r ?d1)) \<and> lifecycle (set_job ?j (set_run ?r ?d1))"
  proof (rule run_update[OF lc1, where ?r0.0 = r and ?j0.0 = j])
    show "run_checks ?r"
      by (rule run_checks_status[OF wf_checks(1)[OF wf i(2)]]) (use j(2) in \<open>simp_all add: start_run_def lifecycle_ok_def\<close>)
    show "job_checks ?j" using j(2) r(2) wf_checks(2)[OF wf j0]
      by (simp add: job_checks_def start_job_def lifecycle_ok_def)
    show "lifecycle_ok ?r ?j (stage_rows (run_id ?r) ?d1)" using j(2) r(2) wf_checks(2)[OF wf j0]
      by (simp add: lifecycle_ok_def start_run_def start_job_def has_commit_def job_checks_def)
    show "free_slots (run_id ?r) ?d1" using free_slots_start_batch[OF lc free] i by (simp add: start_run_def)
  qed (use r j i in \<open>simp_all add: start_run_def start_job_def same_run_refs_def same_job_key_def terminal_def\<close>)
  have same: "db_artifacts ?d1 = db_artifacts d" "db_versions ?d1 = db_versions d" "db_runs ?d1 = db_runs d"
    "db_stages ?d1 = db_stages d" "db_members ?d1 = db_members d"
    by (simp_all add: start_batch_def split: option.split)
  have u: "unique_ok d" using wf by (simp add: wf_db_def)
  have "guard_scenario_batch_state d (claimed_db i now r j d)"
  proof (cases "\<exists>b. ?ob = Some b \<and> batch_status b = BQueued")
    case True
    then obtain b where b: "?ob = Some b" "batch_status b = BQueued" by blast
    show ?thesis
    proof (rule batch_state_set_batch[OF wf])
      show "find_batch (batch_id (b\<lparr>batch_status := BRunning, batch_started_at := Some now\<rparr>)) d = Some b"
        using locked_batch_child[OF lc b(1)] by simp
      show "db_batches (claimed_db i now r j d) =
          put_row batch_id (b\<lparr>batch_status := BRunning, batch_started_at := Some now\<rparr>) (db_batches d)"
        using b by (simp add: claimed_db_def start_batch_def)
    qed (simp add: b(2) batch_update_ok_def batch_terminal_def)
  next
    case False
    then show ?thesis by (intro batch_state_same[OF u]) (auto simp: claimed_db_def start_batch_def split: option.splits)
  qed
  moreover have "succeeded_runs_unchanged d (claimed_db i now r j d)"
    using i r by (intro succeeded_runs_set_run[OF wf, where r = ?r and ?r0.0 = r])
      (simp_all add: claimed_db_def same start_run_def)
  moreover have "artifact_updates_ok d (claimed_db i now r j d)" "version_updates_ok d (claimed_db i now r j d)"
    "guard_completed_run_stage_results d (claimed_db i now r j d)" "guard_scenario_batch_membership d (claimed_db i now r j d)"
    using u by (simp_all add: claimed_db_def artifact_updates_same version_updates_same membership_same stage_results_same same)
  moreover have "lifecycle (claimed_db i now r j d)" using up by (simp add: claimed_db_def)
  ultimately show ?thesis using lifecycle_wf unfolding flush_Inr by blast
qed

lemma claim_eq:
  assumes lc: "lifecycle d" and r: "find_run i d = Some r" and j: "generation_jobs i d = [j]"
  shows "claim i clock now d =
     (case run_status r of
        Succeeded \<Rightarrow> Inr (ALREADY_SUCCEEDED, d)
      | Cancelled \<Rightarrow> Inr (CLAIM_CANCELLED, d)
      | Running \<Rightarrow> Inr (IN_PROGRESS, d)
      | Queued \<Rightarrow>
          if backoff_left clock j > 0 then Inl (GenerationRetryScheduled (ceil_seconds (backoff_left clock j)))
          else if batch_full i d then Inl (GenerationRetryScheduled BATCH_CAPACITY_RETRY_SECONDS)
          else Inr (STARTED, claimed_db i now r j d)
      | _ \<Rightarrow> Inl (gen_error ''generation requires matching queued run and job states''))"
proof -
  obtain j' where j': "generation_jobs i d = [j']" "lifecycle_ok r j' (stage_rows i d)" "get_job r d = Inr j'"
    using lifecycle_run[OF lc r] by metis
  have jj: "j' = j" using j j'(1) by simp
  have g: "get_run i d = Inr r" by (simp add: get_run_def r)
  have ok: "lifecycle_ok r j (stage_rows i d)" "get_job r d = Inr j" using j' jj by simp_all
  show ?thesis
  proof (cases "run_status r = Queued")
    case True
    have gate: "retry_gate clock j = (if backoff_left clock j > 0 then Inl (GenerationRetryScheduled (ceil_seconds (backoff_left clock j))) else Inr ())"
      using ok(1) True by (intro retry_gate_eq) (simp add: lifecycle_ok_def)
    have cap: "(case locked_batch_for_run i d of None \<Rightarrow> Inr () | Some b \<Rightarrow> require_batch_capacity b d) =
        (if batch_full i d then Inl (GenerationRetryScheduled BATCH_CAPACITY_RETRY_SECONDS) else Inr ())"
      using queued_child_open[OF lc r True]
      by (auto simp: batch_full_def require_batch_capacity_def split: option.split)
    have st: "job_status j = Queued" "\<not> job_max_attempts j \<le> job_attempts j" "require_not_cancelled j = Inr ()" "has_commit r"
      using ok(1) True by (simp_all add: lifecycle_ok_def require_not_cancelled_def)
    have fl: "\<not> batch_full i d \<Longrightarrow> flush d (claimed_db i now r j d) = Inr (claimed_db i now r j d)"
      using flush_claimed[OF lc r True j ok(1)] by blast
    show ?thesis using True st fl unfolding claim_def Let_def g ok(2) bindE.simps cap gate
      by (simp add: has_commit_def claimed_db_def)
  next
    case False
    then show ?thesis using ok unfolding claim_def Let_def g
      by (cases "run_status r") (simp_all add: lifecycle_ok_def)
  qed
qed

subsection \<open>Cancellation, completion and failure\<close>

definition same_run_core :: "run \<Rightarrow> run \<Rightarrow> bool" where
  "same_run_core r r0 \<longleftrightarrow> same_run_refs r r0 \<and> run_mode r = run_mode r0 \<and> run_working_srid r = run_working_srid r0 \<and>
     run_schema_version r = run_schema_version r0 \<and> run_commit_sha r = run_commit_sha r0"

lemma run_step:
  assumes lc: "lifecycle d" and r: "find_run i d = Some r0" "\<not> terminal (run_status r0)" "same_run_core r r0"
    and j: "generation_jobs i d = [j0]" "same_job_key j j0" "job_checks j"
    and ok: "lifecycle_ok r j (stage_rows i d)" and nr: "run_status r \<noteq> Running"
  shows "flush d (set_job j (set_run r d)) = Inr (set_job j (set_run r d)) \<and> lifecycle (set_job j (set_run r d))"
proof -
  have i: "run_id r = i" "run_id r0 = i" "r0 \<in> set (db_runs d)"
    using find_run_Some[OF r(1)] r(3) by (simp_all add: same_run_core_def same_run_refs_def)
  have "run_checks r"
    by (rule run_checks_status[OF wf_checks(1)[OF lifecycle_wf[OF lc] i(3)]])
      (use r(3) ok in \<open>auto simp: same_run_core_def same_run_refs_def lifecycle_ok_def has_commit_def\<close>)
  then show ?thesis
    by (rule run_update[OF lc, where ?r0.0 = r0 and ?j0.0 = j0, rotated 2]) (use r j ok nr i in \<open>simp_all add: same_run_core_def\<close>)
qed

lemma cancellation_kind [simp]: "err_cancelled (cancellation sn)"
  by (simp add: cancellation_def err_cancelled_def class_cancelled_def)

lemma cancel_job_row_fields [simp]:
  "job_type (cancel_job_row sn now j) = job_type j" "job_key (cancel_job_row sn now j) = job_key j"
  "job_id (cancel_job_row sn now j) = job_id j" "job_project_id (cancel_job_row sn now j) = job_project_id j"
  "job_run_id (cancel_job_row sn now j) = job_run_id j" "job_attempts (cancel_job_row sn now j) = job_attempts j"
  "job_max_attempts (cancel_job_row sn now j) = job_max_attempts j"
  "job_cancel_requested_at (cancel_job_row sn now j) = job_cancel_requested_at j"
  "job_error_class (cancel_job_row sn now j) = Some (category_value (err_category (cancellation sn)))"
  "job_error_code (cancel_job_row sn now j) = Some (code_value (err_code (cancellation sn)))"
  "job_status (cancel_job_row sn now j) = Cancelled"
  by (simp_all add: cancel_job_row_def) (simp add: record_failure_def)

lemma cancel_run_row_fields [simp]:
  "run_status (cancel_run_row sn now r) = Cancelled" "same_run_core (cancel_run_row sn now r) r"
  "has_commit (cancel_run_row sn now r) = has_commit r" "run_project_id (cancel_run_row sn now r) = run_project_id r"
  "run_id (cancel_run_row sn now r) = run_id r"
  by (simp_all add: cancel_run_row_def same_run_core_def same_run_refs_def has_commit_def)

lemma cancel_step:
  assumes lc: "lifecycle d" and r: "find_run i d = Some r" "run_status r \<in> {Queued, Running}"
    and j: "generation_jobs i d = [j0]" "same_job_key j j0" "job_cancel_requested_at j \<noteq> None"
      "job_attempts j = job_attempts j0" "job_max_attempts j = job_max_attempts j0"
  shows "flush d (set_job (cancel_job_row sn now j) (set_run (cancel_run_row sn now r) d)) =
       Inr (set_job (cancel_job_row sn now j) (set_run (cancel_run_row sn now r) d)) \<and>
     lifecycle (set_job (cancel_job_row sn now j) (set_run (cancel_run_row sn now r) d))"
proof (rule run_step[OF lc r(1), where ?j0.0 = j0])
  have j0: "j0 \<in> set (db_jobs d)" using generation_jobs_mem[of j0 i d] j(1) by simp
  show "job_checks (cancel_job_row sn now j)"
    by (rule job_checks_status[OF wf_checks(2)[OF lifecycle_wf[OF lc] j0]])
      (use j recorded_error_ok in \<open>simp_all add: same_job_key_def\<close>)
  have "lifecycle_ok r j0 (stage_rows i d)" using lifecycle_run[OF lc r(1)] j(1) by (metis list.inject)
  then show "lifecycle_ok (cancel_run_row sn now r) (cancel_job_row sn now j) (stage_rows i d)"
    using j by (simp add: lifecycle_ok_def same_job_key_def)
qed (use r j in \<open>auto simp: terminal_def same_job_key_def\<close>)

lemma request_cancel_eq:
  assumes lc: "lifecycle d" and r: "find_run i d = Some r" and j: "generation_jobs i d = [j]"
  shows "request_cancel i now d =
     (if terminal (run_status r) \<or> job_cancel_requested_at j \<noteq> None then Inr (False, d)
      else let j1 = j\<lparr>job_cancel_requested_at := Some now\<rparr> in
        Inr (True, if run_status r = Queued
          then set_job (cancel_job_row (Some ''queued'') now j1) (set_run (cancel_run_row (Some ''queued'') now r) d)
          else set_job j1 d))"
    and "\<And>x d'. request_cancel i now d = Inr (x, d') \<Longrightarrow> lifecycle d'"
proof -
  let ?j = "j\<lparr>job_cancel_requested_at := Some now\<rparr>"
  obtain j' where "generation_jobs i d = [j']" "lifecycle_ok r j' (stage_rows i d)" "get_job r d = Inr j'"
    using lifecycle_run[OF lc r] by metis
  then have ok: "lifecycle_ok r j (stage_rows i d)" "get_job r d = Inr j" using j by simp_all
  have g: "get_run i d = Inr r" by (simp add: get_run_def r)
  have wf: "wf_db d" using lc by (rule lifecycle_wf)
  have i: "run_id r = i" "r \<in> set (db_runs d)" using find_run_Some[OF r] by simp_all
  have j0: "j \<in> set (db_jobs d)" "job_checks j" using generation_jobs_mem[of j i d] j wf_checks(2)[OF wf] by simp_all
  have key: "same_job_key ?j j" by (simp add: same_job_key_def)
  have running: "flush d (set_job ?j d) = Inr (set_job ?j d) \<and> lifecycle (set_job ?j d)" if st: "run_status r = Running"
  proof -
    have fl: "flush d (set_job ?j d) = Inr (set_job ?j d)"
      using j0(2) by (intro flush_job[OF wf j0(1) key]) (simp add: job_checks_def)
    have "run_ok (set_job ?j d) q" if q: "q \<in> set (db_runs d)" for q
    proof -
      have q0: "run_ok d q" using lc q by (simp add: lifecycle_def list_all_iff)
      show ?thesis
      proof (cases "run_id q = i")
        case True
        then have "q = r" using r q find_run_iff[OF wf, of i q] by simp
        then show ?thesis using True ok(1) st
          by (simp add: run_ok_def generation_jobs_set_job[OF wf_pks(5)[OF wf] j key] lifecycle_ok_def)
      next
        case False
        then show ?thesis using q0 by (auto simp: run_ok_iff generation_jobs_set_job[OF wf_pks(5)[OF wf] j key])
      qed
    qed
    moreover have "wf_db (set_job ?j d)" using fl flush_wf by blast
    ultimately show ?thesis using fl lc by (simp add: lifecycle_def list_all_iff)
  qed
  have queued: "flush d (set_job (cancel_job_row (Some ''queued'') now ?j) (set_run (cancel_run_row (Some ''queued'') now r) d)) =
       Inr (set_job (cancel_job_row (Some ''queued'') now ?j) (set_run (cancel_run_row (Some ''queued'') now r) d)) \<and>
     lifecycle (set_job (cancel_job_row (Some ''queued'') now ?j) (set_run (cancel_run_row (Some ''queued'') now r) d))"
    if st: "run_status r = Queued"
    using st j key by (intro cancel_step[OF lc r]) simp_all
  show eq: "request_cancel i now d =
     (if terminal (run_status r) \<or> job_cancel_requested_at j \<noteq> None then Inr (False, d)
      else let j1 = j\<lparr>job_cancel_requested_at := Some now\<rparr> in
        Inr (True, if run_status r = Queued
          then set_job (cancel_job_row (Some ''queued'') now j1) (set_run (cancel_run_row (Some ''queued'') now r) d)
          else set_job j1 d))"
    unfolding request_cancel_def g ok(2) bindE.simps using ok(1) running queued
    by (cases "run_status r") (auto simp: lifecycle_ok_def terminal_def Let_def)
  show "lifecycle d'" if res: "request_cancel i now d = Inr (x, d')" for x d'
    using res lc running queued ok(1) unfolding eq
    by (cases "run_status r") (auto simp: Let_def terminal_def lifecycle_ok_def split: if_splits)
qed

lemma cancel_run_ok:
  assumes lc: "lifecycle d" and res: "cancel_run i sn now d = Inr d'"
  shows "lifecycle d' \<and> run_status_of i d' = Some Cancelled"
proof -
  obtain r where r: "find_run i d = Some r" "get_run i d = Inr r"
    using res by (auto simp: cancel_run_def bindE_Inr_iff get_run_def split: option.splits)
  obtain j where j: "generation_jobs i d = [j]" "lifecycle_ok r j (stage_rows i d)" "get_job r d = Inr j" "run_id r = i"
    using lifecycle_run[OF lc r(1)] by metis
  let ?j = "if job_cancel_requested_at j = None then j\<lparr>job_cancel_requested_at := Some now\<rparr> else j"
  let ?d = "set_job (cancel_job_row sn now ?j) (set_run (cancel_run_row sn now r) d)"
  consider "run_status r = Cancelled" "d' = d" | "run_status r = Running" "flush d ?d = Inr d'"
    using res unfolding cancel_run_def r(2) j(3) bindE.simps Let_def by (auto split: if_splits)
  then show ?thesis
  proof cases
    case 1
    then show ?thesis using lc r by (simp add: run_status_of_def)
  next
    case 2
    then have "flush d ?d = Inr ?d \<and> lifecycle ?d"
      using j(1) by (intro cancel_step[OF lc r(1), where ?j0.0 = j]) (simp_all add: same_job_key_def)
    then show ?thesis using 2 r j(4) by (simp add: run_status_of_def find_run_set_run)
  qed
qed

definition completed_db :: "time \<Rightarrow> run \<Rightarrow> job \<Rightarrow> db \<Rightarrow> db" where
  "completed_db now r j d = set_job (j\<lparr>job_status := Succeeded, job_finished_at := Some now, job_error_class := None,
       job_error_code := None, job_error := None\<rparr>) (set_run (r\<lparr>run_status := Succeeded, run_finished_at := Some now\<rparr>) d)"

definition stages_complete :: "string list \<Rightarrow> stage_row list \<Rightarrow> bool" where
  "stages_complete expected rows \<longleftrightarrow> length rows = length expected \<and> set (map srow_stage rows) = set expected \<and>
     list_all stage_row_done rows"

lemma complete_run_eq:
  assumes lc: "lifecycle d" and r: "find_run i d = Some r" and j: "generation_jobs i d = [j]"
  shows "complete_run i expected now d =
     (if run_status r \<noteq> Running then Inl (gen_error ''generation run must be running'')
      else if job_cancel_requested_at j \<noteq> None then Inl (ug_exc CancelledError ''generation cancellation requested'' [])
      else if \<not> stages_complete expected (stage_rows i d)
      then Inl (gen_error ''cannot complete generation with missing or incomplete stage results'')
      else Inr (completed_db now r j d))"
    and "complete_run i expected now d = Inr d' \<Longrightarrow> lifecycle d' \<and> run_status_of i d' = Some Succeeded"
proof -
  have "\<exists>j'. generation_jobs i d = [j'] \<and> lifecycle_ok r j' (stage_rows i d) \<and> get_job r d = Inr j' \<and> j' \<in> set (db_jobs d)"
    using lifecycle_run[OF lc r] by metis
  then have ok: "lifecycle_ok r j (stage_rows i d)" "get_job r d = Inr j" "j \<in> set (db_jobs d)" using j by simp_all
  have i: "run_id r = i" using find_run_Some[OF r] by simp
  have fl: "flush d (completed_db now r j d) = Inr (completed_db now r j d) \<and> lifecycle (completed_db now r j d)"
    if st: "run_status r = Running" "job_cancel_requested_at j = None" "list_all stage_row_done (stage_rows i d)"
    unfolding completed_db_def
  proof (rule run_step[OF lc r _ _ j])
    show "job_checks (j\<lparr>job_status := Succeeded, job_finished_at := Some now, job_error_class := None,
       job_error_code := None, job_error := None\<rparr>)"
      by (rule job_checks_status[OF wf_checks(2)[OF lifecycle_wf[OF lc] ok(3)]]) simp_all
  qed (use st ok in \<open>simp_all add: terminal_def same_run_core_def same_run_refs_def same_job_key_def lifecycle_ok_def has_commit_def\<close>)
  have c: "run_commit_sha r \<noteq> None" using ok(1) by (auto simp: lifecycle_ok_def has_commit_def split: option.splits)
  show eq: "complete_run i expected now d =
     (if run_status r \<noteq> Running then Inl (gen_error ''generation run must be running'')
      else if job_cancel_requested_at j \<noteq> None then Inl (ug_exc CancelledError ''generation cancellation requested'' [])
      else if \<not> stages_complete expected (stage_rows i d)
      then Inl (gen_error ''cannot complete generation with missing or incomplete stage results'')
      else Inr (completed_db now r j d))"
  proof (cases "run_status r = Running")
    case True
    then have "job_status j = Running" using ok(1) by (simp add: lifecycle_ok_def)
    with True show ?thesis using r ok(2) c fl[OF True]
      unfolding complete_run_def require_running_def get_run_def Let_def completed_db_def
      by (auto simp: stages_complete_def require_not_cancelled_def)
  next
    case False
    then show ?thesis using r by (simp add: complete_run_def require_running_def get_run_def)
  qed
  show "lifecycle d' \<and> run_status_of i d' = Some Succeeded" if "complete_run i expected now d = Inr d'"
  proof -
    have "d' = completed_db now r j d" "run_status r = Running" "job_cancel_requested_at j = None" "list_all stage_row_done (stage_rows i d)"
      using that unfolding eq by (auto simp: stages_complete_def split: if_splits)
    then show ?thesis using fl r i by (simp add: completed_db_def run_status_of_def find_run_set_run)
  qed
qed

definition retryable_failure :: "ug_error \<Rightarrow> job \<Rightarrow> stage_row list \<Rightarrow> bool" where
  "retryable_failure e j rows \<longleftrightarrow> err_retryable e \<and> rows = [] \<and> job_attempts j < job_max_attempts j"

definition retry_seconds :: "job \<Rightarrow> int" where
  "retry_seconds j = min (30 * 2 ^ nat (min (job_attempts j - 1) 4)) 300"

lemma fail_run_spec:
  assumes lc: "lifecycle d" and r: "find_run i d = Some r" and j: "generation_jobs i d = [j]"
  shows "run_status r \<noteq> Running \<Longrightarrow> fail_run i sn e now d = Inl (gen_error ''generation run must be running to record failure'')"
    and "run_status r = Running \<Longrightarrow> job_cancel_requested_at j \<noteq> None \<Longrightarrow>
      fail_run i sn e now d = Inl (ug_exc CancelledError ''generation cancellation requested'' [])"
    and "run_status r = Running \<Longrightarrow> job_cancel_requested_at j = None \<Longrightarrow>
      \<exists>d'. fail_run i sn e now d = Inr (if retryable_failure e j (stage_rows i d) then Some (retry_seconds j) else None, d') \<and>
        lifecycle d' \<and> run_status_of i d' = Some (if retryable_failure e j (stage_rows i d) then Queued else Failed) \<and>
        (\<exists>r1 j1. d' = set_job j1 (set_run r1 d) \<and> same_run_core r1 r \<and> same_job_key j1 j \<and>
           run_status r1 = (if retryable_failure e j (stage_rows i d) then Queued else Failed) \<and> job_attempts j1 = job_attempts j \<and>
           job_max_attempts j1 = job_max_attempts j \<and> job_cancel_requested_at j1 = None)"
proof -
  have "\<exists>j'. generation_jobs i d = [j'] \<and> lifecycle_ok r j' (stage_rows i d) \<and> get_job r d = Inr j' \<and> j' \<in> set (db_jobs d)"
    using lifecycle_run[OF lc r] by metis
  then have ok: "lifecycle_ok r j (stage_rows i d)" "get_job r d = Inr j" "j \<in> set (db_jobs d)" using j by simp_all
  have i: "run_id r = i" using find_run_Some[OF r] by simp
  have g: "get_run i d = Inr r" by (simp add: get_run_def r)
  show "run_status r \<noteq> Running \<Longrightarrow> fail_run i sn e now d = Inl (gen_error ''generation run must be running to record failure'')"
    by (simp add: fail_run_def g)
  show "run_status r = Running \<Longrightarrow> job_cancel_requested_at j \<noteq> None \<Longrightarrow>
      fail_run i sn e now d = Inl (ug_exc CancelledError ''generation cancellation requested'' [])"
    using ok by (simp add: fail_run_def g lifecycle_ok_def require_not_cancelled_def)
  assume st: "run_status r = Running" "job_cancel_requested_at j = None"
  let ?retry = "retryable_failure e j (stage_rows i d)"
  have nc: "err_retryable e \<Longrightarrow> \<not> err_cancelled e" by (rule err_retryable_not_cancelled)
  have att: "1 \<le> job_attempts j" "job_status j = Running" using ok(1) st by (simp_all add: lifecycle_ok_def)
  let ?st = "if ?retry then Queued else Failed"
  obtain r1 j1 where new: "fail_run i sn e now d = bindE (flush d (set_job j1 (set_run r1 d))) (\<lambda>d'.
      if ?retry then bindE (generation_retry_delay_seconds (job_attempts j)) (\<lambda>s. Inr (Some s, d')) else Inr (None, d'))"
    and r1: "same_run_core r1 r" "run_status r1 = ?st"
    and j1: "same_job_key j1 j" "job_checks j1" "job_status j1 = ?st" "job_attempts j1 = job_attempts j"
      "job_max_attempts j1 = job_max_attempts j" "job_cancel_requested_at j1 = None"
  proof
    let ?retry' = "err_retryable e \<and> \<not> err_cancelled e \<and> stage_rows i d = [] \<and> job_attempts j < job_max_attempts j"
    let ?r1 = "r\<lparr>run_status := ?st, run_finished_at := Some now,
                run_error := Some (JObj [(''error_class'', JStr (category_value (err_category e))),
                   (''error_code'', JStr (code_value (err_code e))), (''message'', JStr (err_message e)),
                   (''details'', str_json (failure_details sn e)), (''retryable'', JBool ?retry)])\<rparr>"
    let ?j1 = "(record_failure e j)\<lparr>job_status := ?st,
                job_error := Some (JObj [(''message'', JStr (err_message e)), (''details'', str_json (failure_details sn e)),
                   (''retryable'', JBool ?retry), (''cancelled'', JBool (err_cancelled e))]),
                job_finished_at := Some now\<rparr>"
    have rr: "?retry' = ?retry" using nc by (auto simp: retryable_failure_def)
    show "fail_run i sn e now d = bindE (flush d (set_job ?j1 (set_run ?r1 d))) (\<lambda>d'.
      if ?retry then bindE (generation_retry_delay_seconds (job_attempts j)) (\<lambda>s. Inr (Some s, d')) else Inr (None, d'))"
      using st att ok(2) unfolding fail_run_def g Let_def by (simp add: require_not_cancelled_def rr[symmetric])
    show "same_run_core ?r1 r" "run_status ?r1 = ?st" "same_job_key ?j1 j" "job_status ?j1 = ?st"
      "job_attempts ?j1 = job_attempts j" "job_max_attempts ?j1 = job_max_attempts j" "job_cancel_requested_at ?j1 = None"
      using st by (simp_all add: same_run_core_def same_run_refs_def same_job_key_def)
    show "job_checks ?j1"
      by (rule job_checks_status[OF wf_checks(2)[OF lifecycle_wf[OF lc] ok(3)]]) (use recorded_error_ok in simp_all)
  qed
  have "flush d (set_job j1 (set_run r1 d)) = Inr (set_job j1 (set_run r1 d)) \<and> lifecycle (set_job j1 (set_run r1 d))"
  proof (rule run_step[OF lc r _ r1(1) j j1(1,2)])
    show "lifecycle_ok r1 j1 (stage_rows i d)"
      using ok(1) r1 j1 att unfolding lifecycle_ok_def
      by (auto simp: same_run_core_def same_run_refs_def same_job_key_def has_commit_def retryable_failure_def)
  qed (use st r1 in \<open>simp_all add: terminal_def\<close>)
  moreover have "run_status_of i (set_job j1 (set_run r1 d)) = Some ?st"
    using r1 r i by (simp add: run_status_of_def find_run_set_run same_run_core_def same_run_refs_def)
  ultimately show "\<exists>d'. fail_run i sn e now d = Inr (if ?retry then Some (retry_seconds j) else None, d') \<and>
        lifecycle d' \<and> run_status_of i d' = Some ?st \<and>
        (\<exists>r1 j1. d' = set_job j1 (set_run r1 d) \<and> same_run_core r1 r \<and> same_job_key j1 j \<and>
           run_status r1 = ?st \<and> job_attempts j1 = job_attempts j \<and>
           job_max_attempts j1 = job_max_attempts j \<and> job_cancel_requested_at j1 = None)"
    unfolding new using att(1) r1 j1
    by (intro exI[of _ "set_job j1 (set_run r1 d)"] conjI exI[of _ r1] exI[of _ j1])
       (auto simp: generation_retry_delay_seconds_def retry_seconds_def)
qed

subsection \<open>Stages\<close>

lemma require_running_Inr: "require_running i d = Inr r \<longleftrightarrow> find_run i d = Some r \<and> run_status r = Running"
  by (auto simp: require_running_def get_run_def bindE_Inr_iff split: option.splits)

lemma stage_put_ok:
  assumes lc: "lifecycle d" and r: "find_run i d = Some r" "run_status r = Running"
    and s: "find_stage_row i n d = Some s0" "srow_id s = srow_id s0" "srow_run_id s = srow_run_id s0"
    and fl: "flush d (set_stage_row s d) = Inr d'"
  shows "lifecycle d' \<and> d' = set_stage_row s d"
proof -
  have s0: "s0 \<in> set (db_stages d)" "srow_run_id s0 = i" using find_stage_row_Some[OF s(1)] by simp_all
  have d': "d' = set_stage_row s d" "wf_db d'" using flush_wf[OF fl] by blast+
  have "lifecycle d'"
    by (rule lifecycle_stage_write[OF lc r d'(2)])
      (use stage_rows_put[OF lifecycle_wf[OF lc] s0(1) s(2,3)] s(3) s0(2) in \<open>simp_all add: d'(1)\<close>)
  with d' show ?thesis by simp
qed

lemma stage_add_ok:
  assumes lc: "lifecycle d" and r: "find_run i d = Some r" "run_status r = Running"
    and s: "srow_run_id s = i" and fl: "flush d (add_stage_row s d) = Inr d'"
  shows "lifecycle d' \<and> d' = add_stage_row s d"
proof -
  have d': "d' = add_stage_row s d" "wf_db d'" using flush_wf[OF fl] by blast+
  moreover have "lifecycle (add_stage_row s d)" using r s d' by (intro stage_insert[OF lc _ r(2)]) simp_all
  ultimately show ?thesis by simp
qed

lemma start_stage_ok:
  assumes "lifecycle d" "start_stage fresh i x now d = Inr d'"
  shows "lifecycle d' \<and> d' = add_stage_row (running_row fresh i now x) d"
proof -
  obtain r where "find_run i d = Some r" "run_status r = Running"
    "flush d (add_stage_row (running_row fresh i now x) d) = Inr d'"
    using assms(2) by (auto simp: start_stage_def bindE_Inr_iff require_running_Inr split: if_splits)
  then show ?thesis by (intro stage_add_ok[OF assms(1)]) (simp_all add: running_row_def)
qed

lemma skip_stage_ok:
  assumes "lifecycle d" "skip_stage hexdigest fresh i s reason blocked now d = Inr d'"
  shows "lifecycle d' \<and> (\<exists>ih ch. d' = add_stage_row (skipped_row fresh i s reason blocked ih ch now) d)"
proof -
  obtain r ih ch where "find_run i d = Some r" "run_status r = Running"
    "flush d (add_stage_row (skipped_row fresh i s reason blocked ih ch now) d) = Inr d'"
    using assms(2) by (auto simp: skip_stage_def bindE_Inr_iff require_running_Inr split: if_splits)
  then have "lifecycle d' \<and> d' = add_stage_row (skipped_row fresh i s reason blocked ih ch now) d"
    by (intro stage_add_ok[OF assms(1)]) (simp_all add: skipped_row_def)
  then show ?thesis by blast
qed

lemma get_stage_Inr: "get_stage i n d = Inr s \<longleftrightarrow> find_stage_row i n d = Some s"
  by (auto simp: get_stage_def split: option.splits)

definition stage_completed :: "'o stage_result \<Rightarrow> time \<Rightarrow> stage_row \<Rightarrow> stage_row" where
  "stage_completed res now s = s\<lparr>srow_status := SSucceeded, srow_progress := 100,
     srow_fingerprint := Some (fp_value (res_fingerprint res)), srow_diagnostics := result_diagnostics res,
     srow_finished_at := Some now\<rparr>"

lemma complete_stage_ok:
  assumes "lifecycle d" "complete_stage i n res now d = Inr d'"
  shows "lifecycle d' \<and> (\<exists>s. find_stage_row i n d = Some s \<and> srow_status s = SRunning \<and>
     d' = set_stage_row (stage_completed res now s) d)"
proof -
  obtain r s where x: "find_run i d = Some r" "run_status r = Running" "find_stage_row i n d = Some s" "srow_status s = SRunning"
    "flush d (set_stage_row (stage_completed res now s) d) = Inr d'"
    using assms(2) unfolding stage_completed_def
    by (auto simp: complete_stage_def bindE_Inr_iff require_running_Inr get_stage_Inr split: if_splits)
  then have "lifecycle d' \<and> d' = set_stage_row (stage_completed res now s) d"
    by (intro stage_put_ok[OF assms(1) x(1,2,3)]) (simp_all add: stage_completed_def)
  with x show ?thesis by blast
qed

lemma fail_stage_ok:
  assumes lc: "lifecycle d" and res: "fail_stage i n now d = Inr d'"
  shows "lifecycle d'"
proof -
  obtain r where r: "find_run i d = Some r" "get_run i d = Inr r"
    using res by (auto simp: fail_stage_def bindE_Inr_iff get_run_def split: option.splits)
  show ?thesis
  proof (cases "d' = d")
    case False
    then obtain s where x: "run_status r = Running" "find_stage_row i n d = Some s"
      "flush d (set_stage_row (s\<lparr>srow_status := SFailed, srow_finished_at := Some now,
        srow_diagnostics := [diag_json ''stage.execution_failed'' ''stage execution failed'' ''WARNING'']\<rparr>) d) = Inr d'"
      using res unfolding fail_stage_def r(2) bindE.simps
      by (auto simp: bindE_Inr_iff split: if_splits option.splits)
    show ?thesis by (rule conjunct1[OF stage_put_ok[OF lc r(1) x(1,2) _ _ x(3)]]) simp_all
  qed (use lc in simp)
qed

lemma cancel_stage_ok:
  assumes lc: "lifecycle d" and res: "cancel_stage i n now d = Inr d'"
  shows "lifecycle d'"
proof -
  obtain r where r: "find_run i d = Some r" "get_run i d = Inr r"
    using res by (auto simp: cancel_stage_def bindE_Inr_iff get_run_def split: option.splits)
  show ?thesis
  proof (cases "d' = d")
    case False
    then obtain s where x: "run_status r = Running" "find_stage_row i n d = Some s"
      "flush d (set_stage_row (s\<lparr>srow_status := SCancelled, srow_finished_at := Some now, srow_fingerprint := None,
        srow_diagnostics := [diag_json ''stage.cancelled'' ''generation cancellation requested'' ''INFO'']\<rparr>) d) = Inr d'"
      using res unfolding cancel_stage_def r(2) bindE.simps
      by (auto split: if_splits option.splits)
    show ?thesis by (rule conjunct1[OF stage_put_ok[OF lc r(1) x(1,2) _ _ x(3)]]) simp_all
  qed (use lc in simp)
qed

end
