(* ===== verification/Lifecycle_Create.thy ===== *)
theory Lifecycle_Create
  imports Lifecycle_Runs
begin

text \<open>
  Creation keeps the lifecycle invariant: runs inserted with their jobs (\<open>create_run\<close>,
  \<open>retry_run\<close>, \<open>create_matrix\<close>), and batches sealed over queued runs (\<open>create_batch\<close>,
  \<open>create_matrix\<close>). What the trigger guards check at each flush is what the invariant needs.
\<close>

subsection \<open>New runs with their jobs\<close>

definition fresh_pair :: "run \<Rightarrow> job \<Rightarrow> bool" where
  "fresh_pair r j \<longleftrightarrow> job_run_id j = Some (run_id r) \<and> job_type j = GENERATION_JOB_TYPE \<and>
     run_status r = Queued \<and> lifecycle_ok r j []"

lemma fresh_pair_none:
  assumes "list_all2 fresh_pair rs js" "i \<notin> set (map run_id rs)"
  shows "filter (\<lambda>j. job_run_id j = Some i \<and> job_type j = GENERATION_JOB_TYPE) js = []"
  using assms by (induction rs js rule: list_all2_induct) (auto simp: fresh_pair_def)

lemma fresh_pair_jobs:
  assumes "list_all2 fresh_pair rs js" "distinct (map run_id rs)" "r \<in> set rs"
  shows "\<exists>j. filter (\<lambda>j. job_run_id j = Some (run_id r) \<and> job_type j = GENERATION_JOB_TYPE) js = [j] \<and> fresh_pair r j"
  using assms
proof (induction rs js rule: list_all2_induct)
  case (Cons x xs y ys)
  show ?case
  proof (cases "r = x")
    case True
    then have "filter (\<lambda>j. job_run_id j = Some (run_id r) \<and> job_type j = GENERATION_JOB_TYPE) ys = []"
      using Cons.prems(1) by (intro fresh_pair_none[OF Cons.hyps(2)]) simp
    then show ?thesis using True Cons.hyps(1) by (auto simp: fresh_pair_def)
  next
    case False
    then have "r \<in> set xs" using Cons.prems by simp
    moreover from this have "run_id r \<in> run_id ` set xs" by simp
    then have "run_id r \<noteq> run_id x" using Cons.prems(1) by auto
    moreover note Cons.hyps(1)
    ultimately show ?thesis using Cons by (auto simp: fresh_pair_def)
  qed
qed simp

lemma lifecycle_add_runs:
  assumes lc: "lifecycle d" and wf: "wf_db d'"
    and new: "db_runs d' = db_runs d @ rs" "db_jobs d' = db_jobs d @ js" "list_all2 fresh_pair rs js"
    and same: "db_stages d' = db_stages d" "db_batches d' = db_batches d" "db_members d' = db_members d"
  shows "lifecycle d'"
proof -
  have wf0: "wf_db d" using lc by (rule lifecycle_wf)
  have dist: "distinct (map run_id rs)" "\<And>i. i \<in> set (map run_id rs) \<Longrightarrow> i \<notin> set (map run_id (db_runs d))"
    using wf_pks(4)[OF wf] by (auto simp: new(1))
  have rows: "stage_rows i d' = stage_rows i d" for i by (simp add: stage_rows_def same)
  have old: "find_run i d' = find_run i d" if i: "i \<in> set (map run_id (db_runs d))" for i
    using i lookup_None[of run_id i "db_runs d"] by (cases "find_run i d") (auto simp: find_run_def new(1) lookup_append)
  have "run_ok d' r" if r: "r \<in> set (db_runs d)" for r
  proof -
    have "run_id r \<notin> set (map run_id rs)" using dist(2) r by auto
    then have "generation_jobs (run_id r) d' = generation_jobs (run_id r) d"
      using fresh_pair_none[OF new(3)] by (simp add: generation_jobs_def new(2))
    moreover have "run_ok d r" using lc r by (simp add: lifecycle_def list_all_iff)
    ultimately show ?thesis by (simp add: run_ok_iff rows)
  qed
  moreover have "run_ok d' r" if r: "r \<in> set rs" for r
  proof -
    have out: "run_id r \<notin> set (map run_id (db_runs d))" using dist(2) r by simp
    have "job_run_id j \<noteq> Some (run_id r)" if "j \<in> set (db_jobs d)" for j
      using wf_fks(2)[OF wf0 that] out unfolding job_fk_def by (metis opt_ok_simps(2))
    then have g: "generation_jobs (run_id r) d' = filter (\<lambda>j. job_run_id j = Some (run_id r) \<and> job_type j = GENERATION_JOB_TYPE) js"
      by (auto simp: generation_jobs_def new(2) filter_empty_conv)
    have "stage_rows (run_id r) d = []" using wf_fks(3)[OF wf0] out unfolding stage_rows_def filter_empty_conv by metis
    then show ?thesis using fresh_pair_jobs[OF new(3) dist(1) r] by (auto simp: run_ok_iff g rows fresh_pair_def)
  qed
  moreover have "batch_ok d' b" if b: "b \<in> set (db_batches d)" for b
  proof -
    have m: "batch_members (batch_id b) d' = batch_members (batch_id b) d" by (simp add: batch_members_def same)
    have "run_status_of (member_run_id m) d' = run_status_of (member_run_id m) d" if "m \<in> set (batch_members (batch_id b) d)" for m
      using wf_fks(5)[OF wf0, of m] that old[of "member_run_id m"] by (auto simp: batch_members_def member_fk_def run_status_of_def)
    then have "child_statuses (batch_id b) d' = child_statuses (batch_id b) d"
      unfolding child_statuses_eq m by (rule statuses_of_cong)
    moreover have "batch_ok d b" using lc b by (simp add: lifecycle_def list_all_iff)
    ultimately show ?thesis by (simp add: batch_ok_def sealed_def running_children_def m)
  qed
  ultimately show ?thesis using wf by (auto simp: lifecycle_def list_all_iff new(1) same)
qed

lemma new_run_pair:
  assumes "case commit of None \<Rightarrow> False | Some c \<Rightarrow> commit_re c"
  shows "fresh_pair (new_run i p src mode seed srid config schema commit now versions)
     (generation_job j (new_run i p src mode seed srid config schema commit now versions))"
  using assms by (simp add: fresh_pair_def new_run_def generation_job_def lifecycle_ok_def has_commit_def)

lemma enqueue_run_Inr:
  assumes "enqueue_run fj fo now r d = Inr d'"
  shows "wf_db d' \<and> d' = add_outbox (generation_message fo fj now r) (add_job (generation_job fj r) (add_run r d))"
proof -
  obtain d1 d2 where f: "flush d (add_run r d) = Inr d1" "flush d1 (add_job (generation_job fj r) d1) = Inr d2"
    "flush d2 (add_outbox (generation_message fo fj now r) d2) = Inr d'"
    using assms by (auto simp: enqueue_run_def bindE_Inr_iff)
  have "d1 = add_run r d" "d2 = add_job (generation_job fj r) d1"
    using flush_wf[OF f(1)] flush_wf[OF f(2)] by blast+
  then show ?thesis using flush_wf[OF f(3)] by blast
qed

lemma enqueue_run_ok:
  assumes lc: "lifecycle d" and res: "enqueue_run fj fo now r d = Inr d'" and p: "fresh_pair r (generation_job fj r)"
  shows "lifecycle d'"
proof -
  note d' = enqueue_run_Inr[OF res]
  show ?thesis
    by (rule lifecycle_add_runs[OF lc conjunct1[OF d'], of "[r]" "[generation_job fj r]"])
      (use p in \<open>simp_all add: conjunct2[OF d'] add_outbox_def add_job_def add_run_def\<close>)
qed

lemma create_run_Inr:
  assumes "create_run lims f now p q d = Inr (i, d')"
  shows "i = fresh_run f \<and> (\<exists>x config versions. find_project p d = Some x \<and> commit_re (rq_commit q) \<and>
     run_versions p (rq_versions q) d = Inr versions \<and>
     enforce_project_job_capacity lims p GENERATION_JOB_TYPE 1 d = Inr () \<and>
     enqueue_run (fresh_job f) (fresh_message f) now (new_run (fresh_run f) p None (rq_mode q) (rq_seed q)
       (project_working_srid x) config (rq_schema q) (Some (rq_commit q)) now versions) d = Inr d')"
  using assms
  by (auto simp: create_run_def bindE_Inr_iff check_request_def require_project_def split: if_splits option.splits)

lemma create_run_ok:
  assumes lc: "lifecycle d" and res: "create_run lims f now p q d = Inr (i, d')"
  shows "lifecycle d'"
proof -
  obtain x :: project and config versions where e: "commit_re (rq_commit q)"
    "enqueue_run (fresh_job f) (fresh_message f) now (new_run (fresh_run f) p None (rq_mode q) (rq_seed q)
       (project_working_srid x) config (rq_schema q) (Some (rq_commit q)) now versions) d = Inr d'"
    using create_run_Inr[OF res] by blast
  show ?thesis by (rule enqueue_run_ok[OF lc e(2) new_run_pair]) (simp add: e(1))
qed

lemma retry_run_ok:
  assumes lc: "lifecycle d" and res: "retry_run lims f now p i d = Inr (i', d')"
  shows "lifecycle d'"
proof (cases "d' = d")
  case False
  then obtain x :: project and src :: run where "replay_run lims f now x src d = Inr (i', d')"
    using res by (auto simp: retry_run_def bindE_Inr_iff split: if_splits option.splits)
  then obtain config versions where e: "case run_commit_sha src of None \<Rightarrow> False | Some c \<Rightarrow> commit_re c"
    "enqueue_run (fresh_job f) (fresh_message f) now
          (new_run (fresh_run f) (project_id x) (Some (run_id src)) (run_mode src) (run_seed src) (run_working_srid src)
             config (run_schema_version src) (run_commit_sha src) now versions) d = Inr d'"
    by (auto simp: replay_run_def bindE_Inr_iff split: if_splits)
  show ?thesis by (rule enqueue_run_ok[OF lc e(2) new_run_pair[OF e(1)]])
qed (use lc in simp)

subsection \<open>Sealing a batch\<close>

lemma new_members_simps [simp]:
  "length (new_members b ids) = length ids" "map member_run_id (new_members b ids) = ids"
  by (auto simp: new_members_def case_prod_beta comp_def)

lemma new_members_batch: "m \<in> set (new_members b ids) \<Longrightarrow> member_batch_id m = b"
  by (auto simp: new_members_def)

lemma statuses_of_all:
  "(\<And>m. m \<in> set ms \<Longrightarrow> st (member_run_id m) = Some s) \<Longrightarrow> statuses_of ms st = replicate (length ms) s"
  by (induction ms) auto

definition draft_batch :: "uuid \<Rightarrow> time \<Rightarrow> uuid \<Rightarrow> int \<Rightarrow> batch" where
  "draft_batch fresh now p limit = \<lparr>batch_id = fresh, batch_project_id = p, batch_status = BDraft, batch_limit = limit,
     batch_created_at = now, batch_started_at = None, batch_finished_at = None\<rparr>"

definition sealed_db :: "uuid \<Rightarrow> time \<Rightarrow> uuid \<Rightarrow> uuid list \<Rightarrow> int \<Rightarrow> db \<Rightarrow> db" where
  "sealed_db fresh now p ids limit d =
     d\<lparr>db_batches := db_batches d @ [(draft_batch fresh now p limit)\<lparr>batch_status := BQueued\<rparr>],
       db_members := db_members d @ new_members fresh ids\<rparr>"

lemma seal_unfold:
  "seal fresh now p ids limit d =
     bindE (flush d (add_batch (draft_batch fresh now p limit) d)) (\<lambda>d1.
     bindE (flush d1 (d1\<lparr>db_members := db_members d1 @ new_members fresh ids\<rparr>)) (\<lambda>d2.
     bindE (flush d2 (set_batch ((draft_batch fresh now p limit)\<lparr>batch_status := BQueued\<rparr>) d2)) (\<lambda>d3.
     Inr (fresh, d3))))"
  by (simp add: seal_def draft_batch_def Let_def)

lemma put_row_last:
  "key r \<notin> key ` set rows \<Longrightarrow> key r = key x \<Longrightarrow> put_row key r (rows @ [x]) = rows @ [r]"
  using put_row_absent[of key r rows] by (simp add: put_row_def)

lemma membership_new:
  assumes "guard_scenario_batch_membership old new" "db_members new = db_members old @ ms" "m \<in> set ms"
  shows "\<exists>r. find_run (member_run_id m) new = Some r \<and> run_status r = Queued"
  using assms by (fastforce simp: guard_scenario_batch_membership_def list_all_iff split: option.splits)

lemma seal_Inr:
  assumes "seal fresh now p ids limit d = Inr (b, d')"
  shows "b = fresh \<and> d' = sealed_db fresh now p ids limit d \<and> wf_db d' \<and> fresh \<notin> batch_id ` set (db_batches d) \<and>
     3 \<le> length (batch_members fresh d') \<and> length (batch_members fresh d') \<le> 10 \<and> limit \<le> int (length (batch_members fresh d')) \<and>
     (\<forall>i \<in> set ids. \<exists>r. find_run i d = Some r \<and> run_status r = Queued)"
proof -
  let ?b = "draft_batch fresh now p limit"
  let ?d1 = "add_batch ?b d" and ?q = "(draft_batch fresh now p limit)\<lparr>batch_status := BQueued\<rparr>"
  let ?d2 = "?d1\<lparr>db_members := db_members ?d1 @ new_members fresh ids\<rparr>"
  obtain d1 d2 where f: "flush d ?d1 = Inr d1" "flush d1 (d1\<lparr>db_members := db_members d1 @ new_members fresh ids\<rparr>) = Inr d2"
    "flush d2 (set_batch ?q d2) = Inr d'" "b = fresh"
    using assms by (auto simp: seal_unfold bindE_Inr_iff)
  have d1: "d1 = ?d1" "wf_db d1" using flush_wf[OF f(1)] by blast+
  have d2: "d2 = ?d2" "wf_db d2" using flush_wf[OF f(2)] d1(1) by blast+
  have d': "d' = set_batch ?q d2" "wf_db d'" using flush_wf[OF f(3)] by blast+
  have fresh: "fresh \<notin> batch_id ` set (db_batches d)"
    using wf_pks(3)[OF d1(2)] by (simp add: d1(1) add_batch_def draft_batch_def)
  have eq: "d' = sealed_db fresh now p ids limit d"
    using fresh by (simp add: d'(1) d2(1) sealed_db_def set_batch_def add_batch_def put_row_last[of batch_id] draft_batch_def)
  have "guard_scenario_batch_membership d1 d2" using f(2) d2(1) d1(1) by (simp add: flush_Inr)
  then have runs: "\<exists>r. find_run (member_run_id m) d = Some r \<and> run_status r = Queued" if "m \<in> set (new_members fresh ids)" for m
    using membership_new[of d1 d2 "new_members fresh ids" m] that
    by (simp add: d2(1) d1(1) add_batch_def find_run_def)
  have "\<forall>i \<in> set ids. \<exists>r. find_run i d = Some r \<and> run_status r = Queued"
  proof
    fix i assume "i \<in> set ids"
    then obtain m where "m \<in> set (new_members fresh ids)" "member_run_id m = i"
      by (metis imageE new_members_simps(2) set_map)
    then show "\<exists>r. find_run i d = Some r \<and> run_status r = Queued" using runs by blast
  qed
  moreover have "guard_scenario_batch_state d2 d'" using f(3) d'(1) by (simp add: flush_Inr)
  then have "batch_update_ok d' ?b ?q"
    using fresh lookup_None[of batch_id fresh "db_batches d"]
    by (simp add: guard_scenario_batch_state_def d2(1) d1(1) eq sealed_db_def add_batch_def list_all_iff find_batch_def lookup_append lookup_Cons draft_batch_def)
  then have "3 \<le> length (batch_members fresh d') \<and> length (batch_members fresh d') \<le> 10 \<and> limit \<le> int (length (batch_members fresh d'))"
    by (simp add: batch_update_ok_def draft_batch_def batch_terminal_def Let_def)
  ultimately show ?thesis using eq d'(2) fresh f(4) by blast
qed

lemma sealed_members:
  assumes wf: "wf_db d" and fresh: "fresh \<notin> batch_id ` set (db_batches d)"
  shows "batch_members k (sealed_db fresh now p ids limit d) = (if k = fresh then new_members fresh ids else batch_members k d)"
proof -
  have "member_batch_id m \<noteq> fresh" if "m \<in> set (db_members d)" for m
    using wf_fks(5)[OF wf that] fresh by (auto simp: member_fk_def)
  moreover have "filter (\<lambda>m. member_batch_id m = fresh) (new_members fresh ids) = new_members fresh ids"
    "k \<noteq> fresh \<Longrightarrow> filter (\<lambda>m. member_batch_id m = k) (new_members fresh ids) = []"
    using new_members_batch by (auto simp: filter_id_conv filter_empty_conv)
  ultimately show ?thesis by (auto simp: batch_members_def sealed_db_def filter_empty_conv)
qed

lemma seal_ok:
  assumes lc: "lifecycle d" and res: "seal fresh now p ids limit d = Inr (b, d')"
  shows "lifecycle d'"
proof -
  note s = seal_Inr[OF res]
  have d': "d' = sealed_db fresh now p ids limit d" and wf': "wf_db d'" and fresh: "fresh \<notin> batch_id ` set (db_batches d)"
    and queued: "\<forall>i \<in> set ids. \<exists>r. find_run i d = Some r \<and> run_status r = Queued"
    and size: "3 \<le> length (batch_members fresh d')" "length (batch_members fresh d') \<le> 10" "limit \<le> int (length (batch_members fresh d'))"
    using s by blast+
  note mem = sealed_members[OF lifecycle_wf[OF lc] fresh, of _ now p ids limit, folded d']
  have same: "db_runs d' = db_runs d" "db_jobs d' = db_jobs d" "db_stages d' = db_stages d"
    "db_batches d' = db_batches d @ [(draft_batch fresh now p limit)\<lparr>batch_status := BQueued\<rparr>]"
    by (simp_all add: d' sealed_db_def)
  have st: "run_status_of i d' = run_status_of i d" for i by (simp add: run_status_of_def find_run_def same)
  have "run_ok d' r = run_ok d r" for r by (simp add: run_ok_iff generation_jobs_def stage_rows_def same)
  moreover have "batch_ok d' x" if x: "x \<in> set (db_batches d)" for x
  proof -
    have "batch_id x \<noteq> fresh" using x fresh by auto
    then have "batch_members (batch_id x) d' = batch_members (batch_id x) d" by (simp add: mem)
    moreover have "batch_ok d x" using lc x by (simp add: lifecycle_def list_all_iff)
    ultimately show ?thesis by (simp add: batch_ok_def sealed_def running_children_def child_statuses_eq st)
  qed
  moreover have "batch_ok d' ((draft_batch fresh now p limit)\<lparr>batch_status := BQueued\<rparr>)"
  proof -
    have "child_statuses fresh d' = replicate (length ids) Queued"
      unfolding child_statuses_eq mem st
    proof (simp, rule statuses_of_all[where ms = "new_members fresh ids", unfolded new_members_simps])
      fix m assume "m \<in> set (new_members fresh ids)"
      then have "member_run_id m \<in> set ids" by (metis imageI new_members_simps(2) set_map)
      then show "run_status_of (member_run_id m) d = Some Queued" using queued by (auto simp: run_status_of_def)
    qed
    moreover have "1 \<le> limit" using wf_checks(4)[OF wf', of "(draft_batch fresh now p limit)\<lparr>batch_status := BQueued\<rparr>"]
      by (simp add: same batch_checks_def draft_batch_def)
    ultimately show ?thesis using size
      by (simp add: batch_ok_def sealed_def running_children_def mem draft_batch_def batch_terminal_def)
  qed
  ultimately show ?thesis using lc wf' by (simp add: lifecycle_def list_all_iff same)
qed

lemma create_batch_ok:
  assumes lc: "lifecycle d" and res: "create_batch fresh now p ids limit d = Inr (b, d')"
  shows "lifecycle d'"
proof -
  have "seal fresh now p ids limit d = Inr (b, d')"
    using res by (simp add: create_batch_def Let_def split: if_splits)
  then show ?thesis by (rule seal_ok[OF lc])
qed

lemma refresh_batch_ok:
  assumes lc: "lifecycle d" and res: "refresh_batch i now d = Inr (snap, d')"
  shows "lifecycle d'"
proof -
  obtain b where b: "find_batch i d = Some b" using res by (auto simp: refresh_batch_def split: option.splits)
  note ok = lifecycle_batch[OF lc b]
  let ?b = "refreshed_batch now (child_statuses i d) b"
  have "refresh_batch i now d = Inr (snap, set_batch ?b d)"
    using refresh_batch_eq[OF lifecycle_wf[OF lc] b, of now] ok res by (auto simp: batch_ok_def)
  then have d': "d' = set_batch ?b d" using res by simp
  have "flush d (set_batch (refreshed_batch now (map snd (ordered_children i d)) b) d) = Inr d'"
    using res b by (auto simp: refresh_batch_def Let_def bindE_Inr_iff)
  then have wf': "wf_db d'" using flush_wf by blast
  have "batch_ok d' x" if x: "x \<in> set (put_row batch_id ?b (db_batches d))" for x
  proof -
    consider "x = ?b" | "x \<in> set (db_batches d)" using put_row_set[OF x] by blast
    then show ?thesis
    proof cases
      case 1
      then show ?thesis using ok
        by (auto simp: d' batch_ok_def sealed_def running_children_def refreshed_batch_def batch_terminal_def aggregate_status_def
            split: if_splits)
    next
      case 2
      then have "batch_ok d x" using lc by (simp add: lifecycle_def list_all_iff)
      then show ?thesis by (simp add: d' batch_ok_def sealed_def running_children_def)
    qed
  qed
  moreover have "run_ok d' r = run_ok d r" for r by (simp add: d' run_ok_iff)
  ultimately show ?thesis using lc wf' by (simp add: d' lifecycle_def list_all_iff)
qed

subsection \<open>Matrices\<close>

lemma matrix_pairs:
  "list_all (\<lambda>r. run_status r = Queued \<and> has_commit r) rs \<Longrightarrow>
     list_all2 fresh_pair rs (map (\<lambda>(i, r). generation_job (fresh_job (fresh i)) r) (enumerate n rs))"
  by (induction rs arbitrary: n) (auto simp: fresh_pair_def generation_job_def lifecycle_ok_def)

lemma matrix_runs_queued:
  assumes "matrix_runs fresh now s x versions children = Inr rs" and "commit_re (spec_commit s)"
  shows "list_all (\<lambda>r. run_status r = Queued \<and> has_commit r \<and> run_project_id r = spec_project s) rs \<and>
     length rs = length children \<and> map run_id rs = map (\<lambda>i. fresh_run (fresh i)) [0..<length children]"
proof -
  have "list_all2 (\<lambda>(i, c) r. \<exists>config. r = new_run (fresh_run (fresh i)) (spec_project s) None (mode_value (spec_mode s)) (child_seed c)
          (project_working_srid x) config (spec_schema s) (Some (spec_commit s)) now versions) (enumerate 0 children) rs"
    using assms(1) unfolding matrix_runs_def mapE_Inr_iff by (rule list_all2_mono) (auto simp: bindE_Inr_iff)
  then have l: "length rs = length children" and
    nth: "\<And>k. k < length children \<Longrightarrow> \<exists>config. rs ! k = new_run (fresh_run (fresh k)) (spec_project s) None (mode_value (spec_mode s))
       (child_seed (children ! k)) (project_working_srid x) config (spec_schema s) (Some (spec_commit s)) now versions"
    by (auto simp: list_all2_conv_all_nth nth_enumerate_eq)
  have nth': "run_status (rs ! k) = Queued \<and> has_commit (rs ! k) \<and> run_project_id (rs ! k) = spec_project s \<and>
      run_id (rs ! k) = fresh_run (fresh k)" if "k < length children" for k
    using nth[OF that] assms(2) by (elim exE) (simp add: new_run_def has_commit_def)
  have "run_status r = Queued \<and> has_commit r \<and> run_project_id r = spec_project s" if r: "r \<in> set rs" for r
  proof -
    obtain k where "k < length children" "r = rs ! k" using r l by (metis in_set_conv_nth)
    then show ?thesis using nth' by blast
  qed
  moreover have "map run_id rs = map (\<lambda>i. fresh_run (fresh i)) [0..<length children]"
    using nth' by (intro nth_equalityI) (simp_all add: l)
  ultimately show ?thesis using l by (simp add: list_all_iff)
qed

lemma create_matrix_Inr:
  assumes "create_matrix lims fresh fb now s d = Inr ((b, ids), d')" and "commit_re (spec_commit s)"
  shows "\<exists>x rs. find_project (spec_project s) d = Some x \<and>
     matrix_runs fresh now s x (ready_versions (spec_project s) (sort (spec_versions s)) d) (expand_scenario_matrix s) = Inr rs \<and>
     ids = map run_id rs \<and>
     enforce_project_job_capacity lims (spec_project s) GENERATION_JOB_TYPE (int (length (expand_scenario_matrix s))) d = Inr () \<and>
     wf_db (add_rows rs (matrix_jobs fresh rs) (matrix_messages fresh now rs) d) \<and>
     seal fb now (spec_project s) ids (spec_limit s) (add_rows rs (matrix_jobs fresh rs) (matrix_messages fresh now rs) d) = Inr (b, d')"
proof -
  obtain x rs d1 d2 d3 where f: "find_project (spec_project s) d = Some x"
    "matrix_runs fresh now s x (ready_versions (spec_project s) (sort (spec_versions s)) d) (expand_scenario_matrix s) = Inr rs"
    "enforce_project_job_capacity lims (spec_project s) GENERATION_JOB_TYPE (int (length (expand_scenario_matrix s))) d = Inr ()"
    "flush d (add_rows rs [] [] d) = Inr d1" "flush d1 (add_rows [] (matrix_jobs fresh rs) [] d1) = Inr d2"
    "flush d2 (add_rows [] [] (matrix_messages fresh now rs) d2) = Inr d3"
    "seal fb now (spec_project s) (map run_id rs) (spec_limit s) d3 = Inr (b, d')" "ids = map run_id rs"
    using assms(1) by (auto simp: create_matrix_def Let_def bindE_Inr_iff split: option.splits if_splits)
  have "d1 = add_rows rs [] [] d" "d2 = add_rows [] (matrix_jobs fresh rs) [] d1" "d3 = add_rows [] [] (matrix_messages fresh now rs) d2" "wf_db d3"
    using flush_wf[OF f(4)] flush_wf[OF f(5)] flush_wf[OF f(6)] by blast+
  then have "d3 = add_rows rs (matrix_jobs fresh rs) (matrix_messages fresh now rs) d" "wf_db d3" by (simp_all add: add_rows_def)
  with f show ?thesis by blast
qed

lemma create_matrix_ok:
  assumes lc: "lifecycle d" and res: "create_matrix lims fresh fb now s d = Inr ((b, ids), d')" and c: "commit_re (spec_commit s)"
  shows "lifecycle d'"
proof -
  obtain x rs where m: "matrix_runs fresh now s x (ready_versions (spec_project s) (sort (spec_versions s)) d) (expand_scenario_matrix s) = Inr rs"
    "wf_db (add_rows rs (matrix_jobs fresh rs) (matrix_messages fresh now rs) d)"
    "seal fb now (spec_project s) ids (spec_limit s) (add_rows rs (matrix_jobs fresh rs) (matrix_messages fresh now rs) d) = Inr (b, d')"
    using create_matrix_Inr[OF res c] by blast
  have "list_all (\<lambda>r. run_status r = Queued \<and> has_commit r) rs"
    using matrix_runs_queued[OF m(1) c] by (simp add: list_all_iff)
  then have "list_all2 fresh_pair rs (matrix_jobs fresh rs)" unfolding matrix_jobs_def by (rule matrix_pairs)
  then have "lifecycle (add_rows rs (matrix_jobs fresh rs) (matrix_messages fresh now rs) d)"
    by (rule lifecycle_add_runs[OF lc m(2), rotated 2]) (simp_all add: add_rows_def)
  then show ?thesis using m(3) by (rule seal_ok)
qed

end
