(* ===== verification/Creation.thy ===== *)
theory Creation
  imports Lifecycle_Create
begin

text \<open>
  When creation succeeds: inserting runs, jobs, outbox rows and a batch passes the database's
  constraints and triggers, so that the documented refusals are the only ones.
\<close>

subsection \<open>Inserts that pass the constraints\<close>

lemma add_rows_tables [simp]:
  "db_projects (add_rows rs js ms d) = db_projects d" "db_datasets (add_rows rs js ms d) = db_datasets d"
  "db_versions (add_rows rs js ms d) = db_versions d" "db_artifacts (add_rows rs js ms d) = db_artifacts d"
  "db_runs (add_rows rs js ms d) = db_runs d @ rs" "db_jobs (add_rows rs js ms d) = db_jobs d @ js"
  "db_outbox (add_rows rs js ms d) = db_outbox d @ ms" "db_stages (add_rows rs js ms d) = db_stages d"
  "db_batches (add_rows rs js ms d) = db_batches d" "db_members (add_rows rs js ms d) = db_members d"
  by (simp_all add: add_rows_def)

lemma add_rows_Nil [simp]: "add_rows [] [] [] d = d"
  by (simp add: add_rows_def)

lemma opt_ok_mono: "opt_ok P x \<Longrightarrow> (\<And>y. P y \<Longrightarrow> Q y) \<Longrightarrow> opt_ok Q x"
  by (cases x) auto

lemma fk_add_rows:
  assumes "fk_ok d" and "list_all (run_fk d) rs" "list_all (job_fk (add_rows rs [] [] d)) js"
    and "list_all (\<lambda>m. outbox_job_id m \<in> set (map job_id (db_jobs d @ js))) ms"
  shows "fk_ok (add_rows rs js ms d)"
proof -
  have r: "run_fk d r \<Longrightarrow> run_fk (add_rows rs js ms d) r" for r by (auto simp: run_fk_def elim!: opt_ok_mono)
  have j: "job_fk d j \<Longrightarrow> job_fk (add_rows rs js ms d) j" for j by (auto simp: job_fk_def elim!: opt_ok_mono)
  have j': "job_fk (add_rows rs [] [] d) j \<Longrightarrow> job_fk (add_rows rs js ms d) j" for j by (auto simp: job_fk_def)
  have m: "member_fk d x \<Longrightarrow> member_fk (add_rows rs js ms d) x" for x by (auto simp: member_fk_def)
  show ?thesis using assms r j j' m by (auto simp: fk_ok_def list_all_iff)
qed

lemma appended_rows_unchanged:
  assumes wf: "wf_db d"
  shows "succeeded_runs_unchanged d (add_rows rs js ms d)"
proof -
  have "find_run (run_id r) (add_rows rs js ms d) = Some r" if "r \<in> set (db_runs d)" for r
    using lookup_self[OF wf_pks(4)[OF wf] that] by (simp add: find_run_def lookup_append)
  then show ?thesis by (simp add: succeeded_runs_unchanged_def list_all_iff)
qed

lemma flush_add_rows:
  assumes wf: "wf_db d" and checks: "list_all run_checks rs" "list_all job_checks js" "list_all outbox_checks ms"
    and fk: "list_all (run_fk d) rs" "list_all (job_fk (add_rows rs [] [] d)) js"
      "list_all (\<lambda>m. outbox_job_id m \<in> set (map job_id (db_jobs d @ js))) ms"
    and u: "distinct (map run_id (db_runs d @ rs))" "distinct (map job_id (db_jobs d @ js))"
      "distinct (map (\<lambda>j. (job_project_id j, job_type j, job_key j)) (db_jobs d @ js))"
      "distinct (map outbox_id (db_outbox d @ ms))" "distinct (map outbox_job_id (db_outbox d @ ms))"
  shows "flush d (add_rows rs js ms d) = Inr (add_rows rs js ms d)"
proof -
  have uq: "unique_ok d" using wf by (simp add: wf_db_def)
  have "rows_ok (add_rows rs js ms d)" using wf checks by (simp add: wf_db_def rows_ok_def)
  moreover have "unique_ok (add_rows rs js ms d)" using uq u by (simp add: unique_ok_def)
  moreover have "fk_ok (add_rows rs js ms d)" using wf fk by (intro fk_add_rows) (simp_all add: wf_db_def)
  ultimately show ?thesis using uq appended_rows_unchanged[OF wf]
    by (simp add: flush_Inr wf_db_def artifact_updates_same version_updates_same membership_same batch_state_same stage_results_same)
qed

subsection \<open>The new rows\<close>

text \<open>New UUIDs for run, job and message: none of them, nor the job key, is in use.\<close>

definition fresh_for :: "db \<Rightarrow> uuid \<Rightarrow> fresh_ids \<Rightarrow> bool" where
  "fresh_for d p f \<longleftrightarrow> fresh_run f \<notin> run_id ` set (db_runs d) \<and> fresh_job f \<notin> job_id ` set (db_jobs d) \<and>
     fresh_message f \<notin> outbox_id ` set (db_outbox d) \<and>
     (p, GENERATION_JOB_TYPE, ''run:'' @ uuid_str (fresh_run f)) \<notin> (\<lambda>j. (job_project_id j, job_type j, job_key j)) ` set (db_jobs d)"

lemma generation_job_checks: "job_checks (generation_job j r)"
  by (simp add: job_checks_def generation_job_def GENERATION_JOB_TYPE_def btrim_nonempty_def) code_simp

lemma generation_message_checks: "outbox_checks (generation_message m j now r)"
  by (simp add: outbox_checks_def generation_message_def) code_simp

lemma new_run_checks:
  assumes "0 < srid" "mode \<in> {''EXPANSION'', ''FROM_SCRATCH''}" "schema \<noteq> []" "opt_ok commit_re commit"
    and "opt_ok (\<lambda>s. s \<noteq> i) src"
  shows "run_checks (new_run i p src mode seed srid config schema commit now versions)"
  using assms by (simp add: run_checks_def new_run_def)

lemma ready_versions_in: "set (map version_id (ready_versions p ids d)) \<subseteq> set (map version_id (db_versions d))"
  by (auto simp: ready_versions_def)

lemma new_run_fk:
  assumes "find_project p d = Some x" and "opt_ok (\<lambda>s. s \<in> set (map run_id (db_runs d))) src"
  shows "run_fk d (new_run i p src mode seed srid config schema commit now (ready_versions p ids d))"
proof -
  have "x \<in> set (db_projects d) \<and> project_id x = p" using assms(1) unfolding find_project_def by (rule lookup_Some)
  then have "p \<in> set (map project_id (db_projects d))" by (metis image_eqI set_map)
  then show ?thesis using assms(2) ready_versions_in[of p ids d]
    by (auto simp: run_fk_def new_run_def list_all_iff)
qed

lemma outbox_jobs_known: "wf_db d \<Longrightarrow> m \<in> set (db_outbox d) \<Longrightarrow> outbox_job_id m \<in> job_id ` set (db_jobs d)"
  by (simp add: wf_db_def fk_ok_def list_all_iff)

definition run_id_of_fresh :: "fresh_ids \<Rightarrow> run \<Rightarrow> bool" where
  "run_id_of_fresh f r \<longleftrightarrow> run_id r = fresh_run f"

lemma uuid_key_inj: "''run:'' @ uuid_str u = ''run:'' @ uuid_str v \<longleftrightarrow> u = v"
  using uuid_str_inj by auto

text \<open>Runs inserted with their jobs and messages, as three flushes.\<close>

lemma insert_runs:
  assumes wf: "wf_db d" and checks: "list_all run_checks rs" and fk: "list_all (run_fk d) rs"
    and fresh: "list_all2 (\<lambda>f r. fresh_for d p f \<and> run_id r = fresh_run f \<and> run_project_id r = p) fs rs"
    and dist: "distinct (map fresh_run fs)" "distinct (map fresh_job fs)" "distinct (map fresh_message fs)"
    and js: "js = map2 (\<lambda>f r. generation_job (fresh_job f) r) fs rs"
    and ms: "ms = map2 (\<lambda>f r. generation_message (fresh_message f) (fresh_job f) now r) fs rs"
  shows "flush d (add_rows rs [] [] d) = Inr (add_rows rs [] [] d)"
    and "flush (add_rows rs [] [] d) (add_rows [] js [] (add_rows rs [] [] d)) = Inr (add_rows rs js [] d)"
    and "flush (add_rows rs js [] d) (add_rows [] [] ms (add_rows rs js [] d)) = Inr (add_rows rs js ms d)"
proof -
  have l: "length fs = length rs" using fresh by (rule list_all2_lengthD)
  have ids: "map run_id rs = map fresh_run fs" "map job_id js = map fresh_job fs" "map outbox_id ms = map fresh_message fs"
    "map outbox_job_id ms = map fresh_job fs"
    using l fresh by (auto simp: js ms generation_job_def generation_message_def list_all2_conv_all_nth intro!: nth_equalityI)
  have keys: "map (\<lambda>j. (job_project_id j, job_type j, job_key j)) js =
      map (\<lambda>i. (p, GENERATION_JOB_TYPE, ''run:'' @ uuid_str i)) (map fresh_run fs)"
    using l fresh by (auto simp: js generation_job_def list_all2_conv_all_nth intro!: nth_equalityI)
  have ff: "\<And>f. f \<in> set fs \<Longrightarrow> fresh_for d p f" using fresh by (auto simp: list_all2_conv_all_nth in_set_conv_nth)
  have u: "distinct (map run_id (db_runs d))" "distinct (map job_id (db_jobs d))"
    "distinct (map (\<lambda>j. (job_project_id j, job_type j, job_key j)) (db_jobs d))"
    "distinct (map outbox_id (db_outbox d))" "distinct (map outbox_job_id (db_outbox d))"
    using wf by (simp_all add: wf_db_def unique_ok_def)
  have new: "x \<in> set (map fresh_run fs) \<Longrightarrow> x \<notin> set (map run_id (db_runs d))"
    "x \<in> set (map fresh_job fs) \<Longrightarrow> x \<notin> set (map job_id (db_jobs d))"
    "x \<in> set (map fresh_message fs) \<Longrightarrow> x \<notin> set (map outbox_id (db_outbox d))" for x
    unfolding set_map by (elim imageE; use ff in \<open>simp add: fresh_for_def\<close>)+
  have ur: "distinct (map run_id (db_runs d @ rs))"
    unfolding map_append ids distinct_append using u(1) dist(1) new(1) by blast
  have uj: "distinct (map job_id (db_jobs d @ js))"
    unfolding map_append ids distinct_append using u(2) dist(2) new(2) by blast
  have uk: "distinct (map (\<lambda>j. (job_project_id j, job_type j, job_key j)) (db_jobs d @ js))"
  proof -
    have "distinct (map (\<lambda>i. (p, GENERATION_JOB_TYPE, ''run:'' @ uuid_str i)) (map fresh_run fs))"
      using dist(1) by (intro distinct_map[THEN iffD2]) (auto simp: inj_on_def dest: uuid_str_inj)
    moreover have "set (map (\<lambda>i. (p, GENERATION_JOB_TYPE, ''run:'' @ uuid_str i)) (map fresh_run fs)) \<inter>
        set (map (\<lambda>j. (job_project_id j, job_type j, job_key j)) (db_jobs d)) = {}"
      unfolding set_map disjoint_iff by (intro allI impI; elim imageE; use ff in \<open>simp add: fresh_for_def\<close>)
    ultimately show ?thesis using u(3) by (simp only: map_append distinct_append keys Int_commute)
  qed
  have um: "distinct (map outbox_id (db_outbox d @ ms))"
    unfolding map_append ids distinct_append using u(4) dist(3) new(3) by blast
  have "set (map outbox_job_id (db_outbox d)) \<subseteq> set (map job_id (db_jobs d))" using outbox_jobs_known[OF wf] by auto
  then have uo: "distinct (map outbox_job_id (db_outbox d @ ms))"
    unfolding map_append ids distinct_append using u(5) dist(2) new(2) by blast
  show 1: "flush d (add_rows rs [] [] d) = Inr (add_rows rs [] [] d)"
    using u ur by (intro flush_add_rows[OF wf checks _ _ fk]) simp_all
  then have wf1: "wf_db (add_rows rs [] [] d)" using flush_wf by blast
  have jc: "list_all job_checks js" by (auto simp: js list_all_iff generation_job_checks dest!: set_zip_rightD)
  have jf: "list_all (job_fk (add_rows rs [] [] d)) js"
    using fk by (auto simp: js list_all_iff job_fk_def generation_job_def run_fk_def dest!: set_zip_rightD)
  have "flush (add_rows rs [] [] d) (add_rows [] js [] (add_rows rs [] [] d)) = Inr (add_rows [] js [] (add_rows rs [] [] d))"
    using u ur uj uk jc jf by (intro flush_add_rows[OF wf1]) (simp_all add: job_fk_def)
  moreover have a2: "add_rows [] js [] (add_rows rs [] [] d) = add_rows rs js [] d" by (simp add: add_rows_def)
  ultimately show 2: "flush (add_rows rs [] [] d) (add_rows [] js [] (add_rows rs [] [] d)) = Inr (add_rows rs js [] d)" by (simp only: a2)
  then have wf2: "wf_db (add_rows rs js [] d)" using flush_wf a2 by metis
  have mc: "list_all outbox_checks ms" by (auto simp: ms list_all_iff generation_message_checks)
  have "set (map outbox_job_id ms) = set (map job_id js)" by (simp only: ids)
  then have mf: "list_all (\<lambda>m. outbox_job_id m \<in> set (map job_id (db_jobs d @ js))) ms" by (auto simp: list_all_iff)
  have "flush (add_rows rs js [] d) (add_rows [] [] ms (add_rows rs js [] d)) = Inr (add_rows [] [] ms (add_rows rs js [] d))"
    using ur uj uk um uo mc mf by (intro flush_add_rows[OF wf2]) simp_all
  moreover have a3: "add_rows [] [] ms (add_rows rs js [] d) = add_rows rs js ms d" by (simp add: add_rows_def)
  ultimately show "flush (add_rows rs js [] d) (add_rows [] [] ms (add_rows rs js [] d)) = Inr (add_rows rs js ms d)" by (simp only: a3)
qed

subsection \<open>Sealing succeeds\<close>

lemma new_members_nth:
  "k < length ids \<Longrightarrow> new_members b ids ! k = \<lparr>member_batch_id = b, member_run_id = ids ! k, member_position = int k\<rparr>"
  by (simp add: new_members_def nth_enumerate_eq)

lemma new_members_mem:
  assumes "m \<in> set (new_members b ids)"
  shows "member_batch_id m = b \<and> member_run_id m \<in> set ids \<and> 0 \<le> member_position m \<and> member_position m < int (length ids)"
proof -
  obtain k where k: "k < length ids" "m = new_members b ids ! k" using assms by (metis in_set_conv_nth new_members_simps(1))
  show ?thesis unfolding k(2) new_members_nth[OF k(1)] using k(1) by simp
qed

lemma sealing_steps:
  assumes wf: "wf_db d" and fresh: "fresh \<notin> batch_id ` set (db_batches d)" and p: "p \<in> set (map project_id (db_projects d))"
    and size: "3 \<le> length ids" "length ids \<le> 10" "1 \<le> limit" "limit \<le> int (length ids)" and dist: "distinct ids"
    and runs: "\<And>i. i \<in> set ids \<Longrightarrow> \<exists>r. find_run i d = Some r \<and> run_project_id r = p \<and> run_status r = Queued"
    and free: "\<And>i. i \<in> set ids \<Longrightarrow> i \<notin> member_run_id ` set (db_members d)"
  shows "seal fresh now p ids limit d = Inr (fresh, sealed_db fresh now p ids limit d)"
proof -
  let ?b = "draft_batch fresh now p limit" and ?q = "(draft_batch fresh now p limit)\<lparr>batch_status := BQueued\<rparr>"
  let ?d1 = "add_batch ?b d"
  let ?ms = "new_members fresh ids"
  let ?d2 = "?d1\<lparr>db_members := db_members ?d1 @ ?ms\<rparr>"
  have uq: "unique_ok d" and fkd: "fk_ok d" and rk: "rows_ok d" using wf by (simp_all add: wf_db_def)
  have fb: "find_batch k ?d1 = (if k = fresh then Some ?b else find_batch k d)" for k
    using fresh lookup_None[of batch_id fresh "db_batches d"]
    by (auto simp: find_batch_def add_batch_def lookup_append lookup_Cons draft_batch_def split: option.split)
  have g1: "guard_scenario_batch_state d ?d1"
    using fresh lookup_self[OF wf_pks(3)[OF wf]]
    by (auto simp: guard_scenario_batch_state_def list_all_iff fb batch_update_ok_def find_batch_def[of _ d] image_iff)
  have mfk: "member_fk d m \<Longrightarrow> member_fk ?d1 m" for m by (auto simp: member_fk_def add_batch_def)
  have wf1: "wf_db ?d1" unfolding wf_db_def
  proof (intro conjI)
    show "rows_ok ?d1" using rk size by (simp add: rows_ok_def add_batch_def batch_checks_def draft_batch_def)
    show "unique_ok ?d1" using uq fresh by (simp add: unique_ok_def add_batch_def draft_batch_def)
    have "run_fk ?d1 = run_fk d" "job_fk ?d1 = job_fk d" by (simp_all add: fun_eq_iff run_fk_def job_fk_def add_batch_def)
    then show "fk_ok ?d1" using fkd p mfk by (simp add: fk_ok_def list_all_iff) (simp add: add_batch_def draft_batch_def)
  qed
  have f1: "flush d ?d1 = Inr ?d1"
    using uq g1 wf1 by (simp add: flush_Inr artifact_updates_same version_updates_same membership_same stage_results_same succeeded_runs_same add_batch_def)
  have members: "member_batch_id m = fresh \<and> member_run_id m \<in> set ids \<and> 0 \<le> member_position m \<and> member_position m < int (length ids)"
    if m: "m \<in> set ?ms" for m
    using m by (rule new_members_mem)
  have old: "member_batch_id m \<noteq> fresh" if "m \<in> set (db_members d)" for m
    using wf_fks(5)[OF wf that] fresh by (auto simp: member_fk_def)
  have pos: "distinct (map (\<lambda>m. (member_batch_id m, member_position m)) ?ms)"
  proof -
    have "map (\<lambda>m. (member_batch_id m, member_position m)) ?ms = map (\<lambda>i. (fresh, int i)) [0..<length ids]"
      by (intro nth_equalityI) (simp_all add: new_members_nth)
    then show ?thesis by (simp add: distinct_map inj_on_def)
  qed
  have wf2: "wf_db ?d2" unfolding wf_db_def
  proof (intro conjI)
    have "list_all member_checks ?ms" using members size(2) by (fastforce simp: list_all_iff member_checks_def)
    then show "rows_ok ?d2" using wf1 by (simp add: wf_db_def rows_ok_def add_batch_def)
    have "distinct (map member_run_id (db_members d @ ?ms))"
      using wf_pks(9)[OF wf] dist free unfolding map_append distinct_append new_members_simps(2) set_map by blast
    moreover have "distinct (map (\<lambda>m. (member_batch_id m, member_position m)) (db_members d @ ?ms))"
      using uq pos old members by (auto simp: unique_ok_def)
    ultimately show "unique_ok ?d2" using wf1 by (simp add: wf_db_def unique_ok_def add_batch_def)
    have e: "run_fk ?d2 = run_fk ?d1" "job_fk ?d2 = job_fk ?d1" "member_fk ?d2 = member_fk ?d1"
      by (simp_all add: fun_eq_iff run_fk_def job_fk_def member_fk_def)
    have "member_fk ?d1 m" if m: "m \<in> set ?ms" for m
    proof -
      obtain r where "find_run (member_run_id m) d = Some r" using runs members[OF m] by blast
      then have "r \<in> set (db_runs d) \<and> run_id r = member_run_id m" by (rule find_run_Some)
      then have "member_run_id m \<in> set (map run_id (db_runs d))" by (metis image_eqI set_map)
      then show ?thesis using members[OF m] by (simp add: member_fk_def add_batch_def draft_batch_def)
    qed
    then show "fk_ok ?d2" using wf1 unfolding wf_db_def fk_ok_def e by (auto simp: list_all_iff add_batch_def)
  qed
  have "guard_scenario_batch_membership ?d1 ?d2"
  proof -
    have "case (find_batch (member_batch_id m) ?d2, find_run (member_run_id m) ?d2) of
          (Some b, Some r) \<Rightarrow> batch_status b = BDraft \<and> run_project_id r = batch_project_id b \<and> run_status r = Queued | _ \<Rightarrow> False"
      if m: "m \<in> set ?ms" for m
    proof -
      obtain r where r: "find_run (member_run_id m) d = Some r" "run_project_id r = p" "run_status r = Queued"
        using runs members[OF m] by blast
      have "find_run (member_run_id m) ?d2 = Some r" using r(1) by (simp add: find_run_def add_batch_def)
      moreover have "find_batch fresh ?d2 = Some ?b" using fb[of fresh] by (simp add: find_batch_def)
      ultimately show ?thesis using members[OF m] r by (simp add: draft_batch_def)
    qed
    then show ?thesis by (simp add: guard_scenario_batch_membership_def list_all_iff)
  qed
  then have f2: "flush ?d1 ?d2 = Inr ?d2"
    using wf1 wf2 by (simp add: flush_Inr wf_db_def artifact_updates_same version_updates_same batch_state_same stage_results_same succeeded_runs_same)
  have bm: "batch_members fresh (set_batch ?q ?d2) = ?ms"
  proof -
    have "filter (\<lambda>m. member_batch_id m = fresh) (db_members d) = []" using old by (simp add: filter_empty_conv)
    moreover have "filter (\<lambda>m. member_batch_id m = fresh) ?ms = ?ms" using members by (simp add: filter_id_conv)
    ultimately show ?thesis by (simp add: batch_members_def add_batch_def)
  qed
  have fb2: "find_batch fresh ?d2 = Some ?b" using fb[of fresh] by (simp add: find_batch_def)
  have f3: "flush ?d2 (set_batch ?q ?d2) = Inr (set_batch ?q ?d2)"
  proof (rule flush_set_batch[OF wf2])
    show "find_batch (batch_id ?q) ?d2 = Some ?b" using fb2 by (simp add: draft_batch_def)
    show "batch_update_ok (set_batch ?q ?d2) ?b ?q"
      using bm size by (simp add: batch_update_ok_def draft_batch_def batch_terminal_def)
    show "batch_checks ?q" using size by (simp add: batch_checks_def draft_batch_def)
  qed simp
  have "set_batch ?q ?d2 = sealed_db fresh now p ids limit d"
    using fresh by (simp add: sealed_db_def set_batch_def add_batch_def put_row_last[of batch_id] draft_batch_def)
  then show ?thesis using f1 f2 f3 by (simp add: seal_unfold)
qed

end
