(* ===== verification/Lifecycle.thy ===== *)
theory Lifecycle
  imports Lifecycle_Create
begin

text \<open>
  The run lifecycle as a state machine: the transactions as events, reachable databases, and the
  abstract view of a run as its state, the attempts it has left and whether its cancellation is
  requested. Every transaction refines a step of the abstract machine; what holds of the machine
  (absorbing states, cancellation is never lost, bounded retries) holds of the database.
\<close>

subsection \<open>Events\<close>

datatype event =
    Claim uuid time time
  | RequestCancel uuid time
  | CancelStage uuid string time
  | CancelRun uuid "string option" time
  | StartStage uuid uuid checkpoint_identity time
  | CompleteStage uuid string "unit stage_result" time
  | SkipStage uuid uuid stage skip_reason "string list" time
  | FailStage uuid string time
  | CompleteRun uuid "string list" time
  | FailRun uuid "string option" ug_error time
  | CreateRun fresh_ids time uuid run_request
  | RetryRun fresh_ids time uuid uuid
  | CreateMatrix "nat \<Rightarrow> fresh_ids" uuid time matrix_spec
  | CreateBatch uuid time uuid "uuid list" int
  | RefreshBatch uuid time

text \<open>The database after the event's transaction; a specification is validated when it is built.\<close>

definition new_db :: "exc + 'a \<times> db \<Rightarrow> exc + db" where
  "new_db m = bindE m (\<lambda>(_, d). Inr d)"

fun exec :: "(bytes \<Rightarrow> string) \<Rightarrow> admission_limits \<Rightarrow> event \<Rightarrow> db \<Rightarrow> exc + db" where
  "exec h l (Claim i clock now) d = new_db (claim i clock now d)"
| "exec h l (RequestCancel i now) d = new_db (request_cancel i now d)"
| "exec h l (CancelStage i n now) d = cancel_stage i n now d"
| "exec h l (CancelRun i sn now) d = cancel_run i sn now d"
| "exec h l (StartStage f i x now) d = start_stage f i x now d"
| "exec h l (CompleteStage i n res now) d = complete_stage i n res now d"
| "exec h l (SkipStage f i s reason blocked now) d = skip_stage h f i s reason blocked now d"
| "exec h l (FailStage i n now) d = fail_stage i n now d"
| "exec h l (CompleteRun i expected now) d = complete_run i expected now d"
| "exec h l (FailRun i sn e now) d = new_db (fail_run i sn e now d)"
| "exec h l (CreateRun f now p q) d = new_db (create_run l f now p q d)"
| "exec h l (RetryRun f now p i) d = new_db (retry_run l f now p i d)"
| "exec h l (CreateMatrix fs fb now s) d = bindE (validate_spec s) (\<lambda>_. new_db (create_matrix l fs fb now s d))"
| "exec h l (CreateBatch f now p ids limit) d = new_db (create_batch f now p ids limit d)"
| "exec h l (RefreshBatch i now) d = new_db (refresh_batch i now d)"

definition initial_db :: "db \<Rightarrow> bool" where
  "initial_db d = (wf_db d \<and> db_runs d = [] \<and> db_batches d = [])"

inductive reachable :: "(bytes \<Rightarrow> string) \<Rightarrow> admission_limits \<Rightarrow> db \<Rightarrow> bool" for h l where
  initial: "initial_db d \<Longrightarrow> reachable h l d"
| step: "reachable h l d \<Longrightarrow> exec h l ev d = Inr d' \<Longrightarrow> reachable h l d'"

lemma new_db_Inr: "new_db m = Inr d \<longleftrightarrow> (\<exists>x. m = Inr (x, d))"
  by (auto simp: new_db_def bindE_Inr_iff)

lemma get_run_Inr: "get_run i d = Inr r \<longleftrightarrow> find_run i d = Some r"
  by (auto simp: get_run_def split: option.splits)

text \<open>A transaction on a run that returns has found the run and its job.\<close>

lemma found:
  assumes lc: "lifecycle d"
  shows "claim i clock now d = Inr x \<Longrightarrow> \<exists>r j. find_run i d = Some r \<and> generation_jobs i d = [j] \<and> lifecycle_ok r j (stage_rows i d)"
    and "request_cancel i now d = Inr y \<Longrightarrow> \<exists>r j. find_run i d = Some r \<and> generation_jobs i d = [j] \<and> lifecycle_ok r j (stage_rows i d)"
    and "complete_run i expected now d = Inr z \<Longrightarrow> \<exists>r j. find_run i d = Some r \<and> generation_jobs i d = [j] \<and> lifecycle_ok r j (stage_rows i d)"
    and "fail_run i sn e now d = Inr w \<Longrightarrow> \<exists>r j. find_run i d = Some r \<and> generation_jobs i d = [j] \<and> lifecycle_ok r j (stage_rows i d)"
proof -
  have "\<exists>j. generation_jobs i d = [j] \<and> lifecycle_ok r j (stage_rows i d)" if "find_run i d = Some r" for r
    using lifecycle_run[OF lc that] by metis
  then show "claim i clock now d = Inr x \<Longrightarrow> \<exists>r j. find_run i d = Some r \<and> generation_jobs i d = [j] \<and> lifecycle_ok r j (stage_rows i d)"
    and "request_cancel i now d = Inr y \<Longrightarrow> \<exists>r j. find_run i d = Some r \<and> generation_jobs i d = [j] \<and> lifecycle_ok r j (stage_rows i d)"
    and "complete_run i expected now d = Inr z \<Longrightarrow> \<exists>r j. find_run i d = Some r \<and> generation_jobs i d = [j] \<and> lifecycle_ok r j (stage_rows i d)"
    and "fail_run i sn e now d = Inr w \<Longrightarrow> \<exists>r j. find_run i d = Some r \<and> generation_jobs i d = [j] \<and> lifecycle_ok r j (stage_rows i d)"
    by (auto simp: claim_def request_cancel_def complete_run_def fail_run_def require_running_Inr bindE_Inr_iff get_run_Inr Let_def)
qed

lemma claim_ok:
  assumes lc: "lifecycle d" and res: "claim i clock now d = Inr (x, d')"
  shows "lifecycle d'"
proof -
  obtain r j where r: "find_run i d = Some r" "generation_jobs i d = [j]" "lifecycle_ok r j (stage_rows i d)"
    using found(1)[OF lc res] by blast
  have "d' = d \<or> run_status r = Queued \<and> \<not> batch_full i d \<and> d' = claimed_db i now r j d"
    using res unfolding claim_eq[OF lc r(1,2)] by (auto split: status.splits if_splits)
  then show ?thesis using flush_claimed[OF lc r(1) _ r(2,3)] lc by blast
qed

lemma fail_run_ok:
  assumes lc: "lifecycle d" and res: "fail_run i sn e now d = Inr (x, d')"
  shows "lifecycle d'"
proof -
  obtain r j where r: "find_run i d = Some r" "generation_jobs i d = [j]"
    using found(4)[OF lc res] by blast
  have "run_status r = Running" "job_cancel_requested_at j = None"
    using fail_run_spec(1,2)[OF lc r, of sn e now] res by fastforce+
  then show ?thesis using fail_run_spec(3)[OF lc r, of sn e now] res by auto
qed

lemma exec_lifecycle: "lifecycle d \<Longrightarrow> exec h l ev d = Inr d' \<Longrightarrow> lifecycle d'"
proof (cases ev)
  case (RequestCancel i now)
  assume lc: "lifecycle d" and "exec h l ev d = Inr d'"
  then obtain x where res: "request_cancel i now d = Inr (x, d')" using RequestCancel by (auto simp: new_db_Inr)
  then obtain r j where "find_run i d = Some r" "generation_jobs i d = [j]" using found(2)[OF lc] by blast
  then show ?thesis using request_cancel_eq(2)[OF lc _ _ res] by blast
next
  case (CompleteRun i expected now)
  assume lc: "lifecycle d" and "exec h l ev d = Inr d'"
  then have res: "complete_run i expected now d = Inr d'" using CompleteRun by simp
  then obtain r j where "find_run i d = Some r" "generation_jobs i d = [j]" using found(3)[OF lc] by blast
  then show ?thesis using complete_run_eq(2)[OF lc _ _ res] by blast
next
  case (CreateMatrix fs fb now s)
  assume lc: "lifecycle d" and "exec h l ev d = Inr d'"
  then obtain b ids where v: "validate_spec s = Inr ()" and res: "create_matrix l fs fb now s d = Inr ((b, ids), d')"
    using CreateMatrix by (auto simp: new_db_Inr bindE_Inr_iff)
  have "commit_re (spec_commit s)" using v by (auto simp: validate_spec_def Let_def split: if_splits)
  then show ?thesis by (rule create_matrix_ok[OF lc res])
qed (auto simp: new_db_Inr dest: claim_ok cancel_stage_ok cancel_run_ok start_stage_ok complete_stage_ok skip_stage_ok
    fail_stage_ok fail_run_ok create_run_ok retry_run_ok create_batch_ok refresh_batch_ok)

lemma initial_lifecycle: "initial_db d \<Longrightarrow> lifecycle d"
  by (simp add: initial_db_def lifecycle_def)

lemma reachable_inv: "reachable h l d \<Longrightarrow> lifecycle d"
  by (induction rule: reachable.induct) (auto dest: initial_lifecycle exec_lifecycle)

subsection \<open>The abstract machine\<close>

text \<open>A run's state, the attempts it has left, and whether its cancellation was requested.\<close>

record run_view =
  v_status :: status
  v_left :: int
  v_cancel :: bool

definition view_of :: "run \<Rightarrow> job \<Rightarrow> run_view" where
  "view_of r j = \<lparr>v_status = run_status r, v_left = job_max_attempts j - job_attempts j,
     v_cancel = (job_cancel_requested_at j \<noteq> None)\<rparr>"

definition view :: "db \<Rightarrow> uuid \<Rightarrow> run_view option" where
  "view d i = (case (find_run i d, generation_jobs i d) of (Some r, [j]) \<Rightarrow> Some (view_of r j) | _ \<Rightarrow> None)"

definition new_view :: run_view where
  "new_view = \<lparr>v_status = Queued, v_left = 3, v_cancel = False\<rparr>"

inductive run_edge :: "run_view \<Rightarrow> run_view \<Rightarrow> bool" where
  claimed: "0 < n \<Longrightarrow> run_edge \<lparr>v_status = Queued, v_left = n, v_cancel = False\<rparr> \<lparr>v_status = Running, v_left = n - 1, v_cancel = False\<rparr>"
| dropped: "run_edge \<lparr>v_status = Queued, v_left = n, v_cancel = False\<rparr> \<lparr>v_status = Cancelled, v_left = n, v_cancel = True\<rparr>"
| requested: "run_edge \<lparr>v_status = Running, v_left = n, v_cancel = False\<rparr> \<lparr>v_status = Running, v_left = n, v_cancel = True\<rparr>"
| cancelled: "run_edge \<lparr>v_status = Running, v_left = n, v_cancel = c\<rparr> \<lparr>v_status = Cancelled, v_left = n, v_cancel = True\<rparr>"
| succeeded: "run_edge \<lparr>v_status = Running, v_left = n, v_cancel = False\<rparr> \<lparr>v_status = Succeeded, v_left = n, v_cancel = False\<rparr>"
| failed: "run_edge \<lparr>v_status = Running, v_left = n, v_cancel = False\<rparr> \<lparr>v_status = Failed, v_left = n, v_cancel = False\<rparr>"
| requeued: "0 < n \<Longrightarrow> run_edge \<lparr>v_status = Running, v_left = n, v_cancel = False\<rparr> \<lparr>v_status = Queued, v_left = n, v_cancel = False\<rparr>"

text \<open>One transaction: nothing, one step of one run, or new queued runs.\<close>

inductive view_step :: "(uuid \<Rightarrow> run_view option) \<Rightarrow> (uuid \<Rightarrow> run_view option) \<Rightarrow> bool" where
  stutter: "view_step v v"
| move: "v i = Some x \<Longrightarrow> run_edge x y \<Longrightarrow> view_step v (v(i \<mapsto> y))"
| create: "\<forall>i \<in> set ids. v i = None \<Longrightarrow> view_step v (\<lambda>i. if i \<in> set ids then Some new_view else v i)"

lemma view_Some: "find_run i d = Some r \<Longrightarrow> generation_jobs i d = [j] \<Longrightarrow> view d i = Some (view_of r j)"
  by (simp add: view_def)

lemma view_cong:
  "(\<And>i. find_run i d' = find_run i d) \<Longrightarrow> (\<And>i. generation_jobs i d' = generation_jobs i d) \<Longrightarrow> view d' = view d"
  by (simp add: view_def fun_eq_iff)

lemma view_same: "db_runs d' = db_runs d \<Longrightarrow> db_jobs d' = db_jobs d \<Longrightarrow> view d' = view d"
  by (rule view_cong) (simp_all add: find_run_def generation_jobs_def)

lemma view_set_job:
  assumes u: "distinct (map job_id (db_jobs d))" and r: "find_run i d = Some r" and j: "generation_jobs i d = [j0]" "same_job_key j j0"
  shows "view (set_job j d) = (view d)(i \<mapsto> view_of r j)"
  using r by (auto simp: view_def fun_eq_iff generation_jobs_set_job[OF u j])

lemma view_set_job_run:
  assumes u: "distinct (map job_id (db_jobs d))" and r: "find_run i d = Some r0" "run_id r = i"
    and j: "generation_jobs i d = [j0]" "same_job_key j j0"
  shows "view (set_job j (set_run r d)) = (view d)(i \<mapsto> view_of r j)"
proof -
  have "view (set_job j (set_run r d)) = (view (set_run r d))(i \<mapsto> view_of r j)"
    by (rule view_set_job[where ?j0.0 = j0]) (use u r j in \<open>simp_all add: find_run_set_run\<close>)
  moreover have "(view (set_run r d))(i \<mapsto> view_of r j) = (view d)(i \<mapsto> view_of r j)"
    using r by (auto simp: view_def fun_eq_iff find_run_set_run)
  ultimately show ?thesis by simp
qed

text \<open>One run moves along an edge or nothing changes; new queued runs appear.\<close>

definition moves_only :: "uuid \<Rightarrow> (uuid \<Rightarrow> run_view option) \<Rightarrow> (uuid \<Rightarrow> run_view option) \<Rightarrow> bool" where
  "moves_only i v v' \<longleftrightarrow> v' = v \<or> (\<exists>x y. v i = Some x \<and> run_edge x y \<and> v' = v(i \<mapsto> y))"

definition grows :: "(uuid \<Rightarrow> run_view option) \<Rightarrow> (uuid \<Rightarrow> run_view option) \<Rightarrow> bool" where
  "grows v v' \<longleftrightarrow> (\<exists>ids. (\<forall>i \<in> set ids. v i = None) \<and> v' = (\<lambda>i. if i \<in> set ids then Some new_view else v i))"

lemma moves_only_refl [simp]: "moves_only i v v"
  by (simp add: moves_only_def)

lemma grows_refl [simp]: "grows v v"
  unfolding grows_def by (rule exI[of _ "[]"]) simp

lemma moves_only_step: "moves_only i v v' \<Longrightarrow> view_step v v'"
  by (auto simp: moves_only_def intro: stutter move)

lemma grows_step: "grows v v' \<Longrightarrow> view_step v v'"
  by (auto simp: grows_def intro: create)

lemma moves_only_other: "moves_only i v v' \<Longrightarrow> k \<noteq> i \<Longrightarrow> v' k = v k"
  by (auto simp: moves_only_def)

lemma grows_keeps: "grows v v' \<Longrightarrow> v i = Some x \<Longrightarrow> v' i = Some x"
  by (auto simp: grows_def)

lemma edge_step: "view d i = Some x \<Longrightarrow> run_edge x y \<Longrightarrow> view d' = (view d)(i \<mapsto> y) \<Longrightarrow> moves_only i (view d) (view d')"
  by (auto simp: moves_only_def)

lemma lifecycle_jobs_distinct: "lifecycle d \<Longrightarrow> distinct (map job_id (db_jobs d))"
  using wf_pks(5) lifecycle_wf by blast

lemma run_edgeI:
  "x = \<lparr>v_status = a, v_left = n, v_cancel = c\<rparr> \<Longrightarrow> y = \<lparr>v_status = a', v_left = n', v_cancel = c'\<rparr> \<Longrightarrow>
   run_edge \<lparr>v_status = a, v_left = n, v_cancel = c\<rparr> \<lparr>v_status = a', v_left = n', v_cancel = c'\<rparr> \<Longrightarrow> run_edge x y"
  by simp

lemma claim_view:
  assumes lc: "lifecycle d" and res: "claim i clock now d = Inr (x, d')"
  shows "moves_only i (view d) (view d')"
proof -
  obtain r j where r: "find_run i d = Some r" "generation_jobs i d = [j]" "lifecycle_ok r j (stage_rows i d)"
    using found(1)[OF lc res] by blast
  consider "d' = d" | "run_status r = Queued" "d' = claimed_db i now r j d"
    using res unfolding claim_eq[OF lc r(1,2)] by (auto split: status.splits if_splits)
  then show ?thesis
  proof cases
    case 1
    then show ?thesis by simp
  next
    case 2
    have i: "run_id r = i" using find_run_Some[OF r(1)] by simp
    have db: "db_jobs (start_batch now ob d) = db_jobs d" "db_runs (start_batch now ob d) = db_runs d" for ob
      by (simp_all add: start_batch_def split: option.split)
    have "view d' = (view (start_batch now (locked_batch_for_run i d) d))(i \<mapsto> view_of (start_run now r) (start_job now j))"
      unfolding 2(2) claimed_db_def
      by (rule view_set_job_run[where ?j0.0 = j and ?r0.0 = r])
        (use r i lifecycle_jobs_distinct[OF lc] in \<open>simp_all add: db start_run_def start_job_def same_job_key_def\<close>)
    then have v: "view d' = (view d)(i \<mapsto> view_of (start_run now r) (start_job now j))"
      using view_same[OF db(2,1)] by simp
    have "run_edge (view_of r j) (view_of (start_run now r) (start_job now j))"
      using r(3) 2(1) run_edge.claimed[of "job_max_attempts j - job_attempts j"]
      by (simp add: view_of_def start_run_def start_job_def lifecycle_ok_def algebra_simps)
    then show ?thesis using view_Some[OF r(1,2)] v by (intro edge_step)
  qed
qed

lemma view_of_cancelled:
  "job_cancel_requested_at j \<noteq> None \<Longrightarrow> view_of (cancel_run_row sn now r) (cancel_job_row sn now j) =
     \<lparr>v_status = Cancelled, v_left = job_max_attempts j - job_attempts j, v_cancel = True\<rparr>"
  by (simp add: view_of_def)

lemma request_cancel_view:
  assumes lc: "lifecycle d" and res: "request_cancel i now d = Inr (x, d')"
  shows "moves_only i (view d) (view d')"
proof -
  obtain r j where r: "find_run i d = Some r" "generation_jobs i d = [j]" "lifecycle_ok r j (stage_rows i d)"
    using found(2)[OF lc res] by blast
  have i: "run_id r = i" using find_run_Some[OF r(1)] by simp
  let ?j = "j\<lparr>job_cancel_requested_at := Some now\<rparr>"
  have key: "same_job_key ?j j" by (simp add: same_job_key_def)
  consider "d' = d"
    | "run_status r = Queued" "d' = set_job (cancel_job_row (Some ''queued'') now ?j) (set_run (cancel_run_row (Some ''queued'') now r) d)"
    | "run_status r = Running" "job_cancel_requested_at j = None" "d' = set_job ?j d"
    using res r(3) unfolding request_cancel_eq(1)[OF lc r(1,2)]
    by (cases "run_status r") (auto simp: Let_def terminal_def lifecycle_ok_def split: if_splits)
  then show ?thesis
  proof cases
    case 1
    then show ?thesis by simp
  next
    case 2
    have v: "view d' = (view d)(i \<mapsto> view_of (cancel_run_row (Some ''queued'') now r) (cancel_job_row (Some ''queued'') now ?j))"
      unfolding 2(2) by (rule view_set_job_run[OF lifecycle_jobs_distinct[OF lc] r(1) _ r(2)]) (simp_all add: i same_job_key_def)
    have "run_edge (view_of r j) (view_of (cancel_run_row (Some ''queued'') now r) (cancel_job_row (Some ''queued'') now ?j))"
      using r(3) 2(1) run_edge.dropped by (simp add: view_of_cancelled) (simp add: view_of_def lifecycle_ok_def)
    then show ?thesis using view_Some[OF r(1,2)] v by (intro edge_step)
  next
    case 3
    have v: "view d' = (view d)(i \<mapsto> view_of r ?j)"
      unfolding 3(3) by (rule view_set_job[OF lifecycle_jobs_distinct[OF lc] r(1,2) key])
    have "run_edge (view_of r j) (view_of r ?j)" using 3 run_edge.requested by (simp add: view_of_def)
    then show ?thesis using view_Some[OF r(1,2)] v by (intro edge_step)
  qed
qed

lemma cancel_run_view:
  assumes lc: "lifecycle d" and res: "cancel_run i sn now d = Inr d'"
  shows "moves_only i (view d) (view d')"
proof -
  obtain r where r: "find_run i d = Some r" "get_run i d = Inr r"
    using res by (auto simp: cancel_run_def bindE_Inr_iff get_run_Inr)
  obtain j where j: "generation_jobs i d = [j]" "lifecycle_ok r j (stage_rows i d)" "get_job r d = Inr j" "run_id r = i"
    using lifecycle_run[OF lc r(1)] by metis
  let ?j = "if job_cancel_requested_at j = None then j\<lparr>job_cancel_requested_at := Some now\<rparr> else j"
  let ?d = "set_job (cancel_job_row sn now ?j) (set_run (cancel_run_row sn now r) d)"
  consider "d' = d" | "run_status r = Running" "flush d ?d = Inr d'"
    using res unfolding cancel_run_def r(2) j(3) bindE.simps Let_def by (auto split: if_splits)
  then show ?thesis
  proof cases
    case 1
    then show ?thesis by simp
  next
    case 2
    have "d' = ?d" using flush_wf[OF 2(2)] by blast
    then have v: "view d' = (view d)(i \<mapsto> view_of (cancel_run_row sn now r) (cancel_job_row sn now ?j))"
      using view_set_job_run[OF lifecycle_jobs_distinct[OF lc] r(1) _ j(1), of "cancel_run_row sn now r" "cancel_job_row sn now ?j"]
      by (simp add: j(4) same_job_key_def)
    have "run_edge (view_of r j) (view_of (cancel_run_row sn now r) (cancel_job_row sn now ?j))"
      using 2(1) run_edge.cancelled by (simp add: view_of_cancelled) (simp add: view_of_def)
    then show ?thesis using view_Some[OF r(1) j(1)] v by (intro edge_step)
  qed
qed

lemma complete_run_view:
  assumes lc: "lifecycle d" and res: "complete_run i expected now d = Inr d'"
  shows "moves_only i (view d) (view d')"
proof -
  obtain r j where r: "find_run i d = Some r" "generation_jobs i d = [j]"
    using found(3)[OF lc res] by blast
  have i: "run_id r = i" using find_run_Some[OF r(1)] by simp
  have c: "run_status r = Running" "job_cancel_requested_at j = None" "d' = completed_db now r j d"
    using res unfolding complete_run_eq(1)[OF lc r] by (auto split: if_splits)
  let ?r = "r\<lparr>run_status := Succeeded, run_finished_at := Some now\<rparr>" and ?j = "j\<lparr>job_status := Succeeded,
     job_finished_at := Some now, job_error_class := None, job_error_code := None, job_error := None\<rparr>"
  have v: "view d' = (view d)(i \<mapsto> view_of ?r ?j)"
    unfolding c(3) completed_db_def
    by (rule view_set_job_run[OF lifecycle_jobs_distinct[OF lc] r(1) _ r(2)]) (simp_all add: i same_job_key_def)
  have "run_edge (view_of r j) (view_of ?r ?j)" using c(1,2) run_edge.succeeded by (simp add: view_of_def)
  then show ?thesis using view_Some[OF r] v by (intro edge_step)
qed

lemma fail_run_view:
  assumes lc: "lifecycle d" and res: "fail_run i sn e now d = Inr (x, d')"
  shows "moves_only i (view d) (view d')"
proof -
  obtain r j where r: "find_run i d = Some r" "generation_jobs i d = [j]"
    using found(4)[OF lc res] by blast
  have i: "run_id r = i" using find_run_Some[OF r(1)] by simp
  have st: "run_status r = Running" "job_cancel_requested_at j = None"
    using fail_run_spec(1,2)[OF lc r, of sn e now] res by fastforce+
  let ?retry = "retryable_failure e j (stage_rows i d)"
  obtain r1 j1 where n: "d' = set_job j1 (set_run r1 d)" "same_run_core r1 r" "same_job_key j1 j"
    "run_status r1 = (if ?retry then Queued else Failed)" "job_attempts j1 = job_attempts j"
    "job_max_attempts j1 = job_max_attempts j" "job_cancel_requested_at j1 = None"
    using fail_run_spec(3)[OF lc r st, of sn e now] res by auto
  have v: "view d' = (view d)(i \<mapsto> view_of r1 j1)"
    unfolding n(1) by (rule view_set_job_run[OF lifecycle_jobs_distinct[OF lc] r(1) _ r(2)])
      (use n i in \<open>simp_all add: same_run_core_def same_run_refs_def\<close>)
  have "run_edge (view_of r j) (view_of r1 j1)"
    using st n(4-7) run_edge.failed run_edge.requeued by (simp add: view_of_def retryable_failure_def)
  then show ?thesis using view_Some[OF r] v by (intro edge_step)
qed

lemma add_runs_view:
  assumes lc: "lifecycle d" and wf: "wf_db d'"
    and new: "db_runs d' = db_runs d @ rs" "db_jobs d' = db_jobs d @ js" "list_all2 fresh_pair rs js"
    and three: "\<forall>j \<in> set js. job_attempts j = 0 \<and> job_max_attempts j = 3"
  shows "grows (view d) (view d')"
proof -
  have wf0: "wf_db d" using lc by (rule lifecycle_wf)
  have dist: "distinct (map run_id rs)" "\<And>i. i \<in> set (map run_id rs) \<Longrightarrow> i \<notin> set (map run_id (db_runs d))"
    using wf_pks(4)[OF wf] by (auto simp: new(1))
  have none: "find_run i d = None" if "i \<in> set (map run_id rs)" for i
    using dist(2)[OF that] by (simp add: find_run_def lookup_None)
  have v: "view d' i = (if i \<in> set (map run_id rs) then Some new_view else view d i)" for i
  proof (cases "i \<in> set (map run_id rs)")
    case True
    then obtain r where r: "r \<in> set rs" "run_id r = i" by auto
    obtain j where j: "filter (\<lambda>j. job_run_id j = Some (run_id r) \<and> job_type j = GENERATION_JOB_TYPE) js = [j]" "fresh_pair r j"
      using fresh_pair_jobs[OF new(3) dist(1) r(1)] by blast
    have "job_run_id q \<noteq> Some i" if "q \<in> set (db_jobs d)" for q
      using wf_fks(2)[OF wf0 that] dist(2)[OF True] unfolding job_fk_def by (metis opt_ok_simps(2))
    then have g: "generation_jobs i d' = [j]" using j(1) r(2) by (auto simp: generation_jobs_def new(2) filter_empty_conv)
    have "find_run i d' = Some r" using find_run_iff[OF wf, of i r] r by (simp add: new(1))
    moreover have "j \<in> set (filter (\<lambda>j. job_run_id j = Some (run_id r) \<and> job_type j = GENERATION_JOB_TYPE) js)"
      using j(1) by simp
    then have "j \<in> set js" by simp
    moreover have "run_status r = Queued" "job_cancel_requested_at j = None"
      using j(2) by (auto simp: fresh_pair_def lifecycle_ok_def)
    ultimately show ?thesis using True g three by (simp add: view_Some view_of_def new_view_def)
  next
    case False
    then have "generation_jobs i d' = generation_jobs i d"
      using fresh_pair_none[OF new(3)] by (simp add: generation_jobs_def new(2))
    moreover have "find_run i d' = find_run i d"
    proof -
      have "lookup run_id i rs = None" using False by (simp add: lookup_None)
      then show ?thesis by (simp add: find_run_def new(1) lookup_append split: option.split)
    qed
    ultimately show ?thesis using False by (simp add: view_def)
  qed
  have "view d' = (\<lambda>i. if i \<in> set (map run_id rs) then Some new_view else view d i)"
    by (rule ext) (rule v)
  moreover have "grows (view d) (\<lambda>i. if i \<in> set (map run_id rs) then Some new_view else view d i)"
    using none unfolding grows_def by (intro exI[of _ "map run_id rs"]) (simp add: view_def)
  ultimately show ?thesis by simp
qed

lemma enqueue_view:
  assumes lc: "lifecycle d" and res: "enqueue_run fj fo now r d = Inr d'" and p: "fresh_pair r (generation_job fj r)"
  shows "grows (view d) (view d')"
proof -
  note d' = enqueue_run_Inr[OF res]
  show ?thesis
    by (rule add_runs_view[OF lc conjunct1[OF d'], of "[r]" "[generation_job fj r]"])
      (use p in \<open>simp_all add: conjunct2[OF d'] add_outbox_def add_job_def add_run_def generation_job_def\<close>)
qed

lemma create_run_view:
  assumes lc: "lifecycle d" and res: "create_run lims f now p q d = Inr (i, d')"
  shows "grows (view d) (view d')"
proof -
  obtain x :: project and config versions where e: "commit_re (rq_commit q)"
    "enqueue_run (fresh_job f) (fresh_message f) now (new_run (fresh_run f) p None (rq_mode q) (rq_seed q)
       (project_working_srid x) config (rq_schema q) (Some (rq_commit q)) now versions) d = Inr d'"
    using create_run_Inr[OF res] by blast
  show ?thesis by (rule enqueue_view[OF lc e(2) new_run_pair]) (simp add: e(1))
qed

lemma retry_run_view:
  assumes lc: "lifecycle d" and res: "retry_run lims f now p i d = Inr (i', d')"
  shows "grows (view d) (view d')"
proof (cases "d' = d")
  case False
  then obtain x :: project and src :: run where "replay_run lims f now x src d = Inr (i', d')"
    using res by (auto simp: retry_run_def bindE_Inr_iff split: if_splits option.splits)
  then obtain config versions where e: "case run_commit_sha src of None \<Rightarrow> False | Some c \<Rightarrow> commit_re c"
    "enqueue_run (fresh_job f) (fresh_message f) now
          (new_run (fresh_run f) (project_id x) (Some (run_id src)) (run_mode src) (run_seed src) (run_working_srid src)
             config (run_schema_version src) (run_commit_sha src) now versions) d = Inr d'"
    by (auto simp: replay_run_def bindE_Inr_iff split: if_splits)
  show ?thesis by (rule enqueue_view[OF lc e(2) new_run_pair[OF e(1)]])
qed simp

lemma seal_view: "seal fresh now p ids limit d = Inr (b, d') \<Longrightarrow> view d' = view d"
  by (drule seal_Inr) (auto simp: sealed_db_def intro!: view_same)

lemma create_matrix_view:
  assumes lc: "lifecycle d" and res: "create_matrix lims fresh fb now s d = Inr ((b, ids), d')" and c: "commit_re (spec_commit s)"
  shows "grows (view d) (view d')"
proof -
  obtain x rs where m: "matrix_runs fresh now s x (ready_versions (spec_project s) (sort (spec_versions s)) d) (expand_scenario_matrix s) = Inr rs"
    "wf_db (add_rows rs (matrix_jobs fresh rs) (matrix_messages fresh now rs) d)"
    "seal fb now (spec_project s) ids (spec_limit s) (add_rows rs (matrix_jobs fresh rs) (matrix_messages fresh now rs) d) = Inr (b, d')"
    using create_matrix_Inr[OF res c] by blast
  have "list_all (\<lambda>r. run_status r = Queued \<and> has_commit r) rs"
    using matrix_runs_queued[OF m(1) c] by (simp add: list_all_iff)
  then have "list_all2 fresh_pair rs (matrix_jobs fresh rs)" unfolding matrix_jobs_def by (rule matrix_pairs)
  then have "grows (view d) (view (add_rows rs (matrix_jobs fresh rs) (matrix_messages fresh now rs) d))"
    by (rule add_runs_view[OF lc m(2), rotated 2])
      (auto simp: add_rows_def matrix_jobs_def generation_job_def)
  then show ?thesis using seal_view[OF m(3)] by simp
qed

lemma refresh_batch_view: "refresh_batch i now d = Inr (snap, d') \<Longrightarrow> view d' = view d"
  by (auto simp: refresh_batch_def Let_def bindE_Inr_iff split: option.splits dest!: flush_wf intro!: view_same)

lemma stage_ops_view:
  assumes lc: "lifecycle d"
  shows "start_stage f i x now d = Inr d' \<Longrightarrow> view d' = view d"
    and "complete_stage i n res now d = Inr d' \<Longrightarrow> view d' = view d"
    and "skip_stage h f i s reason blocked now d = Inr d' \<Longrightarrow> view d' = view d"
    and "fail_stage i n now d = Inr d' \<Longrightarrow> view d' = view d"
    and "cancel_stage i n now d = Inr d' \<Longrightarrow> view d' = view d"
proof -
  show "start_stage f i x now d = Inr d' \<Longrightarrow> view d' = view d" by (drule start_stage_ok[OF lc]) (auto intro!: view_same)
  show "complete_stage i n res now d = Inr d' \<Longrightarrow> view d' = view d" by (drule complete_stage_ok[OF lc]) (auto intro!: view_same)
  show "skip_stage h f i s reason blocked now d = Inr d' \<Longrightarrow> view d' = view d"
    by (drule skip_stage_ok[OF lc]) (auto intro!: view_same)
  show "fail_stage i n now d = Inr d' \<Longrightarrow> view d' = view d"
    by (auto simp: fail_stage_def bindE_Inr_iff split: if_splits option.splits dest!: flush_wf intro!: view_same)
  show "cancel_stage i n now d = Inr d' \<Longrightarrow> view d' = view d"
    by (auto simp: cancel_stage_def bindE_Inr_iff split: if_splits option.splits dest!: flush_wf intro!: view_same)
qed

lemma create_batch_view: "create_batch f now p ids limit d = Inr (b, d') \<Longrightarrow> view d' = view d"
  by (auto simp: create_batch_def Let_def split: if_splits intro: seal_view)

lemma exec_view: "lifecycle d \<Longrightarrow> exec h l ev d = Inr d' \<Longrightarrow> view_step (view d) (view d')"
proof (cases ev)
  case (CreateMatrix fs fb now s)
  assume lc: "lifecycle d" and "exec h l ev d = Inr d'"
  then obtain b ids where v: "validate_spec s = Inr ()" and res: "create_matrix l fs fb now s d = Inr ((b, ids), d')"
    using CreateMatrix by (auto simp: new_db_Inr bindE_Inr_iff)
  have "commit_re (spec_commit s)" using v by (auto simp: validate_spec_def Let_def split: if_splits)
  then show ?thesis by (rule grows_step[OF create_matrix_view[OF lc res]])
qed (auto simp: new_db_Inr stage_ops_view refresh_batch_view create_batch_view intro: stutter moves_only_step grows_step
    dest: claim_view request_cancel_view cancel_run_view complete_run_view fail_run_view create_run_view retry_run_view)

subsection \<open>Frames\<close>

text \<open>The transactions that only the worker of run \<open>i\<close> issues.\<close>

fun worker_event :: "uuid \<Rightarrow> event \<Rightarrow> bool" where
  "worker_event i (CancelStage k n now) \<longleftrightarrow> k = i"
| "worker_event i (CancelRun k sn now) \<longleftrightarrow> k = i"
| "worker_event i (StartStage f k x now) \<longleftrightarrow> k = i"
| "worker_event i (CompleteStage k n res now) \<longleftrightarrow> k = i"
| "worker_event i (SkipStage f k s reason blocked now) \<longleftrightarrow> k = i"
| "worker_event i (FailStage k n now) \<longleftrightarrow> k = i"
| "worker_event i (CompleteRun k expected now) \<longleftrightarrow> k = i"
| "worker_event i (FailRun k sn e now) \<longleftrightarrow> k = i"
| "worker_event i _ \<longleftrightarrow> False"

text \<open>Whatever others commit, a running run stays running.\<close>

lemma exec_foreign_running:
  assumes lc: "lifecycle d" and ex: "exec h l ev d = Inr d'" and f: "\<not> worker_event i ev"
    and v: "view d i = Some x" "v_status x = Running"
  shows "\<exists>y. view d' i = Some y \<and> v_status y = Running"
proof -
  have other: "moves_only k (view d) (view d') \<Longrightarrow> k \<noteq> i \<Longrightarrow> \<exists>y. view d' i = Some y \<and> v_status y = Running" for k
    using moves_only_other[of k "view d" "view d'" i] v by simp
  have grow: "grows (view d) (view d') \<Longrightarrow> \<exists>y. view d' i = Some y \<and> v_status y = Running"
    using grows_keeps v by blast
  show ?thesis
  proof (cases ev)
    case (Claim k clock now)
    then obtain c where c: "claim k clock now d = Inr (c, d')" using ex by (auto simp: new_db_Inr)
    show ?thesis
    proof (cases "k = i")
      case True
      obtain r j where r: "find_run i d = Some r" "generation_jobs i d = [j]" using found(1)[OF lc c] True by blast
      then have "run_status r = Running" using v view_Some[OF r] by (auto simp: view_of_def)
      then have "d' = d" using c unfolding True claim_eq[OF lc r] by simp
      then show ?thesis using v by simp
    qed (use other[OF claim_view[OF lc c]] in simp)
  next
    case (RequestCancel k now)
    then obtain c where c: "request_cancel k now d = Inr (c, d')" using ex by (auto simp: new_db_Inr)
    show ?thesis
    proof (cases "k = i")
      case True
      obtain r j where r: "find_run i d = Some r" "generation_jobs i d = [j]" using found(2)[OF lc c] True by blast
      then have "run_status r = Running" using v view_Some[OF r] by (auto simp: view_of_def)
      then have "d' = d \<or> d' = set_job (j\<lparr>job_cancel_requested_at := Some now\<rparr>) d"
        using c unfolding True request_cancel_eq(1)[OF lc r] by (auto simp: Let_def split: if_splits)
      moreover have "view (set_job (j\<lparr>job_cancel_requested_at := Some now\<rparr>) d) i = Some (view_of r (j\<lparr>job_cancel_requested_at := Some now\<rparr>))"
        using view_set_job[OF lifecycle_jobs_distinct[OF lc] r, of "j\<lparr>job_cancel_requested_at := Some now\<rparr>"]
        by (simp add: same_job_key_def)
      ultimately show ?thesis using v \<open>run_status r = Running\<close> by (auto simp: view_of_def)
    qed (use other[OF request_cancel_view[OF lc c]] in simp)
  next
    case (CreateMatrix fs fb now s)
    then obtain b ids where s: "validate_spec s = Inr ()" and res: "create_matrix l fs fb now s d = Inr ((b, ids), d')"
      using ex by (auto simp: new_db_Inr bindE_Inr_iff)
    have "commit_re (spec_commit s)" using s by (auto simp: validate_spec_def Let_def split: if_splits)
    then show ?thesis using create_matrix_view[OF lc res] grow by blast
  qed (use ex f v in \<open>auto simp: new_db_Inr stage_ops_view[OF lc] refresh_batch_view create_batch_view
      intro: other[OF cancel_run_view[OF lc]] other[OF complete_run_view[OF lc]] other[OF fail_run_view[OF lc]]
        grow[OF create_run_view[OF lc]] grow[OF retry_run_view[OF lc]]\<close>)
qed

end
