(* ===== verification/Lifecycle_Props.thy ===== *)
theory Lifecycle_Props
  imports Lifecycle
begin

text \<open>
  What the lifecycle guarantees: the invariant on every reachable database, the refinement of the
  abstract machine, and its consequences for terminal runs, requested cancellations, retries and
  batches; the exact results of the claim, completion and failure transactions.
\<close>

subsection \<open>Later databases\<close>

inductive later :: "(bytes \<Rightarrow> string) \<Rightarrow> admission_limits \<Rightarrow> db \<Rightarrow> db \<Rightarrow> bool" for h l d where
  now: "later h l d d"
| then_exec: "later h l d d' \<Longrightarrow> exec h l ev d' = Inr d'' \<Longrightarrow> later h l d d''"

lemma later_lifecycle: "later h l d d' \<Longrightarrow> lifecycle d \<Longrightarrow> lifecycle d'"
  by (induction rule: later.induct) (auto intro: exec_lifecycle)

lemma run_edge_not_terminal: "run_edge x y \<Longrightarrow> \<not> terminal (v_status x)"
  by (induction rule: run_edge.induct) (auto simp: terminal_def)

lemma view_step_cases:
  assumes "view_step v v'" "v i = Some x"
  shows "v' i = Some x \<or> (\<exists>y. run_edge x y \<and> v' i = Some y)"
  using assms by (cases rule: view_step.cases) (auto split: if_splits)

lemma later_keeps:
  assumes "later h l d d'" "lifecycle d" "view d i = Some x" "P x"
    and closed: "\<And>x y. P x \<Longrightarrow> run_edge x y \<Longrightarrow> P y"
  shows "\<exists>y. view d' i = Some y \<and> P y"
  using assms(1)
proof (induction rule: later.induct)
  case now
  show ?case using assms(3,4) by blast
next
  case (then_exec d' ev d'')
  then obtain y where y: "view d' i = Some y" "P y" by blast
  have "view_step (view d') (view d'')"
    using exec_view[OF later_lifecycle[OF then_exec.hyps(1) assms(2)] then_exec.hyps(2)] .
  then show ?case using view_step_cases[of "view d'" "view d''" i y] y closed by blast
qed

lemma lifecycle_view:
  assumes "lifecycle d" "find_run i d = Some r"
  shows "\<exists>j. generation_jobs i d = [j] \<and> view d i = Some (view_of r j)"
  using lifecycle_run[OF assms] view_Some[OF assms(2)] by metis

lemma view_status: "view d i = Some y \<Longrightarrow> run_status_of i d = Some (v_status y)"
  by (auto simp: view_def run_status_of_def view_of_def split: option.splits list.splits)

subsection \<open>Demonstration database\<close>

definition demo_version :: dataset_version where
  "demo_version = \<lparr>version_id = 5, version_dataset_id = 4, version_number = 1, version_checksum = None,
     version_status = ''ready'', version_metadata = []\<rparr>"

definition demo_db0 :: db where
  "demo_db0 = empty_db\<lparr>db_projects := [demo_project],
     db_datasets := [\<lparr>dataset_id = 4, dataset_project_id = 1, dataset_kind = ''roads''\<rparr>], db_versions := [demo_version]\<rparr>"

definition demo_request :: run_request where
  "demo_request = \<lparr>rq_mode = ''EXPANSION'', rq_seed = 7, rq_versions = [5], rq_config = [(''b'', JInt 1), (''a'', JBool True)],
     rq_schema = ''v1'', rq_commit = replicate 40 CHR ''a''\<rparr>"

definition demo_fresh :: fresh_ids where
  "demo_fresh = \<lparr>fresh_run = 10, fresh_job = 11, fresh_message = 12\<rparr>"

definition wide_limits :: admission_limits where
  "wide_limits = \<lparr>lim_project = 20, lim_generation = 20, lim_ingest = 10, lim_export = 10\<rparr>"

definition demo_new_run :: run where
  "demo_new_run = new_run 10 1 None ''EXPANSION'' 7 32637 (JObj [(''a'', JBool True), (''b'', JInt 1)]) ''v1''
     (Some (replicate 40 CHR ''a'')) 100 [demo_version]"

definition demo_queued_db :: db where
  "demo_queued_db = add_outbox (generation_message 12 11 100 demo_new_run) (add_job (generation_job 11 demo_new_run) (add_run demo_new_run demo_db0))"

lemma demo_initial: "initial_db demo_db0"
  unfolding initial_db_def wf_db_def by code_simp

lemma demo_create: "create_run wide_limits demo_fresh 100 1 demo_request demo_db0 = Inr (10, demo_queued_db)"
  by code_simp

lemma demo_queued_reachable: "reachable h wide_limits demo_queued_db"
proof (rule reachable.step[OF reachable.initial[OF demo_initial]])
  show "exec h wide_limits (CreateRun demo_fresh 100 1 demo_request) demo_db0 = Inr demo_queued_db"
    by (simp add: demo_create new_db_def)
qed

definition demo_running_db :: db where
  "demo_running_db = claimed_db 10 210 demo_new_run (generation_job 11 demo_new_run) demo_queued_db"

lemma demo_find: "find_run 10 demo_queued_db = Some demo_new_run"
  "generation_jobs 10 demo_queued_db = [generation_job 11 demo_new_run]"
  by code_simp+

lemma demo_claim: "claim 10 200 210 demo_queued_db = Inr (STARTED, demo_running_db)"
proof -
  have "backoff_left 200 (generation_job 11 demo_new_run) = 0" "\<not> batch_full 10 demo_queued_db" "run_status demo_new_run = Queued"
    by code_simp+
  then show ?thesis using claim_eq[OF reachable_inv[OF demo_queued_reachable] demo_find, of 200 210]
    by (simp add: demo_running_db_def)
qed

lemma demo_claim_exec: "exec h wide_limits (Claim 10 200 210) demo_queued_db = Inr demo_running_db"
  by (simp add: demo_claim new_db_def)

lemma demo_running_reachable: "reachable h wide_limits demo_running_db"
  by (rule reachable.step[OF demo_queued_reachable demo_claim_exec])

subsection \<open>The invariant and the refinement\<close>

text \<open>
  C1. On every reachable database each run has exactly one generation job, of its project and in
  its state: queued with attempts left, no stage rows and no cancellation; running after at least
  one attempt; succeeded only with all stage rows done; failed only without, and cancelled only
  with, a cancellation request. Every batch is sealed over 3-10 children, runs at most its limit
  of them at once, and is terminal only when all of them are. The transactions are serial.
\<close>

theorem reachable_lifecycle:
  assumes "reachable hexdigest limits d"
  shows "wf_db d \<and>
     (\<forall>i r. find_run i d = Some r \<longrightarrow>
        (\<exists>j. generation_jobs i d = [j] \<and> lifecycle_ok r j (stage_rows i d))) \<and>
     (\<forall>i b. find_batch i d = Some b \<longrightarrow> batch_status b \<noteq> BDraft \<and> sealed b d \<and>
        int (running_children i d) \<le> batch_limit b \<and>
        (batch_terminal (batch_status b) \<longrightarrow> list_all terminal (child_statuses i d)))"
proof -
  have lc: "lifecycle d" using assms by (rule reachable_inv)
  have "\<exists>j. generation_jobs i d = [j] \<and> lifecycle_ok r j (stage_rows i d)" if "find_run i d = Some r" for i r
    using lifecycle_run[OF lc that] by metis
  moreover have "batch_ok d b \<and> batch_id b = i" if "find_batch i d = Some b" for i b
    using lifecycle_batch[OF lc that] .
  ultimately show ?thesis using lifecycle_wf[OF lc] unfolding batch_ok_def by blast
qed

theorem reachable_lifecycle_witness:
  "\<exists>j. generation_jobs 10 demo_running_db = [j] \<and> job_status j = Running"
proof -
  have r: "find_run 10 demo_running_db = Some (start_run 210 demo_new_run)" by code_simp
  obtain j where "generation_jobs 10 demo_running_db = [j]" "lifecycle_ok (start_run 210 demo_new_run) j (stage_rows 10 demo_running_db)"
    using reachable_lifecycle[OF demo_running_reachable] r by blast
  then show ?thesis by (simp add: lifecycle_ok_def start_run_def)
qed

text \<open>
  C3. Refinement: on a reachable database every transaction that commits is, on the runs' states,
  attempts left and cancellation flags, one step of the abstract machine: nothing, one permitted
  edge of one run, or new queued runs with three attempts.
\<close>

theorem transactions_refine_run_machine:
  assumes "reachable hexdigest limits d" and "exec hexdigest limits ev d = Inr d'"
  shows "view_step (view d) (view d')"
  using exec_view[OF reachable_inv[OF assms(1)] assms(2)] .

theorem transactions_refine_run_machine_witness:
  "view_step (view demo_queued_db) (view demo_running_db) \<and> view demo_queued_db 10 = Some new_view"
proof
  show "view_step (view demo_queued_db) (view demo_running_db)"
    using transactions_refine_run_machine[OF demo_queued_reachable demo_claim_exec] .
  show "view demo_queued_db 10 = Some new_view" by code_simp
qed

text \<open>
  C5. Succeeded, failed and cancelled are final: whatever transactions commit afterwards, a run
  that reached one of them keeps its state, its attempts and its cancellation flag.
\<close>

theorem terminal_runs_stay:
  assumes "reachable hexdigest limits d" and "later hexdigest limits d d'"
    and "find_run i d = Some r" and "terminal (run_status r)"
  shows "view d i \<noteq> None \<and> view d' i = view d i"
proof -
  have lc: "lifecycle d" using assms(1) by (rule reachable_inv)
  obtain j where v: "view d i = Some (view_of r j)" using lifecycle_view[OF lc assms(3)] by blast
  have "terminal (v_status (view_of r j))" using assms(4) by (simp add: view_of_def)
  then have "\<exists>y. view d' i = Some y \<and> y = view_of r j"
    using run_edge_not_terminal by (intro later_keeps[OF assms(2) lc v]) blast+
  with v show ?thesis by simp
qed

text \<open>
  C4. A cancellation is never lost: once the cancellation of a running run is requested, the run
  can only stay running or become cancelled; no later transaction lets it succeed, fail or requeue.
\<close>

theorem requested_cancellation_wins:
  assumes "reachable hexdigest limits d" and "find_run i d = Some r" and "run_status r = Running"
    and "request_cancel i now d = Inr (x, d1)" and "later hexdigest limits d1 d'"
  shows "run_status_of i d' \<in> {Some Running, Some Cancelled} \<and>
     (\<forall>j. generation_jobs i d' = [j] \<longrightarrow> job_cancel_requested_at j \<noteq> None)"
proof -
  have lc: "lifecycle d" using assms(1) by (rule reachable_inv)
  obtain j where j: "generation_jobs i d = [j]" "view d i = Some (view_of r j)" using lifecycle_view[OF lc assms(2)] by blast
  have lc1: "lifecycle d1" using request_cancel_eq(2)[OF lc assms(2) j(1) assms(4)] .
  let ?j = "j\<lparr>job_cancel_requested_at := Some now\<rparr>"
  have d1: "d1 = d \<and> job_cancel_requested_at j \<noteq> None \<or> d1 = set_job ?j d"
    using assms(3,4) unfolding request_cancel_eq(1)[OF lc assms(2) j(1)] by (auto simp: Let_def terminal_def split: if_splits)
  let ?P = "\<lambda>x. v_cancel x \<and> v_status x \<in> {Running, Cancelled}"
  have "\<exists>x. view d1 i = Some x \<and> ?P x"
    using d1
  proof
    assume "d1 = d \<and> job_cancel_requested_at j \<noteq> None"
    then show ?thesis using j(2) assms(3) by (auto simp: view_of_def)
  next
    assume "d1 = set_job ?j d"
    moreover have "view (set_job ?j d) = (view d)(i \<mapsto> view_of r ?j)"
      by (rule view_set_job[OF lifecycle_jobs_distinct[OF lc] assms(2) j(1)]) (simp add: same_job_key_def)
    ultimately show ?thesis using assms(3) by (simp add: view_of_def)
  qed
  then obtain y where "view d1 i = Some y" "?P y" by blast
  then have "\<exists>z. view d' i = Some z \<and> ?P z"
    by (rule later_keeps[OF assms(5) lc1]) (auto elim: run_edge.cases)
  then obtain z where z: "view d' i = Some z" "?P z" by blast
  then show ?thesis using view_status[OF z(1)]
    by (auto simp: view_def view_of_def split: option.splits list.splits)
qed

theorem terminal_runs_stay_witness:
  "\<exists>d d'. later (\<lambda>_. []) wide_limits d d' \<and> view d 10 \<noteq> None \<and> view d' 10 = view d 10 \<and>
     run_status_of 10 d = Some Cancelled"
proof -
  let ?d = "set_job (cancel_job_row (Some ''queued'') 150 ((generation_job 11 demo_new_run)\<lparr>job_cancel_requested_at := Some 150\<rparr>))
      (set_run (cancel_run_row (Some ''queued'') 150 demo_new_run) demo_queued_db)"
  have c: "request_cancel 10 150 demo_queued_db = Inr (True, ?d)"
    unfolding request_cancel_eq(1)[OF reachable_inv[OF demo_queued_reachable] demo_find]
    by (simp add: demo_new_run_def new_run_def terminal_def generation_job_def)
  then have reach: "reachable (\<lambda>_. []) wide_limits ?d"
    by (intro reachable.step[OF demo_queued_reachable, of _ "RequestCancel 10 150"]) (simp add: new_db_def)
  have r: "find_run 10 ?d = Some (cancel_run_row (Some ''queued'') 150 demo_new_run)" by code_simp
  have "view ?d 10 \<noteq> None \<and> view ?d 10 = view ?d 10"
    by (rule terminal_runs_stay[OF reach later.now r]) (simp add: terminal_def)
  moreover have "run_status_of 10 ?d = Some Cancelled" using r by (simp add: run_status_of_def)
  ultimately show ?thesis using later.now by blast
qed

theorem requested_cancellation_wins_witness:
  "\<exists>x d1. request_cancel 10 300 demo_running_db = Inr (x, d1) \<and> run_status_of 10 d1 \<in> {Some Running, Some Cancelled}"
proof -
  have r: "find_run 10 demo_running_db = Some (start_run 210 demo_new_run)" "run_status (start_run 210 demo_new_run) = Running"
    by code_simp+
  have j: "generation_jobs 10 demo_running_db = [start_job 210 (generation_job 11 demo_new_run)]" by code_simp
  have "\<exists>x d1. request_cancel 10 300 demo_running_db = Inr (x, d1)"
    unfolding request_cancel_eq(1)[OF reachable_inv[OF demo_running_reachable] r(1) j] Let_def
    by (cases "terminal (run_status (start_run 210 demo_new_run)) \<or>
        job_cancel_requested_at (start_job 210 (generation_job 11 demo_new_run)) \<noteq> None") auto
  then show ?thesis using requested_cancellation_wins[OF demo_running_reachable r _ later.now] by blast
qed

subsection \<open>Runs make finitely many moves\<close>

definition fuel :: "run_view \<Rightarrow> nat" where
  "fuel x = (if v_status x = Queued then 2 * nat (v_left x) + 1
     else if v_status x = Running then (if v_cancel x then 1 else 2 * nat (v_left x) + 2) else 0)"

lemma run_edge_fuel: "run_edge x y \<Longrightarrow> fuel y < fuel x"
  by (induction rule: run_edge.induct) (auto simp: fuel_def nat_diff_distrib)

text \<open>The databases of an execution, one per committed transaction.\<close>

fun trace :: "(bytes \<Rightarrow> string) \<Rightarrow> admission_limits \<Rightarrow> db list \<Rightarrow> bool" where
  "trace h l (d # d' # ds) \<longleftrightarrow> (\<exists>ev. exec h l ev d = Inr d') \<and> trace h l (d' # ds)"
| "trace h l _ \<longleftrightarrow> True"

fun moves :: "uuid \<Rightarrow> db list \<Rightarrow> nat" where
  "moves i (d # d' # ds) = (if view d' i = view d i then 0 else 1) + moves i (d' # ds)"
| "moves i _ = 0"

lemma moves_fuel:
  "trace h l (d # ds) \<Longrightarrow> lifecycle d \<Longrightarrow> view d i = Some x \<Longrightarrow> moves i (d # ds) \<le> fuel x"
proof (induction ds arbitrary: d x)
  case (Cons d' ds)
  then obtain ev where ev: "exec h l ev d = Inr d'" "trace h l (d' # ds)" by auto
  have lc': "lifecycle d'" using exec_lifecycle[OF Cons.prems(2) ev(1)] .
  have "view_step (view d) (view d')" using exec_view[OF Cons.prems(2) ev(1)] .
  then consider "view d' i = Some x" | y where "run_edge x y" "view d' i = Some y"
    using view_step_cases[of "view d" "view d'" i x] Cons.prems(3) by blast
  then show ?case
  proof cases
    case 1
    then show ?thesis using Cons.IH[OF ev(2) lc' 1] Cons.prems(3) by simp
  next
    case 2
    then show ?thesis using Cons.IH[OF ev(2) lc' 2(2)] run_edge_fuel[OF 2(1)] by simp
  qed
qed simp

text \<open>
  C6. Retries end: from a reachable database on, whatever is executed, a run changes its state,
  attempts or cancellation flag at most \<open>2 * left + 2\<close> times, where \<open>left\<close> is the number of
  attempts it still has; a run that is queued for the first time moves at most 7 times.
\<close>

theorem run_moves_bounded:
  assumes "reachable hexdigest limits d" and "trace hexdigest limits (d # ds)"
    and "find_run i d = Some r" and "generation_jobs i d = [j]"
  shows "moves i (d # ds) \<le> 2 * nat (job_max_attempts j - job_attempts j) + 2 \<and>
     (view d i = Some new_view \<longrightarrow> moves i (d # ds) \<le> 7)"
proof -
  have "moves i (d # ds) \<le> fuel (view_of r j)"
    by (rule moves_fuel[OF assms(2) reachable_inv[OF assms(1)] view_Some[OF assms(3,4)]])
  then show ?thesis using view_Some[OF assms(3,4)]
    by (auto simp: fuel_def view_of_def new_view_def split: if_splits)
qed

theorem run_moves_bounded_witness:
  "moves 10 [demo_queued_db, demo_running_db] \<le> 7 \<and> moves 10 [demo_queued_db, demo_running_db] = 1"
proof
  have t: "trace (\<lambda>_. []) wide_limits (demo_queued_db # [demo_running_db])" using demo_claim_exec[of "\<lambda>_. []"] by (simp only: trace.simps) blast
  have v: "view demo_queued_db 10 = Some new_view" "view demo_running_db 10 \<noteq> Some new_view" by code_simp+
  show "moves 10 [demo_queued_db, demo_running_db] \<le> 7"
    using run_moves_bounded[OF demo_queued_reachable t demo_find] v by blast
  show "moves 10 [demo_queued_db, demo_running_db] = 1" using v by auto
qed

subsection \<open>Claims\<close>

text \<open>
  The claim of a run on a reachable database never fails on its budget, its ownership or its
  parent: it reports the state of a run that is not queued (a failed run is refused); a queued run
  waits for the rest of its backoff, in whole seconds rounded up, or 30 seconds when its batch is
  full; otherwise it starts: run and job running, one attempt more, the queued parent running, and
  the constraints and triggers of the database accept the writes.
\<close>

lemma claim_result:
  assumes "reachable hexdigest limits d" and "find_run i d = Some r" and "generation_jobs i d = [j]"
  shows "claim i clock now d =
     (case run_status r of
        Succeeded \<Rightarrow> Inr (ALREADY_SUCCEEDED, d)
      | Cancelled \<Rightarrow> Inr (CLAIM_CANCELLED, d)
      | Running \<Rightarrow> Inr (IN_PROGRESS, d)
      | Queued \<Rightarrow>
          if backoff_left clock j > 0 then Inl (GenerationRetryScheduled (ceil_seconds (backoff_left clock j)))
          else if batch_full i d then Inl (GenerationRetryScheduled 30)
          else Inr (STARTED, claimed_db i now r j d)
      | _ \<Rightarrow> Inl (gen_error ''generation requires matching queued run and job states''))"
  using claim_eq[OF reachable_inv[OF assms(1)] assms(2,3), of clock now] unfolding BATCH_CAPACITY_RETRY_SECONDS_def .

lemma claim_result_witness:
  "claim 10 200 210 demo_queued_db = Inr (STARTED, claimed_db 10 210 demo_new_run (generation_job 11 demo_new_run) demo_queued_db)"
proof -
  have "backoff_left 200 (generation_job 11 demo_new_run) = 0" "\<not> batch_full 10 demo_queued_db" "run_status demo_new_run = Queued"
    by code_simp+
  then show ?thesis using claim_result[OF demo_queued_reachable demo_find, of 200 210] by simp
qed

subsection \<open>Completion and failure\<close>

text \<open>
  C14. A run succeeds exactly when it is running, not cancelled, and its stage rows are precisely
  the expected stages, each skipped or succeeded with an output fingerprint; the commit then
  always passes the database's constraints. In every other case nothing is written.
\<close>

theorem complete_run_result:
  assumes "reachable hexdigest limits d" and "find_run i d = Some r" and "generation_jobs i d = [j]"
  shows "((\<exists>d'. complete_run i expected now d = Inr d') \<longleftrightarrow>
       run_status r = Running \<and> job_cancel_requested_at j = None \<and> stages_complete expected (stage_rows i d)) \<and>
     (\<forall>d'. complete_run i expected now d = Inr d' \<longrightarrow>
       run_status_of i d' = Some Succeeded \<and> stage_rows i d' = stage_rows i d)"
proof -
  note eq = complete_run_eq[OF reachable_inv[OF assms(1)] assms(2,3), of expected now]
  have "run_status_of i d' = Some Succeeded \<and> stage_rows i d' = stage_rows i d"
    if res: "complete_run i expected now d = Inr d'" for d'
  proof -
    have "d' = completed_db now r j d" using res unfolding eq(1) by (simp split: if_splits)
    then show ?thesis using eq(2)[OF res] by (simp add: completed_db_def)
  qed
  moreover have "(\<exists>d'. complete_run i expected now d = Inr d') \<longleftrightarrow>
       run_status r = Running \<and> job_cancel_requested_at j = None \<and> stages_complete expected (stage_rows i d)"
    unfolding eq(1) by simp
  ultimately show ?thesis by blast
qed

lemma demo_running_found:
  "find_run 10 demo_running_db = Some (start_run 210 demo_new_run)"
  "generation_jobs 10 demo_running_db = [start_job 210 (generation_job 11 demo_new_run)]"
  "stage_rows 10 demo_running_db = []"
  by code_simp+

theorem complete_run_result_witness:
  "(\<exists>d'. complete_run 10 [] 400 demo_running_db = Inr d') \<and> \<not> (\<exists>d'. complete_run 10 [''roads''] 400 demo_running_db = Inr d')"
proof -
  have "run_status (start_run 210 demo_new_run) = Running" "job_cancel_requested_at (start_job 210 (generation_job 11 demo_new_run)) = None"
    "stages_complete [] []" "\<not> stages_complete [''roads''] []" unfolding stages_complete_def by code_simp+
  then show ?thesis
    using complete_run_result[OF demo_running_reachable demo_running_found(1,2), of "[]" 400]
      complete_run_result[OF demo_running_reachable demo_running_found(1,2), of "[''roads'']" 400]
    unfolding demo_running_found(3) by blast
qed

lemma retry_seconds_bounds: "30 \<le> retry_seconds j \<and> retry_seconds j \<le> 300"
proof -
  have "(1::int) \<le> 2 ^ nat (min (job_attempts j - 1) 4)" by simp
  then show ?thesis by (simp add: retry_seconds_def min_def)
qed

text \<open>
  C19. The failure of a running, not cancelled run always commits: the run is queued again exactly
  when the error is transient, no stage has written a row and an attempt is left, and then the
  call returns a delay of 30 to 300 seconds; otherwise the run has failed and no delay is returned.
\<close>

theorem fail_run_result:
  assumes "reachable hexdigest limits d" and "find_run i d = Some r" and "generation_jobs i d = [j]"
    and "run_status r = Running" and "job_cancel_requested_at j = None"
  shows "\<exists>delay d'. fail_run i sn e now d = Inr (delay, d') \<and>
     (if err_class e = TransientError \<and> stage_rows i d = [] \<and> job_attempts j < job_max_attempts j
      then run_status_of i d' = Some Queued \<and> (\<exists>s. delay = Some s \<and> 30 \<le> s \<and> s \<le> 300)
      else run_status_of i d' = Some Failed \<and> delay = None)"
proof -
  have lc: "lifecycle d" using assms(1) by (rule reachable_inv)
  have e: "err_retryable e \<longleftrightarrow> err_class e = TransientError"
    by (cases "err_class e") (simp_all add: err_retryable_def class_retryable_def)
  have s: "30 \<le> retry_seconds j" "retry_seconds j \<le> 300" using retry_seconds_bounds by simp_all
  obtain d' where "fail_run i sn e now d = Inr (if retryable_failure e j (stage_rows i d) then Some (retry_seconds j) else None, d')"
    "run_status_of i d' = Some (if retryable_failure e j (stage_rows i d) then Queued else Failed)"
    using fail_run_spec(3)[OF lc assms(2-5), of sn e now] by blast
  then show ?thesis using s by (auto simp: retryable_failure_def e)
qed

theorem fail_run_result_witness:
  "\<exists>delay d'. fail_run 10 None \<lparr>err_class = TransientError, err_message = ''m'', err_details = []\<rparr> 400 demo_running_db = Inr (delay, d') \<and>
     run_status_of 10 d' = Some Queued"
proof -
  let ?j = "start_job 210 (generation_job 11 demo_new_run)"
  have "run_status (start_run 210 demo_new_run) = Running" "job_cancel_requested_at ?j = None" "job_attempts ?j < job_max_attempts ?j"
    by code_simp+
  then show ?thesis
    using fail_run_result[OF demo_running_reachable demo_running_found(1,2), of None "\<lparr>err_class = TransientError, err_message = ''m'', err_details = []\<rparr>" 400]
    by (auto simp: demo_running_found(3))
qed

end
