(* ===== verification/Creation_Props.thy ===== *)
theory Creation_Props
  imports Creation Lifecycle_Props
begin

text \<open>
  Creation and manual retry at the level of their callers: which requests are accepted, what is
  written, and how a retry is idempotent.
\<close>

subsection \<open>Creating a run\<close>

lemma from_config_error: "from_config name kvs = Inl e \<Longrightarrow> \<exists>m. e = ScenarioMatrixError m"
  by (auto simp: from_config_def make_variant_def split: sum.splits if_splits)

lemma replay_config_Inr:
  assumes "json_ok (JObj kvs)" "variant_re name"
  shows "replay_config name message (JObj kvs) =
     (if json_finite (JObj kvs) then Inr \<lparr>variant_name = name, variant_text = json_text (json_norm (JObj kvs))\<rparr>
      else Inl (RunControlConflict message))"
proof (cases "json_finite (JObj kvs)")
  case True
  then have "from_config name kvs = Inr \<lparr>variant_name = name, variant_text = json_text (json_norm (JObj kvs))\<rparr>"
    using from_config_Inr[OF assms(1)] assms(2) by blast
  then show ?thesis using True by (simp add: replay_config_def)
next
  case False
  then obtain e where "from_config name kvs = Inl e"
    using from_config_Inr[OF assms(1), of name] by (cases "from_config name kvs") auto
  then show ?thesis using from_config_error[of name kvs e] False by (auto simp: replay_config_def)
qed

lemma variant_config_text:
  assumes "json_ok (JObj kvs)" "json_finite (JObj kvs)"
  shows "variant_config \<lparr>variant_name = n, variant_text = json_text (json_norm (JObj kvs))\<rparr> = Inr (json_norm (JObj kvs))"
proof -
  have "json_dumps (JObj kvs) = Inr (json_text (json_norm (JObj kvs)))" using assms(2) by (simp only: json_dumps_def if_True)
  then show ?thesis using json_loads_dumps[OF assms(1)] by (simp only: variant_config_def config_variant.select_convs)
qed

definition request_ok :: "run_request \<Rightarrow> bool" where
  "request_ok q \<longleftrightarrow> rq_mode q \<in> {''EXPANSION'', ''FROM_SCRATCH''} \<and> 0 \<le> rq_seed q \<and> rq_seed q < 2 ^ 63 \<and>
     \<not> blank (rq_schema q) \<and> length (rq_schema q) \<le> 64 \<and> commit_re (rq_commit q) \<and> json_finite (JObj (rq_config q))"

definition versions_ok :: "uuid \<Rightarrow> uuid list \<Rightarrow> db \<Rightarrow> bool" where
  "versions_ok p ids d \<longleftrightarrow> 1 \<le> length ids \<and> length ids \<le> 32 \<and> distinct ids \<and> length (ready_versions p ids d) = length ids"

lemma run_versions_Inr: "run_versions p ids d = Inr vs \<longleftrightarrow> versions_ok p ids d \<and> vs = ready_versions p ids d"
  by (auto simp: run_versions_def versions_ok_def MAX_DATASET_VERSIONS_def)

lemma check_request_Inr:
  assumes "json_ok (JObj (rq_config q))"
  shows "check_request q = Inr v \<longleftrightarrow>
     request_ok q \<and> v = \<lparr>variant_name = ''manual_run'', variant_text = json_text (json_norm (JObj (rq_config q)))\<rparr>"
proof -
  have "variant_re ''manual_run''" by code_simp
  note r = replay_config_Inr[OF assms this]
  have "blank []" by (simp add: blank_def)
  then show ?thesis
    unfolding check_request_def r request_ok_def MAX_PERSISTED_SEED_def by (auto simp del: json_finite.simps json_norm.simps)
qed

definition boundary_ok :: "project \<Rightarrow> bool" where
  "boundary_ok x \<longleftrightarrow> project_boundary_srid x = Some (project_working_srid x)"

definition requested_run :: "uuid \<Rightarrow> time \<Rightarrow> project \<Rightarrow> run_request \<Rightarrow> db \<Rightarrow> run" where
  "requested_run i now x q d = new_run i (project_id x) None (rq_mode q) (rq_seed q) (project_working_srid x)
     (json_norm (JObj (rq_config q))) (rq_schema q) (Some (rq_commit q)) now (ready_versions (project_id x) (rq_versions q) d)"

definition with_run :: "fresh_ids \<Rightarrow> time \<Rightarrow> run \<Rightarrow> db \<Rightarrow> db" where
  "with_run f now r d = add_rows [r] [generation_job (fresh_job f) r] [generation_message (fresh_message f) (fresh_job f) now r] d"

lemma enqueue_run_succeeds:
  assumes wf: "wf_db d" and fresh: "fresh_for d (run_project_id r) f" "run_id r = fresh_run f" and r: "run_checks r" "run_fk d r"
  shows "enqueue_run (fresh_job f) (fresh_message f) now r d = Inr (with_run f now r d)"
proof -
  let ?j = "generation_job (fresh_job f) r" and ?m = "generation_message (fresh_message f) (fresh_job f) now r"
  have eqs: "add_run r d = add_rows [r] [] [] d" "\<And>d. add_job ?j d = add_rows [] [?j] [] d" "\<And>d. add_outbox ?m d = add_rows [] [] [?m] d"
    by (simp_all add: add_run_def add_job_def add_outbox_def add_rows_def)
  have "flush d (add_rows [r] [] [] d) = Inr (add_rows [r] [] [] d)"
    "flush (add_rows [r] [] [] d) (add_rows [] [?j] [] (add_rows [r] [] [] d)) = Inr (add_rows [r] [?j] [] d)"
    "flush (add_rows [r] [?j] [] d) (add_rows [] [] [?m] (add_rows [r] [?j] [] d)) = Inr (add_rows [r] [?j] [?m] d)"
    using insert_runs[OF wf, of "[r]" "run_project_id r" "[f]" "[?j]" "[?m]" now] fresh r by simp_all
  then show ?thesis unfolding enqueue_run_def eqs bindE.simps with_run_def by simp
qed

text \<open>
  C21. \<open>create\<close> accepts exactly the valid requests: a known mode, a 63-bit seed, a schema version of
  1 to 64 characters that is not blank, a full commit hash and a finite configuration; a project
  whose boundary uses its working SRID; 1 to 32 distinct dataset versions, all ready and of the
  project; and a free slot. It then writes one queued run that records the request, with its
  configuration in canonical form, one queued job with three attempts and one pending message.
\<close>

theorem create_run_accepts_exactly:
  assumes wf: "wf_db d" and fresh: "fresh_for d p f" and cfg: "json_ok (JObj (rq_config q))"
    and srid: "\<forall>x \<in> set (db_projects d). 0 < project_working_srid x"
  shows "create_run lims f now p q d = Inr (i, d') \<longleftrightarrow>
     request_ok q \<and> versions_ok p (rq_versions q) d \<and> enforce_project_job_capacity lims p GENERATION_JOB_TYPE 1 d = Inr () \<and>
     (\<exists>x. find_project p d = Some x \<and> boundary_ok x \<and> i = fresh_run f \<and> d' = with_run f now (requested_run (fresh_run f) now x q d) d)"
proof -
  have px: "project_id x = p \<and> x \<in> set (db_projects d)" if "find_project p d = Some x" for x
    using lookup_Some[OF that[unfolded find_project_def]] by blast
  have enq: "enqueue_run (fresh_job f) (fresh_message f) now (requested_run (fresh_run f) now x q d) d =
      Inr (with_run f now (requested_run (fresh_run f) now x q d) d)" if x: "find_project p d = Some x" and q: "request_ok q" for x
  proof (rule enqueue_run_succeeds[OF wf])
    have "rq_schema q \<noteq> []" using q by (auto simp: request_ok_def blank_def)
    then show "run_checks (requested_run (fresh_run f) now x q d)"
      unfolding requested_run_def using q srid px[OF x] by (intro new_run_checks) (auto simp: request_ok_def)
    show "run_fk d (requested_run (fresh_run f) now x q d)"
      unfolding requested_run_def using px[OF x] x by (intro new_run_fk[of _ _ x]) simp_all
  qed (use fresh px[OF x] in \<open>simp_all add: requested_run_def new_run_def\<close>)
  have vc: "request_ok q \<Longrightarrow> variant_config \<lparr>variant_name = ''manual_run'', variant_text = json_text (json_norm (JObj (rq_config q)))\<rparr> =
      Inr (json_norm (JObj (rq_config q)))"
    using variant_config_text[OF cfg] by (simp only: request_ok_def)
  have new: "new_run (fresh_run f) p None (rq_mode q) (rq_seed q) (project_working_srid x) (json_norm (JObj (rq_config q))) (rq_schema q)
      (Some (rq_commit q)) now (ready_versions p (rq_versions q) d) = requested_run (fresh_run f) now x q d"
    if "find_project p d = Some x" for x using px[OF that] by (simp only: requested_run_def)
  show ?thesis
  proof (cases "request_ok q \<and> (\<exists>x. find_project p d = Some x \<and> boundary_ok x) \<and> versions_ok p (rq_versions q) d")
    case True
    then obtain x where x: "find_project p d = Some x" "boundary_ok x" by blast
    have "check_request q = Inr \<lparr>variant_name = ''manual_run'', variant_text = json_text (json_norm (JObj (rq_config q)))\<rparr>"
      "run_versions p (rq_versions q) d = Inr (ready_versions p (rq_versions q) d)"
      using True check_request_Inr[OF cfg] run_versions_Inr by blast+
    then show ?thesis using True x vc enq[OF x(1)]
      by (cases "enforce_project_job_capacity lims p GENERATION_JOB_TYPE 1 d")
        (auto simp: create_run_def require_project_def check_boundary_def boundary_ok_def new[OF x(1)] simp del: json_norm.simps)
  next
    case False
    have "\<not> create_run lims f now p q d = Inr (i, d')"
    proof
      assume "create_run lims f now p q d = Inr (i, d')"
      then obtain v x vs where "check_request q = Inr v" "require_project p d = Inr x" "check_boundary x = Inr ()"
        "run_versions p (rq_versions q) d = Inr vs"
        by (auto simp: create_run_def bindE_Inr_iff)
      then have "request_ok q" "find_project p d = Some x" "boundary_ok x" "versions_ok p (rq_versions q) d"
        using check_request_Inr[OF cfg] run_versions_Inr
        by (auto simp: require_project_def check_boundary_def boundary_ok_def split: option.splits if_splits)
      with False show False by blast
    qed
    then show ?thesis using False by blast
  qed
qed

theorem create_run_accepts_exactly_witness:
  "\<exists>i d'. create_run wide_limits demo_fresh 100 1 demo_request demo_db0 = Inr (i, d') \<and> i = 10"
proof -
  have a: "wf_db demo_db0" "fresh_for demo_db0 1 demo_fresh" "json_ok (JObj (rq_config demo_request))"
    "\<forall>x \<in> set (db_projects demo_db0). 0 < project_working_srid x"
    "request_ok demo_request" "versions_ok 1 (rq_versions demo_request) demo_db0"
    "enforce_project_job_capacity wide_limits 1 GENERATION_JOB_TYPE 1 demo_db0 = Inr ()"
    "find_project 1 demo_db0 = Some demo_project" "boundary_ok demo_project" "fresh_run demo_fresh = 10"
    unfolding wf_db_def fresh_for_def request_ok_def versions_ok_def boundary_ok_def by code_simp+
  show ?thesis using create_run_accepts_exactly[OF a(1-4), of wide_limits 100] a(5-10) by blast
qed

subsection \<open>Creating a batch\<close>

lemma count_selected:
  assumes "distinct (map key rows)" "distinct ids"
  shows "length (filter (\<lambda>r. key r \<in> set ids) rows) = length ids \<longleftrightarrow> set ids \<subseteq> key ` set rows"
proof -
  have "distinct (map key (filter (\<lambda>r. key r \<in> set ids) rows))" using assms(1) by (rule distinct_map_filter)
  then have "length (filter (\<lambda>r. key r \<in> set ids) rows) = card (set (map key (filter (\<lambda>r. key r \<in> set ids) rows)))"
    by (metis distinct_card length_map)
  also have "set (map key (filter (\<lambda>r. key r \<in> set ids) rows)) = set ids \<inter> key ` set rows" by auto
  also have "card (set ids \<inter> key ` set rows) = card (set ids) \<longleftrightarrow> set ids \<inter> key ` set rows = set ids"
    by (metis Int_lower1 List.finite_set card_subset_eq)
  finally show ?thesis using assms(2) by (auto simp: distinct_card)
qed

text \<open>
  C22. A batch is created exactly for 3 to 10 distinct queued runs of the project that belong to no
  batch, with a limit between 1 and their number; it is sealed over them in the given order.
\<close>

theorem create_batch_accepts_exactly:
  assumes wf: "wf_db d" and fresh: "fresh \<notin> batch_id ` set (db_batches d)"
  shows "create_batch fresh now p ids limit d = Inr (b, d') \<longleftrightarrow>
     b = fresh \<and> d' = sealed_db fresh now p ids limit d \<and>
     3 \<le> length ids \<and> length ids \<le> 10 \<and> distinct ids \<and> 1 \<le> limit \<and> limit \<le> int (length ids) \<and>
     (\<forall>i \<in> set ids. (\<exists>r. find_run i d = Some r \<and> run_project_id r = p \<and> run_status r = Queued) \<and>
        i \<notin> member_run_id ` set (db_members d))"
proof -
  define ok where "ok \<longleftrightarrow> (\<forall>i \<in> set ids. (\<exists>r. find_run i d = Some r \<and> run_project_id r = p \<and> run_status r = Queued) \<and>
        i \<notin> member_run_id ` set (db_members d))"
  define size where "size \<longleftrightarrow> 3 \<le> length ids \<and> length ids \<le> 10 \<and> distinct ids \<and> 1 \<le> limit \<and> limit \<le> int (length ids)"
  let ?cs = "filter (\<lambda>r. run_id r \<in> set ids) (db_runs d)"
  have children: "length ?cs = length ids \<and> \<not> list_ex (\<lambda>r. run_project_id r \<noteq> p) ?cs \<and> \<not> list_ex (\<lambda>r. run_status r \<noteq> Queued) ?cs \<and>
       \<not> list_ex (\<lambda>m. member_run_id m \<in> set ids) (db_members d) \<longleftrightarrow> ok" if dist: "distinct ids"
  proof
    assume a: "length ?cs = length ids \<and> \<not> list_ex (\<lambda>r. run_project_id r \<noteq> p) ?cs \<and> \<not> list_ex (\<lambda>r. run_status r \<noteq> Queued) ?cs \<and>
       \<not> list_ex (\<lambda>m. member_run_id m \<in> set ids) (db_members d)"
    then have sub: "set ids \<subseteq> run_id ` set (db_runs d)" using count_selected[OF wf_pks(4)[OF wf] dist] by blast
    show ok unfolding ok_def
    proof (intro ballI conjI)
      fix i assume i: "i \<in> set ids"
      then obtain r where r: "r \<in> set (db_runs d)" "run_id r = i" using sub by blast
      then have "find_run i d = Some r" using find_run_iff[OF wf] by blast
      then show "\<exists>r. find_run i d = Some r \<and> run_project_id r = p \<and> run_status r = Queued"
        using a i r by (auto simp: list_ex_iff)
      show "i \<notin> member_run_id ` set (db_members d)" using a i by (auto simp: list_ex_iff)
    qed
  next
    assume ok
    then have *: "\<And>i. i \<in> set ids \<Longrightarrow> \<exists>r. find_run i d = Some r \<and> run_project_id r = p \<and> run_status r = Queued"
      and free: "\<And>i. i \<in> set ids \<Longrightarrow> i \<notin> member_run_id ` set (db_members d)" by (auto simp: ok_def)
    have "set ids \<subseteq> run_id ` set (db_runs d)" using * find_run_Some by blast
    moreover have "run_project_id r = p \<and> run_status r = Queued" if "r \<in> set ?cs" for r
      using that *[of "run_id r"] find_run_iff[OF wf, of "run_id r" r] by auto
    ultimately show "length ?cs = length ids \<and> \<not> list_ex (\<lambda>r. run_project_id r \<noteq> p) ?cs \<and> \<not> list_ex (\<lambda>r. run_status r \<noteq> Queued) ?cs \<and>
       \<not> list_ex (\<lambda>m. member_run_id m \<in> set ids) (db_members d)"
      using count_selected[OF wf_pks(4)[OF wf] dist] free by (auto simp: list_ex_iff)
  qed
  have seals: "seal fresh now p ids limit d = Inr (fresh, sealed_db fresh now p ids limit d)" if k: "ok" "size"
  proof (rule sealing_steps[OF wf fresh])
    obtain i r where "i \<in> set ids" "find_run i d = Some r" "run_project_id r = p"
      using k by (cases ids) (auto simp: ok_def size_def)
    then show "p \<in> set (map project_id (db_projects d))"
      using wf_fks(1)[OF wf] find_run_Some by (auto simp: run_fk_def)
  qed (use k in \<open>auto simp: ok_def size_def\<close>)
  have "create_batch fresh now p ids limit d = Inr (b, d') \<longleftrightarrow> size \<and> ok \<and> b = fresh \<and> d' = sealed_db fresh now p ids limit d"
  proof (cases "size")
    case True
    then have dist: "distinct ids" by (simp add: size_def)
    have "create_batch fresh now p ids limit d = Inr (b, d') \<longleftrightarrow> ok \<and> seal fresh now p ids limit d = Inr (b, d')"
      using True children[OF dist] unfolding create_batch_def Let_def size_def MIN_BATCH_RUNS_def MAX_BATCH_RUNS_def
      by (simp only: if_Inr_iff) blast
    then show ?thesis using seals True by auto
  next
    case False
    then show ?thesis by (auto simp: create_batch_def size_def MIN_BATCH_RUNS_def MAX_BATCH_RUNS_def)
  qed
  then show ?thesis by (auto simp: ok_def size_def)
qed

definition three_queued :: db where
  "three_queued = empty_db\<lparr>db_projects := [demo_project], db_runs := [demo_run 10 Queued, demo_run 11 Queued, demo_run 12 Queued]\<rparr>"

theorem create_batch_accepts_exactly_witness:
  "create_batch 60 5 1 [12, 10, 11] 2 three_queued = Inr (60, sealed_db 60 5 1 [12, 10, 11] 2 three_queued) \<and>
   (\<forall>b d'. create_batch 60 5 1 [12, 10, 99] 2 three_queued \<noteq> Inr (b, d'))"
proof -
  have wf: "wf_db three_queued" "60 \<notin> batch_id ` set (db_batches three_queued)"
    unfolding wf_db_def by code_simp+
  have r: "find_run 10 three_queued = Some (demo_run 10 Queued)" "find_run 11 three_queued = Some (demo_run 11 Queued)"
    "find_run 12 three_queued = Some (demo_run 12 Queued)" "find_run 99 three_queued = None" "db_members three_queued = []" by code_simp+
  show ?thesis using create_batch_accepts_exactly[OF wf] r by (simp add: demo_run_def)
qed

subsection \<open>Creating a matrix\<close>

text \<open>The run of the child at position \<open>k\<close>, with its parsed configuration.\<close>

definition child_run :: "(nat \<Rightarrow> fresh_ids) \<Rightarrow> time \<Rightarrow> matrix_spec \<Rightarrow> project \<Rightarrow> db \<Rightarrow> nat \<Rightarrow> matrix_child \<Rightarrow> run" where
  "child_run fresh now s x d k c =
     new_run (fresh_run (fresh k)) (spec_project s) None (mode_value (spec_mode s)) (child_seed c) (project_working_srid x)
       (case child_config c of Inr config \<Rightarrow> config | Inl _ \<Rightarrow> JNull) (spec_schema s) (Some (spec_commit s)) now
       (ready_versions (spec_project s) (spec_versions s) d)"

definition child_runs :: "(nat \<Rightarrow> fresh_ids) \<Rightarrow> time \<Rightarrow> matrix_spec \<Rightarrow> project \<Rightarrow> db \<Rightarrow> run list" where
  "child_runs fresh now s x d = map (\<lambda>(k, c). child_run fresh now s x d k c) (enumerate 0 (expand_scenario_matrix s))"

lemma expand_texts: "c \<in> set (expand_scenario_matrix s) \<Longrightarrow> \<exists>v \<in> set (spec_variants s). child_text c = variant_text v"
proof -
  assume c: "c \<in> set (expand_scenario_matrix s)"
  let ?L = "concat (map (\<lambda>v. map (Pair v) (sort (spec_seeds s))) (sort_key variant_name (spec_variants s)))"
  have "map child_text (map (\<lambda>(i, v, seed). \<lparr>child_position = i, child_variant = variant_name v, child_seed = seed,
            child_text = variant_text v\<rparr>) (enumerate n L)) = map (variant_text \<circ> fst) L" for n L
    by (induction L arbitrary: n) auto
  then have "map child_text (expand_scenario_matrix s) = map (variant_text \<circ> fst) ?L"
    unfolding expand_scenario_matrix_def .
  then have "child_text c \<in> set (map (variant_text \<circ> fst) ?L)" using c by (metis image_eqI set_map)
  then show ?thesis by auto
qed

lemma child_config_ok:
  assumes "\<forall>v \<in> set (spec_variants s). make_variant (variant_name v) (variant_text v) = Inr v" "c \<in> set (expand_scenario_matrix s)"
  shows "\<exists>config. child_config c = Inr config"
proof -
  obtain v where "v \<in> set (spec_variants s)" "child_text c = variant_text v" using expand_texts[OF assms(2)] by blast
  then show ?thesis using assms(1) make_variant_Inr unfolding child_config_def by metis
qed

lemma matrix_runs_eq:
  assumes "\<forall>v \<in> set (spec_variants s). make_variant (variant_name v) (variant_text v) = Inr v"
  shows "matrix_runs fresh now s x (ready_versions (spec_project s) (spec_versions s) d) (expand_scenario_matrix s) =
     Inr (child_runs fresh now s x d)"
  unfolding matrix_runs_def child_runs_def
proof (rule mapE_total, clarify)
  fix k c assume "(k, c) \<in> set (enumerate 0 (expand_scenario_matrix s))"
  then have "c \<in> set (expand_scenario_matrix s)" by (metis enumerate_eq_zip set_zip_rightD)
  then obtain config where "child_config c = Inr config" using child_config_ok[OF assms] by blast
  then show "bindE (child_config c) (\<lambda>config. Inr (new_run (fresh_run (fresh k)) (spec_project s) None (mode_value (spec_mode s))
      (child_seed c) (project_working_srid x) config (spec_schema s) (Some (spec_commit s)) now
      (ready_versions (spec_project s) (spec_versions s) d))) = Inr (child_run fresh now s x d k c)"
    by (simp add: child_run_def)
qed

lemma ready_versions_sort: "ready_versions p (sort ids) d = ready_versions p ids d"
  by (simp add: ready_versions_def)

definition matrix_db :: "(nat \<Rightarrow> fresh_ids) \<Rightarrow> time \<Rightarrow> run list \<Rightarrow> db \<Rightarrow> db" where
  "matrix_db fresh now rs d = add_rows rs (matrix_jobs fresh rs) (matrix_messages fresh now rs) d"

lemma map_enumerate_map2: "map (\<lambda>(i, r). g (f i) r) (enumerate 0 rs) = map2 g (map f [0..<length rs]) rs"
  by (simp add: enumerate_eq_zip zip_map1 case_prod_beta comp_def)

lemma validated_spec:
  assumes "validate_spec s = Inr ()"
  shows "3 \<le> length (expand_scenario_matrix s)" "length (expand_scenario_matrix s) \<le> 10" "1 \<le> spec_limit s"
    "spec_limit s \<le> int (length (expand_scenario_matrix s))" "commit_re (spec_commit s)" "spec_schema s \<noteq> []"
  using assms by (auto simp: validate_spec_def Let_def length_expand split: if_splits)

lemma create_matrix_eq:
  assumes wf: "wf_db d" and s: "validate_spec s = Inr ()"
    and variants: "\<forall>v \<in> set (spec_variants s). make_variant (variant_name v) (variant_text v) = Inr v"
    and x: "find_project (spec_project s) d = Some x" "boundary_ok x" "0 < project_working_srid x"
    and versions: "length (ready_versions (spec_project s) (spec_versions s) d) = length (spec_versions s)"
    and slots: "enforce_project_job_capacity lims (spec_project s) GENERATION_JOB_TYPE (int (length (expand_scenario_matrix s))) d = Inr ()"
    and fresh: "\<forall>k < length (expand_scenario_matrix s). fresh_for d (spec_project s) (fresh k)" "fb \<notin> batch_id ` set (db_batches d)"
    and dist: "inj_on (fresh_run \<circ> fresh) {..<length (expand_scenario_matrix s)}"
      "inj_on (fresh_job \<circ> fresh) {..<length (expand_scenario_matrix s)}"
      "inj_on (fresh_message \<circ> fresh) {..<length (expand_scenario_matrix s)}"
  shows "create_matrix lims fresh fb now s d =
     Inr ((fb, map run_id (child_runs fresh now s x d)),
          sealed_db fb now (spec_project s) (map run_id (child_runs fresh now s x d)) (spec_limit s)
            (matrix_db fresh now (child_runs fresh now s x d) d))"
proof -
  let ?rs = "child_runs fresh now s x d" and ?n = "length (expand_scenario_matrix s)"
  let ?fs = "map fresh [0..<?n]"
  note size = validated_spec[OF s]
  have l: "length ?rs = ?n" by (simp add: child_runs_def)
  have nth: "?rs ! k = child_run fresh now s x d k (expand_scenario_matrix s ! k)" if "k < ?n" for k
    using that by (simp add: child_runs_def nth_enumerate_eq)
  have fields: "run_id (?rs ! k) = fresh_run (fresh k) \<and> run_project_id (?rs ! k) = spec_project s \<and> run_status (?rs ! k) = Queued \<and>
      run_checks (?rs ! k) \<and> run_fk d (?rs ! k)" if k: "k < ?n" for k
  proof -
    have "mode_value (spec_mode s) \<in> {''EXPANSION'', ''FROM_SCRATCH''}" by (cases "spec_mode s") simp_all
    then have "run_checks (?rs ! k)" unfolding nth[OF k] child_run_def using size x(3) by (intro new_run_checks) simp_all
    moreover have "run_fk d (?rs ! k)" unfolding nth[OF k] child_run_def by (rule new_run_fk[OF x(1)]) simp
    ultimately show ?thesis by (simp add: nth[OF k] child_run_def new_run_def)
  qed
  have ids: "map run_id ?rs = map (fresh_run \<circ> fresh) [0..<?n]" using fields l by (intro nth_equalityI) simp_all
  have a: "list_all run_checks ?rs" "list_all (run_fk d) ?rs" using fields l by (simp_all add: list_all_length)
  have b: "list_all2 (\<lambda>f r. fresh_for d (spec_project s) f \<and> run_id r = fresh_run f \<and> run_project_id r = spec_project s) ?fs ?rs"
    using fields l fresh(1) by (simp add: list_all2_conv_all_nth)
  have c: "distinct (map fresh_run ?fs)" "distinct (map fresh_job ?fs)" "distinct (map fresh_message ?fs)"
    using dist by (simp_all add: distinct_map atLeast0LessThan)
  have e: "matrix_jobs fresh ?rs = map2 (\<lambda>f r. generation_job (fresh_job f) r) ?fs ?rs"
    "matrix_messages fresh now ?rs = map2 (\<lambda>f r. generation_message (fresh_message f) (fresh_job f) now r) ?fs ?rs"
    unfolding matrix_jobs_def matrix_messages_def using l map_enumerate_map2[of "\<lambda>f r. generation_job (fresh_job f) r" fresh ?rs]
      map_enumerate_map2[of "\<lambda>f r. generation_message (fresh_message f) (fresh_job f) now r" fresh ?rs] by simp_all
  note f = insert_runs[OF wf a b c e, folded matrix_db_def]
  have wf3: "wf_db (matrix_db fresh now ?rs d)" using flush_wf[OF f(3)] by blast
  have "seal fb now (spec_project s) (map run_id ?rs) (spec_limit s) (matrix_db fresh now ?rs d) =
      Inr (fb, sealed_db fb now (spec_project s) (map run_id ?rs) (spec_limit s) (matrix_db fresh now ?rs d))"
  proof (rule sealing_steps[OF wf3])
    show "spec_project s \<in> set (map project_id (db_projects (matrix_db fresh now ?rs d)))"
    proof -
      have "x \<in> set (db_projects d) \<and> project_id x = spec_project s" using x(1) unfolding find_project_def by (rule lookup_Some)
      then have "spec_project s \<in> project_id ` set (db_projects d)"
        using imageI[of x "set (db_projects d)" project_id] by simp
      then show ?thesis by (simp add: matrix_db_def)
    qed
    show "distinct (map run_id ?rs)" unfolding ids using dist(1) by (simp add: distinct_map atLeast0LessThan)
    fix i assume "i \<in> set (map run_id ?rs)"
    then obtain k where k: "k < ?n" "i = run_id (?rs ! k)" unfolding in_set_conv_nth length_map l by (auto simp: l)
    have mem: "?rs ! k \<in> set (db_runs (matrix_db fresh now ?rs d))" using k(1) l by (simp add: matrix_db_def)
    show "\<exists>r. find_run i (matrix_db fresh now ?rs d) = Some r \<and> run_project_id r = spec_project s \<and> run_status r = Queued"
      using find_run_iff[OF wf3, of i "?rs ! k"] mem k fields[OF k(1)] by blast
    have "i \<notin> run_id ` set (db_runs d)" using fresh(1) k fields[OF k(1)] by (simp add: fresh_for_def)
    then show "i \<notin> member_run_id ` set (db_members (matrix_db fresh now ?rs d))"
      using wf_fks(5)[OF wf] by (auto simp: matrix_db_def member_fk_def)
  qed (use size l fresh(2) in \<open>simp_all add: matrix_db_def\<close>)
  then show ?thesis
    unfolding create_matrix_def Let_def x(1) ready_versions_sort option.case
    using x(2) versions slots matrix_runs_eq[OF variants] f by (simp add: boundary_ok_def)
qed

text \<open>
  A validated matrix is created as one transaction: in a project with a boundary in its working
  SRID, with its dataset versions ready and a slot for every child, \<open>create_matrix\<close> writes one
  queued run per child of the expansion, in its order, with the child's seed and parsed variant,
  each with a queued job and a pending message, and seals them into a batch with the given limit.
\<close>

lemma create_matrix_succeeds:
  assumes wf: "wf_db d" and s: "validate_spec s = Inr ()"
    and variants: "\<forall>v \<in> set (spec_variants s). make_variant (variant_name v) (variant_text v) = Inr v"
    and x: "find_project (spec_project s) d = Some x" "boundary_ok x" "0 < project_working_srid x"
    and versions: "length (ready_versions (spec_project s) (spec_versions s) d) = length (spec_versions s)"
    and slots: "enforce_project_job_capacity lims (spec_project s) GENERATION_JOB_TYPE (int (length (expand_scenario_matrix s))) d = Inr ()"
    and fresh: "\<forall>k < length (expand_scenario_matrix s). fresh_for d (spec_project s) (fresh k)" "fb \<notin> batch_id ` set (db_batches d)"
    and dist: "inj_on (fresh_run \<circ> fresh) {..<length (expand_scenario_matrix s)}"
      "inj_on (fresh_job \<circ> fresh) {..<length (expand_scenario_matrix s)}"
      "inj_on (fresh_message \<circ> fresh) {..<length (expand_scenario_matrix s)}"
  shows "create_matrix lims fresh fb now s d =
     Inr ((fb, map run_id (child_runs fresh now s x d)),
          sealed_db fb now (spec_project s) (map run_id (child_runs fresh now s x d)) (spec_limit s)
            (matrix_db fresh now (child_runs fresh now s x d) d))"
  using assms by (rule create_matrix_eq)

subsection \<open>A matrix of three runs\<close>

definition matrix3_spec :: matrix_spec where
  "matrix3_spec = \<lparr>spec_project = 1, spec_mode = FROM_SCRATCH, spec_seeds = [3, 1, 2],
     spec_variants = [\<lparr>variant_name = ''base'', variant_text = ''{}''\<rparr>], spec_versions = [5], spec_schema = ''v1'',
     spec_commit = replicate 40 CHR ''a'', spec_limit = 2\<rparr>"

definition matrix3_fresh :: "nat \<Rightarrow> fresh_ids" where
  "matrix3_fresh i = \<lparr>fresh_run = of_nat (20 + i), fresh_job = of_nat (30 + i), fresh_message = of_nat (40 + i)\<rparr>"


lemma matrix3_hyps:
  "validate_spec matrix3_spec = Inr ()"
  "\<forall>v \<in> set (spec_variants matrix3_spec). make_variant (variant_name v) (variant_text v) = Inr v"
  "find_project (spec_project matrix3_spec) demo_db0 = Some demo_project" "boundary_ok demo_project" "0 < project_working_srid demo_project"
  "length (ready_versions (spec_project matrix3_spec) (spec_versions matrix3_spec) demo_db0) = length (spec_versions matrix3_spec)"
  "enforce_project_job_capacity wide_limits (spec_project matrix3_spec) GENERATION_JOB_TYPE (int (length (expand_scenario_matrix matrix3_spec))) demo_db0 = Inr ()"
  "length (expand_scenario_matrix matrix3_spec) = 3"
  unfolding boundary_ok_def by code_simp+

lemma matrix3_fresh_ok:
  "\<forall>k < 3. fresh_for demo_db0 (spec_project matrix3_spec) (matrix3_fresh k)" "50 \<notin> batch_id ` set (db_batches demo_db0)"
  by (simp_all add: fresh_for_def demo_db0_def empty_db_def)

lemma matrix3_inj: "inj_on (fresh_run \<circ> matrix3_fresh) {..<3}" "inj_on (fresh_job \<circ> matrix3_fresh) {..<3}"
  "inj_on (fresh_message \<circ> matrix3_fresh) {..<3}"
proof -
  have three: "{..<3::nat} = {0, 1, 2}" by auto
  show "inj_on (fresh_run \<circ> matrix3_fresh) {..<3}" "inj_on (fresh_job \<circ> matrix3_fresh) {..<3}" "inj_on (fresh_message \<circ> matrix3_fresh) {..<3}"
    unfolding three by (simp_all add: matrix3_fresh_def)
qed

lemma create_matrix_succeeds_witness:
  "\<exists>ids d'. create_matrix wide_limits matrix3_fresh 50 100 matrix3_spec demo_db0 = Inr ((50, ids), d') \<and> length ids = 3"
proof -
  have wf: "wf_db demo_db0" using demo_initial by (simp add: initial_db_def)
  show ?thesis
    using create_matrix_succeeds[OF wf matrix3_hyps(1-7), unfolded matrix3_hyps(8), OF matrix3_fresh_ok matrix3_inj, of 100]
    by (auto simp: child_runs_def matrix3_hyps(8))
qed

end
