(* ===== verification/Control_Props.thy ===== *)
theory Control_Props
  imports Lifecycle_Props
begin

text \<open>
  Manual retry and the progress reads of the run control service on reachable databases.
\<close>

subsection \<open>Manual retry\<close>

lemma sort_key_Nil: "sort_key f xs = [] \<longleftrightarrow> xs = []"
proof -
  have "length (sort_key f xs) = length xs" by simp
  then show ?thesis by (metis length_0_conv)
qed

lemma distinct_sort_key: "distinct (map g xs) \<Longrightarrow> distinct (map g (sort_key f xs))"
proof -
  have "mset (map g (sort_key f xs)) = mset (map g xs)" by simp
  then show "distinct (map g xs) \<Longrightarrow> distinct (map g (sort_key f xs))" by (metis mset_eq_imp_distinct_iff)
qed

lemma first_rerun_Some:
  assumes "first_rerun i d = Some k"
  shows "\<exists>r \<in> set (db_runs d). run_id r = k \<and> run_rerun_source r = Some i"
proof -
  let ?rs = "sort_key (\<lambda>r. (run_created_at r, run_id r)) (filter (\<lambda>r. run_rerun_source r = Some i) (db_runs d))"
  obtain r rs where c: "?rs = r # rs" "k = run_id r"
    using assms by (auto simp: first_rerun_def split: list.splits)
  have "set ?rs = {r \<in> set (db_runs d). run_rerun_source r = Some i}" by simp
  then have "r \<in> set (db_runs d)" "run_rerun_source r = Some i" using c(1) by auto
  with c(2) show ?thesis by blast
qed

lemma first_rerun_None: "first_rerun i d = None \<longleftrightarrow> filter (\<lambda>r. run_rerun_source r = Some i) (db_runs d) = []"
proof -
  let ?rs = "filter (\<lambda>r. run_rerun_source r = Some i) (db_runs d)"
  have "sort_key (\<lambda>r. (run_created_at r, run_id r)) ?rs = [] \<longleftrightarrow> ?rs = []" using sort_key_Nil by blast
  then show ?thesis unfolding first_rerun_def by (cases "sort_key (\<lambda>r. (run_created_at r, run_id r)) ?rs") simp_all
qed

lemma retry_run_Inr:
  assumes "retry_run lims f now p i d = Inr (k, d')"
  shows "\<exists>x src. find_project p d = Some x \<and> find_run i d = Some src \<and> run_id src = i \<and> run_project_id src = p \<and>
     run_status src \<in> {Failed, Cancelled} \<and>
     (case generation_jobs i d of [j] \<Rightarrow> job_status j = run_status src | _ \<Rightarrow> False) \<and>
     (case first_rerun i d of Some e \<Rightarrow> k = e \<and> d' = d | None \<Rightarrow> replay_run lims f now x src d = Inr (k, d'))"
proof -
  obtain x src where x: "find_project p d = Some x" and src: "find_run i d = Some src" "run_project_id src = p"
    using assms by (auto simp: retry_run_def require_project_def project_run_def bindE_Inr_iff split: option.splits if_splits)
  have "run_id src = i" using find_run_Some[OF src(1)] by simp
  then show ?thesis using assms x src
    by (auto simp: retry_run_def require_project_def project_run_def split: option.splits if_splits)
qed

text \<open>The run that a replay of \<open>src\<close> creates.\<close>

definition replayed :: "uuid \<Rightarrow> time \<Rightarrow> run \<Rightarrow> run \<Rightarrow> bool" where
  "replayed k now src r \<longleftrightarrow> run_id r = k \<and> run_rerun_source r = Some (run_id src) \<and> run_project_id r = run_project_id src \<and>
     run_mode r = run_mode src \<and> run_seed r = run_seed src \<and> run_working_srid r = run_working_srid src \<and>
     run_schema_version r = run_schema_version src \<and> run_commit_sha r = run_commit_sha src \<and> run_status r = Queued \<and>
     run_created_at r = now \<and> set (run_dataset_versions r) = set (run_dataset_versions src)"

lemma replay_run_Inr:
  assumes "replay_run lims f now x src d = Inr (k, d')" and p: "project_id x = run_project_id src" and wf: "wf_db d"
  shows "k = fresh_run f \<and> (\<exists>r. replayed k now src r \<and> wf_db d' \<and>
     d' = add_rows [r] [generation_job (fresh_job f) r] [generation_message (fresh_message f) (fresh_job f) now r] d)"
proof -
  obtain config versions where e: "run_versions (project_id x) (run_dataset_versions src) d = Inr versions" "k = fresh_run f"
    "enqueue_run (fresh_job f) (fresh_message f) now
          (new_run (fresh_run f) (project_id x) (Some (run_id src)) (run_mode src) (run_seed src) (run_working_srid src)
             config (run_schema_version src) (run_commit_sha src) now versions) d = Inr d'"
    using assms(1) by (auto simp: replay_run_def bindE_Inr_iff split: if_splits)
  let ?r = "new_run (fresh_run f) (project_id x) (Some (run_id src)) (run_mode src) (run_seed src) (run_working_srid src)
             config (run_schema_version src) (run_commit_sha src) now versions"
  have v: "versions = ready_versions (project_id x) (run_dataset_versions src) d" "distinct (run_dataset_versions src)"
    "length versions = length (run_dataset_versions src)"
    using e(1) by (auto simp: run_versions_def split: if_splits)
  have "set (map version_id versions) \<subseteq> set (run_dataset_versions src)" by (auto simp: v(1) ready_versions_def)
  moreover have "distinct (map version_id versions)"
    unfolding v(1) ready_versions_def
    by (rule distinct_sort_key, rule distinct_map_filter) (rule wf_pks(2)[OF wf])
  ultimately have "set (map version_id versions) = set (run_dataset_versions src)"
    using v(2,3) by (metis List.finite_set card_subset_eq distinct_card length_map)
  then have "replayed k now src ?r" using e(2) p by (simp add: replayed_def new_run_def)
  moreover have "d' = add_rows [?r] [generation_job (fresh_job f) ?r] [generation_message (fresh_message f) (fresh_job f) now ?r] d " 
    using conjunct2[OF enqueue_run_Inr[OF e(3)]] by (simp add: add_rows_def add_outbox_def add_job_def add_run_def)
  moreover have "wf_db d'" by (rule conjunct1[OF enqueue_run_Inr[OF e(3)]])
  ultimately show ?thesis using e(2) by blast
qed

text \<open>
  C24. Manual retry is idempotent and faithful: it leaves the source run as it was, returns a run
  linked to it, and every repetition, with whatever new UUIDs and at whatever time, returns the
  same run and writes nothing. A newly created retry has the source's mode, seed, SRID, schema,
  commit and dataset versions, and is queued.
\<close>

theorem retry_run_idempotent:
  assumes reach: "reachable hexdigest lims d" and res: "retry_run lims f now p i d = Inr (k, d')"
  shows "find_run i d' = find_run i d \<and>
     (\<forall>f' now'. retry_run lims f' now' p i d' = Inr (k, d')) \<and>
     (\<exists>src r. find_run i d = Some src \<and> find_run k d' = Some r \<and> run_rerun_source r = Some i \<and>
        (first_rerun i d = None \<longrightarrow> replayed k now src r))"
proof -
  have lc: "lifecycle d" using reach by (rule reachable_inv)
  have wf: "wf_db d" using lc by (rule lifecycle_wf)
  obtain x src where r: "find_project p d = Some x" "find_run i d = Some src" "run_id src = i" "run_project_id src = p"
    "run_status src \<in> {Failed, Cancelled}" "case generation_jobs i d of [j] \<Rightarrow> job_status j = run_status src | _ \<Rightarrow> False"
    "case first_rerun i d of Some e \<Rightarrow> k = e \<and> d' = d | None \<Rightarrow> replay_run lims f now x src d = Inr (k, d')"
    using retry_run_Inr[OF res] by blast
  have px: "project_id x = p" using lookup_Some[OF r(1)[unfolded find_project_def]] by blast
  show ?thesis
  proof (cases "first_rerun i d")
    case (Some e)
    then have k: "k = e" "d' = d" using r(7) by simp_all
    obtain q where q: "q \<in> set (db_runs d)" "run_id q = k" "run_rerun_source q = Some i"
      using first_rerun_Some[OF Some] k(1) by blast
    have "find_run k d = Some q" using find_run_iff[OF wf] q by blast
    moreover have "retry_run lims f' now' p i d = Inr (k, d)" for f' now'
      using r Some k by (simp add: retry_run_def require_project_def project_run_def)
    ultimately show ?thesis using k r(2) q(3) Some by simp
  next
    case None
    then have "replay_run lims f now x src d = Inr (k, d')" using r(7) by simp
    then obtain q where q: "k = fresh_run f" "replayed k now src q" "wf_db d'"
      "d' = add_rows [q] [generation_job (fresh_job f) q] [generation_message (fresh_message f) (fresh_job f) now q] d"
      using replay_run_Inr[OF _ _ wf, of lims f now x src k d'] px[folded r(4)] by blast
    have qk: "run_id q = k" "run_rerun_source q = Some i" using q(2) r(3) by (simp_all add: replayed_def)
    have new: "k \<notin> run_id ` set (db_runs d)" using wf_pks(4)[OF q(3)] by (simp add: q(4) add_rows_def qk)
    have runs: "db_runs d' = db_runs d @ [q]" by (simp add: q(4) add_rows_def)
    have fi: "find_run i d' = Some src" using r(2) by (simp add: find_run_def runs lookup_append)
    have fk: "find_run k d' = Some q" using find_run_iff[OF q(3)] qk by (simp add: runs)
    have ne: "k \<noteq> i" using new find_run_Some[OF r(2)] by auto
    have jobs: "generation_jobs i d' = generation_jobs i d"
      using ne qk(1) by (simp add: generation_jobs_def q(4) add_rows_def generation_job_def)
    have "filter (\<lambda>r. run_rerun_source r = Some i) (db_runs d') = [q]"
      using None qk(2) by (simp add: runs first_rerun_None)
    then have fr: "first_rerun i d' = Some k" using qk(1) by (simp add: first_rerun_def)
    have "find_project p d' = Some x" using r(1) by (simp add: find_project_def q(4) add_rows_def)
    then have "retry_run lims f' now' p i d' = Inr (k, d')" for f' now'
      using r(3-6) fi jobs fr by (simp add: retry_run_def require_project_def project_run_def)
    then show ?thesis using fi fk r(2) qk(2) q(2) by simp
  qed
qed

definition demo_cancelled_db :: db where
  "demo_cancelled_db = set_job (cancel_job_row (Some ''queued'') 150 ((generation_job 11 demo_new_run)\<lparr>job_cancel_requested_at := Some 150\<rparr>))
     (set_run (cancel_run_row (Some ''queued'') 150 demo_new_run) demo_queued_db)"

lemma demo_cancelled_reachable: "reachable h wide_limits demo_cancelled_db"
proof -
  have "request_cancel 10 150 demo_queued_db = Inr (True, demo_cancelled_db)"
    unfolding request_cancel_eq(1)[OF reachable_inv[OF demo_queued_reachable] demo_find] demo_cancelled_db_def
    by (simp add: demo_new_run_def new_run_def terminal_def generation_job_def)
  then show ?thesis
    by (intro reachable.step[OF demo_queued_reachable, of _ "RequestCancel 10 150"]) (simp add: new_db_def)
qed

lemma demo_retry: "returned (retry_run wide_limits \<lparr>fresh_run = 110, fresh_job = 111, fresh_message = 112\<rparr> 160 1 10 demo_cancelled_db)"
  by code_simp

theorem retry_run_idempotent_witness:
  "\<exists>k d'. retry_run wide_limits \<lparr>fresh_run = 110, fresh_job = 111, fresh_message = 112\<rparr> 160 1 10 demo_cancelled_db = Inr (k, d') \<and>
     retry_run wide_limits \<lparr>fresh_run = 120, fresh_job = 121, fresh_message = 122\<rparr> 170 1 10 d' = Inr (k, d')"
proof -
  obtain k d' where res: "retry_run wide_limits \<lparr>fresh_run = 110, fresh_job = 111, fresh_message = 112\<rparr> 160 1 10 demo_cancelled_db = Inr (k, d')"
    using demo_retry by (auto simp: returned_iff)
  show ?thesis using retry_run_idempotent[OF demo_cancelled_reachable res] res by blast
qed

subsection \<open>Progress reads\<close>

text \<open>The indexing loop succeeds when every job has its run, of the project, and no run has two.\<close>

lemma index_jobs_ok:
  assumes "\<forall>j \<in> set js. job_project_id j = p \<and> (\<exists>i. job_run_id j = Some i \<and> m i = None)" and "distinct (map job_run_id js)"
  shows "\<exists>m'. index_jobs p m js = Inr m' \<and> (\<forall>j \<in> set js. m' (the (job_run_id j)) = Some j) \<and>
     (\<forall>i. Some i \<notin> job_run_id ` set js \<longrightarrow> m' i = m i)"
  using assms
proof (induction js arbitrary: m)
  case (Cons j js)
  then obtain i where i: "job_run_id j = Some i" "m i = None" "job_project_id j = p" by auto
  have all: "\<forall>q \<in> set js. job_project_id q = p \<and> (\<exists>k. job_run_id q = Some k \<and> (m(i \<mapsto> j)) k = None)"
  proof
    fix q assume q: "q \<in> set js"
    then obtain k where k: "job_run_id q = Some k" "m k = None" "job_project_id q = p" using Cons.prems(1) by auto
    have "job_run_id q \<noteq> job_run_id j" using Cons.prems(2) q by (auto simp: image_iff)
    then have "k \<noteq> i" using i(1) k(1) by simp
    then show "job_project_id q = p \<and> (\<exists>k. job_run_id q = Some k \<and> (m(i \<mapsto> j)) k = None)" using k by simp
  qed
  have di: "distinct (map job_run_id js)" using Cons.prems(2) by simp
  then obtain m' where m': "index_jobs p (m(i \<mapsto> j)) js = Inr m'" "\<forall>q \<in> set js. m' (the (job_run_id q)) = Some q"
    "\<forall>k. Some k \<notin> job_run_id ` set js \<longrightarrow> m' k = (m(i \<mapsto> j)) k"
    using Cons.IH[OF all di] by blast
  have "m' i = Some j" using m'(3) Cons.prems(2) i(1) by simp
  then show ?case using m' i by (auto simp: image_iff)
qed simp

lemma runs_jobs_set: "set (runs_jobs ids d) = (\<Union>i \<in> set ids. set (generation_jobs i d))"
  by (auto simp: runs_jobs_def generation_jobs_def split: option.splits)

lemma distinct_runs_jobs:
  assumes wf: "wf_db d" and one: "\<And>i. i \<in> set ids \<Longrightarrow> \<exists>j. generation_jobs i d = [j]"
  shows "distinct (map job_run_id (runs_jobs ids d))"
proof -
  have "distinct (db_jobs d)" using wf_pks(5)[OF wf] by (simp add: distinct_map)
  then have "distinct (runs_jobs ids d)" by (simp add: runs_jobs_def)
  moreover have "inj_on job_run_id (set (runs_jobs ids d))"
  proof (rule inj_onI)
    fix a b assume ab: "a \<in> set (runs_jobs ids d)" "b \<in> set (runs_jobs ids d)" "job_run_id a = job_run_id b"
    then obtain i k where ik: "i \<in> set ids" "a \<in> set (generation_jobs i d)" "k \<in> set ids" "b \<in> set (generation_jobs k d)"
      unfolding runs_jobs_set by blast
    then have "i = k" using generation_jobs_mem ab(3) by fastforce
    then show "a = b" using one[OF ik(1)] ik by auto
  qed
  ultimately show ?thesis by (simp add: distinct_map)
qed

lemma project_runs_ok:
  assumes lc: "lifecycle d" and rs: "\<forall>r \<in> set rs. r \<in> set (db_runs d) \<and> run_project_id r = p"
  shows "project_runs p rs d = Inr (map (\<lambda>r. snapshot r (Some (hd (generation_jobs (run_id r) d))) (run_progress (run_id r) d)) rs)"
proof (cases "rs = []")
  case False
  have one: "\<exists>j. generation_jobs (run_id r) d = [j] \<and> lifecycle_ok r j (stage_rows (run_id r) d)" if "r \<in> set rs" for r
    using lc rs that by (auto simp: lifecycle_def list_all_iff run_ok_iff)
  let ?js = "runs_jobs (map run_id rs) d"
  have "job_project_id j = p \<and> (\<exists>i. job_run_id j = Some i \<and> Map.empty i = None)" if j: "j \<in> set ?js" for j
  proof -
    obtain r where r: "r \<in> set rs" "j \<in> set (generation_jobs (run_id r) d)" using j unfolding runs_jobs_set by auto
    then show ?thesis using one[OF r(1)] generation_jobs_mem[OF r(2)] rs by (auto simp: lifecycle_ok_def)
  qed
  moreover have "distinct (map job_run_id ?js)"
    by (rule distinct_runs_jobs[OF lifecycle_wf[OF lc]]) (use one in auto)
  ultimately obtain m where m: "index_jobs p Map.empty ?js = Inr m" "\<forall>j \<in> set ?js. m (the (job_run_id j)) = Some j"
    using index_jobs_ok[of ?js p Map.empty] by blast
  have "m (run_id r) = Some (hd (generation_jobs (run_id r) d))" if r: "r \<in> set rs" for r
  proof -
    obtain j where j: "generation_jobs (run_id r) d = [j]" using one[OF r] by blast
    have "j \<in> (\<Union>i \<in> set (map run_id rs). set (generation_jobs i d))"
      by (rule UN_I[of "run_id r"]) (use r j in simp_all)
    then have "m (the (job_run_id j)) = Some j" using m(2) unfolding runs_jobs_set by blast
    moreover have "job_run_id j = Some (run_id r)" using generation_jobs_mem[of j "run_id r" d] j by simp
    ultimately show ?thesis by (simp add: j)
  qed
  then show ?thesis using False m(1) by (simp add: project_runs_def)
qed (simp add: project_runs_def)

text \<open>The runs of a project, newest first.\<close>

definition newest_runs :: "uuid \<Rightarrow> db \<Rightarrow> run list" where
  "newest_runs p d = rev (sort_key (\<lambda>r. (run_created_at r, run_id r)) (filter (\<lambda>r. run_project_id r = p) (db_runs d)))"

text \<open>
  C25. On a reachable database the progress reads never conflict: \<open>list\<close> returns the newest runs
  of the project, at most \<open>limit\<close> of them, says exactly when there are more, and shows each run
  with its single job, whose state is the run's.
\<close>

theorem control_list_result:
  assumes "reachable hexdigest lims d" and "find_project p d \<noteq> None" and "1 \<le> limit" "limit \<le> 100"
  shows "\<exists>res. control_list p limit d = Inr res \<and>
     map rr_id (rl_runs res) = map run_id (take (nat limit) (newest_runs p d)) \<and>
     (rl_truncated res \<longleftrightarrow> int (length (newest_runs p d)) > limit) \<and>
     (\<forall>s \<in> set (rl_runs res). \<exists>j. rr_job s = Some j \<and> rj_status j = rr_status s \<and> rr_project_id s = p)"
proof -
  have lc: "lifecycle d" using assms(1) by (rule reachable_inv)
  let ?rows = "take (nat (limit + 1)) (newest_runs p d)" and ?shown = "take (nat limit) (newest_runs p d)"
  have tt: "take (nat limit) ?rows = ?shown" using assms(3) by (simp add: min_def)
  have mem: "r \<in> set (db_runs d) \<and> run_project_id r = p" if "r \<in> set ?shown" for r
    using in_set_takeD[OF that] by (simp add: newest_runs_def)
  have pr: "project_runs p ?shown d = Inr (map (\<lambda>r. snapshot r (Some (hd (generation_jobs (run_id r) d))) (run_progress (run_id r) d)) ?shown)"
    using mem by (intro project_runs_ok[OF lc]) blast
  have job: "\<exists>j. rr_job s = Some j \<and> rj_status j = rr_status s \<and> rr_project_id s = p"
    if s: "s = snapshot r (Some (hd (generation_jobs (run_id r) d))) (run_progress (run_id r) d)" "r \<in> set ?shown" for s r
  proof -
    obtain j where "generation_jobs (run_id r) d = [j]" "lifecycle_ok r j (stage_rows (run_id r) d)"
      using lc mem[OF s(2)] by (auto simp: lifecycle_def list_all_iff run_ok_iff)
    then show ?thesis using mem[OF s(2)] by (simp add: s(1) snapshot_def job_read_def lifecycle_ok_def)
  qed
  have "control_list p limit d = Inr \<lparr>rl_project_id = p, rl_limit = limit, rl_truncated = (int (length ?rows) > limit),
      rl_runs = map (\<lambda>r. snapshot r (Some (hd (generation_jobs (run_id r) d))) (run_progress (run_id r) d)) ?shown\<rparr>"
    using assms(2-4) pr tt unfolding control_list_def newest_runs_def[symmetric] Let_def
    by (auto simp: require_project_def split: option.split)
  moreover have "int (length ?rows) > limit \<longleftrightarrow> int (length (newest_runs p d)) > limit" using assms(3) by (simp add: min_def) linarith
  ultimately show ?thesis using job by (auto simp: snapshot_def)
qed

theorem control_list_result_witness:
  "\<exists>res. control_list 1 50 demo_running_db = Inr res \<and> map rr_id (rl_runs res) = [10] \<and> \<not> rl_truncated res"
proof -
  have 1: "find_project 1 demo_running_db \<noteq> None" by code_simp
  have 2: "newest_runs 1 demo_running_db = [start_run 210 demo_new_run]" by code_simp
  have 3: "run_id (start_run 210 demo_new_run) = 10" by code_simp
  show ?thesis using control_list_result[OF demo_running_reachable 1, of 50] by (auto simp: 2 3)
qed

end
