(* ===== verification/Effects.thy ===== *)
theory Effects
  imports Errors
begin

text \<open>
  Python calls with effects, for the services that are written against a port: a call on a state
  of any type, sequencing, and the predicates of the state that a program keeps.
\<close>

subsection \<open>Python statements with effects\<close>

text \<open>A call reads and changes the state, and returns a value or raises.\<close>

type_synonym ('s, 'a) prog = "'s \<Rightarrow> (exc + 'a) \<times> 's"

definition ret :: "'a \<Rightarrow> ('s, 'a) prog" where
  "ret x s = (Inr x, s)"

definition raise :: "exc \<Rightarrow> ('s, 'a) prog" where
  "raise e s = (Inl e, s)"

definition pure :: "exc + 'a \<Rightarrow> ('s, 'a) prog" where
  "pure m s = (m, s)"

definition thenP :: "('s, 'a) prog \<Rightarrow> ('a \<Rightarrow> ('s, 'b) prog) \<Rightarrow> ('s, 'b) prog" where
  "thenP m f s = (case m s of (Inl e, s') \<Rightarrow> (Inl e, s') | (Inr x, s') \<Rightarrow> f x s')"

subsection \<open>Programs that keep a predicate of the state\<close>

definition keeps :: "('s \<Rightarrow> bool) \<Rightarrow> ('s, 'a) prog \<Rightarrow> bool" where
  "keeps P m \<longleftrightarrow> (\<forall>s. P s \<longrightarrow> P (snd (m s)))"

lemma keeps_basic [simp]: "keeps P (ret x)" "keeps P (raise e)" "keeps P (pure m)"
  by (simp_all add: keeps_def ret_def raise_def pure_def)

lemma keeps_thenP: "keeps P m \<Longrightarrow> (\<And>x. keeps P (f x)) \<Longrightarrow> keeps P (thenP m f)"
  by (auto simp: keeps_def thenP_def split: prod.splits sum.splits)

lemma keepsI: "(\<And>s r s'. P s \<Longrightarrow> m s = (r, s') \<Longrightarrow> P s') \<Longrightarrow> keeps P m"
  by (metis keeps_def prod.collapse)

lemma thenP_eq:
  "thenP m f s = (r, s') \<Longrightarrow> (\<exists>e. m s = (Inl e, s') \<and> r = Inl e) \<or> (\<exists>x t. m s = (Inr x, t) \<and> f x t = (r, s'))"
  by (auto simp: thenP_def split: prod.splits sum.splits)

lemma thenP_cong: "(\<And>x t. m s = (Inr x, t) \<Longrightarrow> f x t = g x t) \<Longrightarrow> thenP m f s = thenP m g s"
  by (auto simp: thenP_def split: prod.splits sum.splits)

end
