(* ===== verification/Generation_Service.thy ===== *)
theory Generation_Service
  imports Generation_State Effects
begin

text \<open>
  The worker's service of \<open>backend/app/application/generation.py\<close>: claim a run, execute the plan of
  its registry stage by stage against the state store, and record success, failure or
  cancellation. The store is the port \<open>GenerationStateStore\<close> (a record of operations over a state
  of any type); the runtime's stages, resolver and configurations are parameters; an operation that
  raises keeps the effects it had.
\<close>

subsection \<open>Ports\<close>

record ('s, 'v, 'o) state_store =
  st_claim :: "uuid \<Rightarrow> ('s, claim_disposition) prog"
  st_check_cancelled :: "uuid \<Rightarrow> ('s, unit) prog"
  st_cancel_stage :: "uuid \<Rightarrow> string \<Rightarrow> ('s, unit) prog"
  st_cancel_run :: "uuid \<Rightarrow> string option \<Rightarrow> ('s, unit) prog"
  st_resolve_identity :: "uuid \<Rightarrow> stage \<Rightarrow> 'v stage_invocation \<Rightarrow> ('s, checkpoint_identity) prog"
  st_start_stage :: "uuid \<Rightarrow> checkpoint_identity \<Rightarrow> ('s, unit) prog"
  st_complete_stage :: "uuid \<Rightarrow> string \<Rightarrow> 'o stage_result \<Rightarrow> ('s, unit) prog"
  st_skip_stage :: "uuid \<Rightarrow> stage \<Rightarrow> skip_reason \<Rightarrow> string list \<Rightarrow> ('s, unit) prog"
  st_fail_stage :: "uuid \<Rightarrow> string \<Rightarrow> ('s, unit) prog"
  st_complete_run :: "uuid \<Rightarrow> string list \<Rightarrow> ('s, unit) prog"
  st_fail_run :: "uuid \<Rightarrow> string option \<Rightarrow> ug_error \<Rightarrow> ('s, int option) prog"

text \<open>
  The assembled runtime: the run its context belongs to, the resolved configurations, the
  registry, and the code of the stages and of the input resolver.
\<close>

record ('c, 'v, 'i, 'o) runtime =
  rt_run_id :: uuid
  rt_configs :: "(string \<times> 'c) list"
  rt_registry :: "stage list"
  rt_skip_stages :: "string list"
  rt_resolve :: "stage \<Rightarrow> 'c \<Rightarrow> (string \<rightharpoonup> 'o) \<Rightarrow> exc + 'v stage_invocation"
  rt_validate_input :: "stage \<Rightarrow> 'v \<Rightarrow> exc + 'i"
  rt_execute :: "stage \<Rightarrow> 'i \<Rightarrow> 'c \<Rightarrow> exc + 'o stage_result"

record execution_result =
  ex_run_id :: uuid
  ex_status :: string
  ex_succeeded :: "string list"
  ex_skipped :: "string list"

subsection \<open>The service\<close>

text \<open>The local variables of \<open>run\<close> that its exception handlers read.\<close>

record 'o locals =
  active_stage :: "string option"
  succeeded :: "string list"
  skipped :: "string list"
  completed :: "string \<rightharpoonup> 'o"

definition no_locals :: "'o locals" where
  "no_locals = \<lparr>active_stage = None, succeeded = [], skipped = [], completed = Map.empty\<rparr>"

definition call :: "('s, 'a) prog \<Rightarrow> ('s \<times> 'l, 'a) prog" where
  "call m = (\<lambda>(s, l). let (r, s') = m s in (r, (s', l)))"

definition assign :: "('l \<Rightarrow> 'l) \<Rightarrow> ('s \<times> 'l, unit) prog" where
  "assign f = (\<lambda>(s, l). (Inr (), (s, f l)))"

definition get_locals :: "('s \<times> 'l, 'l) prog" where
  "get_locals = (\<lambda>(s, l). (Inr l, (s, l)))"

definition skip_entry ::
  "('s, 'v, 'o) state_store \<Rightarrow> uuid \<Rightarrow> plan_entry \<Rightarrow> skip_reason \<Rightarrow> ('s \<times> 'o locals, unit) prog" where
  "skip_entry st i e reason =
     thenP (call (st_skip_stage st i (entry_stage e) reason (entry_blocked e))) (\<lambda>_.
     assign (\<lambda>l. l\<lparr>skipped := skipped l @ [stage_name (entry_stage e)], active_stage := None\<rparr>))"

definition execute_entry ::
  "('s, 'v, 'o) state_store \<Rightarrow> ('c, 'v, 'i, 'o) runtime \<Rightarrow> uuid \<Rightarrow> stage \<Rightarrow> ('s \<times> 'o locals, unit) prog" where
  "execute_entry st rt i s =
     (case map_of (rt_configs rt) (stage_name s) of
        None \<Rightarrow> raise (gen_error (''resolved config is missing for stage: '' @ stage_name s))
      | Some config \<Rightarrow>
          thenP get_locals (\<lambda>l.
          thenP (pure (rt_resolve rt s config (completed l))) (\<lambda>invocation.
          thenP (pure (rt_validate_input rt s (inv_stage_input invocation))) (\<lambda>stage_input.
          thenP (call (st_resolve_identity st i s invocation)) (\<lambda>identity.
          if cp_stage identity \<noteq> stage_name s \<or> cp_version identity \<noteq> stage_version s
          then raise (gen_error (''checkpoint identity does not match stage: '' @ stage_name s))
          else
            thenP (call (st_start_stage st i identity)) (\<lambda>_.
            thenP (pure (rt_execute rt s stage_input config)) (\<lambda>result.
            thenP (call (st_check_cancelled st i)) (\<lambda>_.
            thenP (call (st_complete_stage st i (stage_name s) result)) (\<lambda>_.
            assign (\<lambda>l. l\<lparr>completed := (completed l)(stage_name s \<mapsto> res_output result),
              succeeded := succeeded l @ [stage_name s], active_stage := None\<rparr>))))))))))"

fun run_plan ::
  "('s, 'v, 'o) state_store \<Rightarrow> ('c, 'v, 'i, 'o) runtime \<Rightarrow> uuid \<Rightarrow> plan_entry list \<Rightarrow> ('s \<times> 'o locals, unit) prog" where
  "run_plan st rt i [] = ret ()"
| "run_plan st rt i (e # es) =
     thenP (assign (\<lambda>l. l\<lparr>active_stage := Some (stage_name (entry_stage e))\<rparr>)) (\<lambda>_.
     thenP (call (st_check_cancelled st i)) (\<lambda>_.
     thenP (case entry_skip e of
              Some reason \<Rightarrow> skip_entry st i e reason
            | None \<Rightarrow> execute_entry st rt i (entry_stage e)) (\<lambda>_.
     run_plan st rt i es)))"

text \<open>The body of the outer \<open>try\<close>.\<close>

definition attempt ::
  "('s, 'v, 'o) state_store \<Rightarrow> (uuid \<Rightarrow> exc + ('c, 'v, 'i, 'o) runtime) \<Rightarrow> uuid \<Rightarrow> ('s \<times> 'o locals, unit) prog" where
  "attempt st factory i =
     thenP (call (st_check_cancelled st i)) (\<lambda>_.
     thenP (pure (factory i)) (\<lambda>rt.
     if rt_run_id rt \<noteq> i
     then raise (gen_error ''assembled PipelineContext belongs to another run'')
     else
       thenP (pure (build_plan (rt_registry rt) (rt_skip_stages rt))) (\<lambda>plan.
       thenP (run_plan st rt i plan) (\<lambda>_.
       thenP (call (st_check_cancelled st i)) (\<lambda>_.
       call (st_complete_run st i (map (\<lambda>e. stage_name (entry_stage e)) plan)))))))"

definition cancelled_result ::
  "('s, 'v, 'o) state_store \<Rightarrow> uuid \<Rightarrow> 'o locals \<Rightarrow> ('s, execution_result) prog" where
  "cancelled_result st i l =
     thenP (case active_stage l of Some n \<Rightarrow> st_cancel_stage st i n | None \<Rightarrow> ret ()) (\<lambda>_.
     thenP (st_cancel_run st i (active_stage l)) (\<lambda>_.
     ret \<lparr>ex_run_id = i, ex_status = ''cancelled'', ex_succeeded = succeeded l, ex_skipped = skipped l\<rparr>))"

definition recorded_error :: "exc \<Rightarrow> ug_error" where
  "recorded_error e =
     (case e of
        UrbanError u \<Rightarrow> u
      | _ \<Rightarrow> \<lparr>err_class = PermanentError, err_message = ''generation execution failed'', err_details = []\<rparr>)"

text \<open>\<open>raise GenerationRetryScheduled(n)\<close>: its constructor wants a positive delay.\<close>

definition retry_scheduled :: "int \<Rightarrow> exc" where
  "retry_scheduled n = (if n < 1 then ValueError ''retry delay must be a positive integer'' else GenerationRetryScheduled n)"

definition failed_result ::
  "('s, 'v, 'o) state_store \<Rightarrow> uuid \<Rightarrow> 'o locals \<Rightarrow> exc \<Rightarrow> ('s, execution_result) prog" where
  "failed_result st i l e s =
     (case thenP (st_check_cancelled st i) (\<lambda>_.
           thenP (case active_stage l of Some n \<Rightarrow> st_fail_stage st i n | None \<Rightarrow> ret ()) (\<lambda>_.
           st_fail_run st i (active_stage l) (recorded_error e))) s of
        (Inl x, s') \<Rightarrow> if is_cancelled_exc x then cancelled_result st i l s' else (Inl x, s')
      | (Inr (Some n), s') \<Rightarrow> (Inl (retry_scheduled n), s')
      | (Inr None, s') \<Rightarrow> (Inl (gen_error (''generation execution failed at stage: '' @
           (case active_stage l of Some n \<Rightarrow> if n = [] then ''assembly'' else n | None \<Rightarrow> ''assembly''))), s'))"

definition started_run ::
  "('s, 'v, 'o) state_store \<Rightarrow> (uuid \<Rightarrow> exc + ('c, 'v, 'i, 'o) runtime) \<Rightarrow> uuid \<Rightarrow> ('s, execution_result) prog" where
  "started_run st factory i s =
     (case attempt st factory i (s, no_locals) of
        (Inr _, (s', l)) \<Rightarrow>
          (Inr \<lparr>ex_run_id = i, ex_status = ''succeeded'', ex_succeeded = succeeded l, ex_skipped = skipped l\<rparr>, s')
      | (Inl e, (s', l)) \<Rightarrow>
          if is_cancelled_exc e then cancelled_result st i l s' else failed_result st i l e s')"

definition run_service ::
  "('s, 'v, 'o) state_store \<Rightarrow> (uuid \<Rightarrow> exc + ('c, 'v, 'i, 'o) runtime) \<Rightarrow> uuid \<Rightarrow> ('s, execution_result) prog" where
  "run_service st factory i =
     thenP (st_claim st i) (\<lambda>disposition.
     case disposition of
       ALREADY_SUCCEEDED \<Rightarrow> ret \<lparr>ex_run_id = i, ex_status = ''already_succeeded'', ex_succeeded = [], ex_skipped = []\<rparr>
     | IN_PROGRESS \<Rightarrow> ret \<lparr>ex_run_id = i, ex_status = ''in_progress'', ex_succeeded = [], ex_skipped = []\<rparr>
     | CLAIM_CANCELLED \<Rightarrow> ret \<lparr>ex_run_id = i, ex_status = ''cancelled'', ex_succeeded = [], ex_skipped = []\<rparr>
     | STARTED \<Rightarrow> started_run st factory i)"

subsection \<open>The queue task\<close>

text \<open>
  \<open>run_generation\<close> of \<open>worker/tasks.py\<close>, after \<open>uuid.UUID\<close> parsed its argument: without a runtime
  factory the run is failed by \<open>_fail_unconfigured_generation\<close>; \<open>ArqRetry n\<close> asks the queue to
  deliver the task again after \<open>n\<close> seconds.
\<close>

fun disposition_value :: "claim_disposition \<Rightarrow> string" where
  "disposition_value STARTED = ''started''"
| "disposition_value ALREADY_SUCCEEDED = ''already_succeeded''"
| "disposition_value IN_PROGRESS = ''in_progress''"
| "disposition_value CLAIM_CANCELLED = ''cancelled''"

definition unconfigured_error :: ug_error where
  "unconfigured_error = \<lparr>err_class = ConfigError, err_message = ''generation runtime is not configured in this worker'',
     err_details = [(''component'', ''generation_runtime_factory'')]\<rparr>"

definition fail_unconfigured :: "('s, 'v, 'o) state_store \<Rightarrow> uuid \<Rightarrow> ('s, claim_disposition) prog" where
  "fail_unconfigured st i =
     thenP (st_claim st i) (\<lambda>disposition.
     thenP (if disposition = STARTED then thenP (st_fail_run st i None unconfigured_error) (\<lambda>_. ret ()) else ret ()) (\<lambda>_.
     ret disposition))"

text \<open>The exception the task raises for one of the service.\<close>

definition task_error :: "uuid \<Rightarrow> exc \<Rightarrow> exc" where
  "task_error i e =
     (case e of
        GenerationRetryScheduled n \<Rightarrow> ArqRetry n
      | _ \<Rightarrow> if is_generation_error e then GenerationTaskFailed (''generation run '' @ uuid_str i @ '' failed'') else e)"

definition run_generation ::
  "('s, 'v, 'o) state_store \<Rightarrow> (uuid \<Rightarrow> exc + ('c, 'v, 'i, 'o) runtime) option \<Rightarrow> uuid \<Rightarrow> ('s, execution_result) prog" where
  "run_generation st factory i s =
     (case factory of
        None \<Rightarrow>
          (case fail_unconfigured st i s of
             (Inl e, s') \<Rightarrow> (Inl (case e of GenerationRetryScheduled n \<Rightarrow> ArqRetry n | _ \<Rightarrow> e), s')
           | (Inr disposition, s') \<Rightarrow>
               if disposition \<noteq> STARTED
               then (Inr \<lparr>ex_run_id = i, ex_status = disposition_value disposition, ex_succeeded = [], ex_skipped = []\<rparr>, s')
               else (Inl (GenerationTaskConfigurationError
                      ''generation_runtime_factory must supply typed stage/config/input composition''), s'))
      | Some f \<Rightarrow>
          (case run_service st f i s of
             (Inl e, s') \<Rightarrow> (Inl (task_error i e), s')
           | (Inr x, s') \<Rightarrow> (Inr x, s')))"

end
