(* ===== verification/Generation_Port.thy ===== *)
theory Generation_Port
  imports Generation_Service
begin

text \<open>
  The contract of the state-store port and what the service guarantees on every store that keeps
  it: a run the worker has started is settled when the service returns or raises. And, on any store
  at all, a stage is only resolved with the outputs of all its dependencies.
\<close>

subsection \<open>Calls and local variables\<close>

lemma keeps_locals [simp]: "keeps (\<lambda>(s, l). P s) (assign f)" "keeps (\<lambda>(s, l). P s) get_locals"
  by (auto simp: keeps_def assign_def get_locals_def)

lemma keeps_call: "keeps P m \<Longrightarrow> keeps (\<lambda>(s, l). P s) (call m)"
  by (auto simp: keeps_def call_def split: prod.splits)

lemma call_eq: "call m (s, l) = (r, (s', l')) \<longleftrightarrow> m s = (r, s') \<and> l' = l"
  by (auto simp: call_def split: prod.splits)

subsection \<open>The lists of stages in the result\<close>

definition entry_names :: "bool \<Rightarrow> plan_entry list \<Rightarrow> string list" where
  "entry_names b es = map (\<lambda>e. stage_name (entry_stage e)) (filter (\<lambda>e. should_execute e = b) es)"

lemma entry_names_simps [simp]:
  "entry_names b [] = []"
  "entry_names b (e # es) = (if should_execute e = b then stage_name (entry_stage e) # entry_names b es else entry_names b es)"
  by (simp_all add: entry_names_def)

lemma execute_entry_log:
  assumes "execute_entry st rt i g (s, l) = (Inr x, (s', l'))"
  shows "succeeded l' = succeeded l @ [stage_name g] \<and> skipped l' = skipped l \<and>
     dom (completed l') = insert (stage_name g) (dom (completed l))"
  using assms unfolding execute_entry_def
  by (auto simp: thenP_def raise_def pure_def get_locals_def assign_def call_def split: option.splits prod.splits sum.splits if_splits)

lemma skip_entry_log:
  assumes "skip_entry st i e reason (s, l) = (Inr x, (s', l'))"
  shows "succeeded l' = succeeded l \<and> skipped l' = skipped l @ [stage_name (entry_stage e)] \<and> completed l' = completed l"
  using assms unfolding skip_entry_def
  by (auto simp: thenP_def assign_def call_def split: prod.splits sum.splits)

lemma run_plan_step:
  assumes "run_plan st rt i (e # es) (s, l) = (Inr x, (s', l'))"
  obtains t l1 where "succeeded l1 = succeeded l @ entry_names True [e]" "skipped l1 = skipped l @ entry_names False [e]"
    "dom (completed l1) = set (entry_names True [e]) \<union> dom (completed l)" "run_plan st rt i es (t, l1) = (Inr x, (s', l'))"
proof (cases "entry_skip e")
  case None
  then show ?thesis using assms that unfolding run_plan.simps
    by (auto simp: thenP_def assign_def call_def should_execute_def split: prod.splits sum.splits dest!: execute_entry_log)
next
  case (Some reason)
  then show ?thesis using assms that unfolding run_plan.simps
    by (auto simp: thenP_def assign_def call_def should_execute_def split: prod.splits sum.splits dest!: skip_entry_log)
qed

lemma run_plan_log:
  "run_plan st rt i es (s, l) = (Inr x, (s', l')) \<Longrightarrow>
     succeeded l' = succeeded l @ entry_names True es \<and> skipped l' = skipped l @ entry_names False es"
proof (induction es arbitrary: s l)
  case (Cons e es)
  obtain t l1 where "succeeded l1 = succeeded l @ entry_names True [e]" "skipped l1 = skipped l @ entry_names False [e]"
    "run_plan st rt i es (t, l1) = (Inr x, (s', l'))"
    by (rule run_plan_step[OF Cons.prems]) blast
  with Cons.IH[OF this(3)] show ?case by (simp split: if_splits)
qed (simp add: ret_def)

subsection \<open>The contract\<close>

text \<open>
  \<open>live s\<close>: the worker's run is running. \<open>state o s\<close>: the run has the state \<open>o\<close>, or does not exist
  (\<open>None\<close>). \<open>recorded names s\<close>: the stage rows are these stages, all done.
\<close>

locale generation_store =
  fixes st :: "('s, 'v, 'o) state_store" and i :: uuid
    and ok :: "'s \<Rightarrow> bool" and state :: "status option \<Rightarrow> 's \<Rightarrow> bool" and recorded :: "string list \<Rightarrow> 's \<Rightarrow> bool"
  assumes claim_law: "ok s \<Longrightarrow> st_claim st i s = (r, s') \<Longrightarrow>
      (case r of
         Inr STARTED \<Rightarrow> state (Some Running) s'
       | Inr ALREADY_SUCCEEDED \<Rightarrow> state (Some Succeeded) s'
       | Inr IN_PROGRESS \<Rightarrow> state (Some Running) s'
       | Inr CLAIM_CANCELLED \<Rightarrow> state (Some Cancelled) s'
       | Inl e \<Rightarrow> (\<exists>n \<ge> 1. e = GenerationRetryScheduled n \<and> state (Some Queued) s') \<or>
           (\<exists>m. e = gen_error m \<and> (state (Some Failed) s' \<or> state None s')))"
    and check_law: "state (Some Running) s \<Longrightarrow> st_check_cancelled st i s = (r'', s') \<Longrightarrow>
      state (Some Running) s' \<and> (\<forall>e. r'' = Inl e \<longrightarrow> is_cancelled_exc e)"
    and identity_law: "state (Some Running) s \<Longrightarrow> st_resolve_identity st i g iv s = (r', s') \<Longrightarrow> state (Some Running) s'"
    and start_law: "state (Some Running) s \<Longrightarrow> st_start_stage st i x s = (r'', s') \<Longrightarrow> state (Some Running) s'"
    and complete_law: "state (Some Running) s \<Longrightarrow> st_complete_stage st i n res s = (r'', s') \<Longrightarrow> state (Some Running) s'"
    and skip_law: "state (Some Running) s \<Longrightarrow> st_skip_stage st i g reason blocked s = (r'', s') \<Longrightarrow> state (Some Running) s'"
    and fail_law: "state (Some Running) s \<Longrightarrow> st_fail_stage st i n s = (r'', s') \<Longrightarrow>
      state (Some Running) s' \<and> (\<forall>e. r'' = Inl e \<longrightarrow> is_cancelled_exc e)"
    and cancel_stage_law: "state (Some Running) s \<Longrightarrow> st_cancel_stage st i n s = (r'', s') \<Longrightarrow>
      state (Some Running) s' \<and> r'' = Inr ()"
    and cancel_run_law: "state (Some Running) s \<Longrightarrow> st_cancel_run st i sn s = (r'', s') \<Longrightarrow>
      state (Some Cancelled) s' \<and> r'' = Inr ()"
    and complete_run_law: "state (Some Running) s \<Longrightarrow> st_complete_run st i names s = (r'', s') \<Longrightarrow>
      (case r'' of Inl e \<Rightarrow> state (Some Running) s' | Inr _ \<Rightarrow> state (Some Succeeded) s' \<and> recorded names s')"
    and fail_run_law: "state (Some Running) s \<Longrightarrow> st_fail_run st i sn u s = (d, s') \<Longrightarrow>
      (case d of
         Inl e \<Rightarrow> is_cancelled_exc e \<and> state (Some Running) s'
       | Inr (Some n) \<Rightarrow> 1 \<le> n \<and> state (Some Queued) s'
       | Inr None \<Rightarrow> state (Some Failed) s')"
begin

text \<open>Whatever raises inside the plan, the run is still running.\<close>

lemma entry_keeps: "keeps (\<lambda>(s, l). state (Some Running) s) (execute_entry st rt i g)"
  "keeps (\<lambda>(s, l). state (Some Running) s) (skip_entry st i e reason)"
proof -
  have k: "keeps (state (Some Running)) (st_resolve_identity st i g iv)" "keeps (state (Some Running)) (st_start_stage st i x)"
    "keeps (state (Some Running)) (st_complete_stage st i n res)" "keeps (state (Some Running)) (st_skip_stage st i h reason blocked)"
    "keeps (state (Some Running)) (st_check_cancelled st i)" for g iv x n res h reason blocked
    by (rule keepsI, (drule (1) identity_law start_law complete_law skip_law check_law), simp)+
  show "keeps (\<lambda>(s, l). state (Some Running) s) (skip_entry st i e reason)"
    unfolding skip_entry_def by (intro keeps_thenP keeps_call k) simp
  show "keeps (\<lambda>(s, l). state (Some Running) s) (execute_entry st rt i g)"
    unfolding execute_entry_def
    by (cases "map_of (rt_configs rt) (stage_name g)")
      (auto intro!: keeps_thenP keeps_call k)
qed

lemma plan_keeps: "keeps (\<lambda>(s, l). state (Some Running) s) (run_plan st rt i es)"
proof (induction es)
  case (Cons e es)
  have c: "keeps (state (Some Running)) (st_check_cancelled st i)" by (rule keepsI) (drule (1) check_law, simp)
  show ?case unfolding run_plan.simps
    by (intro keeps_thenP keeps_call c) (auto intro: entry_keeps Cons.IH split: option.split)
qed simp

text \<open>The body of the \<open>try\<close>: it leaves the run running, or succeeded with the whole plan recorded.\<close>

lemma attempt_law:
  assumes "state (Some Running) s" and "attempt st factory i (s, l) = (r, (s', l'))"
  shows "case r of
      Inl e \<Rightarrow> state (Some Running) s'
    | Inr _ \<Rightarrow> state (Some Succeeded) s' \<and> (\<exists>rt plan. factory i = Inr rt \<and>
        build_plan (rt_registry rt) (rt_skip_stages rt) = Inr plan \<and>
        recorded (map (\<lambda>e. stage_name (entry_stage e)) plan) s' \<and>
        succeeded l' = succeeded l @ entry_names True plan \<and> skipped l' = skipped l @ entry_names False plan)"
proof -
  have check: "state (Some Running) t \<Longrightarrow> call (st_check_cancelled st i) (t, m) = (q, (t', m')) \<Longrightarrow> state (Some Running) t' \<and> m' = m"
    for t m q t' m' using check_law by (auto simp: call_eq)
  have plan: "state (Some Running) t \<Longrightarrow> run_plan st rt i es (t, m) = (q, (t', m')) \<Longrightarrow> state (Some Running) t'"
    for rt es t m q t' m' using plan_keeps[of rt es] unfolding keeps_def by (metis (mono_tags, lifting) case_prod_conv snd_conv)
  from assms(2) obtain q t where 1: "call (st_check_cancelled st i) (s, l) = (q, (t, l))" "state (Some Running) t"
    using check[OF assms(1)] by (metis prod.exhaust_sel)
  show ?thesis
  proof (cases "(\<exists>e. r = Inl e) \<and> s' = t")
    case True
    then show ?thesis using 1(2) by auto
  next
    case False
    then obtain rt plan x u m where 2: "factory i = Inr rt" "build_plan (rt_registry rt) (rt_skip_stages rt) = Inr plan"
      and rp: "run_plan st rt i plan (t, l) = (x, (u, m))"
      and rest: "thenP (\<lambda>_. (x, (u, m))) (\<lambda>_. thenP (call (st_check_cancelled st i)) (\<lambda>_.
         call (st_complete_run st i (map (\<lambda>e. stage_name (entry_stage e)) plan)))) (t, l) = (r, (s', l'))"
      using assms(2) 1(1) unfolding attempt_def
      by (auto simp: thenP_def pure_def raise_def split: sum.splits if_splits prod.splits)
    have u: "state (Some Running) u" using plan[OF 1(2) rp] .
    show ?thesis
    proof (cases r)
      case (Inl e)
      then show ?thesis using rest u check[OF u] complete_run_law
        by (auto simp: thenP_def call_eq split: sum.splits prod.splits) (use complete_run_law in fastforce)+
    next
      case (Inr y)
      obtain t1 where c: "x = Inr ()" "st_complete_run st i (map (\<lambda>e. stage_name (entry_stage e)) plan) t1 = (Inr (), s')"
        "state (Some Running) t1" "l' = m"
        using rest Inr check[OF u] by (auto simp: thenP_def call_eq split: sum.splits prod.splits)
      have "state (Some Succeeded) s' \<and> recorded (map (\<lambda>e. stage_name (entry_stage e)) plan) s'"
        using complete_run_law[OF c(3,2)] by simp
      then show ?thesis using Inr 2 c(4) run_plan_log[of st rt i plan t l "()" u m] rp c(1) by auto
    qed
  qed
qed

lemma cancelled_law:
  assumes "state (Some Running) s" and "cancelled_result st i l s = (r, s')"
  shows "state (Some Cancelled) s' \<and> r = Inr \<lparr>ex_run_id = i, ex_status = ''cancelled'', ex_succeeded = succeeded l, ex_skipped = skipped l\<rparr>"
proof -
  obtain q t where t: "(case active_stage l of Some n \<Rightarrow> st_cancel_stage st i n | None \<Rightarrow> ret ()) s = (q, t)" by (metis prod.exhaust_sel)
  have q: "state (Some Running) t \<and> q = Inr ()"
    using t assms(1) cancel_stage_law by (cases "active_stage l") (auto simp: ret_def)
  obtain b u where u: "st_cancel_run st i (active_stage l) t = (b, u)" by (metis prod.exhaust_sel)
  then have "state (Some Cancelled) u \<and> b = Inr ()" using cancel_run_law q by blast
  then show ?thesis using assms(2) t q u by (auto simp: cancelled_result_def thenP_def ret_def)
qed

lemma failed_law:
  assumes "state (Some Running) s" and "failed_result st i l e s = (r, s')"
  shows "case r of
      Inr x \<Rightarrow> state (Some Cancelled) s' \<and> ex_status x = ''cancelled''
    | Inl x \<Rightarrow> (\<exists>n \<ge> 1. x = GenerationRetryScheduled n \<and> state (Some Queued) s') \<or> (\<exists>m. x = gen_error m \<and> state (Some Failed) s')"
proof -
  let ?m = "thenP (st_check_cancelled st i) (\<lambda>_.
           thenP (case active_stage l of Some n \<Rightarrow> st_fail_stage st i n | None \<Rightarrow> ret ()) (\<lambda>_.
           st_fail_run st i (active_stage l) (recorded_error e)))"
  obtain q t where m: "?m s = (q, t)" by (cases "?m s")
  have "case q of
         Inl e \<Rightarrow> is_cancelled_exc e \<and> state (Some Running) t
       | Inr (Some n) \<Rightarrow> 1 \<le> n \<and> state (Some Queued) t
       | Inr None \<Rightarrow> state (Some Failed) t"
  proof -
    obtain a u where a: "st_check_cancelled st i s = (a, u)" "state (Some Running) u" "\<forall>e. a = Inl e \<longrightarrow> is_cancelled_exc e"
      using check_law[OF assms(1)] by (metis prod.exhaust_sel)
    obtain b v where b: "(case active_stage l of Some n \<Rightarrow> st_fail_stage st i n | None \<Rightarrow> ret ()) u = (b, v)"
      "state (Some Running) v" "\<forall>e. b = Inl e \<longrightarrow> is_cancelled_exc e"
      using fail_law[OF a(2)] a(2) by (cases "active_stage l") (auto simp: ret_def, metis prod.exhaust_sel)
    show ?thesis using m a b fail_run_law[OF b(2), of "active_stage l" "recorded_error e" q t]
      by (auto simp: thenP_def split: sum.splits)
  qed
  then show ?thesis using assms(2) cancelled_law[of t l r s'] unfolding failed_result_def m
    by (auto simp: retry_scheduled_def split: sum.splits option.splits if_splits)
qed

text \<open>A started run is settled when the service returns or raises.\<close>

lemma started_law:
  assumes "state (Some Running) s" and "started_run st factory i s = (r, s')"
  shows "case r of
      Inr x \<Rightarrow> ex_status x = ''cancelled'' \<and> state (Some Cancelled) s' \<or>
        ex_status x = ''succeeded'' \<and> state (Some Succeeded) s' \<and> (\<exists>rt plan. factory i = Inr rt \<and>
          build_plan (rt_registry rt) (rt_skip_stages rt) = Inr plan \<and>
          recorded (map (\<lambda>e. stage_name (entry_stage e)) plan) s' \<and>
          ex_succeeded x = entry_names True plan \<and> ex_skipped x = entry_names False plan)
    | Inl e \<Rightarrow> (\<exists>n \<ge> 1. e = GenerationRetryScheduled n \<and> state (Some Queued) s') \<or> (\<exists>m. e = gen_error m \<and> state (Some Failed) s')"
proof -
  obtain q t l where at: "attempt st factory i (s, no_locals) = (q, (t, l))" by (metis prod.exhaust_sel)
  show ?thesis
  proof (cases q)
    case (Inl e)
    then have "state (Some Running) t" using attempt_law[OF assms(1) at] by simp
    then show ?thesis using assms(2) Inl cancelled_law[of t l r s'] failed_law[of t l e r s'] unfolding started_run_def at
      by (auto split: if_splits sum.splits)
  next
    case (Inr y)
    then show ?thesis using assms(2) attempt_law[OF assms(1) at] unfolding started_run_def at
      by (auto simp: no_locals_def)
  qed
qed

lemma service_law:
  assumes "ok s" and "run_service st factory i s = (r, s')"
  shows "case r of
      Inr x \<Rightarrow> ex_status x = ''already_succeeded'' \<and> state (Some Succeeded) s' \<or>
        ex_status x = ''in_progress'' \<and> state (Some Running) s' \<or>
        ex_status x = ''cancelled'' \<and> state (Some Cancelled) s' \<or>
        ex_status x = ''succeeded'' \<and> state (Some Succeeded) s' \<and> (\<exists>rt plan. factory i = Inr rt \<and>
          build_plan (rt_registry rt) (rt_skip_stages rt) = Inr plan \<and>
          recorded (map (\<lambda>e. stage_name (entry_stage e)) plan) s' \<and>
          ex_succeeded x = entry_names True plan \<and> ex_skipped x = entry_names False plan)
    | Inl e \<Rightarrow> (\<exists>n \<ge> 1. e = GenerationRetryScheduled n \<and> state (Some Queued) s') \<or>
        (\<exists>m. e = gen_error m \<and> (state (Some Failed) s' \<or> state None s'))"
proof -
  obtain c t where c: "st_claim st i s = (c, t)" by (cases "st_claim st i s")
  show ?thesis
  proof (cases "c = Inr STARTED")
    case True
    then have "state (Some Running) t" "started_run st factory i t = (r, s')"
      using claim_law[OF assms(1) c] assms(2) by (simp_all add: run_service_def thenP_def c)
    then show ?thesis using started_law[of t factory r s'] by (auto split: sum.splits)
  next
    case False
    then show ?thesis using claim_law[OF assms(1) c] assms(2)
      by (cases c) (auto simp: run_service_def thenP_def c ret_def split: claim_disposition.splits)
  qed
qed

end

subsection \<open>Stages receive the outputs of their dependencies\<close>

text \<open>The runtime whose resolver refuses to work without an output of every declared dependency.\<close>

definition checked_runtime :: "('c, 'v, 'i, 'o) runtime \<Rightarrow> ('c, 'v, 'i, 'o) runtime" where
  "checked_runtime rt = rt\<lparr>rt_resolve := (\<lambda>g config outputs.
     if set (stage_dependencies g) \<subseteq> dom outputs then rt_resolve rt g config outputs
     else Inl (KeyError ''output of a dependency is missing''))\<rparr>"

lemma checked_runtime_simps [simp]:
  "rt_run_id (checked_runtime rt) = rt_run_id rt" "rt_configs (checked_runtime rt) = rt_configs rt"
  "rt_registry (checked_runtime rt) = rt_registry rt" "rt_skip_stages (checked_runtime rt) = rt_skip_stages rt"
  "rt_validate_input (checked_runtime rt) = rt_validate_input rt" "rt_execute (checked_runtime rt) = rt_execute rt"
  by (simp_all add: checked_runtime_def)

lemma checked_resolve:
  "set (stage_dependencies g) \<subseteq> dom outputs \<Longrightarrow> rt_resolve (checked_runtime rt) g config outputs = rt_resolve rt g config outputs"
  by (simp add: checked_runtime_def)

lemma execute_entry_checked:
  "set (stage_dependencies g) \<subseteq> dom (completed l) \<Longrightarrow>
     execute_entry st (checked_runtime rt) i g (s, l) = execute_entry st rt i g (s, l)"
  unfolding execute_entry_def checked_runtime_simps
  by (auto simp: thenP_def get_locals_def checked_resolve split: option.split)

definition inputs_ready :: "string set \<Rightarrow> plan_entry list \<Rightarrow> bool" where
  "inputs_ready A es \<longleftrightarrow> (\<forall>k < length es. should_execute (es ! k) \<longrightarrow>
     set (stage_dependencies (entry_stage (es ! k))) \<subseteq> A \<union> set (entry_names True (take k es)))"

lemma inputs_ready_Cons:
  assumes "inputs_ready A (e # es)"
  shows "should_execute e \<Longrightarrow> set (stage_dependencies (entry_stage e)) \<subseteq> A"
    and "inputs_ready (set (entry_names True [e]) \<union> A) es"
proof -
  show "should_execute e \<Longrightarrow> set (stage_dependencies (entry_stage e)) \<subseteq> A"
    using assms unfolding inputs_ready_def by (auto dest!: spec[of _ 0])
  have "set (stage_dependencies (entry_stage (es ! k))) \<subseteq> set (entry_names True [e]) \<union> A \<union> set (entry_names True (take k es))"
    if "k < length es" "should_execute (es ! k)" for k
    using assms that unfolding inputs_ready_def by (auto dest!: spec[of _ "Suc k"] split: if_splits)
  then show "inputs_ready (set (entry_names True [e]) \<union> A) es" by (simp add: inputs_ready_def)
qed

lemma run_plan_checked:
  "inputs_ready (dom (completed l)) es \<Longrightarrow> run_plan st (checked_runtime rt) i es (s, l) = run_plan st rt i es (s, l)"
proof (induction es arbitrary: s l)
  case (Cons e es)
  note ready = inputs_ready_Cons[OF Cons.prems]
  let ?l = "l\<lparr>active_stage := Some (stage_name (entry_stage e))\<rparr>"
  let ?body = "\<lambda>rt. case entry_skip e of Some reason \<Rightarrow> skip_entry st i e reason | None \<Rightarrow> execute_entry st rt i (entry_stage e)"
  have body: "?body (checked_runtime rt) (t, ?l) = ?body rt (t, ?l)" for t
    using ready(1) execute_entry_checked[of "entry_stage e" ?l st rt i t] by (simp add: should_execute_def split: option.split)
  have rest: "run_plan st (checked_runtime rt) i es (u, m) = run_plan st rt i es (u, m)"
    if "?body rt (t, ?l) = (Inr x, (u, m))" for t x u m
  proof (rule Cons.IH)
    have "dom (completed m) = set (entry_names True [e]) \<union> dom (completed l)"
      using that by (cases "entry_skip e") (auto simp: should_execute_def dest!: execute_entry_log skip_entry_log)
    then show "inputs_ready (dom (completed m)) es" using ready(2) by simp
  qed
  have tail: "thenP (?body (checked_runtime rt)) (\<lambda>_. run_plan st (checked_runtime rt) i es) (t, ?l)
      = thenP (?body rt) (\<lambda>_. run_plan st rt i es) (t, ?l)" for t
    using body[of t] rest[of t] by (auto simp: thenP_def split: prod.splits sum.splits)
  show ?case unfolding run_plan.simps
    by (rule thenP_cong) (auto simp: assign_def call_eq intro!: thenP_cong tail)
qed simp

lemma service_checked:
  assumes "\<And>rt. factory i = Inr rt \<Longrightarrow> validate_registry (rt_registry rt) = Inr (rt_registry rt)"
  shows "run_service st (\<lambda>k. bindE (factory k) (\<lambda>rt. Inr (checked_runtime rt))) i s = run_service st factory i s"
proof -
  have "inputs_ready {} plan" if "factory i = Inr rt" "build_plan (rt_registry rt) (rt_skip_stages rt) = Inr plan" for rt plan
  proof -
    have ok: "dag_ok (rt_registry rt)" using assms[OF that(1)] validate_registry_Inr by blast
    have "d \<in> set (entry_names True (take k plan))"
      if k: "k < length plan" "should_execute (plan ! k)" "d \<in> set (stage_dependencies (entry_stage (plan ! k)))" for k d
    proof -
      obtain j where j: "j < k" "should_execute (plan ! j)" "stage_name (entry_stage (plan ! j)) = d"
        using plan_dependencies_first[OF ok \<open>build_plan _ _ = Inr plan\<close> k] by blast
      then have "plan ! j \<in> set (take k plan)" using k(1) by (auto simp: in_set_conv_nth intro!: exI[of _ j])
      with j show ?thesis by (auto simp: entry_names_def)
    qed
    then show ?thesis by (auto simp: inputs_ready_def)
  qed
  then have "attempt st (\<lambda>k. bindE (factory k) (\<lambda>rt. Inr (checked_runtime rt))) i (t, no_locals) = attempt st factory i (t, no_locals)" for t
    unfolding attempt_def
    by (intro thenP_cong) (auto simp: pure_def call_eq thenP_def no_locals_def run_plan_checked split: sum.splits prod.splits)
  then have eq: "started_run st (\<lambda>k. bindE (factory k) (\<lambda>rt. Inr (checked_runtime rt))) i = started_run st factory i"
    by (simp add: started_run_def fun_eq_iff)
  show ?thesis unfolding run_service_def eq ..
qed

end
