(* ===== verification/Generation_Worker.thy ===== *)
theory Generation_Worker
  imports Lifecycle_Props Generation_Port
begin

text \<open>
  The generation service on the database store of \<open>db/generation_state.py\<close>. Between any two calls of
  the worker other processes commit any transactions they can issue: requests, cancellations,
  claims, other workers' progress. The contract of the port is discharged for this store, so a run
  that a worker starts is settled when the worker is done, however the others interleave.
\<close>

subsection \<open>The store over an interleaved database\<close>

text \<open>
  At the \<open>n\<close>-th call: the transactions others try to commit before it, the two clock readings and
  the UUID the call may use. Only the worker of a run writes its stages and its end.
\<close>

record schedule =
  sc_others :: "nat \<Rightarrow> event list"
  sc_check :: "nat \<Rightarrow> time"
  sc_now :: "nat \<Rightarrow> time"
  sc_fresh :: "nat \<Rightarrow> uuid"

record world =
  w_db :: db
  w_calls :: nat

definition others_commit :: "(bytes \<Rightarrow> string) \<Rightarrow> admission_limits \<Rightarrow> uuid \<Rightarrow> event list \<Rightarrow> db \<Rightarrow> db" where
  "others_commit h l i evs d =
     fold (\<lambda>ev d. case exec h l ev d of Inl _ \<Rightarrow> d | Inr d' \<Rightarrow> d') (filter (\<lambda>ev. \<not> worker_event i ev) evs) d"

text \<open>One transaction of the worker: it commits its new database, or raises and writes nothing.\<close>

definition transact ::
  "(bytes \<Rightarrow> string) \<Rightarrow> admission_limits \<Rightarrow> uuid \<Rightarrow> schedule \<Rightarrow> (nat \<Rightarrow> db \<Rightarrow> exc + 'a \<times> db) \<Rightarrow> (world, 'a) prog" where
  "transact h l i sc f w =
     (let n = w_calls w; d = others_commit h l i (sc_others sc n) (w_db w) in
      case f n d of
        Inl e \<Rightarrow> (Inl e, \<lparr>w_db = d, w_calls = n + 1\<rparr>)
      | Inr (x, d') \<Rightarrow> (Inr x, \<lparr>w_db = d', w_calls = n + 1\<rparr>))"

definition writing :: "exc + db \<Rightarrow> exc + unit \<times> db" where
  "writing m = bindE m (\<lambda>d. Inr ((), d))"

definition reading :: "db \<Rightarrow> exc + 'a \<Rightarrow> exc + 'a \<times> db" where
  "reading d m = bindE m (\<lambda>x. Inr (x, d))"

definition db_store ::
  "(bytes \<Rightarrow> string) \<Rightarrow> admission_limits \<Rightarrow> uuid \<Rightarrow> schedule \<Rightarrow> (world, 'v, 'o) state_store" where
  "db_store h l i sc =
     \<lparr>st_claim = (\<lambda>k. transact h l i sc (\<lambda>n. claim k (sc_check sc n) (sc_now sc n))),
      st_check_cancelled = (\<lambda>k. transact h l i sc (\<lambda>n d. reading d (check_cancelled k d))),
      st_cancel_stage = (\<lambda>k name. transact h l i sc (\<lambda>n d. writing (cancel_stage k name (sc_now sc n) d))),
      st_cancel_run = (\<lambda>k sn. transact h l i sc (\<lambda>n d. writing (cancel_run k sn (sc_now sc n) d))),
      st_resolve_identity = (\<lambda>k s iv. transact h l i sc (\<lambda>n d. reading d (resolve_identity h k s iv d))),
      st_start_stage = (\<lambda>k x. transact h l i sc (\<lambda>n d. writing (start_stage (sc_fresh sc n) k x (sc_now sc n) d))),
      st_complete_stage = (\<lambda>k name res. transact h l i sc (\<lambda>n d. writing (complete_stage k name res (sc_now sc n) d))),
      st_skip_stage = (\<lambda>k s reason blocked. transact h l i sc (\<lambda>n d.
        writing (skip_stage h (sc_fresh sc n) k s reason blocked (sc_now sc n) d))),
      st_fail_stage = (\<lambda>k name. transact h l i sc (\<lambda>n d. writing (fail_stage k name (sc_now sc n) d))),
      st_complete_run = (\<lambda>k names. transact h l i sc (\<lambda>n d. writing (complete_run k names (sc_now sc n) d))),
      st_fail_run = (\<lambda>k sn u. transact h l i sc (\<lambda>n. fail_run k sn u (sc_now sc n)))\<rparr>"

subsection \<open>Laws of the single transactions\<close>

definition in_state :: "uuid \<Rightarrow> status option \<Rightarrow> world \<Rightarrow> bool" where
  "in_state i o' w \<longleftrightarrow> lifecycle (w_db w) \<and> run_status_of i (w_db w) = o'"

lemma others_commit_lifecycle: "lifecycle d \<Longrightarrow> lifecycle (others_commit h l i evs d)"
  unfolding others_commit_def
  by (induction evs arbitrary: d) (auto split: sum.split intro: exec_lifecycle)

lemma run_status_view: "lifecycle d \<Longrightarrow> run_status_of i d = Some Running \<longleftrightarrow> (\<exists>x. view d i = Some x \<and> v_status x = Running)"
proof
  assume lc: "lifecycle d" and "run_status_of i d = Some Running"
  then obtain r where r: "find_run i d = Some r" "run_status r = Running" by (auto simp: run_status_of_def)
  then show "\<exists>x. view d i = Some x \<and> v_status x = Running"
    using lifecycle_view[OF lc r(1)] by (auto simp: view_of_def)
qed (use view_status in auto)

lemma others_commit_running:
  "lifecycle d \<Longrightarrow> run_status_of i d = Some Running \<Longrightarrow> run_status_of i (others_commit h l i evs d) = Some Running"
  unfolding others_commit_def
proof (induction evs arbitrary: d)
  case (Cons ev evs)
  show ?case
  proof (cases "exec h l ev d")
    case (Inr d')
    then have lc': "lifecycle d'" using exec_lifecycle[OF Cons.prems(1)] by blast
    show ?thesis
    proof (cases "worker_event i ev")
      case False
      obtain x where "view d i = Some x" "v_status x = Running" using Cons.prems run_status_view by blast
      then have "run_status_of i d' = Some Running"
        using exec_foreign_running[OF Cons.prems(1) Inr False] run_status_view[OF lc'] by blast
      then show ?thesis using Cons.IH[OF lc'] Inr False by simp
    qed (use Cons in simp)
  qed (use Cons in simp)
qed simp

text \<open>A law of a transaction on databases with a running run carries over to the interleaved store.\<close>

lemma transact_law:
  assumes "in_state i (Some Running) w" and "transact h l i sc f w = (r, w')"
    and "\<And>d. lifecycle d \<Longrightarrow> run_status_of i d = Some Running \<Longrightarrow>
      (case f (w_calls w) d of Inl e \<Rightarrow> Q (Inl e) d | Inr (x, d') \<Rightarrow> Q (Inr x) d')"
  shows "Q r (w_db w')"
proof -
  let ?d = "others_commit h l i (sc_others sc (w_calls w)) (w_db w)"
  have "lifecycle ?d" "run_status_of i ?d = Some Running"
    using assms(1) others_commit_lifecycle others_commit_running by (auto simp: in_state_def)
  then show ?thesis using assms(2) assms(3)[of ?d]
    by (auto simp: transact_def Let_def split: sum.splits prod.splits)
qed

text \<open>The run and its job, when the run is running.\<close>

lemma running_rows:
  assumes "lifecycle d" "run_status_of i d = Some Running"
  obtains r j where "find_run i d = Some r" "run_status r = Running" "generation_jobs i d = [j]" "get_job r d = Inr j"
    "get_run i d = Inr r" "job_status j = Running"
proof -
  obtain r where r: "find_run i d = Some r" "run_status r = Running" using assms(2) by (auto simp: run_status_of_def)
  obtain j where "generation_jobs i d = [j]" "lifecycle_ok r j (stage_rows i d)" "get_job r d = Inr j"
    using lifecycle_run[OF assms(1) r(1)] by metis
  then show ?thesis using that r by (simp add: get_run_def lifecycle_ok_def)
qed

lemma not_cancelled_exc: "require_not_cancelled j = Inl e \<Longrightarrow> is_cancelled_exc e"
proof -
  assume "require_not_cancelled j = Inl e"
  then have "e = ug_exc CancelledError ''generation cancellation requested'' []"
    by (simp add: require_not_cancelled_def split: if_splits)
  moreover have "is_cancelled_exc (ug_exc CancelledError ''generation cancellation requested'' [])" by code_simp
  ultimately show ?thesis by simp
qed

text \<open>Failing and cancelling the active stage always commit; the only exception is a cancellation.\<close>

lemma check_cancelled_result:
  assumes "lifecycle d" "run_status_of i d = Some Running" "check_cancelled i d = Inl e"
  shows "is_cancelled_exc e"
proof -
  obtain r j where "get_job r d = Inr j" "get_run i d = Inr r" by (rule running_rows[OF assms(1,2)]) blast
  then show ?thesis using assms(3) not_cancelled_exc by (simp add: check_cancelled_def)
qed

lemma stage_rewrite:
  assumes lc: "lifecycle d" and r: "find_run i d = Some r" "run_status r = Running" and s0: "find_stage_row i n d = Some s0"
    and s: "srow_id s = srow_id s0" "srow_run_id s = srow_run_id s0" "srow_stage s = srow_stage s0" "srow_version s = srow_version s0"
      "srow_progress s = srow_progress s0" "srow_input_hash s = srow_input_hash s0" "srow_config_hash s = srow_config_hash s0"
      "srow_fingerprint s \<in> {None, srow_fingerprint s0}" "srow_status s \<noteq> SSucceeded"
  shows "flush d (set_stage_row s d) = Inr (set_stage_row s d)"
proof -
  have m: "s0 \<in> set (db_stages d)" "srow_run_id s0 = i" "srow_stage s0 = n" using find_stage_row_Some[OF s0] by simp_all
  have "stage_row_checks s0" using wf_checks(3)[OF lifecycle_wf[OF lc] m(1)] .
  then have c: "stage_row_checks s" using s by (auto simp: stage_row_checks_def)
  show ?thesis by (rule conjunct1[OF stage_update[OF lc r s0 s(1) _ _ c]]) (use s m in simp_all)
qed

lemma fail_stage_result:
  assumes lc: "lifecycle d" and run: "run_status_of i d = Some Running"
  shows "case fail_stage i n now d of Inl e \<Rightarrow> is_cancelled_exc e | Inr d' \<Rightarrow> run_status_of i d' = Some Running"
proof -
  obtain r j where r: "find_run i d = Some r" "run_status r = Running" "get_job r d = Inr j" "get_run i d = Inr r"
    by (rule running_rows[OF assms]) blast
  show ?thesis
  proof (cases "find_stage_row i n d")
    case None
    then show ?thesis using r run by (simp add: fail_stage_def)
  next
    case (Some s)
    let ?s = "s\<lparr>srow_status := SFailed, srow_finished_at := Some now,
               srow_diagnostics := [diag_json ''stage.execution_failed'' ''stage execution failed'' ''WARNING'']\<rparr>"
    have "flush d (set_stage_row ?s d) = Inr (set_stage_row ?s d)" by (rule stage_rewrite[OF lc r(1,2) Some]) simp_all
    then show ?thesis using r run Some not_cancelled_exc
      by (auto simp: fail_stage_def run_status_of_def bindE_Inr_iff bindE_Inl_iff split: sum.splits)
  qed
qed

lemma cancel_stage_result:
  assumes lc: "lifecycle d" and run: "run_status_of i d = Some Running"
  shows "\<exists>d'. cancel_stage i n now d = Inr d' \<and> run_status_of i d' = Some Running"
proof -
  obtain r j where r: "find_run i d = Some r" "run_status r = Running" "get_job r d = Inr j" "get_run i d = Inr r"
    by (rule running_rows[OF assms]) blast
  show ?thesis
  proof (cases "find_stage_row i n d")
    case None
    then show ?thesis using r run by (simp add: cancel_stage_def)
  next
    case (Some s)
    let ?s = "s\<lparr>srow_status := SCancelled, srow_finished_at := Some now, srow_fingerprint := None,
                  srow_diagnostics := [diag_json ''stage.cancelled'' ''generation cancellation requested'' ''INFO'']\<rparr>"
    have "flush d (set_stage_row ?s d) = Inr (set_stage_row ?s d)" by (rule stage_rewrite[OF lc r(1,2) Some]) simp_all
    then show ?thesis using r run Some by (auto simp: cancel_stage_def run_status_of_def)
  qed
qed

lemma cancel_run_result:
  assumes lc: "lifecycle d" and run: "run_status_of i d = Some Running"
  shows "\<exists>d'. cancel_run i sn now d = Inr d' \<and> run_status_of i d' = Some Cancelled"
proof -
  obtain r j where r: "find_run i d = Some r" "run_status r = Running" "generation_jobs i d = [j]" "get_job r d = Inr j"
    "get_run i d = Inr r" "job_status j = Running" by (rule running_rows[OF assms]) blast
  let ?j = "if job_cancel_requested_at j = None then j\<lparr>job_cancel_requested_at := Some now\<rparr> else j"
  let ?d = "set_job (cancel_job_row sn now ?j) (set_run (cancel_run_row sn now r) d)"
  have "flush d ?d = Inr ?d" using r by (intro conjunct1[OF cancel_step[OF lc r(1) _ r(3)]]) (simp_all add: same_job_key_def)
  then have c: "cancel_run i sn now d = Inr ?d" using r by (simp add: cancel_run_def Let_def)
  then show ?thesis using cancel_run_ok[OF lc c] by blast
qed

lemma fail_run_running:
  assumes lc: "lifecycle d" and run: "run_status_of i d = Some Running"
  shows "case fail_run i sn u now d of
      Inl e \<Rightarrow> is_cancelled_exc e
    | Inr (Some n, d') \<Rightarrow> 1 \<le> n \<and> run_status_of i d' = Some Queued
    | Inr (None, d') \<Rightarrow> run_status_of i d' = Some Failed"
proof -
  obtain r j where r: "find_run i d = Some r" "run_status r = Running" "generation_jobs i d = [j]" "get_job r d = Inr j"
    "get_run i d = Inr r" "job_status j = Running" by (rule running_rows[OF assms]) blast
  note spec = fail_run_spec[OF lc r(1,3), of sn u now]
  have "is_cancelled_exc (ug_exc CancelledError ''generation cancellation requested'' [])" by code_simp
  moreover have "1 \<le> retry_seconds j" using retry_seconds_bounds[of j] by simp
  ultimately show ?thesis using spec r(2) by (cases "job_cancel_requested_at j") auto
qed

text \<open>What a claim reports is the state of the run.\<close>

lemma claim_state:
  assumes lc: "lifecycle d"
  shows "case claim i clock now d of
      Inr (STARTED, d') \<Rightarrow> run_status_of i d' = Some Running
    | Inr (ALREADY_SUCCEEDED, d') \<Rightarrow> run_status_of i d' = Some Succeeded
    | Inr (IN_PROGRESS, d') \<Rightarrow> run_status_of i d' = Some Running
    | Inr (CLAIM_CANCELLED, d') \<Rightarrow> run_status_of i d' = Some Cancelled
    | Inl e \<Rightarrow> (\<exists>n \<ge> 1. e = GenerationRetryScheduled n \<and> run_status_of i d = Some Queued) \<or>
        (\<exists>m. e = gen_error m \<and> (run_status_of i d = Some Failed \<or> run_status_of i d = None))"
proof (cases "find_run i d")
  case None
  then show ?thesis by (auto simp: claim_def get_run_def run_status_of_def gen_error_def)
next
  case (Some r)
  obtain j where j: "generation_jobs i d = [j]" "lifecycle_ok r j (stage_rows i d)" "run_id r = i"
    using lifecycle_run[OF lc Some] by metis
  have "run_status_of i (claimed_db i now r j d) = Some Running"
    using Some j(3) by (simp add: claimed_db_def run_status_of_def find_run_set_run start_run_def)
  moreover have "run_status_of i d = Some (run_status r)" using Some by (simp add: run_status_of_def)
  ultimately show ?thesis
    using ceil_seconds_pos j(2) unfolding claim_eq[OF lc Some j(1)] BATCH_CAPACITY_RETRY_SECONDS_def
    by (auto simp: lifecycle_ok_def split: status.split)
qed

subsection \<open>The database store keeps the contract\<close>

lemma view_running: "lifecycle d \<Longrightarrow> lifecycle d' \<Longrightarrow> view d' = view d \<Longrightarrow> run_status_of i d = Some Running \<Longrightarrow> run_status_of i d' = Some Running"
  using run_status_view by simp

text \<open>A write of the stage rows keeps the run running, whether it commits or raises.\<close>

lemma stage_op_law:
  assumes w: "in_state i (Some Running) w" and t: "transact h l i sc (\<lambda>n d. writing (f n d)) w = (r, w')"
    and f: "\<And>n d d'. lifecycle d \<Longrightarrow> f n d = Inr d' \<Longrightarrow> lifecycle d' \<and> view d' = view d"
  shows "in_state i (Some Running) w'"
proof -
  have "lifecycle (w_db w') \<and> run_status_of i (w_db w') = Some Running"
  proof (rule transact_law[OF w t, where Q = "\<lambda>_ d. lifecycle d \<and> run_status_of i d = Some Running"])
    fix d assume d: "lifecycle d" "run_status_of i d = Some Running"
    show "case writing (f (w_calls w) d) of Inl e \<Rightarrow> lifecycle d \<and> run_status_of i d = Some Running
      | Inr (x, d') \<Rightarrow> lifecycle d' \<and> run_status_of i d' = Some Running"
    proof (cases "f (w_calls w) d")
      case (Inr d')
      then show ?thesis using f[OF d(1) Inr] view_running[OF d(1) _ _ d(2), of d'] by (simp add: writing_def)
    qed (use d in \<open>simp add: writing_def\<close>)
  qed
  then show ?thesis by (simp add: in_state_def)
qed

text \<open>A transaction on a running run whose outcomes are known.\<close>

lemma outcome_law:
  assumes w: "in_state i (Some Running) w" and t: "transact h l i sc f w = (r, w')"
    and f: "\<And>d. lifecycle d \<Longrightarrow> run_status_of i d = Some Running \<Longrightarrow>
      (case f (w_calls w) d of Inl e \<Rightarrow> E e | Inr (x, d') \<Rightarrow> lifecycle d' \<and> S x d')"
  shows "case r of Inl e \<Rightarrow> E e \<and> in_state i (Some Running) w' | Inr x \<Rightarrow> lifecycle (w_db w') \<and> S x (w_db w')"
proof -
  have "case r of Inl e \<Rightarrow> E e \<and> lifecycle (w_db w') \<and> run_status_of i (w_db w') = Some Running
    | Inr x \<Rightarrow> lifecycle (w_db w') \<and> S x (w_db w')"
  proof (rule transact_law[OF w t, where Q = "\<lambda>r d. case r of Inl e \<Rightarrow> E e \<and> lifecycle d \<and> run_status_of i d = Some Running
      | Inr x \<Rightarrow> lifecycle d \<and> S x d"])
    fix d assume d: "lifecycle d" "run_status_of i d = Some Running"
    show "case f (w_calls w) d of
        Inl e \<Rightarrow> case Inl e of Inl e \<Rightarrow> E e \<and> lifecycle d \<and> run_status_of i d = Some Running | Inr x \<Rightarrow> lifecycle d \<and> S x d
      | Inr (x, d') \<Rightarrow> case Inr x of Inl e \<Rightarrow> E e \<and> lifecycle d' \<and> run_status_of i d' = Some Running | Inr x \<Rightarrow> lifecycle d' \<and> S x d'"
      using f[OF d] d by (auto split: sum.splits)
  qed
  then show ?thesis by (simp add: in_state_def split: sum.splits)
qed

lemma check_outcome:
  assumes "lifecycle d" "run_status_of i d = Some Running"
  shows "case reading d (check_cancelled i d) of Inl e \<Rightarrow> is_cancelled_exc e
    | Inr (x, d') \<Rightarrow> lifecycle d' \<and> run_status_of i d' = Some Running"
  using assms check_cancelled_result[OF assms] by (cases "check_cancelled i d") (simp_all add: reading_def)

lemma fail_stage_outcome:
  assumes "lifecycle d" "run_status_of i d = Some Running"
  shows "case writing (fail_stage i n now d) of Inl e \<Rightarrow> is_cancelled_exc e
    | Inr (x, d') \<Rightarrow> lifecycle d' \<and> run_status_of i d' = Some Running"
  using fail_stage_result[OF assms, of n now] fail_stage_ok[OF assms(1), of i n now]
  by (cases "fail_stage i n now d") (simp_all add: writing_def)

lemma cancel_stage_outcome:
  assumes "lifecycle d" "run_status_of i d = Some Running"
  shows "case writing (cancel_stage i n now d) of Inl e \<Rightarrow> False
    | Inr (x, d') \<Rightarrow> lifecycle d' \<and> run_status_of i d' = Some Running"
  using cancel_stage_result[OF assms, of n now] cancel_stage_ok[OF assms(1), of i n now] by (auto simp: writing_def)

lemma cancel_run_outcome:
  assumes "lifecycle d" "run_status_of i d = Some Running"
  shows "case writing (cancel_run i sn now d) of Inl e \<Rightarrow> False
    | Inr (x, d') \<Rightarrow> lifecycle d' \<and> run_status_of i d' = Some Cancelled"
  using cancel_run_result[OF assms, of sn now] cancel_run_ok[OF assms(1), of i sn now] by (auto simp: writing_def)

lemma complete_run_outcome:
  assumes "lifecycle d" "run_status_of i d = Some Running"
  shows "case writing (complete_run i names now d) of Inl e \<Rightarrow> True
    | Inr (x, d') \<Rightarrow> lifecycle d' \<and> run_status_of i d' = Some Succeeded \<and> stages_complete names (stage_rows i d')"
proof (cases "complete_run i names now d")
  case (Inr d')
  obtain r j where r: "find_run i d = Some r" "generation_jobs i d = [j]" by (rule running_rows[OF assms]) blast
  have "d' = completed_db now r j d" "stages_complete names (stage_rows i d)"
    using Inr unfolding complete_run_eq(1)[OF assms(1) r] by (simp_all split: if_splits)
  then have "stages_complete names (stage_rows i d')" by (simp add: completed_db_def)
  then show ?thesis using complete_run_eq(2)[OF assms(1) r Inr] Inr by (simp add: writing_def)
qed (use assms in \<open>simp add: writing_def\<close>)

lemma fail_run_outcome:
  assumes "lifecycle d" "run_status_of i d = Some Running"
  shows "case fail_run i sn u now d of Inl e \<Rightarrow> is_cancelled_exc e
    | Inr (x, d') \<Rightarrow> lifecycle d' \<and> (case x of Some n \<Rightarrow> 1 \<le> n \<and> run_status_of i d' = Some Queued | None \<Rightarrow> run_status_of i d' = Some Failed)"
  using fail_run_running[OF assms, of sn u now] fail_run_ok[OF assms(1), of i sn u now]
  by (auto split: sum.splits option.splits)

lemma claim_outcome:
  assumes lc: "lifecycle (w_db w)" and t: "transact h l i sc (\<lambda>n. claim i (sc_check sc n) (sc_now sc n)) w = (r, w')"
  shows "case r of
         Inr STARTED \<Rightarrow> in_state i (Some Running) w'
       | Inr ALREADY_SUCCEEDED \<Rightarrow> in_state i (Some Succeeded) w'
       | Inr IN_PROGRESS \<Rightarrow> in_state i (Some Running) w'
       | Inr CLAIM_CANCELLED \<Rightarrow> in_state i (Some Cancelled) w'
       | Inl e \<Rightarrow> (\<exists>n \<ge> 1. e = GenerationRetryScheduled n \<and> in_state i (Some Queued) w') \<or>
           (\<exists>m. e = gen_error m \<and> (in_state i (Some Failed) w' \<or> in_state i None w'))"
proof -
  let ?d = "others_commit h l i (sc_others sc (w_calls w)) (w_db w)"
  let ?c = "claim i (sc_check sc (w_calls w)) (sc_now sc (w_calls w)) ?d"
  have d: "lifecycle ?d" using lc by (rule others_commit_lifecycle)
  have s: "case ?c of Inl e \<Rightarrow> r = Inl e \<and> w_db w' = ?d | Inr (x, d') \<Rightarrow> r = Inr x \<and> w_db w' = d' \<and> lifecycle d'"
    using t claim_ok[OF d] by (auto simp: transact_def Let_def split: sum.splits prod.splits)
  show ?thesis
  proof (cases ?c)
    case (Inl e)
    then show ?thesis using s d claim_state[OF d, of i "sc_check sc (w_calls w)" "sc_now sc (w_calls w)"] by (auto simp: in_state_def)
  next
    case (Inr p)
    then obtain x d' where "?c = Inr (x, d')" by (cases p) simp
    then show ?thesis using s d claim_state[OF d, of i "sc_check sc (w_calls w)" "sc_now sc (w_calls w)"]
      by (cases x) (simp_all add: in_state_def)
  qed
qed

lemma db_store_ops:
  "st_claim (db_store h l i sc) k = transact h l i sc (\<lambda>n. claim k (sc_check sc n) (sc_now sc n))"
  "st_check_cancelled (db_store h l i sc) k = transact h l i sc (\<lambda>n d. reading d (check_cancelled k d))"
  "st_cancel_stage (db_store h l i sc) k name = transact h l i sc (\<lambda>n d. writing (cancel_stage k name (sc_now sc n) d))"
  "st_cancel_run (db_store h l i sc) k sn = transact h l i sc (\<lambda>n d. writing (cancel_run k sn (sc_now sc n) d))"
  "st_resolve_identity (db_store h l i sc) k s iv = transact h l i sc (\<lambda>n d. reading d (resolve_identity h k s iv d))"
  "st_start_stage (db_store h l i sc) k x = transact h l i sc (\<lambda>n d. writing (start_stage (sc_fresh sc n) k x (sc_now sc n) d))"
  "st_complete_stage (db_store h l i sc) k name res = transact h l i sc (\<lambda>n d. writing (complete_stage k name res (sc_now sc n) d))"
  "st_skip_stage (db_store h l i sc) k s reason blocked = transact h l i sc (\<lambda>n d.
     writing (skip_stage h (sc_fresh sc n) k s reason blocked (sc_now sc n) d))"
  "st_fail_stage (db_store h l i sc) k name = transact h l i sc (\<lambda>n d. writing (fail_stage k name (sc_now sc n) d))"
  "st_complete_run (db_store h l i sc) k names = transact h l i sc (\<lambda>n d. writing (complete_run k names (sc_now sc n) d))"
  "st_fail_run (db_store h l i sc) k sn u = transact h l i sc (\<lambda>n. fail_run k sn u (sc_now sc n))"
  by (simp_all add: db_store_def)

interpretation worker: generation_store "db_store h l i sc" i "\<lambda>w. lifecycle (w_db w)" "in_state i"
  "\<lambda>names w. stages_complete names (stage_rows i (w_db w))" for h l i sc
proof (unfold_locales, unfold db_store_ops, goal_cases)
  case 1
  then show ?case by (rule claim_outcome)
next
  case (2 s r s')
  have "case r of Inl e \<Rightarrow> is_cancelled_exc e \<and> in_state i (Some Running) s' | Inr x \<Rightarrow> lifecycle (w_db s') \<and> run_status_of i (w_db s') = Some Running"
    by (rule outcome_law[OF 2]) (rule check_outcome)
  then show ?case by (simp add: in_state_def split: sum.splits)
next
  case (3 s g iv r s')
  have "case r of Inl e \<Rightarrow> True \<and> in_state i (Some Running) s' | Inr x \<Rightarrow> lifecycle (w_db s') \<and> run_status_of i (w_db s') = Some Running"
    by (rule outcome_law[OF 3]) (auto simp: reading_def bindE_Inr_iff split: sum.splits)
  then show ?case by (simp add: in_state_def split: sum.splits)
next
  case 4
  then show ?case by (rule stage_op_law) (use start_stage_ok stage_ops_view(1) in blast)
next
  case 5
  then show ?case by (rule stage_op_law) (use complete_stage_ok stage_ops_view(2) in blast)
next
  case 6
  then show ?case by (rule stage_op_law) (use skip_stage_ok stage_ops_view(3) in blast)
next
  case (7 s n r s')
  have "case r of Inl e \<Rightarrow> is_cancelled_exc e \<and> in_state i (Some Running) s' | Inr x \<Rightarrow> lifecycle (w_db s') \<and> run_status_of i (w_db s') = Some Running"
    by (rule outcome_law[OF 7]) (rule fail_stage_outcome)
  then show ?case by (simp add: in_state_def split: sum.splits)
next
  case (8 s n r s')
  have "case r of Inl e \<Rightarrow> False \<and> in_state i (Some Running) s' | Inr x \<Rightarrow> lifecycle (w_db s') \<and> run_status_of i (w_db s') = Some Running"
    by (rule outcome_law[OF 8]) (rule cancel_stage_outcome)
  then show ?case by (simp add: in_state_def split: sum.splits)
next
  case (9 s n r s')
  have "case r of Inl e \<Rightarrow> False \<and> in_state i (Some Running) s' | Inr x \<Rightarrow> lifecycle (w_db s') \<and> run_status_of i (w_db s') = Some Cancelled"
    by (rule outcome_law[OF 9]) (rule cancel_run_outcome)
  then show ?case by (simp add: in_state_def split: sum.splits)
next
  case (10 s names r s')
  have "case r of Inl e \<Rightarrow> True \<and> in_state i (Some Running) s' | Inr x \<Rightarrow> lifecycle (w_db s') \<and>
      run_status_of i (w_db s') = Some Succeeded \<and> stages_complete names (stage_rows i (w_db s'))"
    by (rule outcome_law[OF 10]) (rule complete_run_outcome)
  then show ?case by (simp add: in_state_def split: sum.splits)
next
  case (11 s sn u r s')
  have "case r of Inl e \<Rightarrow> is_cancelled_exc e \<and> in_state i (Some Running) s' | Inr x \<Rightarrow> lifecycle (w_db s') \<and>
      (case x of Some n \<Rightarrow> 1 \<le> n \<and> run_status_of i (w_db s') = Some Queued | None \<Rightarrow> run_status_of i (w_db s') = Some Failed)"
    by (rule outcome_law[OF 11]) (rule fail_run_outcome)
  then show ?case by (simp add: in_state_def split: sum.splits option.splits)
qed

subsection \<open>What the task guarantees\<close>

definition world_of :: "db \<Rightarrow> world" where
  "world_of d = \<lparr>w_db = d, w_calls = 0\<rparr>"

text \<open>
  C2. A run that a configured worker starts is settled when its task is done, whatever the stages
  do and whatever other processes commit between any two of its calls. The task reports success
  only for a run that has succeeded, with one finished stage row per entry of the plan, and lists
  exactly the executed and the skipped stages; a cancelled run is recorded as cancelled; a retry is
  asked for only when the run is queued again; a failure is reported when the run has failed (or
  does not exist).
\<close>

theorem task_settles_run:
  assumes "reachable hexdigest limits d"
  shows "case run_generation (db_store hexdigest limits i sc) (Some factory) i (world_of d) of
      (Inr x, w) \<Rightarrow>
        ex_status x = ''already_succeeded'' \<and> run_status_of i (w_db w) = Some Succeeded \<or>
        ex_status x = ''in_progress'' \<and> run_status_of i (w_db w) = Some Running \<or>
        ex_status x = ''cancelled'' \<and> run_status_of i (w_db w) = Some Cancelled \<or>
        ex_status x = ''succeeded'' \<and> run_status_of i (w_db w) = Some Succeeded \<and> (\<exists>rt plan. factory i = Inr rt \<and>
          build_plan (rt_registry rt) (rt_skip_stages rt) = Inr plan \<and>
          stages_complete (map (\<lambda>e. stage_name (entry_stage e)) plan) (stage_rows i (w_db w)) \<and>
          ex_succeeded x = entry_names True plan \<and> ex_skipped x = entry_names False plan)
    | (Inl e, w) \<Rightarrow>
        (\<exists>n \<ge> 1. e = ArqRetry n \<and> run_status_of i (w_db w) = Some Queued) \<or>
        (\<exists>m. e = GenerationTaskFailed m \<and> run_status_of i (w_db w) \<in> {Some Failed, None})"
proof -
  have lc: "lifecycle (w_db (world_of d))" using reachable_inv[OF assms] by (simp add: world_of_def)
  obtain r w where r: "run_service (db_store hexdigest limits i sc) factory i (world_of d) = (r, w)" by (metis prod.exhaust_sel)
  show ?thesis using worker.service_law[OF lc r]
    by (cases r) (auto simp: run_generation_def r in_state_def task_error_def is_generation_error_def gen_error_def)
qed

definition quiet :: schedule where
  "quiet = \<lparr>sc_others = (\<lambda>_. []), sc_check = (\<lambda>n. 200 + int n), sc_now = (\<lambda>n. 210 + int n), sc_fresh = (\<lambda>n. 1000 + word_of_nat n)\<rparr>"

definition demo_stage :: stage where
  "demo_stage = \<lparr>stage_name = ''roads'', stage_version = ''1.0.0'', stage_dependencies = []\<rparr>"

definition demo_runtime :: "(unit, unit, unit, unit) runtime" where
  "demo_runtime = \<lparr>rt_run_id = 10, rt_configs = [(''roads'', ())], rt_registry = [demo_stage], rt_skip_stages = [],
     rt_resolve = (\<lambda>_ _ _. Inr \<lparr>inv_stage_input = (), inv_input_parts = [], inv_config_parts = []\<rparr>),
     rt_validate_input = (\<lambda>_. Inr),
     rt_execute = (\<lambda>_ _ _. Inr \<lparr>res_output = (), res_fingerprint = StageFingerprint (''sha256:'' @ replicate 64 CHR ''b''), res_diagnostics = []\<rparr>)\<rparr>"

definition demo_digest :: "bytes \<Rightarrow> string" where
  "demo_digest _ = replicate 64 CHR ''a''"

lemma quiet_transact:
  "transact h l i quiet f \<lparr>w_db = d, w_calls = n\<rparr> =
     (case f n d of
        Inl e \<Rightarrow> (Inl e, \<lparr>w_db = d, w_calls = Suc n\<rparr>)
      | Inr (x, d') \<Rightarrow> (Inr x, \<lparr>w_db = d', w_calls = Suc n\<rparr>))"
  by (simp add: transact_def quiet_def others_commit_def Let_def split: sum.split prod.split)

lemma quiet_times: "sc_check quiet 0 = 200" "sc_now quiet 0 = 210"
  by (simp_all add: quiet_def)

definition no_runtime :: "uuid \<Rightarrow> exc + (unit, unit, unit, unit) runtime" where
  "no_runtime _ = Inl (UrbanError \<lparr>err_class = TransientError, err_message = ''storage is unavailable'', err_details = []\<rparr>)"

lemma demo_not_cancelled: "check_cancelled 10 demo_running_db = Inr ()"
  by code_simp

lemma demo_fail: "\<exists>d'. fail_run 10 None \<lparr>err_class = TransientError, err_message = m, err_details = []\<rparr> now demo_running_db = Inr (Some 30, d')"
proof -
  have "run_status (start_run 210 demo_new_run) = Running" "job_cancel_requested_at (start_job 210 (generation_job 11 demo_new_run)) = None"
    "retryable_failure \<lparr>err_class = TransientError, err_message = m, err_details = []\<rparr> (start_job 210 (generation_job 11 demo_new_run)) []"
    "retry_seconds (start_job 210 (generation_job 11 demo_new_run)) = 30"
    by code_simp+
  then show ?thesis
    using fail_run_spec(3)[OF reachable_inv[OF demo_running_reachable] demo_running_found(1,2), of None
        "\<lparr>err_class = TransientError, err_message = m, err_details = []\<rparr>" now]
    by (auto simp: demo_running_found(3))
qed

lemma demo_service:
  "\<exists>w. run_generation (db_store demo_digest wide_limits 10 quiet) (Some no_runtime) 10 (world_of demo_queued_db) = (Inl (ArqRetry 30), w)"
proof -
  let ?e = "\<lparr>err_class = TransientError, err_message = ''storage is unavailable'', err_details = []\<rparr>"
  let ?st = "db_store demo_digest wide_limits 10 quiet :: (world, unit, unit) state_store"
  have claim: "st_claim ?st 10 (world_of demo_queued_db) = (Inr STARTED, \<lparr>w_db = demo_running_db, w_calls = 1\<rparr>)"
    by (simp add: db_store_ops world_of_def quiet_transact quiet_times demo_claim)
  have check: "st_check_cancelled ?st 10 \<lparr>w_db = demo_running_db, w_calls = n\<rparr> = (Inr (), \<lparr>w_db = demo_running_db, w_calls = Suc n\<rparr>)" for n
    by (simp add: db_store_ops quiet_transact reading_def demo_not_cancelled)
  have fail: "\<exists>w. st_fail_run ?st 10 None ?e \<lparr>w_db = demo_running_db, w_calls = n\<rparr> = (Inr (Some 30), w)" for n
  proof -
    obtain d' where "fail_run 10 None ?e (sc_now quiet n) demo_running_db = Inr (Some 30, d')" using demo_fail by blast
    then show ?thesis by (simp add: db_store_ops quiet_transact)
  qed
  obtain w where w: "st_fail_run ?st 10 None ?e \<lparr>w_db = demo_running_db, w_calls = Suc (Suc (Suc 0))\<rparr> = (Inr (Some 30), w)" using fail by blast
  have c: "is_cancelled_exc (UrbanError ?e) = False" by code_simp
  have "attempt ?st no_runtime 10 (\<lparr>w_db = demo_running_db, w_calls = 1\<rparr>, no_locals)
      = (Inl (UrbanError ?e), (\<lparr>w_db = demo_running_db, w_calls = Suc 1\<rparr>, no_locals))"
    by (simp add: attempt_def thenP_def call_def check pure_def no_runtime_def)
  moreover have "failed_result ?st 10 no_locals (UrbanError ?e) \<lparr>w_db = demo_running_db, w_calls = Suc 1\<rparr> = (Inl (GenerationRetryScheduled 30), w)"
    unfolding failed_result_def thenP_def check by (simp add: no_locals_def ret_def recorded_error_def w retry_scheduled_def)
  ultimately have "started_run ?st no_runtime 10 \<lparr>w_db = demo_running_db, w_calls = 1\<rparr> = (Inl (GenerationRetryScheduled 30), w)"
    by (simp add: started_run_def c)
  then have "run_service ?st no_runtime 10 (world_of demo_queued_db) = (Inl (GenerationRetryScheduled 30), w)"
    unfolding run_service_def thenP_def claim by simp
  then show ?thesis by (simp add: run_generation_def task_error_def)
qed

theorem task_settles_run_witness:
  "\<exists>w. run_generation (db_store demo_digest wide_limits 10 quiet) (Some no_runtime) 10 (world_of demo_queued_db) = (Inl (ArqRetry 30), w) \<and>
     run_status_of 10 (w_db w) = Some Queued"
proof -
  obtain w where w: "run_generation (db_store demo_digest wide_limits 10 quiet) (Some no_runtime) 10 (world_of demo_queued_db) = (Inl (ArqRetry 30), w)"
    using demo_service by blast
  then show ?thesis
    using task_settles_run[OF demo_queued_reachable, where hexdigest = demo_digest and i = 10 and sc = quiet and factory = no_runtime] by (simp add: w)
qed

text \<open>
  C20. A stage is only run on the outputs of all its declared dependencies: for every runtime with a
  valid registry and every store, the service behaves exactly as it does when the input resolver
  refuses to work without one of them; no skip, failure or cancellation lets a stage run too early.
\<close>

theorem stages_receive_dependencies:
  assumes "\<And>rt. factory i = Inr rt \<Longrightarrow> validate_registry (rt_registry rt) = Inr (rt_registry rt)"
  shows "run_service st (\<lambda>k. bindE (factory k) (\<lambda>rt. Inr (checked_runtime rt))) i s = run_service st factory i s"
  using assms by (rule service_checked)

theorem stages_receive_dependencies_witness:
  "run_service (db_store demo_digest wide_limits 10 quiet) (\<lambda>_. Inr (checked_runtime demo_runtime)) 10 (world_of demo_queued_db) =
     run_service (db_store demo_digest wide_limits 10 quiet) (\<lambda>_. Inr demo_runtime) 10 (world_of demo_queued_db)"
proof -
  have "validate_registry (rt_registry demo_runtime) = Inr (rt_registry demo_runtime)" by code_simp
  then show ?thesis
    using stages_receive_dependencies[of "\<lambda>_. Inr demo_runtime" 10] by simp
qed

subsection \<open>The unconfigured worker\<close>

definition cancel_after_claim :: schedule where
  "cancel_after_claim = quiet\<lparr>sc_others := (\<lambda>n. if n = 1 then [RequestCancel 10 300] else [])\<rparr>"

text \<open>
  C26. \<open>_fail_unconfigured_generation\<close> has no handler for a cancellation that is committed between
  its claim and its failure: the task then raises the cancellation, the run is neither failed nor
  cancelled but stays running, and every later claim reports it as in progress.
\<close>

theorem unconfigured_task_strands_cancelled_run:
  "\<exists>w. run_generation (db_store demo_digest wide_limits 10 cancel_after_claim) (None :: (uuid \<Rightarrow> exc + (unit, unit, unit, unit) runtime) option) 10
       (world_of demo_queued_db) = (Inl (ug_exc CancelledError ''generation cancellation requested'' []), w) \<and>
     run_status_of 10 (w_db w) = Some Running \<and> (\<forall>clock now. claim 10 clock now (w_db w) = Inr (IN_PROGRESS, w_db w))"
proof -
  let ?j = "start_job 210 (generation_job 11 demo_new_run)"
  let ?d = "set_job (?j\<lparr>job_cancel_requested_at := Some 300\<rparr>) demo_running_db"
  have st: "run_status (start_run 210 demo_new_run) = Running" "job_cancel_requested_at ?j = None" by code_simp+
  have rc: "request_cancel 10 300 demo_running_db = Inr (True, ?d)"
    unfolding request_cancel_eq(1)[OF reachable_inv[OF demo_running_reachable] demo_running_found(1,2)]
    using st by (simp add: terminal_def Let_def)
  have lc: "lifecycle ?d" using request_cancel_eq(2)[OF reachable_inv[OF demo_running_reachable] demo_running_found(1,2) rc] .
  have r: "find_run 10 ?d = Some (start_run 210 demo_new_run)" using demo_running_found(1) by simp
  have j: "generation_jobs 10 ?d = [?j\<lparr>job_cancel_requested_at := Some 300\<rparr>]" by code_simp
  have f: "fail_run 10 None unconfigured_error now ?d = Inl (ug_exc CancelledError ''generation cancellation requested'' [])" for now
    using fail_run_spec(2)[OF lc r j st(1)] by simp
  have cl: "claim 10 clock now ?d = Inr (IN_PROGRESS, ?d)" for clock now
    unfolding claim_eq[OF lc r j] using st(1) by simp
  have "run_generation (db_store demo_digest wide_limits 10 cancel_after_claim) (None :: (uuid \<Rightarrow> exc + (unit, unit, unit, unit) runtime) option) 10
       (world_of demo_queued_db) = (Inl (ug_exc CancelledError ''generation cancellation requested'' []), \<lparr>w_db = ?d, w_calls = 2\<rparr>)"
    by (simp add: run_generation_def fail_unconfigured_def thenP_def db_store_ops world_of_def transact_def cancel_after_claim_def
      others_commit_def Let_def quiet_times demo_claim rc new_db_def f ug_exc_def make_error_def)
  then show ?thesis using cl st(1) r by (intro exI[of _ "\<lparr>w_db = ?d, w_calls = 2\<rparr>"]) (simp add: run_status_of_def)
qed

end
