(* ===== verification/Ingest.thy ===== *)
theory Ingest
  imports Job_Admission
begin

text \<open>
  The ingest job repository (\<open>backend/app/db/ingest_job_repository.py\<close>), one function per
  transaction: claim of an attempt, completion with its artifacts, failure; with the contexts,
  claims and results of \<open>backend/app/application/ingest.py\<close>. The clock reading and the UUIDs and
  times of new rows are arguments. The session does not flush before its queries: a new artifact is
  not found by a later query of the same transaction, a changed one is seen with its changes.
\<close>

definition INGEST_JOB_TYPE :: string where
  "INGEST_JOB_TYPE = ''ingest_dataset''"

definition ingest_idempotency_key :: "uuid \<Rightarrow> string" where
  "ingest_idempotency_key v = ''dataset-version:'' @ uuid_str v"

record ingest_context =
  ictx_job :: uuid
  ictx_version :: uuid
  ictx_project :: uuid
  ictx_kind :: string
  ictx_checksum :: "string option"
  ictx_metadata :: "(string \<times> json) list"
  ictx_srid :: int
  ictx_attempts :: int
  ictx_max_attempts :: int

datatype ingest_disposition = INGEST_STARTED | INGEST_READY | INGEST_IN_PROGRESS | INGEST_EXHAUSTED

record ingest_claim =
  iclaim_disposition :: ingest_disposition
  iclaim_attempts :: int
  iclaim_max_attempts :: int
  iclaim_context :: "ingest_context option"

text \<open>\<open>ArtifactStat\<close> with its reference; an artifact reference is temporary or ready.\<close>

record artifact_stat =
  stat_key :: string
  stat_ready :: bool
  stat_size :: int
  stat_checksum :: string
  stat_content_type :: "string option"

record pipeline_result =
  pr_source :: artifact_stat
  pr_derived :: "artifact_stat list"
  pr_details :: "(string \<times> json) list option"

subsection \<open>Row loading\<close>

definition permanent :: "string \<Rightarrow> (string \<times> string) list \<Rightarrow> exc" where
  "permanent m details = ug_exc PermanentError m details"

definition load_job :: "uuid \<Rightarrow> db \<Rightarrow> exc + job" where
  "load_job i d = (case find_job i d of
     None \<Rightarrow> Inl (permanent ''ingest job does not exist'' [(''job_id'', uuid_str i)]) | Some j \<Rightarrow> Inr j)"

definition load_dataset_version :: "uuid \<Rightarrow> db \<Rightarrow> exc + dataset_version" where
  "load_dataset_version i d = (case lookup version_id i (db_versions d) of
     None \<Rightarrow> Inl (permanent ''DatasetVersion does not exist'' [(''dataset_version_id'', uuid_str i)]) | Some v \<Rightarrow> Inr v)"

definition load_dataset :: "uuid \<Rightarrow> db \<Rightarrow> exc + dataset" where
  "load_dataset i d = (case lookup dataset_id i (db_datasets d) of
     None \<Rightarrow> Inl (permanent ''Dataset does not exist'' [(''dataset_id'', uuid_str i)]) | Some x \<Rightarrow> Inr x)"

definition load_project :: "uuid \<Rightarrow> db \<Rightarrow> exc + project" where
  "load_project i d = (case find_project i d of
     None \<Rightarrow> Inl (permanent ''Project does not exist'' [(''project_id'', uuid_str i)]) | Some x \<Rightarrow> Inr x)"

definition validate_job_binding :: "job \<Rightarrow> uuid \<Rightarrow> uuid \<Rightarrow> exc + unit" where
  "validate_job_binding j v p =
     (if job_project_id j \<noteq> p
      then Inl (permanent ''ingest job project does not own DatasetVersion'' [(''job_id'', uuid_str (job_id j))])
      else if job_type j \<noteq> INGEST_JOB_TYPE
      then Inl (permanent ''unexpected job_type for ingest worker'' [(''job_type'', job_type j)])
      else if job_key j \<noteq> ingest_idempotency_key v
      then Inl (permanent ''ingest job idempotency key does not match DatasetVersion''
             [(''expected'', ingest_idempotency_key v)])
      else Inr ())"

definition DEFAULT_STALE_AFTER :: time where
  "DEFAULT_STALE_AFTER = seconds (70 * 60)"

definition is_active_attempt :: "time \<Rightarrow> time \<Rightarrow> job \<Rightarrow> bool" where
  "is_active_attempt stale_after now j =
     (job_status j = Running \<and> (case job_started_at j of None \<Rightarrow> False | Some t \<Rightarrow> t > now - stale_after))"

definition mark_job_succeeded :: "time \<Rightarrow> job \<Rightarrow> job" where
  "mark_job_succeeded now j = j\<lparr>job_status := Succeeded, job_error_class := None, job_error_code := None,
     job_error := None, job_finished_at := Some now\<rparr>"

definition ug_value :: "error_class \<Rightarrow> string \<Rightarrow> (string \<times> string) list \<Rightarrow> ug_error" where
  "ug_value c m details = \<lparr>err_class = c, err_message = m, err_details = details\<rparr>"

text \<open>\<open>except UrbanGeneratorError: raise\<close>; \<open>except SQLAlchemyError\<close>: a transient error.\<close>

definition database_errors :: "string \<Rightarrow> string \<Rightarrow> exc + 'a \<Rightarrow> exc + 'a" where
  "database_errors message operation m =
     (case m of
        Inl e \<Rightarrow> if is_sqlalchemy_error e then Inl (ug_exc TransientError message [(''operation'', operation)]) else Inl e
      | Inr x \<Rightarrow> Inr x)"

subsection \<open>Claim\<close>

definition start_attempt :: "time \<Rightarrow> job \<Rightarrow> job" where
  "start_attempt now j = j\<lparr>job_status := Running, job_attempts := job_attempts j + 1, job_error_class := None,
     job_error_code := None, job_error := None, job_started_at := Some now, job_finished_at := None\<rparr>"

definition exhausted_job :: "time \<Rightarrow> job \<Rightarrow> job" where
  "exhausted_job now j =
     (if job_status j \<noteq> Failed
      then (record_failure (ug_value PermanentError ''ingest job attempts are exhausted'' []) j)\<lparr>job_finished_at := Some now\<rparr>
      else j)"

definition claim_of :: "ingest_disposition \<Rightarrow> job \<Rightarrow> ingest_context option \<Rightarrow> ingest_claim" where
  "claim_of disp j c = \<lparr>iclaim_disposition = disp, iclaim_attempts = job_attempts j,
     iclaim_max_attempts = job_max_attempts j, iclaim_context = c\<rparr>"

definition context_of :: "job \<Rightarrow> dataset_version \<Rightarrow> dataset \<Rightarrow> project \<Rightarrow> ingest_context" where
  "context_of j v x p = \<lparr>ictx_job = job_id j, ictx_version = version_id v, ictx_project = project_id p,
     ictx_kind = dataset_kind x, ictx_checksum = version_checksum v, ictx_metadata = version_metadata v,
     ictx_srid = project_working_srid p, ictx_attempts = job_attempts j, ictx_max_attempts = job_max_attempts j\<rparr>"

definition claim_ingest :: "time \<Rightarrow> uuid \<Rightarrow> uuid \<Rightarrow> time \<Rightarrow> db \<Rightarrow> exc + ingest_claim \<times> db" where
  "claim_ingest stale_after i vid now d = database_errors ''unable to claim ingest job from database'' ''claim''
     (bindE (load_job i d) (\<lambda>j.
      bindE (load_dataset_version vid d) (\<lambda>v.
      bindE (load_dataset (version_dataset_id v) d) (\<lambda>x.
      bindE (load_project (dataset_project_id x) d) (\<lambda>p.
      bindE (validate_job_binding j vid (project_id p)) (\<lambda>_.
      if version_status v = ''ready'' then
        bindE (flush d (set_job (mark_job_succeeded now j) d)) (\<lambda>d'. Inr (claim_of INGEST_READY j None, d'))
      else if job_status j = Cancelled then Inr (claim_of INGEST_EXHAUSTED j None, d)
      else if job_status j = Succeeded
      then Inl (permanent ''ingest job is succeeded but DatasetVersion is not ready'' [(''dataset_version_id'', uuid_str vid)])
      else if is_active_attempt stale_after now j then Inr (claim_of INGEST_IN_PROGRESS j None, d)
      else if job_attempts j \<ge> job_max_attempts j then
        bindE (flush d (set_job (exhausted_job now j) (set_version (v\<lparr>version_status := ''failed''\<rparr>) d)))
          (\<lambda>d'. Inr (claim_of INGEST_EXHAUSTED j None, d'))
      else if version_status v \<notin> {''uploaded'', ''processing'', ''failed''}
      then Inl (ug_exc DataError (''unsupported DatasetVersion ingest status: '' @ py_repr (version_status v))
             [(''dataset_version_id'', uuid_str vid)])
      else
        bindE (flush d (set_job (start_attempt now j) (set_version (v\<lparr>version_status := ''processing''\<rparr>) d)))
          (\<lambda>d'. Inr (claim_of INGEST_STARTED (start_attempt now j) (Some (context_of (start_attempt now j) v x p)), d'))))))))"

subsection \<open>Completion\<close>

definition artifact_uri_of :: "artifact_stat \<Rightarrow> string" where
  "artifact_uri_of s = ''artifact://'' @ stat_key s"

definition require_ready_stat :: "artifact_stat \<Rightarrow> exc + unit" where
  "require_ready_stat s =
     (if \<not> stat_ready s
      then Inl (permanent ''completed ingest artifacts must be ready'' [(''artifact_key'', stat_key s)]) else Inr ())"

definition verify_artifact_content :: "artifact \<Rightarrow> artifact_stat \<Rightarrow> exc + unit" where
  "verify_artifact_content a s =
     (if artifact_checksum a \<noteq> stat_checksum s \<or> artifact_size a \<noteq> stat_size s \<or> artifact_content_type a \<noteq> stat_content_type s
      then Inl (ug_exc DataError ''artifact database metadata does not match ArtifactStore'' [(''artifact_key'', stat_key s)])
      else Inr ())"

definition DATASET_OWNER_TYPE :: string where
  "DATASET_OWNER_TYPE = ''dataset_version''"

definition reference_existing_artifact :: "uuid \<Rightarrow> artifact \<Rightarrow> exc + artifact" where
  "reference_existing_artifact vid a =
     (if artifact_state a = READY then transition_to REFERENCED (Some DATASET_OWNER_TYPE) (Some vid) a
      else if artifact_state a = REFERENCED then
        (if artifact_owner_type a \<noteq> Some DATASET_OWNER_TYPE \<or> artifact_owner_id a \<noteq> Some vid
         then Inl (permanent ''artifact is already referenced by another owner'' [(''artifact_id'', uuid_str (artifact_id a))])
         else Inr a)
      else Inl (permanent ''artifact is not referenceable from its current lifecycle state''
             [(''state'', artifact_state_value (artifact_state a))]))"

definition reference_source_artifact :: "uuid \<Rightarrow> artifact_stat \<Rightarrow> db \<Rightarrow> exc + db" where
  "reference_source_artifact vid s d =
     bindE (require_ready_stat s) (\<lambda>_.
     case lookup artifact_uri (artifact_uri_of s) (db_artifacts d) of
       None \<Rightarrow> Inl (ug_exc DataError ''source artifact metadata does not exist in database'' [(''artifact_key'', stat_key s)])
     | Some a \<Rightarrow> bindE (verify_artifact_content a s) (\<lambda>_.
         bindE (reference_existing_artifact vid a) (\<lambda>a'. Inr (set_artifact a' d))))"

definition derived_artifact :: "uuid \<Rightarrow> uuid \<Rightarrow> time \<Rightarrow> artifact_stat \<Rightarrow> artifact" where
  "derived_artifact fresh vid now s = \<lparr>artifact_id = fresh, artifact_uri = artifact_uri_of s, artifact_checksum = stat_checksum s,
     artifact_size = stat_size s, artifact_content_type = stat_content_type s, artifact_state = REFERENCED,
     artifact_owner_type = Some DATASET_OWNER_TYPE, artifact_owner_id = Some vid, artifact_created_at = now, artifact_updated_at = now\<rparr>"

text \<open>The loop over the derived artifacts: the changed database, and the artifacts added but not flushed.\<close>

fun reference_derived_artifacts ::
  "(nat \<Rightarrow> uuid) \<Rightarrow> uuid \<Rightarrow> time \<Rightarrow> artifact_stat list \<Rightarrow> artifact list \<Rightarrow> db \<Rightarrow> exc + artifact list \<times> db" where
  "reference_derived_artifacts fresh vid now [] added d = Inr (added, d)"
| "reference_derived_artifacts fresh vid now (s # ss) added d =
     bindE (require_ready_stat s) (\<lambda>_.
     case lookup artifact_uri (artifact_uri_of s) (db_artifacts d) of
       None \<Rightarrow> reference_derived_artifacts fresh vid now ss
                 (added @ [derived_artifact (fresh (length added)) vid now s]) d
     | Some a \<Rightarrow> bindE (verify_artifact_content a s) (\<lambda>_.
         bindE (reference_existing_artifact vid a) (\<lambda>a'.
         reference_derived_artifacts fresh vid now ss added (set_artifact a' d))))"

definition add_artifacts :: "artifact list \<Rightarrow> db \<Rightarrow> db" where
  "add_artifacts as d = d\<lparr>db_artifacts := db_artifacts d @ as\<rparr>"

definition complete_ingest ::
  "(nat \<Rightarrow> uuid) \<Rightarrow> ingest_context \<Rightarrow> pipeline_result \<Rightarrow> time \<Rightarrow> db \<Rightarrow> exc + db" where
  "complete_ingest fresh c res now d =
     (case
       (bindE (load_job (ictx_job c) d) (\<lambda>j.
        bindE (load_dataset_version (ictx_version c) d) (\<lambda>v.
        if version_status v = ''ready'' then flush d (set_job (mark_job_succeeded now j) d)
        else if version_status v \<noteq> ''processing''
        then Inl (permanent ''DatasetVersion must be processing before ingest completion'' [(''status'', version_status v)])
        else if job_status j \<noteq> Running
        then Inl (permanent ''ingest job must be running before completion'' [(''status'', status_value (job_status j))])
        else
          bindE (reference_source_artifact (version_id v) (pr_source res) d) (\<lambda>d1.
          bindE (reference_derived_artifacts fresh (version_id v) now (pr_derived res) [] d1) (\<lambda>(added, d2).
          flush d (set_job (mark_job_succeeded now j) (set_version (v\<lparr>version_status := ''ready''\<rparr>)
            (add_artifacts added d2)))))))) of
        Inl (ArtifactLifecycleError _) \<Rightarrow>
          Inl (permanent ''artifact lifecycle is inconsistent during ingest completion'' [(''operation'', ''complete'')])
      | m \<Rightarrow> database_errors ''unable to complete ingest job in database'' ''complete'' m)"

subsection \<open>Failure\<close>

definition fail_ingest :: "ingest_context \<Rightarrow> ug_error \<Rightarrow> time \<Rightarrow> db \<Rightarrow> exc + bool \<times> db" where
  "fail_ingest c e now d = database_errors ''unable to persist ingest job failure'' ''fail''
     (bindE (load_job (ictx_job c) d) (\<lambda>j.
      bindE (load_dataset_version (ictx_version c) d) (\<lambda>v.
      if version_status v = ''ready'' then
        bindE (flush d (set_job (mark_job_succeeded now j) d)) (\<lambda>d'. Inr (False, d'))
      else if version_status v \<notin> {''uploaded'', ''processing'', ''failed''}
      then Inl (permanent ''cannot fail DatasetVersion from unsupported ingest status'' [(''status'', version_status v)])
      else
        bindE (flush d (set_job ((record_failure e j)\<lparr>job_finished_at := Some now\<rparr>) (set_version (v\<lparr>version_status := ''failed''\<rparr>) d)))
          (\<lambda>d'. Inr (err_retryable e \<and> job_attempts j < job_max_attempts j, d')))))"

end
