(* ===== verification/Ingest_Service.thy ===== *)
theory Ingest_Service
  imports Ingest Effects Json_Text
begin

text \<open>
  The ingest service of \<open>backend/app/application/ingest.py\<close> over its repository port, the queue
  task \<open>run_ingest\<close> of \<open>worker/tasks.py\<close>, and the submission of an upload as a dataset version with
  its job and message (\<open>backend/app/db/ingest_submission.py\<close>). The pipeline is a parameter.
\<close>

subsection \<open>The service\<close>

record 's ingest_repository =
  ir_claim :: "uuid \<Rightarrow> uuid \<Rightarrow> ('s, ingest_claim) prog"
  ir_complete :: "ingest_context \<Rightarrow> pipeline_result \<Rightarrow> ('s, unit) prog"
  ir_fail :: "ingest_context \<Rightarrow> ug_error \<Rightarrow> ('s, bool) prog"

datatype ingest_status = RUN_SUCCEEDED | RUN_ALREADY_READY | RUN_IN_PROGRESS | RUN_EXHAUSTED | RUN_FAILED

fun ingest_status_value :: "ingest_status \<Rightarrow> string" where
  "ingest_status_value RUN_SUCCEEDED = ''succeeded''"
| "ingest_status_value RUN_ALREADY_READY = ''already_ready''"
| "ingest_status_value RUN_IN_PROGRESS = ''in_progress''"
| "ingest_status_value RUN_EXHAUSTED = ''exhausted''"
| "ingest_status_value RUN_FAILED = ''failed''"

record ingest_result =
  ires_job :: uuid
  ires_version :: uuid
  ires_status :: ingest_status
  ires_attempts :: int
  ires_max_attempts :: int
  ires_retryable :: bool
  ires_details :: "(string \<times> json) list option"

text \<open>\<open>type(exc).__name__\<close>; \<open>OtherError\<close> carries the name of its class.\<close>

fun class_name :: "error_class \<Rightarrow> string" where
  "class_name DomainError = ''DomainError''"
| "class_name ConfigError = ''ConfigError''"
| "class_name DataError = ''DataError''"
| "class_name TransientError = ''TransientError''"
| "class_name PermanentError = ''PermanentError''"
| "class_name CancelledError = ''CancelledError''"

fun exc_name :: "exc \<Rightarrow> string" where
  "exc_name (UrbanError u) = class_name (err_class u)"
| "exc_name (ValueError _) = ''ValueError''"
| "exc_name (TypeError _) = ''TypeError''"
| "exc_name (KeyError _) = ''KeyError''"
| "exc_name RecursionError = ''RecursionError''"
| "exc_name AssertionError = ''AssertionError''"
| "exc_name (StageContractError _) = ''StageContractError''"
| "exc_name (StageRegistryError _) = ''StageRegistryError''"
| "exc_name (CheckpointContractError _) = ''CheckpointContractError''"
| "exc_name (PersistedCheckpointError _) = ''PersistedCheckpointError''"
| "exc_name (GenerationExecutionError _) = ''GenerationExecutionError''"
| "exc_name (GenerationRetryScheduled _) = ''GenerationRetryScheduled''"
| "exc_name (ScenarioBatchError _) = ''ScenarioBatchError''"
| "exc_name (ScenarioMatrixError _) = ''ScenarioMatrixError''"
| "exc_name (RunControlNotFound _) = ''RunControlNotFound''"
| "exc_name (RunControlConflict _) = ''RunControlConflict''"
| "exc_name (JobCapacityExceeded _ _) = ''JobCapacityExceeded''"
| "exc_name (IngestSubmissionNotFound _) = ''IngestSubmissionNotFound''"
| "exc_name (IngestSubmissionConflict _) = ''IngestSubmissionConflict''"
| "exc_name (ArtifactLifecycleError _) = ''ArtifactLifecycleError''"
| "exc_name (GenerationRunImmutableError _) = ''GenerationRunImmutableError''"
| "exc_name (IntegrityError _) = ''IntegrityError''"
| "exc_name (DatasetVersionImmutableError _) = ''DatasetVersionImmutableError''"
| "exc_name (RuntimeError _) = ''RuntimeError''"
| "exc_name (DatabaseError _) = ''DatabaseError''"
| "exc_name (ArqRetry _) = ''Retry''"
| "exc_name (IngestTaskFailed _) = ''IngestTaskFailed''"
| "exc_name (GenerationTaskFailed _) = ''GenerationTaskFailed''"
| "exc_name (GenerationTaskConfigurationError _) = ''GenerationTaskConfigurationError''"
| "exc_name (LayerCatalogError _) = ''LayerCatalogError''"
| "exc_name (ArtifactContractError _) = ''ArtifactContractError''"
| "exc_name (GeoJsonExportError _) = ''GeoJsonExportError''"
| "exc_name (GeoJsonExportNotFound _) = ''GeoJsonExportNotFoundError''"
| "exc_name (GeoJsonExportConflict _) = ''GeoJsonExportConflictError''"
| "exc_name (GeoPackageExportError _) = ''GeoPackageExportError''"
| "exc_name (GeoPackageExportNotFound _) = ''GeoPackageExportNotFoundError''"
| "exc_name (GeoPackageExportConflict _) = ''GeoPackageExportConflictError''"
| "exc_name (GeoJsonExportTaskFailed _) = ''GeoJsonExportTaskFailed''"
| "exc_name (GeoPackageExportTaskFailed _) = ''GeoPackageExportTaskFailed''"
| "exc_name (ExactRerunError _) = ''ExactRerunError''"
| "exc_name (OtherError n) = n"

definition unexpected_error :: "exc \<Rightarrow> ug_error" where
  "unexpected_error e = ug_value TransientError ''ingest pipeline failed unexpectedly'' [(''exception_type'', exc_name e)]"

definition ingest_error :: "exc \<Rightarrow> ug_error" where
  "ingest_error e = (case e of UrbanError u \<Rightarrow> u | _ \<Rightarrow> unexpected_error e)"

text \<open>The result for a claim that does not start, and for a failed attempt.\<close>

definition idle_result :: "uuid \<Rightarrow> uuid \<Rightarrow> ingest_status \<Rightarrow> ingest_claim \<Rightarrow> ingest_result" where
  "idle_result i v st c = \<lparr>ires_job = i, ires_version = v, ires_status = st, ires_attempts = iclaim_attempts c,
     ires_max_attempts = iclaim_max_attempts c, ires_retryable = False, ires_details = None\<rparr>"

definition failed_attempt :: "uuid \<Rightarrow> uuid \<Rightarrow> ingest_context \<Rightarrow> ug_error \<Rightarrow> bool \<Rightarrow> ingest_result" where
  "failed_attempt i v c e retryable = \<lparr>ires_job = i, ires_version = v, ires_status = RUN_FAILED, ires_attempts = ictx_attempts c,
     ires_max_attempts = ictx_max_attempts c, ires_retryable = retryable,
     ires_details = Some [(''error_class'', JStr (category_value (err_category e))), (''error_code'', JStr (code_value (err_code e)))]\<rparr>"

definition attempt_ingest ::
  "'s ingest_repository \<Rightarrow> (ingest_context \<Rightarrow> exc + pipeline_result) \<Rightarrow> ingest_context \<Rightarrow> ('s, pipeline_result) prog" where
  "attempt_ingest repo pipeline c = thenP (pure (pipeline c)) (\<lambda>res. thenP (ir_complete repo c res) (\<lambda>_. ret res))"

definition started_ingest ::
  "'s ingest_repository \<Rightarrow> (ingest_context \<Rightarrow> exc + pipeline_result) \<Rightarrow> uuid \<Rightarrow> uuid \<Rightarrow> ingest_context \<Rightarrow> ('s, ingest_result) prog" where
  "started_ingest repo pipeline i v c s =
     (case attempt_ingest repo pipeline c s of
        (Inr res, s') \<Rightarrow>
          (Inr \<lparr>ires_job = i, ires_version = v, ires_status = RUN_SUCCEEDED, ires_attempts = ictx_attempts c,
             ires_max_attempts = ictx_max_attempts c, ires_retryable = False,
             ires_details = Some (case pr_details res of None \<Rightarrow> [] | Some x \<Rightarrow> x)\<rparr>, s')
      | (Inl e, s') \<Rightarrow>
          thenP (ir_fail repo c (ingest_error e)) (\<lambda>retryable. ret (failed_attempt i v c (ingest_error e) retryable)) s')"

definition run_ingest_service ::
  "'s ingest_repository \<Rightarrow> (ingest_context \<Rightarrow> exc + pipeline_result) \<Rightarrow> uuid \<Rightarrow> uuid \<Rightarrow> ('s, ingest_result) prog" where
  "run_ingest_service repo pipeline i v =
     thenP (ir_claim repo i v) (\<lambda>c.
     case iclaim_disposition c of
       INGEST_READY \<Rightarrow> ret (idle_result i v RUN_ALREADY_READY c)
     | INGEST_IN_PROGRESS \<Rightarrow> ret (idle_result i v RUN_IN_PROGRESS c)
     | INGEST_EXHAUSTED \<Rightarrow> ret (idle_result i v RUN_EXHAUSTED c)
     | INGEST_STARTED \<Rightarrow>
         (case iclaim_context c of
            None \<Rightarrow> raise (RuntimeError ''started ingest claim must include context'')
          | Some x \<Rightarrow> started_ingest repo pipeline i v x))"

subsection \<open>The queue task\<close>

definition retry_delay_seconds :: "int \<Rightarrow> int" where
  "retry_delay_seconds attempt_count = min (30 * 2 ^ nat (max 0 (min (attempt_count - 1) 4))) 300"

text \<open>A dictionary of JSON values; the numbers of the result are written by the queue.\<close>

definition ingest_summary :: "ingest_result \<Rightarrow> (string \<times> json) list" where
  "ingest_summary r =
     [(''job_id'', JStr (uuid_str (ires_job r))), (''dataset_version_id'', JStr (uuid_str (ires_version r))),
      (''status'', JStr (ingest_status_value (ires_status r))), (''attempt_count'', JInt (ires_attempts r)),
      (''max_attempts'', JInt (ires_max_attempts r)),
      (''details'', JObj (case ires_details r of None \<Rightarrow> [] | Some x \<Rightarrow> x))]"

definition run_ingest ::
  "'s ingest_repository \<Rightarrow> (ingest_context \<Rightarrow> exc + pipeline_result) \<Rightarrow> uuid \<Rightarrow> uuid \<Rightarrow>
     ('s, (string \<times> json) list) prog" where
  "run_ingest repo pipeline i v s =
     (case run_ingest_service repo pipeline i v s of
        (Inl e, s') \<Rightarrow>
          (Inl (case e of UrbanError u \<Rightarrow> if err_class u = TransientError then ArqRetry (retry_delay_seconds 1) else e | _ \<Rightarrow> e), s')
      | (Inr r, s') \<Rightarrow>
          (if ires_status r = RUN_FAILED then
             (if ires_retryable r then Inl (ArqRetry (retry_delay_seconds (ires_attempts r)))
              else Inl (IngestTaskFailed (''ingest job '' @ uuid_str i @ '' failed permanently on attempt '' @ dec_int (ires_attempts r))))
           else if ires_status r = RUN_EXHAUSTED
           then Inl (IngestTaskFailed (''ingest job '' @ uuid_str i @ '' exhausted its retry budget''))
           else Inr (ingest_summary r), s'))"

subsection \<open>Submission\<close>

record ingest_submission =
  sub_project :: uuid
  sub_version :: uuid
  sub_dataset :: uuid
  sub_job :: uuid
  sub_status :: string
  sub_job_status :: status
  sub_attempts :: int
  sub_max_attempts :: int
  sub_retry_pending :: bool
  sub_error_code :: "string option"
  sub_error_message :: "string option"

definition json_field :: "string \<Rightarrow> json option \<Rightarrow> json option" where
  "json_field k e = (case e of None \<Rightarrow> None | Some j \<Rightarrow> json_get k j)"

definition submission :: "uuid \<Rightarrow> dataset_version \<Rightarrow> job \<Rightarrow> ingest_submission" where
  "submission p v j = \<lparr>sub_project = p, sub_version = version_id v, sub_dataset = version_dataset_id v, sub_job = job_id j,
     sub_status = version_status v, sub_job_status = job_status j, sub_attempts = job_attempts j,
     sub_max_attempts = job_max_attempts j,
     sub_retry_pending = (job_status j = Failed \<and> job_attempts j < job_max_attempts j \<and>
       json_field ''retryable'' (job_error j) = Some (JBool True)),
     sub_error_code = job_error_code j,
     sub_error_message = (case json_field ''message'' (job_error j) of Some (JStr m) \<Rightarrow> Some m | _ \<Rightarrow> None)\<rparr>"

text \<open>The columns of the query are unique together, so it returns at most one row.\<close>

definition ingest_job_of :: "uuid \<Rightarrow> uuid \<Rightarrow> db \<Rightarrow> exc + job" where
  "ingest_job_of p v d =
     (case lookup (\<lambda>j. (job_project_id j, job_type j, job_key j)) (p, INGEST_JOB_TYPE, ingest_idempotency_key v) (db_jobs d) of
        None \<Rightarrow> Inl (IngestSubmissionConflict ''dataset version has no authoritative ingest job'')
      | Some j \<Rightarrow> Inr j)"

text \<open>\<open>source_metadata.get(k)\<close>: a JSON null is \<open>None\<close>.\<close>

definition meta_get :: "string \<Rightarrow> dataset_version \<Rightarrow> json option" where
  "meta_get k v = (case map_of (version_metadata v) k of Some JNull \<Rightarrow> None | m \<Rightarrow> m)"

text \<open>The versions whose \<open>artifact_key\<close> is the text \<open>key\<close>, with their datasets.\<close>

definition attached :: "string \<Rightarrow> db \<Rightarrow> (dataset_version \<times> dataset) list" where
  "attached key d = List.map_filter (\<lambda>v.
     if map_of (version_metadata v) ''artifact_key'' = Some (JStr key)
     then map_option (\<lambda>x. (v, x)) (lookup dataset_id (version_dataset_id v) (db_datasets d)) else None) (db_versions d)"

record upload_request =
  up_artifact :: uuid
  up_kind :: string
  up_format :: string
  up_layer :: "string option"

record upload_ids =
  new_dataset :: uuid
  new_version :: uuid
  new_job :: uuid
  new_message :: uuid

definition upload_prefix :: string where
  "upload_prefix = ''artifact://uploads/''"

text \<open>\<open>s.removeprefix(p)\<close>.\<close>

definition removeprefix :: "string \<Rightarrow> string \<Rightarrow> string" where
  "removeprefix p s = (if starts_with p s then drop (length p) s else s)"

definition check_upload :: "upload_request \<Rightarrow> exc + unit" where
  "check_upload q =
     (if up_kind q = ''dem'' \<and> up_format q \<noteq> ''geotiff'' then Inl (IngestSubmissionConflict ''DEM requires GeoTIFF format'')
      else if up_kind q \<noteq> ''dem'' \<and> up_format q = ''geotiff''
      then Inl (IngestSubmissionConflict ''GeoTIFF requires DEM dataset kind'')
      else if up_format q \<noteq> ''gpkg'' \<and> up_layer q \<noteq> None
      then Inl (IngestSubmissionConflict ''named source layer is only valid for GeoPackage'')
      else Inr ())"

definition new_upload_version :: "upload_ids \<Rightarrow> upload_request \<Rightarrow> string \<Rightarrow> artifact \<Rightarrow> dataset_version" where
  "new_upload_version f q key a = \<lparr>version_id = new_version f, version_dataset_id = new_dataset f, version_number = 1,
     version_checksum = Some (removeprefix ''sha256:'' (artifact_checksum a)), version_status = ''uploaded'',
     version_metadata = [(''artifact_key'', JStr key), (''format'', JStr (up_format q))] @
       (case up_layer q of None \<Rightarrow> [] | Some l \<Rightarrow> [(''layer'', JStr l)])\<rparr>"

definition new_upload_job :: "upload_ids \<Rightarrow> uuid \<Rightarrow> job" where
  "new_upload_job f p = \<lparr>job_id = new_job f, job_project_id = p, job_run_id = None, job_type = INGEST_JOB_TYPE,
     job_key = ingest_idempotency_key (new_version f), job_status = Queued, job_attempts = 0, job_max_attempts = 3,
     job_error_class = None, job_error_code = None, job_error = None, job_cancel_requested_at = None,
     job_started_at = None, job_finished_at = None\<rparr>"

definition new_upload_message :: "upload_ids \<Rightarrow> time \<Rightarrow> outbox" where
  "new_upload_message f now = \<lparr>outbox_id = new_message f, outbox_job_id = new_job f, outbox_queue = ''ingest'',
     outbox_payload = [(''task'', JStr ''run_ingest''), (''job_id'', JStr (uuid_str (new_job f))),
       (''dataset_version_id'', JStr (uuid_str (new_version f)))],
     outbox_status = Pending, outbox_attempts = 0, outbox_last_error = None, outbox_last_attempt_at = None,
     outbox_next_attempt_at = None, outbox_dispatched_at = None, outbox_created_at = now\<rparr>"

definition add_upload :: "upload_ids \<Rightarrow> time \<Rightarrow> uuid \<Rightarrow> upload_request \<Rightarrow> string \<Rightarrow> artifact \<Rightarrow> db \<Rightarrow> db" where
  "add_upload f now p q key a d =
     d\<lparr>db_datasets := db_datasets d @ [\<lparr>dataset_id = new_dataset f, dataset_project_id = p, dataset_kind = up_kind q\<rparr>],
       db_versions := db_versions d @ [new_upload_version f q key a],
       db_jobs := db_jobs d @ [new_upload_job f p],
       db_outbox := db_outbox d @ [new_upload_message f now]\<rparr>"

text \<open>\<open>create\<close>; several attached versions make \<open>one_or_none\<close> raise.\<close>

definition create_upload ::
  "admission_limits \<Rightarrow> upload_ids \<Rightarrow> time \<Rightarrow> uuid \<Rightarrow> upload_request \<Rightarrow> db \<Rightarrow> exc + ingest_submission \<times> db" where
  "create_upload lims f now p q d =
     bindE (check_upload q) (\<lambda>_.
     case find_project p d of
       None \<Rightarrow> Inl (IngestSubmissionNotFound ''project not found'')
     | Some _ \<Rightarrow>
       (case lookup artifact_id (up_artifact q) (db_artifacts d) of
          None \<Rightarrow> Inl (IngestSubmissionNotFound ''upload artifact not found'')
        | Some a \<Rightarrow>
            if \<not> starts_with upload_prefix (artifact_uri a)
            then Inl (IngestSubmissionConflict ''only uploaded artifacts may be imported'')
            else if artifact_state a \<notin> {READY, REFERENCED}
            then Inl (IngestSubmissionConflict ''artifact must be ready for ingest'')
            else
              let key = removeprefix ''artifact://'' (artifact_uri a) in
              (case attached key d of
                 [] \<Rightarrow>
                   if artifact_state a \<noteq> READY then Inl (IngestSubmissionConflict ''artifact is already referenced'')
                   else
                     bindE (enforce_project_job_capacity lims p INGEST_JOB_TYPE 1 d) (\<lambda>_.
                     bindE (flush d (add_upload f now p q key a d)) (\<lambda>d'.
                     Inr (submission p (new_upload_version f q key a) (new_upload_job f p), d')))
               | [(v, x)] \<Rightarrow>
                   if dataset_project_id x \<noteq> p \<or> dataset_kind x \<noteq> up_kind q \<or>
                      meta_get ''format'' v \<noteq> Some (JStr (up_format q)) \<or> meta_get ''layer'' v \<noteq> map_option JStr (up_layer q)
                   then Inl (IngestSubmissionConflict ''uploaded artifact is already attached to another ingest'')
                   else bindE (ingest_job_of p (version_id v) d) (\<lambda>j. Inr (submission p v j, d))
               | _ \<Rightarrow> Inl (OtherError ''MultipleResultsFound''))))"

definition get_upload :: "uuid \<Rightarrow> uuid \<Rightarrow> db \<Rightarrow> exc + ingest_submission" where
  "get_upload p vid d =
     (case lookup version_id vid (db_versions d) of
        None \<Rightarrow> Inl (IngestSubmissionNotFound ''ingest dataset version not found in project'')
      | Some v \<Rightarrow>
          if (case lookup dataset_id (version_dataset_id v) (db_datasets d) of None \<Rightarrow> False | Some x \<Rightarrow> dataset_project_id x = p)
          then bindE (ingest_job_of p vid d) (\<lambda>j. Inr (submission p v j))
          else Inl (IngestSubmissionNotFound ''ingest dataset version not found in project''))"

end
