(* ===== verification/Ingest_Facts.thy ===== *)
theory Ingest_Facts
  imports Ingest_Service
begin

text \<open>
  When the writes of the ingest repository pass the database checks, and what each transaction does:
  the update of a job and of the status of a dataset version, the loop over the derived artifacts,
  and the effect of claim, completion and failure on every job and version.
\<close>

subsection \<open>Writing a version's status and a job\<close>

lemma set_version_tables [simp]:
  "db_projects (set_version v d) = db_projects d" "db_datasets (set_version v d) = db_datasets d"
  "db_jobs (set_version v d) = db_jobs d" "db_artifacts (set_version v d) = db_artifacts d"
  "db_runs (set_version v d) = db_runs d" "db_outbox (set_version v d) = db_outbox d"
  "db_stages (set_version v d) = db_stages d" "db_batches (set_version v d) = db_batches d"
  "db_members (set_version v d) = db_members d" "db_versions (set_version v d) = put_row version_id v (db_versions d)"
  by (simp_all add: set_version_def)

lemma set_artifact_tables [simp]:
  "db_projects (set_artifact a d) = db_projects d" "db_datasets (set_artifact a d) = db_datasets d"
  "db_jobs (set_artifact a d) = db_jobs d" "db_versions (set_artifact a d) = db_versions d"
  "db_runs (set_artifact a d) = db_runs d" "db_outbox (set_artifact a d) = db_outbox d"
  "db_stages (set_artifact a d) = db_stages d" "db_batches (set_artifact a d) = db_batches d"
  "db_members (set_artifact a d) = db_members d" "db_artifacts (set_artifact a d) = put_row artifact_id a (db_artifacts d)"
  by (simp_all add: set_artifact_def)

lemma add_artifacts_tables [simp]:
  "db_projects (add_artifacts as d) = db_projects d" "db_datasets (add_artifacts as d) = db_datasets d"
  "db_jobs (add_artifacts as d) = db_jobs d" "db_versions (add_artifacts as d) = db_versions d"
  "db_runs (add_artifacts as d) = db_runs d" "db_outbox (add_artifacts as d) = db_outbox d"
  "db_stages (add_artifacts as d) = db_stages d" "db_batches (add_artifacts as d) = db_batches d"
  "db_members (add_artifacts as d) = db_members d" "db_artifacts (add_artifacts as d) = db_artifacts d @ as"
  by (simp_all add: add_artifacts_def)

text \<open>The job and version rows behind an identifier.\<close>

abbreviation find_version :: "uuid \<Rightarrow> db \<Rightarrow> dataset_version option" where
  "find_version i d \<equiv> lookup version_id i (db_versions d)"

lemma find_job_Some: "find_job i d = Some j \<Longrightarrow> j \<in> set (db_jobs d) \<and> job_id j = i"
  unfolding find_job_def by (rule lookup_Some)

lemma find_job_set_job: "find_job i (set_job j d) =
    (if i = job_id j then (if find_job i d = None then None else Some j) else find_job i d)"
  using lookup_None[of job_id i "db_jobs d"] by (cases "i = job_id j") (auto simp: find_job_def lookup_put_row)

lemma find_job_other [simp]:
  "find_job i (set_version v d) = find_job i d" "find_job i (set_artifact a d) = find_job i d"
  "find_job i (add_artifacts as d) = find_job i d"
  by (simp_all add: find_job_def)

lemma find_version_put: "find_version (version_id v) d = Some v0 \<Longrightarrow>
    lookup version_id i (put_row version_id v (db_versions d)) = (if i = version_id v then Some v else find_version i d)"
  using lookup_Some[of version_id "version_id v" "db_versions d" v0]
  by (simp add: lookup_put_row) (metis imageI)

definition same_version_key :: "dataset_version \<Rightarrow> dataset_version \<Rightarrow> bool" where
  "same_version_key v v0 \<longleftrightarrow> (\<exists>s. v = v0\<lparr>version_status := s\<rparr> \<and> (version_status v0 = ''ready'' \<longrightarrow> s = ''ready''))"

lemma wf_set_version:
  assumes wf: "wf_db d" and v: "find_version (version_id v) d = Some v0" "same_version_key v v0"
  shows "wf_db (set_version v d)"
proof -
  have in_d: "v0 \<in> set (db_versions d)" using lookup_Some[OF v(1)] by simp
  obtain s where s: "v = v0\<lparr>version_status := s\<rparr>" using v(2) by (auto simp: same_version_key_def)
  have num: "map (\<lambda>v. (version_dataset_id v, version_number v)) (put_row version_id v (db_versions d))
      = map (\<lambda>v. (version_dataset_id v, version_number v)) (db_versions d)"
    by (rule map_put_row_lookup[OF wf_pks(2)[OF wf] v(1)]) (simp_all add: s)
  have "version_checks v"
    using wf in_d by (simp add: s wf_db_def rows_ok_def list_all_iff version_checks_def)
  then have "rows_ok (set_version v d)" using wf by (simp add: wf_db_def rows_ok_def list_all_put_row)
  moreover have "unique_ok (set_version v d)" using wf num by (simp add: wf_db_def unique_ok_def map_key_put_row)
  moreover have "fk_ok (set_version v d)"
  proof -
    have "run_fk (set_version v d) = run_fk d" "job_fk (set_version v d) = job_fk d" "member_fk (set_version v d) = member_fk d"
      unfolding run_fk_def[abs_def] job_fk_def[abs_def] member_fk_def[abs_def] set_version_tables map_key_put_row by (rule refl)+
    moreover have "version_dataset_id v \<in> set (map dataset_id (db_datasets d))"
      using wf in_d by (simp add: s wf_db_def fk_ok_def list_all_iff)
    ultimately show ?thesis using wf unfolding wf_db_def fk_ok_def set_version_tables by (simp add: list_all_put_row)
  qed
  ultimately show ?thesis by (simp add: wf_db_def)
qed

lemma version_updates_put:
  assumes "wf_db d" "find_version (version_id v) d = Some v0" "same_version_key v v0"
    and "db_versions d' = put_row version_id v (db_versions d)"
  shows "version_updates_ok d d'"
proof -
  have "case lookup version_id (version_id x) (db_versions d') of None \<Rightarrow> True
      | Some x' \<Rightarrow> x' = x \<or> prevent_dataset_version_content_update x x' = Inr ()"
    if x: "x \<in> set (db_versions d)" for x
  proof (cases "version_id x = version_id v")
    case True
    have "x = v0" using lookup_self[OF wf_pks(2)[OF assms(1)] x] assms(2) True by simp
    then have "prevent_dataset_version_content_update x v = Inr ()"
      using assms(3) by (auto simp: same_version_key_def prevent_dataset_version_content_update_def)
    then show ?thesis using True by (simp add: assms(4) find_version_put[OF assms(2)])
  next
    case False
    then show ?thesis using lookup_self[OF wf_pks(2)[OF assms(1)] x] by (simp add: assms(4) find_version_put[OF assms(2)])
  qed
  then show ?thesis by (simp add: version_updates_ok_def list_all_iff)
qed

lemma flush_job_version:
  assumes wf: "wf_db d" and j: "j0 \<in> set (db_jobs d)" "same_job_key j j0" "job_checks j"
    and v: "find_version (version_id v) d = Some v0" "same_version_key v v0"
  shows "flush d (set_job j (set_version v d)) = Inr (set_job j (set_version v d))"
proof -
  have wf': "wf_db (set_version v d)" by (rule wf_set_version[OF wf v])
  have "flush (set_version v d) (set_job j (set_version v d)) = Inr (set_job j (set_version v d))"
    by (rule flush_job[OF wf' _ j(2,3)]) (simp add: j(1))
  then have "wf_db (set_job j (set_version v d))" using flush_wf by blast
  moreover have "version_updates_ok d (set_job j (set_version v d))" by (rule version_updates_put[OF wf v]) simp
  moreover have "unique_ok d" using wf by (simp add: wf_db_def)
  ultimately show ?thesis
    by (simp add: flush_Inr artifact_updates_same membership_same batch_state_same stage_results_same succeeded_runs_same)
qed

subsection \<open>The steps of jobs and versions\<close>

text \<open>Every job keeps its key and its bound; the job \<open>o\<close>, if any, has made one attempt more.\<close>

definition jobs_step :: "uuid option \<Rightarrow> db \<Rightarrow> db \<Rightarrow> bool" where
  "jobs_step o' d d' \<longleftrightarrow> (\<forall>k j. find_job k d = Some j \<longrightarrow> (\<exists>j'. find_job k d' = Some j' \<and> same_job_key j' j \<and>
     job_max_attempts j' = job_max_attempts j \<and> job_attempts j' = job_attempts j + (if o' = Some k then 1 else 0)))"

text \<open>Every version keeps its content, and a ready one its status.\<close>

definition versions_step :: "db \<Rightarrow> db \<Rightarrow> bool" where
  "versions_step d d' \<longleftrightarrow> (\<forall>k v. find_version k d = Some v \<longrightarrow> (\<exists>v'. find_version k d' = Some v' \<and> same_version_key v' v))"

lemma same_job_key_refl [simp]: "same_job_key j j"
  by (simp add: same_job_key_def)

lemma same_version_key_refl [simp]: "same_version_key v v"
  unfolding same_version_key_def by (intro exI[of _ "version_status v"]) simp

lemma step_refl [simp]: "jobs_step None d d" "versions_step d d"
  unfolding jobs_step_def versions_step_def by (simp_all add: same_version_key_refl)

lemma same_version_key_trans: "same_version_key v2 v1 \<Longrightarrow> same_version_key v1 v0 \<Longrightarrow> same_version_key v2 v0"
proof -
  assume "same_version_key v2 v1" "same_version_key v1 v0"
  then obtain s t where "v2 = v1\<lparr>version_status := s\<rparr>" "version_status v1 = ''ready'' \<longrightarrow> s = ''ready''"
    "v1 = v0\<lparr>version_status := t\<rparr>" "version_status v0 = ''ready'' \<longrightarrow> t = ''ready''"
    unfolding same_version_key_def by blast
  then show ?thesis unfolding same_version_key_def by (intro exI[of _ s]) simp
qed

lemma versions_step_trans: "versions_step d d' \<Longrightarrow> versions_step d' d'' \<Longrightarrow> versions_step d d''"
  unfolding versions_step_def using same_version_key_trans by blast

lemma jobs_step_same: "db_jobs d' = db_jobs d \<Longrightarrow> jobs_step None d d'"
  by (simp add: jobs_step_def find_job_def)

lemma jobs_step_put:
  assumes "find_job i d = Some j0" "same_job_key j j0" "job_max_attempts j = job_max_attempts j0"
    and "job_attempts j = job_attempts j0 + (if o' = None then 0 else 1)" "o' \<in> {None, Some i}"
    and "db_jobs d' = put_row job_id j (db_jobs d)"
  shows "jobs_step o' d d'"
proof -
  have i: "job_id j = i" using assms(1,2) find_job_Some by (auto simp: same_job_key_def)
  have "find_job k d' = find_job k (set_job j d)" for k using assms(6) by (simp add: find_job_def)
  then show ?thesis using assms by (auto simp: jobs_step_def find_job_set_job i)
qed

lemma versions_step_put:
  assumes "find_version i d = Some v0" "same_version_key v v0" "db_versions d' = put_row version_id v (db_versions d)"
  shows "versions_step d d'"
proof -
  have i: "version_id v = i" using lookup_Some[OF assms(1)] assms(2) by (auto simp: same_version_key_def)
  show ?thesis using assms(1,2) by (auto simp: versions_step_def assms(3) find_version_put[of v d v0, unfolded i] i)
qed

text \<open>One transaction's write: the new rows pass the checks and are the only change.\<close>

lemma ingest_write:
  assumes wf: "wf_db d" and j: "find_job i d = Some j0" "same_job_key j j0" "job_checks j"
    and v: "find_version k d = Some v0" "same_version_key v v0"
  defines "d' \<equiv> set_job j (set_version v d)"
  shows "flush d d' = Inr d'" "wf_db d'" "versions_step d d'"
    "\<lbrakk>job_max_attempts j = job_max_attempts j0; job_attempts j = job_attempts j0 + (if o' = None then 0 else 1);
      o' \<in> {None, Some i}\<rbrakk> \<Longrightarrow> jobs_step o' d d'"
    "find_job i d' = Some j" "find_version k d' = Some v"
proof -
  have k: "version_id v = k" using lookup_Some[OF v(1)] v(2) by (auto simp: same_version_key_def)
  have i: "job_id j = i" using j(1,2) find_job_Some by (auto simp: same_job_key_def)
  show f: "flush d d' = Inr d'" unfolding d'_def
    using flush_job_version[OF wf _ j(2,3), of v v0] find_job_Some[OF j(1)] v k by blast
  then show "wf_db d'" using flush_wf by blast
  show "versions_step d d'" by (rule versions_step_put[OF v]) (simp add: d'_def)
  show "find_job i d' = Some j" using j(1) i by (simp add: d'_def find_job_set_job)
  show "find_version k d' = Some v" using find_version_put[of v d v0 k] v(1) k by (simp add: d'_def)
  show "jobs_step o' d d'" if "job_max_attempts j = job_max_attempts j0"
    "job_attempts j = job_attempts j0 + (if o' = None then 0 else 1)" "o' \<in> {None, Some i}"
    by (rule jobs_step_put[OF j(1,2) that]) (simp add: d'_def)
qed

lemma set_version_same: "wf_db d \<Longrightarrow> find_version k d = Some v \<Longrightarrow> set_version v d = d"
  using put_row_same[OF wf_pks(2)] lookup_Some[of version_id k "db_versions d" v] by (simp add: set_version_def)

subsection \<open>Exceptions that end a delivery\<close>

text \<open>An exception that the task does not turn into another delivery.\<close>

definition final_exc :: "exc \<Rightarrow> bool" where
  "final_exc e = (case e of UrbanError u \<Rightarrow> err_class u \<noteq> TransientError | ArqRetry _ \<Rightarrow> False | _ \<Rightarrow> True)"

lemma ug_exc_final: "c \<noteq> TransientError \<Longrightarrow> final_exc (ug_exc c m ds)"
  by (auto simp: ug_exc_def make_error_def final_exc_def Let_def)

lemma ug_exc_no_retry [simp]: "ug_exc c m ds \<noteq> ArqRetry t"
  by (auto simp: ug_exc_def make_error_def Let_def)

lemma ug_exc_not_sql [simp]: "\<not> is_sqlalchemy_error (ug_exc c m ds)"
  by (auto simp: ug_exc_def make_error_def is_sqlalchemy_error_def Let_def)

lemma permanent_exc [simp]: "final_exc (permanent m ds)" "\<not> is_sqlalchemy_error (permanent m ds)"
  by (simp_all add: permanent_def ug_exc_final)

lemma database_errors_pass [simp]:
  "database_errors m op (Inr x) = Inr x" "\<not> is_sqlalchemy_error e \<Longrightarrow> database_errors m op (Inl e) = Inl e"
  by (simp_all add: database_errors_def)

lemma database_errors_Inr: "database_errors m op q = Inr x \<longleftrightarrow> q = Inr x"
  by (auto simp: database_errors_def split: sum.splits)

subsection \<open>Claim\<close>

text \<open>The rows of an ingest job: the job, its version, the version's dataset and project, bound together.\<close>

definition ingest_rows :: "uuid \<Rightarrow> uuid \<Rightarrow> db \<Rightarrow> job \<Rightarrow> dataset_version \<Rightarrow> dataset \<Rightarrow> project \<Rightarrow> bool" where
  "ingest_rows i k d j v x p \<longleftrightarrow> find_job i d = Some j \<and> find_version k d = Some v \<and>
     lookup dataset_id (version_dataset_id v) (db_datasets d) = Some x \<and>
     find_project (dataset_project_id x) d = Some p \<and> validate_job_binding j k (project_id p) = Inr ()"

text \<open>The decision of a claim on its rows.\<close>

definition claim_decision :: "time \<Rightarrow> time \<Rightarrow> db \<Rightarrow> job \<Rightarrow> dataset_version \<Rightarrow> dataset \<Rightarrow> project \<Rightarrow> exc + ingest_claim \<times> db" where
  "claim_decision stale_after now d j v x p =
     (if version_status v = ''ready'' then Inr (claim_of INGEST_READY j None, set_job (mark_job_succeeded now j) d)
      else if job_status j = Cancelled then Inr (claim_of INGEST_EXHAUSTED j None, d)
      else if job_status j = Succeeded then Inl (permanent ''ingest job is succeeded but DatasetVersion is not ready''
        [(''dataset_version_id'', uuid_str (version_id v))])
      else if is_active_attempt stale_after now j then Inr (claim_of INGEST_IN_PROGRESS j None, d)
      else if job_attempts j \<ge> job_max_attempts j
      then Inr (claim_of INGEST_EXHAUSTED j None, set_job (exhausted_job now j) (set_version (v\<lparr>version_status := ''failed''\<rparr>) d))
      else if version_status v \<notin> {''uploaded'', ''processing'', ''failed''}
      then Inl (ug_exc DataError (''unsupported DatasetVersion ingest status: '' @ py_repr (version_status v))
        [(''dataset_version_id'', uuid_str (version_id v))])
      else Inr (claim_of INGEST_STARTED (start_attempt now j) (Some (context_of (start_attempt now j) v x p)),
        set_job (start_attempt now j) (set_version (v\<lparr>version_status := ''processing''\<rparr>) d)))"

lemma job_updates_key [simp]:
  "same_job_key (mark_job_succeeded now j) j" "same_job_key (start_attempt now j) j" "same_job_key (exhausted_job now j) j"
  "same_job_key ((record_failure e j)\<lparr>job_finished_at := t\<rparr>) j"
  by (simp_all add: same_job_key_def mark_job_succeeded_def start_attempt_def exhausted_job_def)

lemma job_updates_attempts [simp]:
  "job_attempts (mark_job_succeeded now j) = job_attempts j" "job_attempts (start_attempt now j) = job_attempts j + 1"
  "job_attempts (exhausted_job now j) = job_attempts j"
  "job_max_attempts (mark_job_succeeded now j) = job_max_attempts j" "job_max_attempts (start_attempt now j) = job_max_attempts j"
  "job_max_attempts (exhausted_job now j) = job_max_attempts j" "job_id (start_attempt now j) = job_id j"
  by (simp_all add: mark_job_succeeded_def start_attempt_def exhausted_job_def)

lemma failed_job_checks: "job_checks j \<Longrightarrow> job_checks ((record_failure e j)\<lparr>job_finished_at := t\<rparr>)"
  by (rule job_checks_status, assumption) (use recorded_error_ok in \<open>simp_all add: record_failure_def\<close>)

lemma job_updates_checks:
  assumes "job_checks j"
  shows "job_checks (mark_job_succeeded now j)" "job_checks (exhausted_job now j)"
    "job_attempts j < job_max_attempts j \<Longrightarrow> job_checks (start_attempt now j)"
proof -
  show "job_checks (exhausted_job now j)" using failed_job_checks[OF assms] assms by (simp add: exhausted_job_def)
qed (use assms in \<open>simp_all add: job_checks_def mark_job_succeeded_def start_attempt_def\<close>)

lemma find_job_checks: "wf_db d \<Longrightarrow> find_job i d = Some j \<Longrightarrow> job_checks j"
  using find_job_Some wf_checks(2) by blast

lemma claim_ingest_decision:
  assumes wf: "wf_db d" and r: "ingest_rows i k d j v x p"
  shows "claim_ingest stale_after i k now d = claim_decision stale_after now d j v x p"
proof -
  have j: "find_job i d = Some j" and v: "find_version k d = Some v" using r by (simp_all add: ingest_rows_def)
  have jc: "job_checks j" by (rule find_job_checks[OF wf j])
  have k: "version_id v = k" using lookup_Some[OF v] by simp
  have w: "flush d (set_job j' (set_version v' d)) = Inr (set_job j' (set_version v' d))"
    if "same_job_key j' j" "job_checks j'" "same_version_key v' v" for j' v'
    by (rule ingest_write(1)[OF wf j that(1,2) v that(3)])
  have "version_status v \<noteq> ''ready'' \<Longrightarrow> same_version_key (v\<lparr>version_status := s\<rparr>) v" for s
    by (auto simp: same_version_key_def)
  moreover have "flush d (set_job (mark_job_succeeded now j) d) = Inr (set_job (mark_job_succeeded now j) d)"
    using w[of "mark_job_succeeded now j" v] job_updates_checks(1)[OF jc] by (simp add: set_version_same[OF wf v])
  ultimately show ?thesis
    using r w job_updates_checks[OF jc] unfolding ingest_rows_def claim_ingest_def claim_decision_def
    by (simp add: load_job_def load_dataset_version_def load_dataset_def load_project_def k)
qed

lemma claim_ingest_unbound:
  assumes "\<nexists>j v x p. ingest_rows i k d j v x p"
  shows "\<exists>e. claim_ingest stale_after i k now d = Inl e \<and> final_exc e"
  using assms unfolding ingest_rows_def claim_ingest_def
  by (auto simp: load_job_def load_dataset_version_def load_dataset_def load_project_def validate_job_binding_def
      split: option.splits if_splits)

lemma claim_ingest_result:
  assumes wf: "wf_db d"
  shows "case claim_ingest stale_after i k now d of
      Inl e \<Rightarrow> final_exc e
    | Inr (c, d') \<Rightarrow> wf_db d' \<and> versions_step d d' \<and>
        jobs_step (if iclaim_disposition c = INGEST_STARTED then Some i else None) d d' \<and>
        (iclaim_disposition c = INGEST_STARTED \<longrightarrow> (\<exists>x. iclaim_context c = Some x \<and> ictx_job x = i \<and> ictx_version x = k))"
proof (cases "\<exists>j v x p. ingest_rows i k d j v x p")
  case False
  then show ?thesis using claim_ingest_unbound[OF False, of stale_after now] by auto
next
  case True
  then obtain j v x p where r: "ingest_rows i k d j v x p" by blast
  then have j: "find_job i d = Some j" and v: "find_version k d = Some v" by (simp_all add: ingest_rows_def)
  note c = job_updates_checks[OF find_job_checks[OF wf j]]
  note w = ingest_write[OF wf j _ _ v]
  have ids: "job_id j = i" "version_id v = k" using find_job_Some[OF j] lookup_Some[OF v] by simp_all
  have k: "version_status v \<noteq> ''ready'' \<Longrightarrow> same_version_key (v\<lparr>version_status := s\<rparr>) v" for s
    by (auto simp: same_version_key_def)
  have "wf_db (set_job (mark_job_succeeded now j) d) \<and> versions_step d (set_job (mark_job_succeeded now j) d)
      \<and> jobs_step None d (set_job (mark_job_succeeded now j) d)"
    using w(2,3,4)[of "mark_job_succeeded now j" v] c(1) by (simp add: set_version_same[OF wf v])
  then show ?thesis using r w(2,3,4) c k wf unfolding claim_ingest_decision[OF wf r] claim_decision_def
    by (simp add: claim_of_def context_of_def ug_exc_final ids)
qed

subsection \<open>Failure\<close>

definition retry_left :: "ug_error \<Rightarrow> job \<Rightarrow> bool" where
  "retry_left e j = (err_retryable e \<and> job_attempts j < job_max_attempts j)"

lemma fail_ingest_decision:
  assumes wf: "wf_db d" and j: "find_job (ictx_job c) d = Some j" and v: "find_version (ictx_version c) d = Some v"
  shows "fail_ingest c e now d =
     (if version_status v = ''ready'' then Inr (False, set_job (mark_job_succeeded now j) d)
      else if version_status v \<notin> {''uploaded'', ''processing'', ''failed''}
      then Inl (permanent ''cannot fail DatasetVersion from unsupported ingest status'' [(''status'', version_status v)])
      else Inr (retry_left e j, set_job ((record_failure e j)\<lparr>job_finished_at := Some now\<rparr>)
        (set_version (v\<lparr>version_status := ''failed''\<rparr>) d)))"
proof -
  have jc: "job_checks j" by (rule find_job_checks[OF wf j])
  have w: "flush d (set_job j' (set_version v' d)) = Inr (set_job j' (set_version v' d))"
    if "same_job_key j' j" "job_checks j'" "same_version_key v' v" for j' v'
    by (rule ingest_write(1)[OF wf j that(1,2) v that(3)])
  have "flush d (set_job (mark_job_succeeded now j) d) = Inr (set_job (mark_job_succeeded now j) d)"
    using w[of "mark_job_succeeded now j" v] job_updates_checks(1)[OF jc] by (simp add: set_version_same[OF wf v])
  moreover have "version_status v \<noteq> ''ready'' \<Longrightarrow> same_version_key (v\<lparr>version_status := s\<rparr>) v" for s
    by (auto simp: same_version_key_def)
  ultimately show ?thesis using w failed_job_checks[OF jc]
    unfolding fail_ingest_def by (simp add: load_job_def load_dataset_version_def j v retry_left_def)
qed

lemma fail_ingest_result:
  assumes wf: "wf_db d"
  shows "case fail_ingest c e now d of
      Inl e' \<Rightarrow> final_exc e'
    | Inr (b, d') \<Rightarrow> wf_db d' \<and> versions_step d d' \<and> jobs_step None d d' \<and>
        (b \<longrightarrow> (\<exists>j. find_job (ictx_job c) d = Some j \<and> job_attempts j < job_max_attempts j))"
proof (cases "find_job (ictx_job c) d = None \<or> find_version (ictx_version c) d = None")
  case True
  then show ?thesis unfolding fail_ingest_def
    by (cases "find_job (ictx_job c) d") (auto simp: load_job_def load_dataset_version_def)
next
  case False
  then obtain j v where j: "find_job (ictx_job c) d = Some j" and v: "find_version (ictx_version c) d = Some v" by auto
  note jc = find_job_checks[OF wf j]
  note w = ingest_write[OF wf j _ _ v]
  have k: "version_status v \<noteq> ''ready'' \<Longrightarrow> same_version_key (v\<lparr>version_status := s\<rparr>) v" for s
    by (auto simp: same_version_key_def)
  have "wf_db (set_job (mark_job_succeeded now j) d) \<and> versions_step d (set_job (mark_job_succeeded now j) d)
      \<and> jobs_step None d (set_job (mark_job_succeeded now j) d)"
    using w(2,3,4)[of "mark_job_succeeded now j" v] job_updates_checks(1)[OF jc] by (simp add: set_version_same[OF wf v])
  then show ?thesis using w(2,3,4) failed_job_checks[OF jc] k unfolding fail_ingest_decision[OF wf j v]
    by (simp add: retry_left_def j)
qed

subsection \<open>Completion\<close>

text \<open>The row of the artifact \<open>s\<close> has its content and belongs to the version.\<close>

definition referenced :: "uuid \<Rightarrow> artifact_stat \<Rightarrow> db \<Rightarrow> bool" where
  "referenced k s d \<longleftrightarrow> (\<exists>a. lookup artifact_uri (artifact_uri_of s) (db_artifacts d) = Some a \<and>
     artifact_checksum a = stat_checksum s \<and> artifact_size a = stat_size s \<and> artifact_content_type a = stat_content_type s \<and>
     artifact_state a = REFERENCED \<and> artifact_owner_type a = Some DATASET_OWNER_TYPE \<and> artifact_owner_id a = Some k)"

lemma lookup_other_column:
  assumes "distinct (map key rows)" "distinct (map col rows)" "r \<in> set rows" "key r' = key r" "col r' = col r"
  shows "lookup col k (put_row key r' rows) = (if k = col r then Some r' else lookup col k rows)"
proof -
  have f: "lookup key (key r') rows = Some r" using lookup_self[OF assms(1,3)] assms(4) by simp
  have cols: "map col (put_row key r' rows) = map col rows" by (rule map_put_row_lookup[OF assms(1) f refl assms(5)])
  have "set (put_row key r' rows) = insert r' (set rows - {r})"
    using assms(1,3,4) by (subst put_row_set_eq) (auto simp: distinct_map inj_on_def)
  then have "lookup col k (put_row key r' rows) = Some x \<longleftrightarrow> (if k = col r then x = r' else lookup col k rows = Some x)" for x
    using assms(2,3,5) lookup_iff[of col "put_row key r' rows" k x] lookup_iff[OF assms(2), of k x]
    by (auto simp: cols distinct_map inj_on_def)
  then show ?thesis by (cases "lookup col k (put_row key r' rows)"; cases "lookup col k rows"; simp; metis option.distinct(1) option.inject)
qed

text \<open>A step of the loops: the tables other than the artifacts stay, and so do the columns that identify them.\<close>

definition artifacts_step :: "uuid \<Rightarrow> string set \<Rightarrow> db \<Rightarrow> db \<Rightarrow> bool" where
  "artifacts_step k uris d d' \<longleftrightarrow> (\<exists>as. d' = d\<lparr>db_artifacts := as\<rparr> \<and> map artifact_id as = map artifact_id (db_artifacts d) \<and>
     map artifact_uri as = map artifact_uri (db_artifacts d)) \<and>
     (\<forall>s. referenced k s d \<longrightarrow> referenced k s d') \<and>
     (\<forall>u. u \<notin> uris \<longrightarrow> lookup artifact_uri u (db_artifacts d') = lookup artifact_uri u (db_artifacts d))"

lemma artifacts_step_columns:
  "artifacts_step k uris d d' \<Longrightarrow> map artifact_id (db_artifacts d') = map artifact_id (db_artifacts d) \<and>
     map artifact_uri (db_artifacts d') = map artifact_uri (db_artifacts d) \<and> (\<exists>as. d' = d\<lparr>db_artifacts := as\<rparr>)"
  unfolding artifacts_step_def by (elim conjE exE, intro conjI) (simp, simp, blast)

lemma artifacts_step_refl: "artifacts_step k uris d d"
  unfolding artifacts_step_def by (auto intro: exI[of _ "db_artifacts d"])

lemma artifacts_step_trans:
  assumes "artifacts_step k us d d'" "artifacts_step k vs d' d''"
  shows "artifacts_step k (us \<union> vs) d d''"
  using assms unfolding artifacts_step_def by (elim conjE exE) (simp, metis)

lemma reference_existing_fields:
  assumes "reference_existing_artifact k a = Inr a'"
  shows "artifact_id a' = artifact_id a" "artifact_uri a' = artifact_uri a" "artifact_checksum a' = artifact_checksum a"
    "artifact_size a' = artifact_size a" "artifact_content_type a' = artifact_content_type a"
    "artifact_state a' = REFERENCED" "artifact_owner_type a' = Some DATASET_OWNER_TYPE" "artifact_owner_id a' = Some k"
    "artifact_state a = REFERENCED \<Longrightarrow> a' = a"
  using assms by (auto simp: reference_existing_artifact_def transition_to_Inr split: if_splits)

lemma reference_step:
  assumes u: "distinct (map artifact_id (db_artifacts d))" "distinct (map artifact_uri (db_artifacts d))"
    and a: "lookup artifact_uri (artifact_uri_of s) (db_artifacts d) = Some a"
    and ok: "verify_artifact_content a s = Inr x" "reference_existing_artifact k a = Inr a'"
  shows "artifacts_step k {artifact_uri_of s} d (set_artifact a' d)" "referenced k s (set_artifact a' d)"
proof -
  note f = reference_existing_fields[OF ok(2)]
  have a_in: "a \<in> set (db_artifacts d)" "artifact_uri a = artifact_uri_of s" using lookup_Some[OF a] by simp_all
  have l: "lookup artifact_uri w (db_artifacts (set_artifact a' d)) =
      (if w = artifact_uri_of s then Some a' else lookup artifact_uri w (db_artifacts d))" for w
    using lookup_other_column[OF u a_in(1) f(1,2), of w] a_in(2) by simp
  have i: "lookup artifact_id (artifact_id a) (db_artifacts d) = Some a" by (rule lookup_self[OF u(1) a_in(1)])
  have "map artifact_uri (put_row artifact_id a' (db_artifacts d)) = map artifact_uri (db_artifacts d)"
    by (rule map_put_row_lookup[OF u(1) i f(1,2)])
  moreover have "referenced k t d \<longrightarrow> referenced k t (set_artifact a' d)" for t
    using f(9) a unfolding referenced_def l by auto
  ultimately show "artifacts_step k {artifact_uri_of s} d (set_artifact a' d)"
    unfolding artifacts_step_def l
    by (intro conjI exI[of _ "put_row artifact_id a' (db_artifacts d)"]) (simp_all add: set_artifact_def map_key_put_row)
  show "referenced k s (set_artifact a' d)" using f ok(1)
    unfolding referenced_def l by (simp add: verify_artifact_content_def split: if_splits)
qed

text \<open>Both loops of the completion: the artifacts of the result are referenced, or added as referenced.\<close>

definition added_for :: "uuid \<Rightarrow> time \<Rightarrow> artifact_stat \<Rightarrow> artifact list \<Rightarrow> bool" where
  "added_for k now s as \<longleftrightarrow> (\<exists>i. derived_artifact i k now s \<in> set as)"

lemma reference_derived_result:
  assumes "reference_derived_artifacts fresh k now ss added d = Inr (added', d')"
    and "distinct (map artifact_id (db_artifacts d))" "distinct (map artifact_uri (db_artifacts d))"
  shows "artifacts_step k (artifact_uri_of ` set ss) d d' \<and> set added \<subseteq> set added' \<and>
     artifact_uri ` set added' \<subseteq> artifact_uri ` set added \<union> artifact_uri_of ` set ss \<and>
     (\<forall>s \<in> set ss. referenced k s d' \<or> added_for k now s added') \<and> list_all stat_ready ss"
  using assms
proof (induction ss arbitrary: added d)
  case Nil
  then show ?case by (auto intro: artifacts_step_refl)
next
  case (Cons s ss)
  have ready: "stat_ready s" using Cons.prems(1) by (auto simp: require_ready_stat_def split: if_splits)
  show ?case
  proof (cases "lookup artifact_uri (artifact_uri_of s) (db_artifacts d)")
    case None
    let ?x = "derived_artifact (fresh (length added)) k now s"
    have "reference_derived_artifacts fresh k now ss (added @ [?x]) d = Inr (added', d')"
      using Cons.prems(1) None ready by (simp add: require_ready_stat_def)
    note ih = Cons.IH[OF this Cons.prems(2,3)]
    have "artifacts_step k (artifact_uri_of ` set (s # ss)) d d'"
      using artifacts_step_trans[OF artifacts_step_refl[of k "{artifact_uri_of s}" d], of "artifact_uri_of ` set ss" d'] ih by simp
    moreover have "artifact_uri ?x = artifact_uri_of s" by (simp add: derived_artifact_def)
    ultimately show ?thesis using ih ready by (auto simp: added_for_def)
  next
    case (Some a)
    obtain a' x where a': "verify_artifact_content a s = Inr x" "reference_existing_artifact k a = Inr a'"
      "reference_derived_artifacts fresh k now ss added (set_artifact a' d) = Inr (added', d')"
      using Cons.prems(1) Some by (auto simp: bindE_Inr_iff)
    note st = reference_step[OF Cons.prems(2,3) Some a'(1,2)]
    have "distinct (map artifact_id (db_artifacts (set_artifact a' d)))" "distinct (map artifact_uri (db_artifacts (set_artifact a' d)))"
      using artifacts_step_columns[OF st(1)] Cons.prems(2,3) by (simp_all only:)
    note ih = Cons.IH[OF a'(3) this]
    have "artifacts_step k (artifact_uri_of ` set (s # ss)) d d'"
      using artifacts_step_trans[OF st(1), of "artifact_uri_of ` set ss" d'] ih by simp
    moreover have "referenced k s d'" using ih st(2) unfolding artifacts_step_def by blast
    ultimately show ?thesis using ih ready by auto
  qed
qed

text \<open>The body of the transaction, before its exceptions are translated.\<close>

lemma complete_ingest_Inr:
  assumes "complete_ingest fresh c res now d = Inr d'"
    and j: "find_job (ictx_job c) d = Some j" and v: "find_version (ictx_version c) d = Some v"
  shows "version_status v = ''ready'' \<and> d' = set_job (mark_job_succeeded now j) d \<and> wf_db d' \<or>
     version_status v = ''processing'' \<and> job_status j = Running \<and>
     (\<exists>d1 d2 added. reference_source_artifact (version_id v) (pr_source res) d = Inr d1 \<and>
        reference_derived_artifacts fresh (version_id v) now (pr_derived res) [] d1 = Inr (added, d2) \<and>
        d' = set_job (mark_job_succeeded now j) (set_version (v\<lparr>version_status := ''ready''\<rparr>) (add_artifacts added d2)) \<and> wf_db d')"
  using assms(1) unfolding complete_ingest_def database_errors_def
  by (auto simp: load_job_def load_dataset_version_def j v bindE_Inr_iff bindE_Inl_iff dest: flush_wf
      split: sum.splits exc.splits if_splits)

lemma complete_ingest_rows:
  assumes "complete_ingest fresh c res now d = Inr d'"
  obtains j v where "find_job (ictx_job c) d = Some j" "find_version (ictx_version c) d = Some v"
  using assms unfolding complete_ingest_def database_errors_def
  by (auto simp: load_job_def load_dataset_version_def bindE_Inr_iff bindE_Inl_iff split: sum.splits exc.splits if_splits option.splits)

text \<open>What a completion that commits has done.\<close>

lemma reference_source_result:
  assumes "reference_source_artifact k s d = Inr d1"
    and "distinct (map artifact_id (db_artifacts d))" "distinct (map artifact_uri (db_artifacts d))"
  shows "artifacts_step k {artifact_uri_of s} d d1 \<and> referenced k s d1 \<and> stat_ready s"
proof -
  obtain a a' x where "lookup artifact_uri (artifact_uri_of s) (db_artifacts d) = Some a"
    "verify_artifact_content a s = Inr x" "reference_existing_artifact k a = Inr a'" "d1 = set_artifact a' d" "stat_ready s"
    using assms(1) unfolding reference_source_artifact_def
    by (auto simp: bindE_Inr_iff require_ready_stat_def split: if_splits option.splits)
  then show ?thesis using reference_step[OF assms(2,3)] by blast
qed

lemma ready_status: "version_status v = ''ready'' \<Longrightarrow> v\<lparr>version_status := ''ready''\<rparr> = v"
  by (cases v) simp

lemma complete_ingest_effect:
  assumes wf: "wf_db d" and c: "complete_ingest fresh c res now d = Inr d'"
    and j: "find_job (ictx_job c) d = Some j" and v: "find_version (ictx_version c) d = Some v"
  shows "wf_db d' \<and> versions_step d d' \<and> jobs_step None d d' \<and>
     find_version (ictx_version c) d' = Some (v\<lparr>version_status := ''ready''\<rparr>) \<and>
     find_job (ictx_job c) d' = Some (mark_job_succeeded now j) \<and>
     (if version_status v = ''ready'' then db_artifacts d' = db_artifacts d
      else version_status v = ''processing'' \<and> job_status j = Running \<and>
        (\<forall>s \<in> set (pr_source res # pr_derived res). stat_ready s \<and> referenced (ictx_version c) s d') \<and>
        (\<forall>u. u \<notin> artifact_uri_of ` set (pr_source res # pr_derived res) \<longrightarrow>
           lookup artifact_uri u (db_artifacts d') = lookup artifact_uri u (db_artifacts d)))"
proof -
  have k: "version_id v = ictx_version c" using lookup_Some[OF v] by simp
  have jk: "job_id j = ictx_job c" using find_job_Some[OF j] by simp
  have jid: "job_id (mark_job_succeeded now j) = ictx_job c" by (simp add: mark_job_succeeded_def jk)
  have vk: "same_version_key (v\<lparr>version_status := ''ready''\<rparr>) v" by (auto simp: same_version_key_def)
  consider (ready) "version_status v = ''ready''" "d' = set_job (mark_job_succeeded now j) d" "wf_db d'"
    | (work) d1 d2 added where "version_status v = ''processing''" "job_status j = Running"
      "reference_source_artifact (version_id v) (pr_source res) d = Inr d1"
      "reference_derived_artifacts fresh (version_id v) now (pr_derived res) [] d1 = Inr (added, d2)"
      "d' = set_job (mark_job_succeeded now j) (set_version (v\<lparr>version_status := ''ready''\<rparr>) (add_artifacts added d2))" "wf_db d'"
    using complete_ingest_Inr[OF c j v] by blast
  then show ?thesis
  proof cases
    case ready
    then have "jobs_step None d d'" by (intro jobs_step_put[OF j, of "mark_job_succeeded now j"]) simp_all
    moreover have "versions_step d d'" using ready(2) by (simp add: versions_step_def same_version_key_refl)
    ultimately show ?thesis using ready v j jid by (simp add: find_job_set_job ready_status)
  next
    case work
    have u: "distinct (map artifact_id (db_artifacts d))" "distinct (map artifact_uri (db_artifacts d))"
      using wf by (simp_all add: wf_db_def unique_ok_def)
    have src: "artifacts_step (version_id v) {artifact_uri_of (pr_source res)} d d1"
      "referenced (version_id v) (pr_source res) d1" "stat_ready (pr_source res)"
      using reference_source_result[OF work(3) u] by blast+
    have u1: "distinct (map artifact_id (db_artifacts d1))" "distinct (map artifact_uri (db_artifacts d1))"
      using artifacts_step_columns[OF src(1)] u by (simp_all only:)
    note der = reference_derived_result[OF work(4) u1]
    have d2: "\<exists>as. d2 = d\<lparr>db_artifacts := as\<rparr>"
      using artifacts_step_columns[OF src(1)] artifacts_step_columns[OF conjunct1[OF der]] by auto
    then have tables: "db_versions d2 = db_versions d" "db_jobs d2 = db_jobs d" by auto
    have "jobs_step None d d'" by (rule jobs_step_put[OF j, of "mark_job_succeeded now j"]) (simp_all add: work(5) tables)
    moreover have "versions_step d d'" by (rule versions_step_put[OF v vk]) (simp add: work(5) tables)
    moreover have "find_version (ictx_version c) d' = Some (v\<lparr>version_status := ''ready''\<rparr>)"
      using find_version_put[of "v\<lparr>version_status := ''ready''\<rparr>" d v] v k by (simp add: work(5) tables)
    moreover have "find_job (ictx_job c) d' = Some (mark_job_succeeded now j)"
      using j jid by (simp add: work(5) find_job_set_job find_job_def[of _ d2] tables) (simp add: find_job_def)
    moreover have "stat_ready s \<and> referenced (ictx_version c) s d'" if s: "s \<in> set (pr_source res # pr_derived res)" for s
    proof -
      have arts: "db_artifacts d' = db_artifacts d2 @ added" by (simp add: work(5))
      have keep: "referenced (version_id v) s d2 \<Longrightarrow> referenced (version_id v) s d'"
        unfolding referenced_def arts lookup_append by auto
      have "referenced (version_id v) s d'" if a: "added_for (version_id v) now s added"
      proof -
        obtain i where i: "derived_artifact i (version_id v) now s \<in> set (db_artifacts d')"
          using a arts by (auto simp: added_for_def)
        have "lookup artifact_uri (artifact_uri (derived_artifact i (version_id v) now s)) (db_artifacts d')
            = Some (derived_artifact i (version_id v) now s)"
          by (rule lookup_self[OF _ i]) (use work(6) in \<open>simp add: wf_db_def unique_ok_def\<close>)
        then show ?thesis by (simp add: referenced_def derived_artifact_def)
      qed
      moreover have "referenced (version_id v) (pr_source res) d2"
        using der src(2) unfolding artifacts_step_def by blast
      ultimately show ?thesis using s der src(3) keep k by (auto simp: list_all_iff)
    qed
    moreover have "lookup artifact_uri w (db_artifacts d') = lookup artifact_uri w (db_artifacts d)"
      if w: "w \<notin> artifact_uri_of ` set (pr_source res # pr_derived res)" for w
    proof -
      have "lookup artifact_uri w (db_artifacts d2) = lookup artifact_uri w (db_artifacts d)"
        using w src(1) conjunct1[OF der] unfolding artifacts_step_def by auto
      moreover have "lookup artifact_uri w added = None" using w der by (auto simp: lookup_None)
      ultimately show ?thesis by (simp add: work(5) lookup_append split: option.split)
    qed
    ultimately show ?thesis using work(1,2,6) by auto
  qed
qed

lemma complete_ingest_step:
  assumes "wf_db d" "complete_ingest fresh c res now d = Inr d'"
  shows "wf_db d'" "versions_step d d'" "jobs_step None d d'"
  using complete_ingest_effect[OF assms] complete_ingest_rows[OF assms(2)] by metis+

end
