(* ===== verification/Ingest_Port.thy ===== *)
theory Ingest_Port
  imports Ingest_Facts
begin

text \<open>
  The contract of the repository port of the ingest service, what the queue's deliveries guarantee on
  every repository that keeps it, and the transactions of many workers, on the same job too, as
  events with their effect on the attempts.
\<close>

subsection \<open>Deliveries\<close>

text \<open>
  The queue delivers a task again after each \<open>Retry\<close>: the delays, and the outcome of the last
  delivery, or none after \<open>n\<close> deliveries, where the queue may give up.
\<close>

fun deliver :: "nat \<Rightarrow> (nat \<Rightarrow> ('s, 'a) prog) \<Rightarrow> 's \<Rightarrow> int list \<times> (exc + 'a) option \<times> 's" where
  "deliver 0 task s = ([], None, s)"
| "deliver (Suc n) task s =
     (case task 0 s of
        (Inl (ArqRetry t), s') \<Rightarrow> (case deliver n (\<lambda>k. task (Suc k)) s' of (ts, r, s'') \<Rightarrow> (t # ts, r, s''))
      | (r, s') \<Rightarrow> ([], Some r, s'))"

lemma retry_delay_range: "30 \<le> retry_delay_seconds n \<and> retry_delay_seconds n \<le> 300"
proof -
  have "(1::int) \<le> 2 ^ m" for m :: nat by simp
  then show ?thesis by (simp add: retry_delay_seconds_def)
qed

subsection \<open>The contract\<close>

text \<open>
  \<open>left s\<close>: how many attempts of the job can still start; \<open>hits s\<close>: how many calls the database has
  answered with an operational error so far (a deadlock, a lost connection).
\<close>

locale ingest_port =
  fixes repo :: "'s ingest_repository" and i k :: uuid and ok :: "'s \<Rightarrow> bool" and left hits :: "'s \<Rightarrow> nat"
  assumes claim_law: "ok s \<Longrightarrow> ir_claim repo i k s = (r, s') \<Longrightarrow> ok s' \<and> left s' \<le> left s \<and> hits s \<le> hits s' \<and>
      (case r of Inl e \<Rightarrow> final_exc e \<or> hits s < hits s' \<and> (\<forall>t. e \<noteq> ArqRetry t)
       | Inr c \<Rightarrow> iclaim_disposition c = INGEST_STARTED \<longrightarrow> left s' < left s \<and> (\<exists>x. iclaim_context c = Some x \<and> ictx_job x = i))"
    and complete_law: "ok s \<Longrightarrow> ir_complete repo x res s = (q, s') \<Longrightarrow> ok s' \<and> left s' \<le> left s \<and> hits s \<le> hits s'"
    and fail_law: "ok s \<Longrightarrow> ir_fail repo x e s = (b, s') \<Longrightarrow> ok s' \<and> left s' \<le> left s \<and> hits s \<le> hits s' \<and>
      (case b of Inl e' \<Rightarrow> final_exc e' \<or> hits s < hits s' \<and> (\<forall>t. e' \<noteq> ArqRetry t) | Inr again \<Rightarrow> again \<longrightarrow> ictx_job x = i \<longrightarrow> 0 < left s')"
begin

lemma attempt_ok:
  "ok s \<Longrightarrow> attempt_ingest repo pipeline x s = (r, s') \<Longrightarrow> ok s' \<and> left s' \<le> left s \<and> hits s \<le> hits s'"
  using complete_law unfolding attempt_ingest_def thenP_def pure_def ret_def
  by (auto split: sum.splits prod.splits)

lemma started_ok:
  assumes "ok s" "ictx_job x = i" "started_ingest repo pipeline i k x s = (r, s')"
  shows "ok s' \<and> left s' \<le> left s \<and> hits s \<le> hits s' \<and>
    (case r of Inl e \<Rightarrow> final_exc e \<or> hits s < hits s' \<and> (\<forall>t. e \<noteq> ArqRetry t) | Inr y \<Rightarrow> ires_retryable y \<longrightarrow> 0 < left s')"
proof (cases "attempt_ingest repo pipeline x s")
  case (Pair r1 s1)
  have s1: "ok s1" "left s1 \<le> left s" "hits s \<le> hits s1" using attempt_ok[OF assms(1) Pair] by blast+
  show ?thesis
  proof (cases r1)
    case (Inr res)
    then show ?thesis using assms(3) s1 Pair by (auto simp: started_ingest_def)
  next
    case (Inl e)
    obtain b s2 where f: "ir_fail repo x (ingest_error e) s1 = (b, s2)" by (cases "ir_fail repo x (ingest_error e) s1")
    then show ?thesis using fail_law[OF s1(1) f] assms(2,3) s1(2,3) Pair Inl
      by (auto simp: started_ingest_def thenP_def ret_def failed_attempt_def split: sum.splits)
  qed
qed

text \<open>
  A delivery that asks for another one has used up an attempt and one is left, or the database has
  failed during it.
\<close>

lemma retry_uses_attempt:
  assumes s: "ok s" and t: "run_ingest repo pipeline i k s = (r, s')"
  shows "ok s' \<and> left s' \<le> left s \<and> hits s \<le> hits s' \<and>
    (r = Inl (ArqRetry n) \<longrightarrow> (0 < left s' \<and> left s' < left s \<or> hits s < hits s') \<and> 30 \<le> n \<and> n \<le> 300)"
proof -
  obtain r1 s1 where c: "ir_claim repo i k s = (r1, s1)" by (cases "ir_claim repo i k s")
  note cl = claim_law[OF s c]
  show ?thesis
  proof (cases r1)
    case (Inl e)
    then have "final_exc e \<or> hits s < hits s1 \<and> (\<forall>t. e \<noteq> ArqRetry t)" "s' = s1" "r = Inl (case e of UrbanError u \<Rightarrow>
        if err_class u = TransientError then ArqRetry (retry_delay_seconds 1) else e | _ \<Rightarrow> e)"
      using cl t c by (auto simp: run_ingest_def run_ingest_service_def thenP_def)
    then show ?thesis using cl retry_delay_range[of 1] by (auto simp: final_exc_def split: exc.splits)
  next
    case (Inr cm)
    show ?thesis
    proof (cases "iclaim_disposition cm = INGEST_STARTED")
      case False
      then show ?thesis using cl t c Inr
        by (cases "iclaim_disposition cm")
           (auto simp: run_ingest_def run_ingest_service_def thenP_def ret_def idle_result_def)
    next
      case True
      then obtain x where x: "iclaim_context cm = Some x" "ictx_job x = i" "left s1 < left s" "ok s1" "hits s \<le> hits s1"
        using cl Inr by auto
      obtain r2 s2 where st: "started_ingest repo pipeline i k x s1 = (r2, s2)" by (cases "started_ingest repo pipeline i k x s1")
      note so = started_ok[OF x(4,2) st]
      have run: "run_ingest_service repo pipeline i k s = (r2, s2)"
        using c Inr True x(1) st by (simp add: run_ingest_service_def thenP_def)
      show ?thesis
      proof (cases r2)
        case (Inl e)
        then show ?thesis using t run so x(3,5) retry_delay_range[of 1]
          by (auto simp: run_ingest_def final_exc_def split: exc.splits if_splits)
      next
        case (Inr y)
        then show ?thesis using t run so x(3,5) retry_delay_range[of "ires_attempts y"]
          by (auto simp: run_ingest_def split: if_splits)
      qed
    qed
  qed
qed

theorem deliveries_bounded:
  "ok s \<Longrightarrow> deliver n (\<lambda>m. run_ingest repo (pipeline m) i k) s = (ts, r, s') \<Longrightarrow>
     ok s' \<and> length ts + hits s \<le> (left s - 1) + hits s' \<and> (\<forall>t \<in> set ts. 30 \<le> t \<and> t \<le> 300) \<and>
     (r = None \<longrightarrow> length ts = n)"
proof (induction n arbitrary: pipeline s ts)
  case (Suc n)
  obtain r1 s1 where d: "run_ingest repo (pipeline 0) i k s = (r1, s1)" by (cases "run_ingest repo (pipeline 0) i k s")
  show ?case
  proof (cases "\<exists>t. r1 = Inl (ArqRetry t)")
    case True
    then obtain t where t: "r1 = Inl (ArqRetry t)" by blast
    have s1: "ok s1" "left s1 \<le> left s" "hits s \<le> hits s1" "30 \<le> t" "t \<le> 300"
      "0 < left s1 \<and> left s1 < left s \<or> hits s < hits s1"
      using retry_uses_attempt[OF Suc.prems(1) d, of t] t by auto
    obtain ts2 where rest: "deliver n (\<lambda>m. run_ingest repo (pipeline (Suc m)) i k) s1 = (ts2, r, s')" "ts = t # ts2"
      using Suc.prems(2) d t by (auto split: prod.splits)
    then show ?thesis using Suc.IH[OF s1(1) rest(1)] s1 by auto
  next
    case False
    have "(ts, r, s') = ([], Some r1, s1)" using False Suc.prems(2) d by (auto split: sum.splits exc.splits)
    then show ?thesis using retry_uses_attempt[OF Suc.prems(1) d, of 0] by auto
  qed
qed simp

end

subsection \<open>Transactions of many workers\<close>

datatype ingest_event =
    Claim_attempt time uuid uuid time
  | Complete_attempt "nat \<Rightarrow> uuid" ingest_context pipeline_result time
  | Fail_attempt ingest_context ug_error time
  | Submit_upload admission_limits upload_ids time uuid upload_request

fun exec_ingest :: "ingest_event \<Rightarrow> db \<Rightarrow> exc + db" where
  "exec_ingest (Claim_attempt stale_after i k now) d = bindE (claim_ingest stale_after i k now d) (\<lambda>(c, d'). Inr d')"
| "exec_ingest (Complete_attempt fresh c res now) d = complete_ingest fresh c res now d"
| "exec_ingest (Fail_attempt c e now) d = bindE (fail_ingest c e now d) (\<lambda>(b, d'). Inr d')"
| "exec_ingest (Submit_upload l f now p q) d = bindE (create_upload l f now p q d) (\<lambda>(x, d'). Inr d')"

text \<open>The job whose attempt the event starts, if it starts one.\<close>

fun started_job :: "ingest_event \<Rightarrow> db \<Rightarrow> uuid option" where
  "started_job (Claim_attempt stale_after i k now) d =
     (case claim_ingest stale_after i k now d of
        Inr (c, _) \<Rightarrow> if iclaim_disposition c = INGEST_STARTED then Some i else None | Inl _ \<Rightarrow> None)"
| "started_job _ d = None"

text \<open>A transaction that raises leaves the database as it was.\<close>

definition commit_ingest :: "ingest_event \<Rightarrow> db \<Rightarrow> db" where
  "commit_ingest ev d = (case exec_ingest ev d of Inl _ \<Rightarrow> d | Inr d' \<Rightarrow> d')"

definition commit_all :: "ingest_event list \<Rightarrow> db \<Rightarrow> db" where
  "commit_all evs d = fold commit_ingest evs d"

fun started_attempts :: "uuid \<Rightarrow> ingest_event list \<Rightarrow> db \<Rightarrow> nat" where
  "started_attempts i [] d = 0"
| "started_attempts i (ev # evs) d =
     (if started_job ev d = Some i then 1 else 0) + started_attempts i evs (commit_ingest ev d)"

lemma create_upload_Inr:
  assumes "create_upload l f now p q d = Inr (x, d')"
  shows "d' = d \<or> (\<exists>key a. d' = add_upload f now p q key a d \<and> flush d d' = Inr d')"
proof -
  have "flush d n = Inr m \<Longrightarrow> m = n \<and> flush d n = Inr n" for n m using flush_wf by blast
  then show ?thesis using assms unfolding create_upload_def
    by (auto simp: bindE_Inr_iff Let_def split: option.splits if_splits list.splits)
qed

lemma add_upload_tables [simp]:
  "db_projects (add_upload f now p q key a d) = db_projects d"
  "db_jobs (add_upload f now p q key a d) = db_jobs d @ [new_upload_job f p]"
  "db_versions (add_upload f now p q key a d) = db_versions d @ [new_upload_version f q key a]"
  "db_datasets (add_upload f now p q key a d) =
     db_datasets d @ [\<lparr>dataset_id = new_dataset f, dataset_project_id = p, dataset_kind = up_kind q\<rparr>]"
  "db_artifacts (add_upload f now p q key a d) = db_artifacts d"
  by (simp_all add: add_upload_def)

lemma exec_ingest_step:
  assumes wf: "wf_db d" and e: "exec_ingest ev d = Inr d'"
  shows "wf_db d' \<and> versions_step d d' \<and> jobs_step (started_job ev d) d d'"
proof (cases ev)
  case (Claim_attempt st i k now)
  then obtain c where "claim_ingest st i k now d = Inr (c, d')" using e by (auto simp: bindE_Inr_iff)
  then show ?thesis using claim_ingest_result[OF wf, where stale_after = st and i = i and k = k and now = now] Claim_attempt by simp
next
  case (Complete_attempt fresh c res now)
  then show ?thesis using complete_ingest_step[OF wf] e by simp
next
  case (Fail_attempt c u now)
  then obtain b where "fail_ingest c u now d = Inr (b, d')" using e by (auto simp: bindE_Inr_iff)
  then show ?thesis using fail_ingest_result[OF wf, of c u now] Fail_attempt by simp
next
  case (Submit_upload l f now p q)
  then obtain x where "create_upload l f now p q d = Inr (x, d')" using e by (auto simp: bindE_Inr_iff)
  then consider "d' = d" | key a where "d' = add_upload f now p q key a d" "flush d d' = Inr d'"
    using create_upload_Inr by blast
  then show ?thesis
  proof cases
    case 1
    then show ?thesis using wf Submit_upload by simp
  next
    case 2
    have "jobs_step None d d'" unfolding jobs_step_def find_job_def 2(1) add_upload_tables lookup_append by auto
    moreover have "versions_step d d'" unfolding versions_step_def 2(1) add_upload_tables lookup_append by auto
    ultimately show ?thesis using flush_wf[OF 2(2)] Submit_upload by simp
  qed
qed

lemma raised_starts_nothing: "exec_ingest ev d = Inl e \<Longrightarrow> started_job ev d = None"
  by (cases ev) (auto simp: bindE_Inl_iff)

lemma commit_ingest_step:
  "wf_db d \<Longrightarrow> wf_db (commit_ingest ev d) \<and> versions_step d (commit_ingest ev d) \<and>
     jobs_step (started_job ev d) d (commit_ingest ev d)"
  using exec_ingest_step raised_starts_nothing unfolding commit_ingest_def by (auto split: sum.split)

lemma commit_all_Cons [simp]: "commit_all [] d = d" "commit_all (ev # evs) d = commit_all evs (commit_ingest ev d)"
  by (simp_all add: commit_all_def)

lemma commit_all_step: "wf_db d \<Longrightarrow> wf_db (commit_all evs d) \<and> versions_step d (commit_all evs d)"
proof (induction evs arbitrary: d)
  case (Cons ev evs)
  note st = commit_ingest_step[OF Cons.prems, of ev]
  show ?case using Cons.IH[of "commit_ingest ev d"] st versions_step_trans by auto
qed simp

lemma commit_all_job:
  "wf_db d \<Longrightarrow> find_job i d = Some j \<Longrightarrow> \<exists>j'. find_job i (commit_all evs d) = Some j' \<and> same_job_key j' j \<and>
     job_max_attempts j' = job_max_attempts j \<and> job_attempts j' = job_attempts j + int (started_attempts i evs d)"
proof (induction evs arbitrary: d j)
  case (Cons ev evs)
  note st = commit_ingest_step[OF Cons.prems(1), of ev]
  obtain j1 where j1: "find_job i (commit_ingest ev d) = Some j1" "same_job_key j1 j" "job_max_attempts j1 = job_max_attempts j"
    "job_attempts j1 = job_attempts j + (if started_job ev d = Some i then 1 else 0)"
    using st Cons.prems(2) unfolding jobs_step_def by blast
  obtain j' where "find_job i (commit_all evs (commit_ingest ev d)) = Some j'" "same_job_key j' j1"
    "job_max_attempts j' = job_max_attempts j1" "job_attempts j' = job_attempts j1 + int (started_attempts i evs (commit_ingest ev d))"
    using Cons.IH[of "commit_ingest ev d", OF _ j1(1)] st by blast
  then show ?case using j1 by (auto simp: same_job_key_def)
qed simp

end
