(* ===== verification/Ingest_Worker.thy ===== *)
theory Ingest_Worker
  imports Ingest_Port
begin

text \<open>
  The repository of \<open>db/ingest_job_repository.py\<close> with other workers between its calls and with
  operational errors of the database, as an interpretation of the port's contract.
\<close>

subsection \<open>The repository over an interleaved database\<close>

text \<open>
  An operational error of the database (a deadlock, a timeout, a lost connection): it rolls the
  transaction back, or it hides a commit that took place from the client.
\<close>

datatype db_fault = Fault_rolled_back | Fault_after_commit

text \<open>
  At the \<open>n\<close>-th call: the transactions others commit before it, the clock, new UUIDs, and whether
  the database fails.
\<close>

record ingest_schedule =
  is_others :: "nat \<Rightarrow> ingest_event list"
  is_now :: "nat \<Rightarrow> time"
  is_fresh :: "nat \<Rightarrow> nat \<Rightarrow> uuid"
  is_fault :: "nat \<Rightarrow> db_fault option"

record ingest_world =
  iw_db :: db
  iw_calls :: nat

text \<open>
  One call: the transaction \<open>f\<close>, with the \<open>except SQLAlchemyError\<close> clause around it for the errors
  that only the database decides on; an error of the transaction itself comes before its commit.
\<close>

definition ingest_call ::
  "ingest_schedule \<Rightarrow> string \<Rightarrow> string \<Rightarrow> (nat \<Rightarrow> db \<Rightarrow> exc + 'a \<times> db) \<Rightarrow> (ingest_world, 'a) prog" where
  "ingest_call sc message operation f w =
     (let n = iw_calls w; d = commit_all (is_others sc n) (iw_db w);
          lost = database_errors message operation (Inl (DatabaseError ''OperationalError'')) in
      case is_fault sc n of
        Some Fault_rolled_back \<Rightarrow> (lost, \<lparr>iw_db = d, iw_calls = n + 1\<rparr>)
      | fault \<Rightarrow>
         (case f n d of
            Inl e \<Rightarrow> (Inl e, \<lparr>iw_db = d, iw_calls = n + 1\<rparr>)
          | Inr (x, d') \<Rightarrow> (if fault = None then Inr x else lost, \<lparr>iw_db = d', iw_calls = n + 1\<rparr>)))"

definition db_ingest :: "ingest_schedule \<Rightarrow> ingest_world ingest_repository" where
  "db_ingest sc =
     \<lparr>ir_claim = (\<lambda>i k. ingest_call sc ''unable to claim ingest job from database'' ''claim''
        (\<lambda>n. claim_ingest DEFAULT_STALE_AFTER i k (is_now sc n))),
      ir_complete = (\<lambda>c res. ingest_call sc ''unable to complete ingest job in database'' ''complete''
        (\<lambda>n d. bindE (complete_ingest (is_fresh sc n) c res (is_now sc n) d) (\<lambda>d'. Inr ((), d')))),
      ir_fail = (\<lambda>c e. ingest_call sc ''unable to persist ingest job failure'' ''fail''
        (\<lambda>n. fail_ingest c e (is_now sc n)))\<rparr>"

text \<open>The calls before the present one that the database failed.\<close>

definition fault_count :: "ingest_schedule \<Rightarrow> ingest_world \<Rightarrow> nat" where
  "fault_count sc w = card {m. m < iw_calls w \<and> is_fault sc m \<noteq> None}"

lemma fault_count_next:
  "iw_calls w' = iw_calls w + 1 \<Longrightarrow> fault_count sc w' = fault_count sc w + (if is_fault sc (iw_calls w) = None then 0 else 1)"
proof -
  assume c: "iw_calls w' = iw_calls w + 1"
  have "{m. m < iw_calls w' \<and> is_fault sc m \<noteq> None} = (if is_fault sc (iw_calls w) = None
      then {m. m < iw_calls w \<and> is_fault sc m \<noteq> None} else insert (iw_calls w) {m. m < iw_calls w \<and> is_fault sc m \<noteq> None})"
    using c by (auto simp: less_Suc_eq)
  then show ?thesis by (simp add: fault_count_def)
qed

lemma fault_count_le: "finite {m. is_fault sc m \<noteq> None} \<Longrightarrow> fault_count sc w \<le> card {m. is_fault sc m \<noteq> None}"
  unfolding fault_count_def by (rule card_mono) auto

definition attempts_left :: "uuid \<Rightarrow> db \<Rightarrow> nat" where
  "attempts_left i d = (case find_job i d of None \<Rightarrow> 0 | Some j \<Rightarrow> nat (job_max_attempts j - job_attempts j))"

definition job_exists :: "uuid \<Rightarrow> db \<Rightarrow> bool" where
  "job_exists i d \<longleftrightarrow> wf_db d \<and> find_job i d \<noteq> None"

lemma jobs_step_left:
  assumes "job_exists i d" "wf_db d'" "jobs_step o' d d'"
  shows "job_exists i d' \<and> attempts_left i d' \<le> attempts_left i d \<and> (o' = Some i \<longrightarrow> attempts_left i d' < attempts_left i d)"
proof -
  obtain j where j: "find_job i d = Some j" using assms(1) by (auto simp: job_exists_def)
  obtain j' where j': "find_job i d' = Some j'" "job_max_attempts j' = job_max_attempts j"
    "job_attempts j' = job_attempts j + (if o' = Some i then 1 else 0)"
    using assms(3) j unfolding jobs_step_def by blast
  have "job_attempts j' \<le> job_max_attempts j'" using find_job_checks[OF assms(2) j'(1)] by (simp add: job_checks_def)
  then show ?thesis using assms(2) j j' by (auto simp: job_exists_def attempts_left_def)
qed

lemma commit_all_left:
  assumes "job_exists i d"
  shows "job_exists i (commit_all evs d) \<and> attempts_left i (commit_all evs d) \<le> attempts_left i d"
proof -
  obtain j where j: "find_job i d = Some j" "wf_db d" using assms by (auto simp: job_exists_def)
  show ?thesis using commit_all_job[OF j(2,1), of evs] commit_all_step[OF j(2), of evs] j
    by (auto simp: job_exists_def attempts_left_def)
qed

lemma ingest_call_calls: "ingest_call sc m op f w = (r, w') \<Longrightarrow> iw_calls w' = iw_calls w + 1"
  by (auto simp: ingest_call_def Let_def split: option.splits db_fault.splits sum.splits prod.splits)

lemma ingest_call_commits:
  assumes "is_fault sc (iw_calls w) \<noteq> Some Fault_rolled_back"
  shows "ingest_call sc m op f w =
     (let d = commit_all (is_others sc (iw_calls w)) (iw_db w) in
      case f (iw_calls w) d of
        Inl e \<Rightarrow> (Inl e, \<lparr>iw_db = d, iw_calls = iw_calls w + 1\<rparr>)
      | Inr (x, d') \<Rightarrow> (if is_fault sc (iw_calls w) = None then Inr x
          else database_errors m op (Inl (DatabaseError ''OperationalError'')), \<lparr>iw_db = d', iw_calls = iw_calls w + 1\<rparr>))"
proof (cases "is_fault sc (iw_calls w)")
  case (Some x)
  with assms show ?thesis by (cases x) (simp_all add: ingest_call_def Let_def split: sum.split)
qed (simp add: ingest_call_def Let_def split: sum.split)

text \<open>
  A law of one transaction on every database with the job carries over to the interleaved call,
  unless the database fails, which is counted.
\<close>

lemma ingest_call_law:
  assumes "job_exists i (iw_db w)" and "ingest_call sc m op f w = (r, w')"
    and "\<And>d. job_exists i d \<Longrightarrow>
      (case f (iw_calls w) d of Inl e \<Rightarrow> Q (Inl e) d | Inr (x, d') \<Rightarrow> wf_db d' \<and> (\<exists>o'. jobs_step o' d d' \<and> (P x \<longrightarrow> o' = Some i) \<and>
         Q (Inr x) d'))"
  shows "job_exists i (iw_db w') \<and> attempts_left i (iw_db w') \<le> attempts_left i (iw_db w) \<and>
     fault_count sc w \<le> fault_count sc w' \<and>
     (Q r (iw_db w') \<and> (\<forall>x. r = Inr x \<and> P x \<longrightarrow> attempts_left i (iw_db w') < attempts_left i (iw_db w)) \<or>
      fault_count sc w < fault_count sc w' \<and> (\<exists>e. r = Inl e \<and> (\<forall>t. e \<noteq> ArqRetry t)))"
proof -
  let ?d = "commit_all (is_others sc (iw_calls w)) (iw_db w)"
  have d: "job_exists i ?d" "attempts_left i ?d \<le> attempts_left i (iw_db w)" using commit_all_left[OF assms(1)] by blast+
  note cnt = fault_count_next[OF ingest_call_calls[OF assms(2)], of sc]
  have lost: "\<exists>e. database_errors m op (Inl (DatabaseError ''OperationalError'')) = (Inl e :: exc + 'a) \<and> (\<forall>t. e \<noteq> ArqRetry t)"
    by (simp add: database_errors_def is_sqlalchemy_error_def)
  show ?thesis
  proof (cases "is_fault sc (iw_calls w) = Some Fault_rolled_back")
    case True
    then show ?thesis using assms(2) d cnt lost by (auto simp: ingest_call_def Let_def)
  next
    case False
    note w' = ingest_call_commits[OF False, of m op f, unfolded assms(2)]
    show ?thesis
    proof (cases "f (iw_calls w) ?d")
      case (Inl e)
      then show ?thesis using w' assms(3)[OF d(1)] d cnt by (auto simp: Let_def)
    next
      case (Inr y)
      obtain x d' where y: "y = (x, d')" by (cases y)
      obtain o' where o': "wf_db d'" "jobs_step o' ?d d'" "P x \<longrightarrow> o' = Some i" "Q (Inr x) d'"
        using assms(3)[OF d(1)] Inr y by auto
      show ?thesis using jobs_step_left[OF d(1) o'(1,2)] d(2) o' w' cnt lost Inr y by (auto simp: Let_def split: if_splits)
    qed
  qed
qed

lemma claim_call_law:
  assumes "job_exists i (iw_db w)" "ir_claim (db_ingest sc) i k w = (r, w')"
  shows "job_exists i (iw_db w') \<and> attempts_left i (iw_db w') \<le> attempts_left i (iw_db w) \<and>
    fault_count sc w \<le> fault_count sc w' \<and>
    (case r of Inl e \<Rightarrow> final_exc e \<or> fault_count sc w < fault_count sc w' \<and> (\<forall>t. e \<noteq> ArqRetry t)
     | Inr c \<Rightarrow> iclaim_disposition c = INGEST_STARTED \<longrightarrow>
         attempts_left i (iw_db w') < attempts_left i (iw_db w) \<and> (\<exists>x. iclaim_context c = Some x \<and> ictx_job x = i))"
proof -
  note law = ingest_call_law[OF assms(1) assms(2)[unfolded db_ingest_def, simplified]]
  let ?P = "\<lambda>c. iclaim_disposition c = INGEST_STARTED"
  let ?Q = "\<lambda>r (d :: db). case r of Inl e \<Rightarrow> final_exc e
       | Inr c \<Rightarrow> ?P c \<longrightarrow> (\<exists>x. iclaim_context c = Some x \<and> ictx_job x = i)"
  have "case claim_ingest DEFAULT_STALE_AFTER i k t d of Inl e \<Rightarrow> ?Q (Inl e) d
    | Inr (c, d') \<Rightarrow> wf_db d' \<and> (\<exists>o'. jobs_step o' d d' \<and> (?P c \<longrightarrow> o' = Some i) \<and> ?Q (Inr c) d')"
    if "job_exists i d" for d t
    using claim_ingest_result[where d = d and stale_after = DEFAULT_STALE_AFTER and i = i and k = k and now = t] that
    by (auto simp: job_exists_def split: sum.splits)
  from law[where P = ?P and Q = ?Q, OF this] show ?thesis by (cases r) auto
qed

lemma complete_call_law:
  assumes "job_exists i (iw_db w)" "ir_complete (db_ingest sc) x res w = (r, w')"
  shows "job_exists i (iw_db w') \<and> attempts_left i (iw_db w') \<le> attempts_left i (iw_db w) \<and>
    fault_count sc w \<le> fault_count sc w'"
proof -
  note law = ingest_call_law[OF assms(1) assms(2)[unfolded db_ingest_def, simplified], where P = "\<lambda>_. False" and Q = "\<lambda>_ _. True"]
  have "case bindE (complete_ingest fresh x res t d) (\<lambda>d'. Inr ((), d')) of Inl e \<Rightarrow> True
      | Inr (u, d') \<Rightarrow> wf_db d' \<and> (\<exists>o'. jobs_step o' d d' \<and> (False \<longrightarrow> o' = Some i) \<and> True)" if "job_exists i d" for d t fresh
    using that complete_ingest_step[of d fresh x res t]
    by (cases "complete_ingest fresh x res t d") (auto simp: job_exists_def)
  from law[OF this] show ?thesis by blast
qed

lemma fail_call_law:
  assumes "job_exists i (iw_db w)" "ir_fail (db_ingest sc) x e w = (r, w')"
  shows "job_exists i (iw_db w') \<and> attempts_left i (iw_db w') \<le> attempts_left i (iw_db w) \<and>
    fault_count sc w \<le> fault_count sc w' \<and>
    (case r of Inl e' \<Rightarrow> final_exc e' \<or> fault_count sc w < fault_count sc w' \<and> (\<forall>t. e' \<noteq> ArqRetry t)
     | Inr again \<Rightarrow> again \<longrightarrow> ictx_job x = i \<longrightarrow> 0 < attempts_left i (iw_db w'))"
proof -
  note law = ingest_call_law[OF assms(1) assms(2)[unfolded db_ingest_def, simplified]]
  let ?Q = "\<lambda>r d. case r of Inl e' \<Rightarrow> final_exc e' | Inr again \<Rightarrow> again \<longrightarrow> ictx_job x = i \<longrightarrow> 0 < attempts_left i d"
  have "case fail_ingest x e t d of Inl e' \<Rightarrow> ?Q (Inl e') d
      | Inr (b, d') \<Rightarrow> wf_db d' \<and> (\<exists>o'. jobs_step o' d d' \<and> (False \<longrightarrow> o' = Some i) \<and> ?Q (Inr b) d')"
    if d: "job_exists i d" for d t
  proof (cases "fail_ingest x e t d")
    case (Inr y)
    obtain b d' where y: "y = (b, d')" by (cases y)
    have f: "wf_db d'" "jobs_step None d d'" "b \<longrightarrow> (\<exists>j. find_job (ictx_job x) d = Some j \<and> job_attempts j < job_max_attempts j)"
      using fail_ingest_result[of d x e t] Inr y d by (auto simp: job_exists_def)
    have "0 < attempts_left i d'" if b: b "ictx_job x = i"
    proof -
      obtain j where j: "find_job i d = Some j" "job_attempts j < job_max_attempts j" using f(3) b by auto
      then obtain j' where "find_job i d' = Some j'" "job_attempts j' = job_attempts j" "job_max_attempts j' = job_max_attempts j"
        using f(2)[unfolded jobs_step_def, rule_format, OF j(1)] by auto
      then show ?thesis using j(2) by (simp add: attempts_left_def)
    qed
    then show ?thesis using f(1,2) Inr y by auto
  qed (use fail_ingest_result[of d x e t] d in \<open>auto simp: job_exists_def\<close>)
  from law[where P = "\<lambda>_. False" and Q = ?Q, OF this] show ?thesis by (cases r) auto
qed

interpretation ingest_db: ingest_port "db_ingest sc" i k "\<lambda>w. job_exists i (iw_db w)" "\<lambda>w. attempts_left i (iw_db w)"
    "fault_count sc"
  for sc i k
proof (unfold_locales, goal_cases)
  case 1
  then show ?case by (rule claim_call_law)
next
  case 2
  then show ?case by (rule complete_call_law)
next
  case 3
  then show ?case by (rule fail_call_law)
qed

end
