(* ===== verification/Ingest_Props.thy ===== *)
theory Ingest_Props
  imports Ingest_Worker
begin

text \<open>
  The properties of ingest jobs, with a database that holds one uploaded artifact and its job.
\<close>

subsection \<open>A database with an upload\<close>

definition upload_db :: db where
  "upload_db = empty_db\<lparr>db_projects := [\<lparr>project_id = 1, project_boundary_srid = None, project_working_srid = 32637\<rparr>],
     db_artifacts := [ready_artifact]\<rparr>"

definition upload_limits :: admission_limits where
  "upload_limits = \<lparr>lim_project = 4, lim_generation = 1, lim_ingest = 1, lim_export = 1\<rparr>"

definition upload_of :: "string option \<Rightarrow> upload_request" where
  "upload_of layer = \<lparr>up_artifact = 1, up_kind = ''osm'', up_format = ''gpkg'', up_layer = layer\<rparr>"

definition upload_new :: upload_ids where
  "upload_new = \<lparr>new_dataset = 2, new_version = 3, new_job = 4, new_message = 5\<rparr>"

definition ingest_db0 :: db where
  "ingest_db0 = add_upload upload_new 10 1 (upload_of None) ''uploads/a'' ready_artifact upload_db"

lemma ingest_db0_wf: "wf_db ingest_db0" "wf_db upload_db"
  by code_simp+

lemma ingest_db0_rows:
  "find_job 4 ingest_db0 = Some (new_upload_job upload_new 1)"
  "find_version 3 ingest_db0 = Some (new_upload_version upload_new (upload_of None) ''uploads/a'' ready_artifact)"
  by (simp_all add: ingest_db0_def find_job_def upload_db_def empty_db_def lookup_Cons new_upload_job_def
      new_upload_version_def upload_new_def)

lemma upload_created:
  "create_upload upload_limits upload_new 10 1 (upload_of None) upload_db =
     Inr (submission 1 (new_upload_version upload_new (upload_of None) ''uploads/a'' ready_artifact) (new_upload_job upload_new 1), ingest_db0)"
  by code_simp

subsection \<open>Deliveries\<close>

text \<open>The calls between two worlds that the database failed.\<close>

definition faults_between :: "ingest_schedule \<Rightarrow> ingest_world \<Rightarrow> ingest_world \<Rightarrow> nat" where
  "faults_between sc w w' = card {m. iw_calls w \<le> m \<and> m < iw_calls w' \<and> is_fault sc m \<noteq> None}"

lemma fault_count_between: "fault_count sc w' \<le> fault_count sc w + faults_between sc w w'"
proof -
  have "{m. m < iw_calls w' \<and> is_fault sc m \<noteq> None} \<subseteq>
      {m. m < iw_calls w \<and> is_fault sc m \<noteq> None} \<union> {m. iw_calls w \<le> m \<and> m < iw_calls w' \<and> is_fault sc m \<noteq> None}"
    by auto
  then have "card {m. m < iw_calls w' \<and> is_fault sc m \<noteq> None} \<le>
      card ({m. m < iw_calls w \<and> is_fault sc m \<noteq> None} \<union> {m. iw_calls w \<le> m \<and> m < iw_calls w' \<and> is_fault sc m \<noteq> None})"
    by (intro card_mono) auto
  also have "\<dots> \<le> fault_count sc w + faults_between sc w w'"
    unfolding fault_count_def faults_between_def by (rule card_Un_le)
  finally show ?thesis by (simp add: fault_count_def)
qed

lemma faults_between_le: "finite {m. is_fault sc m \<noteq> None} \<Longrightarrow> faults_between sc w w' \<le> card {m. is_fault sc m \<noteq> None}"
  unfolding faults_between_def by (rule card_mono) auto

text \<open>
  C9. An ingest task is not retried for ever. Whatever the pipeline does at each delivery, whatever
  other workers commit between the calls (on the same job too), and whichever calls the database
  fails, the deliveries ask for at most one retry less than the job had attempts left, plus one for
  each call the database failed; each retry is delayed between 30 and 300 seconds. If the database
  fails only finitely many calls, enough deliveries therefore come to an outcome that is not a retry.
\<close>

theorem deliveries_end:
  assumes "job_exists i (iw_db w)"
  shows "case deliver n (\<lambda>m. run_ingest (db_ingest sc) (pipeline m) i k) w of
     (delays, result, w') \<Rightarrow> length delays \<le> (attempts_left i (iw_db w) - 1) + faults_between sc w w' \<and>
       (\<forall>t \<in> set delays. 30 \<le> t \<and> t \<le> 300) \<and>
       (finite {m. is_fault sc m \<noteq> None} \<and> (attempts_left i (iw_db w) - 1) + card {m. is_fault sc m \<noteq> None} < n \<longrightarrow>
          result \<noteq> None)"
proof -
  obtain delays result w' where d: "deliver n (\<lambda>m. run_ingest (db_ingest sc) (pipeline m) i k) w = (delays, result, w')"
    by (cases "deliver n (\<lambda>m. run_ingest (db_ingest sc) (pipeline m) i k) w") auto
  note b = ingest_db.deliveries_bounded[OF assms d]
  have len: "length delays \<le> (attempts_left i (iw_db w) - 1) + faults_between sc w w'"
    using b fault_count_between[of sc w' w] by linarith
  moreover have "result \<noteq> None" if "finite {m. is_fault sc m \<noteq> None}"
    "(attempts_left i (iw_db w) - 1) + card {m. is_fault sc m \<noteq> None} < n"
    using b len faults_between_le[OF that(1), of w w'] that(2) by auto
  ultimately show ?thesis using b d by simp
qed

definition quiet_ingest :: ingest_schedule where
  "quiet_ingest = \<lparr>is_others = (\<lambda>_. []), is_now = (\<lambda>n. 100 + int n), is_fresh = (\<lambda>n k. 50 + of_nat (8 * n + k)),
     is_fault = (\<lambda>_. None)\<rparr>"

text \<open>The database fails the \<open>n\<close>-th call.\<close>

definition failing_at :: "nat \<Rightarrow> ingest_schedule" where
  "failing_at n = quiet_ingest\<lparr>is_fault := (\<lambda>_. None)(n := Some Fault_rolled_back)\<rparr>"

lemma failing_at_faults: "{m. is_fault (failing_at n) m \<noteq> None} = {n}"
  by (auto simp: failing_at_def)

theorem deliveries_end_witness:
  "case deliver 4 (\<lambda>m. run_ingest (db_ingest (failing_at 0)) (\<lambda>c. Inl (OtherError ''TimeoutError'')) 4 3)
      \<lparr>iw_db = ingest_db0, iw_calls = 0\<rparr> of
     (delays, result, w') \<Rightarrow> result \<noteq> None \<and> length delays \<le> 2 + faults_between (failing_at 0) \<lparr>iw_db = ingest_db0, iw_calls = 0\<rparr> w' \<and>
       (\<forall>t \<in> set delays. 30 \<le> t \<and> t \<le> 300)"
proof -
  have "attempts_left 4 ingest_db0 = 3" "job_exists 4 ingest_db0"
    by (simp_all add: attempts_left_def job_exists_def ingest_db0_wf ingest_db0_rows new_upload_job_def)
  then show ?thesis
    using deliveries_end[where i = 4 and w = "\<lparr>iw_db = ingest_db0, iw_calls = 0\<rparr>" and n = 4 and sc = "failing_at 0" and
      pipeline = "\<lambda>_ c. Inl (OtherError ''TimeoutError'')" and k = 3]
    by (auto simp: failing_at_faults simp del: not_None_eq)
qed

text \<open>
  While the database fails every claim, each delivery asks for another one after 30 seconds: the
  number of these retries does not depend on the attempts the job has left.
\<close>

lemma claim_outage_retries:
  assumes "\<forall>m < n. is_fault sc (iw_calls w + m) = Some Fault_rolled_back"
  shows "\<exists>w'. deliver n (\<lambda>m. run_ingest (db_ingest sc) (pipeline m) i k) w = (replicate n 30, None, w')"
  using assms
proof (induction n arbitrary: w pipeline)
  case (Suc n)
  have e: "ug_exc TransientError ''unable to claim ingest job from database'' [(''operation'', ''claim'')] = UrbanError
      \<lparr>err_class = TransientError, err_message = ''unable to claim ingest job from database'', err_details = [(''operation'', ''claim'')]\<rparr>"
    by code_simp
  have r: "retry_delay_seconds 1 = 30" by (simp add: retry_delay_seconds_def)
  have f: "is_fault sc (iw_calls w) = Some Fault_rolled_back" using Suc.prems by (metis add_0_right zero_less_Suc)
  have "run_ingest (db_ingest sc) (pipeline 0) i k w =
      (Inl (ArqRetry 30), \<lparr>iw_db = commit_all (is_others sc (iw_calls w)) (iw_db w), iw_calls = iw_calls w + 1\<rparr>)"
    by (simp add: run_ingest_def run_ingest_service_def thenP_def db_ingest_def ingest_call_def Let_def f database_errors_def
        is_sqlalchemy_error_def e r)
  moreover have "\<forall>m < n. is_fault sc (iw_calls w + 1 + m) = Some Fault_rolled_back" using Suc.prems by auto
  ultimately show ?case
    using Suc.IH[of "\<lparr>iw_db = commit_all (is_others sc (iw_calls w)) (iw_db w), iw_calls = iw_calls w + 1\<rparr>" "\<lambda>m. pipeline (Suc m)"]
    by auto
qed simp

subsection \<open>A failure that could not be recorded\<close>

lemma claim_started:
  assumes wf: "wf_db d" and c: "claim_ingest stale_after i k now d = Inr (c, d')" "iclaim_disposition c = INGEST_STARTED"
  obtains j v x p where "ingest_rows i k d j v x p"
    "c = claim_of INGEST_STARTED (start_attempt now j) (Some (context_of (start_attempt now j) v x p))"
    "wf_db d'" "ingest_rows i k d' (start_attempt now j) (v\<lparr>version_status := ''processing''\<rparr>) x p"
proof -
  obtain j v x p where r: "ingest_rows i k d j v x p"
    using claim_ingest_unbound[of i k d stale_after now] c(1) by fastforce
  have j: "find_job i d = Some j" and v: "find_version k d = Some v" using r by (simp_all add: ingest_rows_def)
  have dec: "c = claim_of INGEST_STARTED (start_attempt now j) (Some (context_of (start_attempt now j) v x p))"
      "d' = set_job (start_attempt now j) (set_version (v\<lparr>version_status := ''processing''\<rparr>) d)"
      "job_attempts j < job_max_attempts j" "version_status v \<noteq> ''ready''"
    using c unfolding claim_ingest_decision[OF wf r] claim_decision_def by (auto simp: claim_of_def split: if_splits)
  have vk: "same_version_key (v\<lparr>version_status := ''processing''\<rparr>) v" using dec(4) by (auto simp: same_version_key_def)
  note w = ingest_write[OF wf j job_updates_key(2)[of now] job_updates_checks(3)[OF find_job_checks[OF wf j] dec(3)] v vk]
  have "ingest_rows i k d' (start_attempt now j) (v\<lparr>version_status := ''processing''\<rparr>) x p"
    using r w(5,6) unfolding dec(2)
    by (simp add: ingest_rows_def find_project_def validate_job_binding_def start_attempt_def split: if_splits)
  with that[OF r dec(1) _] w(2) dec(2) show ?thesis by blast
qed

text \<open>
  C23. A lost failure record strands the job: when the pipeline fails and the database then fails
  the call that would record it, the task asks for a retry after 30 seconds, and a delivery within
  the 70 minutes of the stale limit finds the dead attempt still running and reports
  \<open>in_progress\<close> as its result. The deliveries are over, although the job is left running and the
  version processing, with nobody working on them.
\<close>

theorem lost_failure_strands_attempt:
  assumes wf: "wf_db (iw_db w)" and alone: "\<forall>m. is_others sc m = []"
    and c: "claim_ingest DEFAULT_STALE_AFTER i k (is_now sc (iw_calls w)) (iw_db w) = Inr (c, d')" "iclaim_disposition c = INGEST_STARTED"
    and p: "\<forall>x. \<exists>e. pipeline 0 x = Inl e"
    and faults: "is_fault sc (iw_calls w) = None" "is_fault sc (iw_calls w + 1) = Some Fault_rolled_back"
      "is_fault sc (iw_calls w + 2) = None"
    and soon: "is_now sc (iw_calls w + 2) < is_now sc (iw_calls w) + DEFAULT_STALE_AFTER"
  shows "\<exists>summary w'. deliver (Suc (Suc n)) (\<lambda>m. run_ingest (db_ingest sc) (pipeline m) i k) w = ([30], Some (Inr summary), w') \<and>
     map_of summary ''status'' = Some (JStr ''in_progress'') \<and> iw_db w' = d' \<and>
     (\<exists>j v. find_job i d' = Some j \<and> job_status j = Running \<and> find_version k d' = Some v \<and> version_status v = ''processing'')"
proof -
  let ?n = "iw_calls w"
  obtain j v x pr where r: "c = claim_of INGEST_STARTED (start_attempt (is_now sc ?n) j) (Some (context_of (start_attempt (is_now sc ?n) j) v x pr))"
    "wf_db d'" "ingest_rows i k d' (start_attempt (is_now sc ?n) j) (v\<lparr>version_status := ''processing''\<rparr>) x pr"
    by (rule claim_started[OF wf c])
  have again: "claim_ingest DEFAULT_STALE_AFTER i k (is_now sc (?n + 2)) d' = Inr (claim_of INGEST_IN_PROGRESS (start_attempt (is_now sc ?n) j) None, d')"
    using soon by (simp add: claim_ingest_decision[OF r(2,3)] claim_decision_def is_active_attempt_def start_attempt_def)
  obtain e where e: "pipeline 0 (context_of (start_attempt (is_now sc ?n) j) v x pr) = Inl e" using p by blast
  have lost: "ug_exc TransientError ''unable to persist ingest job failure'' [(''operation'', ''fail'')] = UrbanError
      \<lparr>err_class = TransientError, err_message = ''unable to persist ingest job failure'', err_details = [(''operation'', ''fail'')]\<rparr>"
    by code_simp
  have first: "run_ingest (db_ingest sc) (pipeline 0) i k w = (Inl (ArqRetry 30), \<lparr>iw_db = d', iw_calls = ?n + 2\<rparr>)"
    using c(1) faults e r(1)
    by (simp add: run_ingest_def run_ingest_service_def thenP_def started_ingest_def attempt_ingest_def pure_def claim_of_def
        db_ingest_def ingest_call_def Let_def alone database_errors_def is_sqlalchemy_error_def lost retry_delay_seconds_def)
  have second: "run_ingest (db_ingest sc) (pipeline 1) i k \<lparr>iw_db = d', iw_calls = ?n + 2\<rparr> =
      (Inr (ingest_summary (idle_result i k RUN_IN_PROGRESS (claim_of INGEST_IN_PROGRESS (start_attempt (is_now sc ?n) j) None))),
       \<lparr>iw_db = d', iw_calls = ?n + 3\<rparr>)"
    using again faults(3)
    by (simp add: run_ingest_def run_ingest_service_def thenP_def ret_def claim_of_def idle_result_def
        db_ingest_def ingest_call_def Let_def alone numeral_3_eq_3)
  have "map_of (ingest_summary (idle_result i k RUN_IN_PROGRESS cl)) ''status'' = Some (JStr ''in_progress'')" for cl
    by (simp add: ingest_summary_def idle_result_def)
  then show ?thesis using first second r(3) by (simp add: ingest_rows_def start_attempt_def)
qed

theorem lost_failure_strands_attempt_witness:
  "\<exists>summary w'. deliver 3 (\<lambda>m. run_ingest (db_ingest (failing_at 1)) (\<lambda>c. Inl (OtherError ''TimeoutError'')) 4 3)
      \<lparr>iw_db = ingest_db0, iw_calls = 0\<rparr> = ([30], Some (Inr summary), w') \<and>
     map_of summary ''status'' = Some (JStr ''in_progress'')"
proof -
  have "(case claim_ingest DEFAULT_STALE_AFTER 4 3 100 ingest_db0 of
      Inr (c, d') \<Rightarrow> iclaim_disposition c = INGEST_STARTED | Inl e \<Rightarrow> False)" by code_simp
  then obtain c d' where c: "claim_ingest DEFAULT_STALE_AFTER 4 3 100 ingest_db0 = Inr (c, d')" "iclaim_disposition c = INGEST_STARTED"
    by (auto split: sum.splits)
  have st: "DEFAULT_STALE_AFTER > 10" by (simp add: DEFAULT_STALE_AFTER_def seconds_def)
  show ?thesis
    using lost_failure_strands_attempt[of "\<lparr>iw_db = ingest_db0, iw_calls = 0\<rparr>" "failing_at 1" 4 3 c d'
        "\<lambda>_ c. Inl (OtherError ''TimeoutError'')" "Suc 0"] c st
    by (simp add: ingest_db0_wf failing_at_def quiet_ingest_def numeral_3_eq_3) blast
qed

subsection \<open>Attempts\<close>

text \<open>
  C36. The attempts of a job are counted exactly and bounded: over any sequence of claims,
  completions, failures and submissions by any workers, the attempts recorded grow by one for each
  claim that starts one and by nothing else, the bound never changes, and so at most
  \<open>max_attempts\<close> minus the attempts already made are ever started.
\<close>

theorem attempts_counted_and_bounded:
  assumes "wf_db d" and "find_job i d = Some j"
  shows "\<exists>j'. find_job i (commit_all evs d) = Some j' \<and> job_max_attempts j' = job_max_attempts j \<and>
     job_attempts j' = job_attempts j + int (started_attempts i evs d) \<and>
     int (started_attempts i evs d) \<le> job_max_attempts j - job_attempts j"
proof -
  obtain j' where j': "find_job i (commit_all evs d) = Some j'" "job_max_attempts j' = job_max_attempts j"
    "job_attempts j' = job_attempts j + int (started_attempts i evs d)"
    using commit_all_job[OF assms] by blast
  have "wf_db (commit_all evs d)" using commit_all_step[OF assms(1)] by blast
  then have "job_checks j'" using find_job_checks j'(1) by blast
  then show ?thesis using j' by (simp add: job_checks_def)
qed

theorem attempts_counted_and_bounded_witness:
  "\<exists>j'. find_job 4 (commit_all [Claim_attempt DEFAULT_STALE_AFTER 4 3 20] ingest_db0) = Some j' \<and> job_max_attempts j' = 3 \<and>
     job_attempts j' = int (started_attempts 4 [Claim_attempt DEFAULT_STALE_AFTER 4 3 20] ingest_db0) \<and>
     int (started_attempts 4 [Claim_attempt DEFAULT_STALE_AFTER 4 3 20] ingest_db0) \<le> 3"
  using attempts_counted_and_bounded[OF ingest_db0_wf(1) ingest_db0_rows(1), of "[Claim_attempt DEFAULT_STALE_AFTER 4 3 20]"]
  by (simp add: new_upload_job_def)

subsection \<open>Ready versions\<close>

lemma ready_version_kept:
  assumes "wf_db d" "find_version k d = Some v" "version_status v = ''ready''"
  shows "wf_db (commit_all evs d) \<and> find_version k (commit_all evs d) = Some v"
proof -
  obtain v' where "find_version k (commit_all evs d) = Some v'" "same_version_key v' v" "wf_db (commit_all evs d)"
    using commit_all_step[OF assms(1), of evs] assms(2) unfolding versions_step_def by blast
  then show ?thesis using assms(3) by (auto simp: same_version_key_def ready_status)
qed

text \<open>
  C37. A ready dataset version is final: after any transactions of any workers its row is still the
  same, no claim of it starts an attempt, and a failure reported for it does not ask for a retry.
\<close>

theorem ready_version_final:
  assumes "wf_db d" and "find_version k d = Some v" and "version_status v = ''ready''"
  shows "find_version k (commit_all evs d) = Some v \<and>
     (\<forall>stale_after i now c d'. claim_ingest stale_after i k now (commit_all evs d) = Inr (c, d') \<longrightarrow>
        iclaim_disposition c = INGEST_READY \<and> iclaim_context c = None) \<and>
     (\<forall>x e now again d'. ictx_version x = k \<longrightarrow> fail_ingest x e now (commit_all evs d) = Inr (again, d') \<longrightarrow> \<not> again)"
proof -
  have r: "wf_db (commit_all evs d)" "find_version k (commit_all evs d) = Some v" using ready_version_kept[OF assms] by blast+
  have "iclaim_disposition c = INGEST_READY \<and> iclaim_context c = None"
    if "claim_ingest stale_after i k now (commit_all evs d) = Inr (c, d')" for stale_after i now c d'
    using that r assms(3) unfolding claim_ingest_def
    by (auto simp: load_dataset_version_def bindE_Inr_iff database_errors_Inr claim_of_def)
  moreover have "\<not> again" if "ictx_version x = k" "fail_ingest x e now (commit_all evs d) = Inr (again, d')" for x e now again d'
    using that r assms(3) unfolding fail_ingest_def
    by (auto simp: load_dataset_version_def bindE_Inr_iff database_errors_Inr split: if_splits)
  ultimately show ?thesis using r(2) by blast
qed

definition done_db :: db where
  "done_db = set_version ((new_upload_version upload_new (upload_of None) ''uploads/a'' ready_artifact)\<lparr>version_status := ''ready''\<rparr>) ingest_db0"

theorem ready_version_final_witness:
  "\<exists>v. find_version 3 (commit_all [Claim_attempt DEFAULT_STALE_AFTER 4 3 20] done_db) = Some v \<and> version_status v = ''ready''"
proof -
  have "wf_db done_db" by code_simp
  moreover have "\<exists>v. find_version 3 done_db = Some v \<and> version_status v = ''ready''"
    using find_version_put[of "(new_upload_version upload_new (upload_of None) ''uploads/a'' ready_artifact)\<lparr>version_status := ''ready''\<rparr>"
      ingest_db0 _ 3] ingest_db0_rows(2) by (simp add: done_db_def new_upload_version_def upload_new_def)
  ultimately show ?thesis using ready_version_final by blast
qed

subsection \<open>Completion\<close>

text \<open>
  C10. A completion publishes the whole result or nothing: when it commits for a version that is not
  ready yet, the attempt was running, every artifact of the result was ready in the store and is now
  recorded with its content as referenced by this version, the version is ready with its content
  unchanged, the job is succeeded without an error, and no other artifact row has changed.
\<close>

theorem complete_ingest_publishes:
  assumes "wf_db d" and "complete_ingest fresh c res now d = Inr d'"
    and "find_version (ictx_version c) d = Some v" and "version_status v \<noteq> ''ready''"
  shows "version_status v = ''processing'' \<and> find_version (ictx_version c) d' = Some (v\<lparr>version_status := ''ready''\<rparr>) \<and>
     (\<exists>j. find_job (ictx_job c) d = Some j \<and> job_status j = Running \<and> find_job (ictx_job c) d' = Some (mark_job_succeeded now j)) \<and>
     (\<forall>s \<in> set (pr_source res # pr_derived res). stat_ready s \<and> referenced (ictx_version c) s d') \<and>
     (\<forall>u. u \<notin> artifact_uri_of ` set (pr_source res # pr_derived res) \<longrightarrow>
        lookup artifact_uri u (db_artifacts d') = lookup artifact_uri u (db_artifacts d))"
proof -
  obtain j where j: "find_job (ictx_job c) d = Some j" using complete_ingest_rows[OF assms(2)] by blast
  show ?thesis using complete_ingest_effect[OF assms(1,2) j assms(3)] assms(4) j by simp
qed

definition claimed_db :: db where
  "claimed_db = set_job (start_attempt 20 (new_upload_job upload_new 1))
     (set_version ((new_upload_version upload_new (upload_of None) ''uploads/a'' ready_artifact)\<lparr>version_status := ''processing''\<rparr>) ingest_db0)"

definition upload_context :: ingest_context where
  "upload_context = \<lparr>ictx_job = 4, ictx_version = 3, ictx_project = 1, ictx_kind = ''osm'', ictx_checksum = None,
     ictx_metadata = [], ictx_srid = 32637, ictx_attempts = 1, ictx_max_attempts = 3\<rparr>"

definition upload_stat :: artifact_stat where
  "upload_stat = \<lparr>stat_key = ''uploads/a'', stat_ready = True, stat_size = 10,
     stat_checksum = ''sha256:'' @ replicate 64 CHR ''0'', stat_content_type = None\<rparr>"

definition upload_result :: pipeline_result where
  "upload_result = \<lparr>pr_source = upload_stat, pr_derived = [upload_stat\<lparr>stat_key := ''derived/b''\<rparr>], pr_details = None\<rparr>"

lemma claimed_db_wf: "wf_db claimed_db"
  by code_simp

lemma claimed_db_rows:
  "find_job 4 claimed_db = Some (start_attempt 20 (new_upload_job upload_new 1))"
  "find_version 3 claimed_db = Some ((new_upload_version upload_new (upload_of None) ''uploads/a'' ready_artifact)\<lparr>version_status := ''processing''\<rparr>)"
proof -
  have j: "job_checks (start_attempt 20 (new_upload_job upload_new 1))" by code_simp
  have v: "same_version_key ((new_upload_version upload_new (upload_of None) ''uploads/a'' ready_artifact)\<lparr>version_status := ''processing''\<rparr>)
      (new_upload_version upload_new (upload_of None) ''uploads/a'' ready_artifact)"
    unfolding same_version_key_def by (intro exI[of _ "''processing''"]) (simp add: new_upload_version_def)
  show "find_job 4 claimed_db = Some (start_attempt 20 (new_upload_job upload_new 1))"
    "find_version 3 claimed_db = Some ((new_upload_version upload_new (upload_of None) ''uploads/a'' ready_artifact)\<lparr>version_status := ''processing''\<rparr>)"
    unfolding claimed_db_def
    using ingest_write(5,6)[OF ingest_db0_wf(1) ingest_db0_rows(1) job_updates_key(2) j ingest_db0_rows(2) v] by blast+
qed

theorem complete_ingest_publishes_witness:
  "\<exists>d'. complete_ingest (\<lambda>n. 60 + of_nat n) upload_context upload_result 30 claimed_db = Inr d' \<and>
     referenced 3 (upload_stat\<lparr>stat_key := ''derived/b''\<rparr>) d'"
proof -
  have "returned (complete_ingest (\<lambda>n. 60 + of_nat n) upload_context upload_result 30 claimed_db)" by code_simp
  then obtain d' where d': "complete_ingest (\<lambda>n. 60 + of_nat n) upload_context upload_result 30 claimed_db = Inr d'"
    by (auto simp: returned_iff)
  have "ictx_version upload_context = 3" by (simp add: upload_context_def)
  then show ?thesis
    using complete_ingest_publishes[OF claimed_db_wf d', of "(new_upload_version upload_new (upload_of None) ''uploads/a''
      ready_artifact)\<lparr>version_status := ''processing''\<rparr>"] claimed_db_rows(2) d' by (simp add: upload_result_def)
qed

subsection \<open>Late failures\<close>

text \<open>
  C39. Attempts are not fenced: while an attempt is running, a failure reported with the context of
  any earlier attempt of the job is accepted as the running attempt's own. It marks the job and the
  version failed, the completion of the running attempt is then refused as a permanent error, and
  the next claim starts another attempt at once, although the running one is not stale.
\<close>

theorem stale_failure_ends_newer_attempt:
  assumes wf: "wf_db d" and r: "ingest_rows i k d j v x p" and run: "job_status j = Running" "version_status v = ''processing''"
    and attempts: "job_attempts j < job_max_attempts j"
    and old: "ictx_job old = i" "ictx_version old = k" and e: "\<not> err_cancelled e"
  shows "\<exists>d'. fail_ingest old e now d = Inr (err_retryable e, d') \<and>
     (\<forall>current fresh res t. ictx_job current = i \<longrightarrow> ictx_version current = k \<longrightarrow>
        complete_ingest fresh current res t d' =
          Inl (permanent ''DatasetVersion must be processing before ingest completion'' [(''status'', ''failed'')])) \<and>
     (\<forall>stale_after t. \<exists>c d''. claim_ingest stale_after i k t d' = Inr (c, d'') \<and> iclaim_disposition c = INGEST_STARTED \<and>
        iclaim_attempts c = job_attempts j + 1)"
proof -
  let ?j = "(record_failure e j)\<lparr>job_finished_at := Some now\<rparr>" and ?v = "v\<lparr>version_status := ''failed''\<rparr>"
  let ?d = "set_job ?j (set_version ?v d)"
  have j: "find_job i d = Some j" and v: "find_version k d = Some v" using r by (simp_all add: ingest_rows_def)
  have vk: "same_version_key ?v v" using run by (auto simp: same_version_key_def)
  note w = ingest_write[OF wf j job_updates_key(4)[where e = e and t = "Some now"] failed_job_checks[OF find_job_checks[OF wf j]] v vk]
  have f: "fail_ingest old e now d = Inr (err_retryable e, ?d)"
    using fail_ingest_decision[OF wf, of old j v e now] j v old run attempts by (simp add: retry_left_def)
  have "ingest_rows i k ?d ?j ?v x p" using r w(5,6)
    by (simp add: ingest_rows_def find_project_def validate_job_binding_def split: if_splits)
  then have "claim_ingest stale_after i k t ?d = claim_decision stale_after t ?d ?j ?v x p" for stale_after t
    by (rule claim_ingest_decision[OF w(2)])
  moreover have "complete_ingest fresh current res t ?d =
      Inl (permanent ''DatasetVersion must be processing before ingest completion'' [(''status'', ''failed'')])"
    if "ictx_job current = i" "ictx_version current = k" for current fresh res t
  proof -
    have "permanent ''DatasetVersion must be processing before ingest completion'' [(''status'', ''failed'')] = UrbanError
        \<lparr>err_class = PermanentError, err_message = ''DatasetVersion must be processing before ingest completion'',
         err_details = [(''status'', ''failed'')]\<rparr>" by code_simp
    then show ?thesis using that w(5,6)
      by (simp add: complete_ingest_def load_job_def load_dataset_version_def is_sqlalchemy_error_def)
  qed
  moreover have "job_status ?j = Failed" using e by (simp add: record_failure_def)
  ultimately show ?thesis using f attempts
    by (intro exI[of _ ?d]) (simp add: claim_decision_def is_active_attempt_def claim_of_def)
qed

lemma claimed_bound:
  "ingest_rows 4 3 claimed_db (start_attempt 20 (new_upload_job upload_new 1))
     ((new_upload_version upload_new (upload_of None) ''uploads/a'' ready_artifact)\<lparr>version_status := ''processing''\<rparr>)
     \<lparr>dataset_id = 2, dataset_project_id = 1, dataset_kind = ''osm''\<rparr>
     \<lparr>project_id = 1, project_boundary_srid = None, project_working_srid = 32637\<rparr>"
proof -
  have "validate_job_binding (start_attempt 20 (new_upload_job upload_new 1)) 3 1 = Inr ()" by code_simp
  then show ?thesis using claimed_db_rows
    by (simp add: ingest_rows_def find_project_def claimed_db_def ingest_db0_def upload_db_def empty_db_def lookup_Cons
        new_upload_version_def upload_new_def upload_of_def)
qed

theorem stale_failure_ends_newer_attempt_witness:
  "\<exists>d'. fail_ingest (upload_context\<lparr>ictx_attempts := 0\<rparr>) (ug_value TransientError ''late'' []) 40 claimed_db = Inr (True, d') \<and>
     (\<exists>c d''. claim_ingest DEFAULT_STALE_AFTER 4 3 41 d' = Inr (c, d'') \<and> iclaim_disposition c = INGEST_STARTED \<and> iclaim_attempts c = 2)"
proof -
  have "\<not> err_cancelled (ug_value TransientError ''late'' [])" "err_retryable (ug_value TransientError ''late'' [])" by code_simp+
  then show ?thesis
    using stale_failure_ends_newer_attempt[OF claimed_db_wf claimed_bound, of "upload_context\<lparr>ictx_attempts := 0\<rparr>"
      "ug_value TransientError ''late'' []" 40]
    by (simp add: start_attempt_def new_upload_job_def upload_context_def) metis
qed

subsection \<open>Submissions\<close>

text \<open>The versions attached to an artifact after a new upload.\<close>

lemma attached_add_upload:
  assumes "wf_db d" "attached key d = []" and wf': "wf_db (add_upload f now p q key a d)"
  shows "attached key (add_upload f now p q key a d) =
     [(new_upload_version f q key a, \<lparr>dataset_id = new_dataset f, dataset_project_id = p, dataset_kind = up_kind q\<rparr>)]"
proof -
  let ?n = "add_upload f now p q key a d"
  have "distinct (map dataset_id (db_datasets ?n))" using wf' by (simp add: wf_db_def unique_ok_def)
  then have new: "lookup dataset_id (new_dataset f) (db_datasets ?n) =
      Some \<lparr>dataset_id = new_dataset f, dataset_project_id = p, dataset_kind = up_kind q\<rparr>"
    using lookup_self[of dataset_id "db_datasets ?n" "\<lparr>dataset_id = new_dataset f, dataset_project_id = p, dataset_kind = up_kind q\<rparr>"]
    by simp
  have none: "map_of (version_metadata v) ''artifact_key'' \<noteq> Some (JStr key)" if v: "v \<in> set (db_versions d)" for v
  proof
    assume m: "map_of (version_metadata v) ''artifact_key'' = Some (JStr key)"
    have "version_dataset_id v \<in> dataset_id ` set (db_datasets d)"
      using assms(1) v by (simp add: wf_db_def fk_ok_def list_all_iff)
    then obtain x where "lookup dataset_id (version_dataset_id v) (db_datasets d) = Some x"
      using lookup_None[of dataset_id "version_dataset_id v" "db_datasets d"] by (cases "lookup dataset_id (version_dataset_id v) (db_datasets d)") auto
    then have "(v, x) \<in> set (attached key d)" using m v by (force simp: attached_def List.map_filter_def)
    then show False using assms(2) by simp
  qed
  show ?thesis using none new
    by (auto simp: attached_def List.map_filter_def filter_empty_conv filter_eq_Cons_iff new_upload_version_def)
qed

text \<open>
  C38. Submission is idempotent: once an upload has been accepted, the same request is answered with
  the same dataset version and job and writes nothing, at any later time, with other fresh
  identifiers and even when the project has no free slot.
\<close>

theorem create_upload_idempotent:
  assumes wf: "wf_db d" and c: "create_upload l f now p q d = Inr (x, d')"
  shows "create_upload l' f' now' p q d' = Inr (x, d')"
proof -
  obtain pr a where pa: "check_upload q = Inr ()" "find_project p d = Some pr" "lookup artifact_id (up_artifact q) (db_artifacts d) = Some a"
    "starts_with upload_prefix (artifact_uri a)" "artifact_state a \<in> {READY, REFERENCED}"
    using c unfolding create_upload_def by (auto simp: bindE_Inr_iff split: option.splits if_splits)
  let ?key = "removeprefix ''artifact://'' (artifact_uri a)"
  show ?thesis
  proof (cases "attached ?key d")
    case (Cons y ys)
    then show ?thesis using c pa unfolding create_upload_def
      by (auto simp: Let_def bindE_Inr_iff split: list.splits if_splits prod.splits)
  next
    case Nil
    let ?n = "add_upload f now p q ?key a d"
    have fl: "flush d ?n = Inr d'" and x: "x = submission p (new_upload_version f q ?key a) (new_upload_job f p)"
      using c pa Nil unfolding create_upload_def by (auto simp: Let_def bindE_Inr_iff split: if_splits)
    have d': "d' = ?n" and wf': "wf_db ?n" using flush_wf[OF fl] by auto
    note att = attached_add_upload[OF wf Nil wf']
    have "distinct (map (\<lambda>j. (job_project_id j, job_type j, job_key j)) (db_jobs ?n))" using wf' by (simp add: wf_db_def unique_ok_def)
    then have "ingest_job_of p (version_id (new_upload_version f q ?key a)) ?n = Inr (new_upload_job f p)"
      using lookup_self[of "\<lambda>j. (job_project_id j, job_type j, job_key j)" "db_jobs ?n" "new_upload_job f p"]
      by (simp add: ingest_job_of_def new_upload_job_def new_upload_version_def)
    moreover have "meta_get ''format'' (new_upload_version f q ?key a) = Some (JStr (up_format q))"
      "meta_get ''layer'' (new_upload_version f q ?key a) = map_option JStr (up_layer q)"
      by (simp_all add: meta_get_def new_upload_version_def split: option.split)
    ultimately show ?thesis using pa unfolding d' create_upload_def x
      by (simp add: find_project_def att Let_def)
  qed
qed

theorem create_upload_idempotent_witness:
  "create_upload (upload_limits\<lparr>lim_ingest := 0\<rparr>) (upload_new\<lparr>new_job := 9\<rparr>) 99 1 (upload_of None) ingest_db0 =
     Inr (submission 1 (new_upload_version upload_new (upload_of None) ''uploads/a'' ready_artifact) (new_upload_job upload_new 1), ingest_db0)"
  by (rule create_upload_idempotent[OF ingest_db0_wf(2) upload_created])

end
