(* ===== verification/Outbox_Dispatch.thy ===== *)
theory Outbox_Dispatch
  imports Checkpoints
begin

text \<open>
  Delivery of the transactional outbox: the methods of \<open>JobOutbox\<close>
  (\<open>backend/app/models/job_outbox.py\<close>), \<open>backend/app/services/job_dispatcher.py\<close>,
  \<open>backend/app/db/outbox_dispatcher.py\<close>, and the ARQ adapter of
  \<open>worker/outbox_dispatcher.py\<close> with the routing table of \<open>worker/queues.py\<close>.
  The queue is a state \<open>'q\<close> that survives a rollback of the database transaction; the port
  \<open>RedisJobEnqueuer\<close> is a function on it, and its contract is the locale \<open>job_enqueuer\<close>.
\<close>

subsection \<open>The outbox row\<close>

definition enqueue_key :: "outbox \<Rightarrow> string" where
  "enqueue_key m = ''job:'' @ uuid_str (outbox_job_id m)"

definition is_due :: "time \<Rightarrow> outbox \<Rightarrow> bool" where
  "is_due at m = (outbox_status m = Pending \<and>
     (case outbox_next_attempt_at m of None \<Rightarrow> True | Some t \<Rightarrow> t \<le> at))"

definition mark_dispatched :: "time \<Rightarrow> outbox \<Rightarrow> bool \<times> outbox" where
  "mark_dispatched at m =
     (if outbox_status m = Dispatched then (False, m)
      else (True, m\<lparr>outbox_attempts := outbox_attempts m + 1, outbox_last_attempt_at := Some at,
              outbox_next_attempt_at := None, outbox_last_error := None,
              outbox_status := Dispatched, outbox_dispatched_at := Some at\<rparr>))"

definition record_delivery_failure :: "string \<Rightarrow> time \<Rightarrow> time \<Rightarrow> outbox \<Rightarrow> exc + outbox" where
  "record_delivery_failure error attempted_at retry_at m =
     (if outbox_status m \<noteq> Pending
      then Inl (ValueError ''cannot record delivery failure for a dispatched outbox message'')
      else let error_text = py_strip error in
      if error_text = [] then Inl (ValueError ''delivery error must be non-empty'')
      else if retry_at \<le> attempted_at then Inl (ValueError ''retry_at must be later than attempted_at'')
      else Inr (m\<lparr>outbox_attempts := outbox_attempts m + 1, outbox_last_attempt_at := Some attempted_at,
             outbox_next_attempt_at := Some retry_at, outbox_last_error := Some (take 2000 error_text),
             outbox_dispatched_at := None\<rparr>))"

subsection \<open>One message\<close>

record queue_message =
  msg_outbox_id :: uuid
  msg_job_id :: uuid
  msg_key :: string
  msg_queue :: string
  msg_payload :: "(string \<times> json) list"

datatype dispatch_outcome = DISPATCHED | ALREADY_DISPATCHED | NOT_DUE | RETRY_SCHEDULED

text \<open>A raised exception of the enqueuer is its type name and its text.\<close>

type_synonym 'q enqueuer = "queue_message \<Rightarrow> 'q \<Rightarrow> (string \<times> string) option \<times> 'q"

definition envelope_of :: "outbox \<Rightarrow> queue_message" where
  "envelope_of m = \<lparr>msg_outbox_id = outbox_id m, msg_job_id = outbox_job_id m, msg_key = enqueue_key m,
     msg_queue = outbox_queue m, msg_payload = outbox_payload m\<rparr>"

definition dispatch_outbox_message ::
  "'q enqueuer \<Rightarrow> time \<Rightarrow> int \<Rightarrow> outbox \<Rightarrow> 'q \<Rightarrow> (exc + dispatch_outcome \<times> outbox) \<times> 'q" where
  "dispatch_outbox_message enqueue now retry_delay m q =
     (if retry_delay \<le> 0 then (Inl (ValueError ''retry_delay must be positive''), q)
      else if outbox_status m = Dispatched then (Inr (ALREADY_DISPATCHED, m), q)
      else if \<not> is_due now m then (Inr (NOT_DUE, m), q)
      else case enqueue (envelope_of m) q of
          (Some (name, text), q') \<Rightarrow>
            (bindE (record_delivery_failure (py_strip (name @ '': '' @ text)) now (now + retry_delay) m)
               (\<lambda>m'. Inr (RETRY_SCHEDULED, m')), q')
        | (None, q') \<Rightarrow> (Inr (DISPATCHED, snd (mark_dispatched now m)), q'))"

subsection \<open>One batch\<close>

definition MAX_DISPATCH_BATCH_SIZE :: int where
  "MAX_DISPATCH_BATCH_SIZE = 500"

definition pending_outbox :: "time \<Rightarrow> int \<Rightarrow> db \<Rightarrow> exc + outbox list" where
  "pending_outbox at limit d =
     (if limit < 1 \<or> limit > MAX_DISPATCH_BATCH_SIZE
      then Inl (ValueError ''limit must be between 1 and 500'')
      else Inr (take (nat limit)
        (sort_key (\<lambda>m. (outbox_created_at m, unat (outbox_id m))) (filter (is_due at) (db_outbox d)))))"

definition outbox_retry_seconds :: "outbox \<Rightarrow> int" where
  "outbox_retry_seconds m = min (30 * 2 ^ nat (min (outbox_attempts m) 4)) 300"

record dispatch_result =
  dr_claimed :: nat
  dr_dispatched :: nat
  dr_retry_scheduled :: nat

fun dispatch_rows ::
  "'q enqueuer \<Rightarrow> time \<Rightarrow> outbox list \<Rightarrow> nat \<Rightarrow> nat \<Rightarrow> db \<Rightarrow> 'q \<Rightarrow> (exc + nat \<times> nat \<times> db) \<times> 'q" where
  "dispatch_rows enqueue now [] dispatched retried d q = (Inr (dispatched, retried, d), q)"
| "dispatch_rows enqueue now (m # ms) dispatched retried d q =
     (case dispatch_outbox_message enqueue now (seconds (outbox_retry_seconds m)) m q of
        (Inl e, q') \<Rightarrow> (Inl e, q')
      | (Inr (outcome, m'), q') \<Rightarrow>
          dispatch_rows enqueue now ms
            (if outcome = DISPATCHED then dispatched + 1 else dispatched)
            (if outcome = RETRY_SCHEDULED then retried + 1 else retried)
            (set_outbox m' d) q')"

definition dispatch_due ::
  "'q enqueuer \<Rightarrow> time \<Rightarrow> int \<Rightarrow> db \<Rightarrow> 'q \<Rightarrow> (exc + dispatch_result \<times> db) \<times> 'q" where
  "dispatch_due enqueue now limit d q =
     (case pending_outbox now limit d of
        Inl e \<Rightarrow> (Inl e, q)
      | Inr rows \<Rightarrow>
          (case dispatch_rows enqueue now rows 0 0 d q of
             (Inl e, q') \<Rightarrow> (Inl e, q')
           | (Inr (dispatched, retried, d'), q') \<Rightarrow>
               (bindE (flush d d') (\<lambda>d''.
                 Inr (\<lparr>dr_claimed = length rows, dr_dispatched = dispatched, dr_retry_scheduled = retried\<rparr>, d'')), q')))"

subsection \<open>The ARQ adapter\<close>

definition redis_queues :: "(string \<times> string) list" where
  "redis_queues = [(''ingest'', ''arq:queue:ingest''), (''generation'', ''arq:queue:generation''),
     (''analysis'', ''arq:queue:analysis''), (''export'', ''arq:queue:export'')]"

definition task_queues :: "(string \<times> string) list" where
  "task_queues = [(''run_ingest'', ''ingest''), (''run_generation'', ''generation''),
     (''run_geojson_export'', ''export''), (''run_geopackage_export'', ''export'')]"

definition queue_for_task :: "string \<Rightarrow> string \<Rightarrow> exc + string" where
  "queue_for_task task logical_queue =
     (case map_of task_queues task of
        None \<Rightarrow> Inl (ValueError ''unsupported outbox task'')
      | Some expected \<Rightarrow>
          if logical_queue \<noteq> expected \<and> logical_queue \<noteq> ''default''
          then Inl (ValueError (''outbox task '' @ task @ '' must use '' @ py_repr expected @ '' logical queue (got ''
            @ py_repr logical_queue @ '')''))
          else (case map_of redis_queues expected of
              None \<Rightarrow> Inl (KeyError expected)
            | Some queue \<Rightarrow> Inr queue))"

text \<open>\<open>str(uuid.UUID(value))\<close>: the spellings of UUIDs that the library accepts are a parameter
  \<open>parse_uuid\<close>; of it only the canonical spelling is used below.\<close>

definition uuid_field :: "(string \<Rightarrow> uuid option) \<Rightarrow> string \<Rightarrow> (string \<times> json) list \<Rightarrow> exc + string" where
  "uuid_field parse_uuid field payload =
     (case map_of payload field of
        Some (JStr s) \<Rightarrow> (case parse_uuid s of Some u \<Rightarrow> Inr (uuid_str u)
            | None \<Rightarrow> Inl (ValueError (field @ '' must be a UUID string'')))
      | Some _ \<Rightarrow> Inl (ValueError (field @ '' must be a UUID string''))
      | None \<Rightarrow> Inl (KeyError field))"

definition payload_keys :: "(string \<times> json) list \<Rightarrow> string list \<Rightarrow> bool" where
  "payload_keys payload keys = (set (map fst payload) = set keys)"

definition export_args :: "(string \<Rightarrow> uuid option) \<Rightarrow> queue_message \<Rightarrow> string \<Rightarrow> exc + string list" where
  "export_args parse_uuid msg label =
     (if \<not> payload_keys (msg_payload msg) [''task'', ''job_id'']
      then Inl (ValueError (''invalid '' @ label @ '' export outbox payload''))
      else bindE (uuid_field parse_uuid ''job_id'' (msg_payload msg)) (\<lambda>jid.
        if jid \<noteq> uuid_str (msg_job_id msg)
        then Inl (ValueError (label @ '' export outbox job_id does not match authoritative job''))
        else Inr [jid]))"

definition task_args :: "(string \<Rightarrow> uuid option) \<Rightarrow> queue_message \<Rightarrow> string \<Rightarrow> exc + string list" where
  "task_args parse_uuid msg task =
     (if task = ''run_generation'' then
        if \<not> payload_keys (msg_payload msg) [''task'', ''run_id'']
        then Inl (ValueError ''invalid generation outbox payload'')
        else bindE (uuid_field parse_uuid ''run_id'' (msg_payload msg)) (\<lambda>rid. Inr [rid])
      else if task = ''run_ingest'' then
        if \<not> payload_keys (msg_payload msg) [''task'', ''job_id'', ''dataset_version_id'']
        then Inl (ValueError ''invalid ingest outbox payload'')
        else bindE (uuid_field parse_uuid ''job_id'' (msg_payload msg)) (\<lambda>jid.
          if jid \<noteq> uuid_str (msg_job_id msg)
          then Inl (ValueError ''ingest outbox job_id does not match authoritative job'')
          else bindE (uuid_field parse_uuid ''dataset_version_id'' (msg_payload msg)) (\<lambda>vid. Inr [jid, vid]))
      else if task = ''run_geojson_export'' then export_args parse_uuid msg ''GeoJSON''
      else if task = ''run_geopackage_export'' then export_args parse_uuid msg ''GeoPackage''
      else Inl (ValueError ''unsupported outbox task''))"

definition arq_route :: "(string \<Rightarrow> uuid option) \<Rightarrow> queue_message \<Rightarrow> exc + string \<times> string \<times> string list" where
  "arq_route parse_uuid msg =
     (case map_of (msg_payload msg) ''task'' of
        Some (JStr task) \<Rightarrow>
          bindE (queue_for_task task (msg_queue msg)) (\<lambda>queue.
          bindE (task_args parse_uuid msg task) (\<lambda>args. Inr (task, queue, args)))
      | _ \<Rightarrow> Inl (ValueError ''outbox task must be a string''))"

text \<open>
  \<open>ArqJobEnqueuer.enqueue\<close>: \<open>enqueue_job\<close> is the ARQ client (function, arguments, job id, queue),
  a parameter; it may raise.
\<close>

definition arq_enqueue ::
  "(string \<Rightarrow> uuid option) \<Rightarrow> (string \<Rightarrow> string list \<Rightarrow> string \<Rightarrow> string \<Rightarrow> 'q \<Rightarrow> (string \<times> string) option \<times> 'q)
     \<Rightarrow> 'q enqueuer" where
  "arq_enqueue parse_uuid enqueue_job msg q =
     (case arq_route parse_uuid msg of
        Inl (ValueError text) \<Rightarrow> (Some (''ValueError'', text), q)
      | Inl (KeyError text) \<Rightarrow> (Some (''KeyError'', text), q)
      | Inl _ \<Rightarrow> (Some (''Exception'', []), q)
      | Inr (task, queue, args) \<Rightarrow> enqueue_job task args (msg_key msg) queue q)"

lemma list_all2_in_right: "list_all2 R xs ys \<Longrightarrow> y \<in> set ys \<Longrightarrow> \<exists>x \<in> set xs. R x y"
  by (induction xs ys rule: list_all2_induct) auto

subsection \<open>One batch: every claimed row is settled, nothing else is touched\<close>

lemma set_dropWhile_keep: "\<not> P c \<Longrightarrow> c \<in> set (dropWhile P xs) \<longleftrightarrow> c \<in> set xs"
  by (induction xs) auto

lemma blank_py_strip: "blank (py_strip s) \<longleftrightarrow> blank s"
proof -
  have "c \<in> set (py_strip s) \<longleftrightarrow> c \<in> set s" if "\<not> is_py_space c" for c
    using that by (simp add: py_strip_def set_dropWhile_keep)
  then show ?thesis unfolding blank_def list_all_iff by blast
qed

lemma list_all2_map_eq: "list_all2 R xs ys \<Longrightarrow> (\<And>x y. R x y \<Longrightarrow> f y = f x) \<Longrightarrow> map f ys = map f xs"
  by (induction xs ys rule: list_all2_induct) auto

lemma colon_not_blank: "\<not> blank (a @ '': '' @ b)"
  by (auto simp: blank_def list_all_iff is_py_space_def chr_code_def)

lemma outbox_retry_bounds: "0 \<le> outbox_attempts m \<Longrightarrow> 30 \<le> outbox_retry_seconds m \<and> outbox_retry_seconds m \<le> 300"
  by (simp add: outbox_retry_seconds_def)

lemma outbox_retry_pos: "0 < outbox_retry_seconds m"
  by (simp add: outbox_retry_seconds_def)

lemma py_strip_idem [simp]: "py_strip (py_strip s) = py_strip s"
proof -
  let ?t = "dropWhile is_py_space s"
  let ?u = "dropWhile is_py_space (rev ?t)"
  have "dropWhile is_py_space (rev ?u) = rev ?u"
  proof (cases "?u = []")
    case False
    then have t: "?t \<noteq> []" by (metis dropWhile.simps(1) rev.simps(1))
    then have h: "\<not> is_py_space (hd ?t)" by (rule hd_dropWhile)
    then have "last ?u = last (rev ?t)" using t by (intro dropWhile_last[of "hd ?t"]) simp_all
    then show ?thesis using False t h by (simp add: dropWhile_eq_self_iff hd_rev last_rev)
  next
    case True
    then show ?thesis by (simp only:) simp
  qed
  then show ?thesis by (simp add: py_strip_def)
qed

text \<open>
  What the pass promises about one claimed row, given the queue's answer to its message: it is
  acknowledged, or stays pending with the error and the time of the next attempt.
\<close>

definition settle :: "time \<Rightarrow> outbox \<Rightarrow> (string \<times> string) option \<Rightarrow> outbox" where
  "settle now m r =
     (case r of
        None \<Rightarrow> m\<lparr>outbox_attempts := outbox_attempts m + 1, outbox_last_attempt_at := Some now, outbox_next_attempt_at := None,
          outbox_last_error := None, outbox_status := Dispatched, outbox_dispatched_at := Some now\<rparr>
      | Some (name, text) \<Rightarrow> m\<lparr>outbox_attempts := outbox_attempts m + 1, outbox_last_attempt_at := Some now,
          outbox_next_attempt_at := Some (now + seconds (outbox_retry_seconds m)),
          outbox_last_error := Some (take 2000 (py_strip (name @ '': '' @ text))), outbox_dispatched_at := None\<rparr>)"

text \<open>The answers of the queue to the messages of a batch, sent one after the other.\<close>

fun send_all :: "'q enqueuer \<Rightarrow> outbox list \<Rightarrow> 'q \<Rightarrow> (string \<times> string) option list \<times> 'q" where
  "send_all enqueue [] q = ([], q)"
| "send_all enqueue (m # ms) q =
     (case enqueue (envelope_of m) q of (r, q') \<Rightarrow> (case send_all enqueue ms q' of (rs, q'') \<Rightarrow> (r # rs, q'')))"

lemma send_all_length: "send_all enqueue ms q = (rs, q') \<Longrightarrow> length rs = length ms"
  by (induction ms arbitrary: q rs) (auto split: prod.splits)

lemma settle_id [simp]: "outbox_id (settle now m r) = outbox_id m" "outbox_job_id (settle now m r) = outbox_job_id m"
  by (auto simp: settle_def split: option.split)

lemma dispatch_message_due:
  assumes "is_due now m" and e: "enqueue (envelope_of m) q = (r, q')"
  shows "dispatch_outbox_message enqueue now (seconds (outbox_retry_seconds m)) m q =
       (Inr (if r = None then DISPATCHED else RETRY_SCHEDULED, settle now m r), q')"
proof -
  have pend: "outbox_status m = Pending" using assms by (simp add: is_due_def)
  have sec: "\<not> seconds (outbox_retry_seconds m) \<le> 0" using outbox_retry_pos[of m] by (simp add: seconds_def)
  show ?thesis
  proof (cases r)
    case None
    with e pend sec assms(1) show ?thesis by (simp add: dispatch_outbox_message_def settle_def mark_dispatched_def)
  next
    case (Some nt)
    obtain nm tx where nt: "nt = (nm, tx)" by force
    have "py_strip (nm @ '': '' @ tx) \<noteq> []"
      unfolding py_strip_Nil_iff by (rule colon_not_blank)
    with e pend sec assms(1) Some nt show ?thesis
      by (auto simp: dispatch_outbox_message_def record_delivery_failure_def settle_def Let_def)
  qed
qed

abbreviation accepts_of :: "(string \<times> string) option list \<Rightarrow> nat" where
  "accepts_of rs \<equiv> length (filter (\<lambda>r. r = None) rs)"

abbreviation refusals_of :: "(string \<times> string) option list \<Rightarrow> nat" where
  "refusals_of rs \<equiv> length (filter (\<lambda>r. r \<noteq> None) rs)"

lemma dispatch_rows_settles:
  assumes "\<forall>m \<in> set ms. is_due now m" and "send_all enqueue ms q = (rs, q')"
  shows "dispatch_rows enqueue now ms a b d q =
     (Inr (a + accepts_of rs, b + refusals_of rs, fold set_outbox (map2 (settle now) ms rs) d), q')"
  using assms
proof (induction ms arbitrary: a b d q rs)
  case (Cons m ms)
  obtain r q1 where e: "enqueue (envelope_of m) q = (r, q1)" by force
  obtain rs1 where rs: "send_all enqueue ms q1 = (rs1, q')" "rs = r # rs1"
    using Cons.prems(2) e by (auto split: prod.splits)
  have "is_due now m" using Cons.prems(1) by simp
  then show ?case using Cons.IH[OF _ rs(1)] Cons.prems(1) rs(2) by (auto simp: dispatch_message_due[where q = q and r = r and q' = q1] e)
qed simp

definition upd_rows :: "('r \<Rightarrow> 'k) \<Rightarrow> 'r list \<Rightarrow> 'r \<Rightarrow> 'r" where
  "upd_rows key new m = (case lookup key (key m) new of None \<Rightarrow> m | Some m' \<Rightarrow> m')"

lemma fold_put_row: "distinct (map key new) \<Longrightarrow> fold (put_row key) new rows = map (upd_rows key new) rows"
proof (induction new arbitrary: rows)
  case Nil
  then show ?case by (simp add: upd_rows_def map_idI)
next
  case (Cons x xs)
  then have "lookup key (key x) xs = None" by (auto simp: lookup_None)
  with Cons show ?case by (auto simp: put_row_def upd_rows_def lookup_Cons)
qed

lemma fold_set_outbox:
  "fold set_outbox ms d = d\<lparr>db_outbox := fold (put_row outbox_id) ms (db_outbox d)\<rparr>"
  by (induction ms arbitrary: d) (simp_all add: set_outbox_def)

lemma pending_outbox_Inr:
  "pending_outbox now limit d = Inr ms \<Longrightarrow> 1 \<le> limit \<and> limit \<le> 500 \<and> int (length ms) \<le> limit \<and>
     (\<forall>m \<in> set ms. is_due now m \<and> m \<in> set (db_outbox d))"
  by (auto simp: pending_outbox_def MAX_DISPATCH_BATCH_SIZE_def split: if_splits dest!: in_set_takeD)

lemma pending_outbox_distinct:
  assumes "wf_db d" "pending_outbox now limit d = Inr ms"
  shows "distinct (map outbox_id ms)"
proof -
  let ?s = "sort_key (\<lambda>m. (outbox_created_at m, unat (outbox_id m))) (filter (is_due now) (db_outbox d))"
  have "distinct (map outbox_id (filter (is_due now) (db_outbox d)))"
    using wf_pks(7)[OF assms(1)] by (rule distinct_map_filter)
  then have "distinct (map outbox_id ?s)" by (simp add: distinct_map)
  moreover have "ms = take (nat limit) ?s" using assms(2) by (simp add: pending_outbox_def split: if_splits)
  ultimately show ?thesis using distinct_take[of "map outbox_id ?s" "nat limit"] by (simp only: take_map)
qed

text \<open>One row before and after a batch: left alone, or due and settled.\<close>

definition batch_row :: "time \<Rightarrow> outbox \<Rightarrow> outbox \<Rightarrow> bool" where
  "batch_row now m m' \<longleftrightarrow> m' = m \<or> is_due now m \<and> (\<exists>r. m' = settle now m r)"

text \<open>The outbox after a batch: each row that was sent is settled with its own answer.\<close>

definition settled_outbox :: "time \<Rightarrow> outbox list \<Rightarrow> (string \<times> string) option list \<Rightarrow> outbox list \<Rightarrow> outbox list" where
  "settled_outbox now ms rs rows = map (\<lambda>m. case map_of (zip ms rs) m of None \<Rightarrow> m | Some r \<Rightarrow> settle now m r) rows"

lemma lookup_settled:
  assumes "length rs = length ms" and "\<And>x. x \<in> set ms \<Longrightarrow> outbox_id x = outbox_id m \<Longrightarrow> x = m"
  shows "lookup outbox_id (outbox_id m) (map2 (settle now) ms rs) = map_option (settle now m) (map_of (zip ms rs) m)"
  using assms by (induction rs ms rule: list_induct2) (auto simp: lookup_Cons)

lemma upd_rows_settled:
  assumes "length rs = length ms" "set ms \<subseteq> set rows" "distinct (map outbox_id rows)"
  shows "map (upd_rows outbox_id (map2 (settle now) ms rs)) rows = settled_outbox now ms rs rows"
  unfolding settled_outbox_def
proof (rule map_cong[OF refl])
  fix m assume m: "m \<in> set rows"
  have "x = m" if "x \<in> set ms" "outbox_id x = outbox_id m" for x
    using that m assms(2,3) by (auto simp: distinct_map dest: inj_onD)
  from lookup_settled[OF assms(1) this]
  show "upd_rows outbox_id (map2 (settle now) ms rs) m = (case map_of (zip ms rs) m of None \<Rightarrow> m | Some r \<Rightarrow> settle now m r)"
    by (simp add: upd_rows_def split: option.split)
qed

lemma settled_outbox_rows:
  assumes "\<forall>m \<in> set ms. is_due now m"
  shows "list_all2 (batch_row now) rows (settled_outbox now ms rs rows)"
  using assms unfolding settled_outbox_def list_all2_map2
  by (auto simp: batch_row_def list_all2_same split: option.split dest!: map_of_SomeD set_zip_leftD)

lemma batch_row_keeps: "batch_row now m m' \<Longrightarrow> outbox_id m' = outbox_id m \<and> outbox_job_id m' = outbox_job_id m"
  by (auto simp: batch_row_def)

lemma batch_row_checks: "batch_row now m m' \<Longrightarrow> outbox_checks m \<Longrightarrow> outbox_checks m'"
  by (auto simp: batch_row_def settle_def outbox_checks_def is_due_def split: option.splits)

lemma flush_outbox:
  assumes wf: "wf_db d" and rows: "list_all2 (batch_row now) (db_outbox d) rows"
  shows "flush d (d\<lparr>db_outbox := rows\<rparr>) = Inr (d\<lparr>db_outbox := rows\<rparr>)"
proof -
  have u: "unique_ok d" and ok: "rows_ok d" and fk: "fk_ok d" using wf by (simp_all add: wf_db_def)
  have "map outbox_id rows = map outbox_id (db_outbox d)" "map outbox_job_id rows = map outbox_job_id (db_outbox d)"
    by (rule list_all2_map_eq[OF rows]; use batch_row_keeps in blast)+
  then have "unique_ok (d\<lparr>db_outbox := rows\<rparr>)" using u by (simp add: unique_ok_def)
  moreover have jobs: "list_all (\<lambda>m. outbox_job_id m \<in> set (map job_id (db_jobs d))) rows"
  proof -
    have "outbox_job_id x \<in> set (map job_id (db_jobs d))" if x: "x \<in> set rows" for x
    proof -
      obtain m where m: "m \<in> set (db_outbox d)" "batch_row now m x" using list_all2_in_right[OF rows x] by blast
      have "outbox_job_id m \<in> set (map job_id (db_jobs d))" using fk m(1) unfolding fk_ok_def list_all_iff by blast
      with batch_row_keeps[OF m(2)] show ?thesis by (simp only:)
    qed
    then show ?thesis unfolding list_all_iff by blast
  qed
  moreover have "fk_ok (d\<lparr>db_outbox := rows\<rparr>)"
    by (rule fk_ok_tables[of _ d]) (use fk jobs in \<open>simp_all add: fk_ok_def\<close>)
  moreover have "list_all outbox_checks rows"
    using ok rows batch_row_checks by (fastforce simp: rows_ok_def list_all_length list_all2_conv_all_nth)
  then have "rows_ok (d\<lparr>db_outbox := rows\<rparr>)" using ok by (simp add: rows_ok_def)
  ultimately show ?thesis using u
    by (simp add: flush_Inr wf_db_def artifact_updates_same version_updates_same membership_same
        batch_state_same succeeded_runs_same stage_results_same)
qed

lemma dispatch_due_eq:
  assumes wf: "wf_db d" and ms: "pending_outbox now limit d = Inr ms" and sent: "send_all enqueue ms q = (rs, q')"
  shows "dispatch_due enqueue now limit d q =
      (Inr (\<lparr>dr_claimed = length ms, dr_dispatched = accepts_of rs, dr_retry_scheduled = refusals_of rs\<rparr>,
        d\<lparr>db_outbox := settled_outbox now ms rs (db_outbox d)\<rparr>), q') \<and>
     wf_db (d\<lparr>db_outbox := settled_outbox now ms rs (db_outbox d)\<rparr>)"
proof -
  note p = pending_outbox_Inr[OF ms] and len = send_all_length[OF sent]
  have due: "\<forall>m \<in> set ms. is_due now m" and sub: "set ms \<subseteq> set (db_outbox d)" using p by blast+
  have "map outbox_id (map2 (settle now) ms rs) = map outbox_id ms" using len by (simp add: list_eq_iff_nth_eq)
  then have dist: "distinct (map outbox_id (map2 (settle now) ms rs))" using pending_outbox_distinct[OF wf ms] by simp
  have d': "fold set_outbox (map2 (settle now) ms rs) d = d\<lparr>db_outbox := settled_outbox now ms rs (db_outbox d)\<rparr>"
    unfolding fold_set_outbox fold_put_row[OF dist] upd_rows_settled[OF len sub wf_pks(7)[OF wf]] ..
  note fl = flush_outbox[OF wf settled_outbox_rows[OF due, of "db_outbox d" rs]]
  show ?thesis using dispatch_rows_settles[OF due sent, of 0 0 d] flush_wf[OF fl] fl ms
    by (simp add: dispatch_due_def d')
qed

text \<open>
  C29. A dispatch pass over a well-formed database with a limit between 1 and 500 always commits. It
  claims the first \<open>limit\<close> due rows by creation time and id and sends them in that order; each of
  them is acknowledged at the pass's time if the queue took its message, and otherwise keeps pending
  with one more attempt, the queue's error, and a next attempt 30 to 300 seconds later. The pass
  counts both kinds, and no other row and no other table changes.
\<close>

theorem dispatch_due_settles_batch:
  assumes wf: "wf_db d" and limit: "1 \<le> limit" "limit \<le> 500"
  shows "\<exists>ms rs q'.
     ms = take (nat limit) (sort_key (\<lambda>m. (outbox_created_at m, unat (outbox_id m))) (filter (is_due now) (db_outbox d))) \<and>
     send_all enqueue ms q = (rs, q') \<and>
     dispatch_due enqueue now limit d q =
       (Inr (\<lparr>dr_claimed = length ms, dr_dispatched = accepts_of rs, dr_retry_scheduled = refusals_of rs\<rparr>,
          d\<lparr>db_outbox := settled_outbox now ms rs (db_outbox d)\<rparr>), q') \<and>
     accepts_of rs + refusals_of rs = length ms \<and> int (length ms) \<le> limit \<and>
     (\<forall>m \<in> set ms. 30 \<le> outbox_retry_seconds m \<and> outbox_retry_seconds m \<le> 300) \<and>
     wf_db (d\<lparr>db_outbox := settled_outbox now ms rs (db_outbox d)\<rparr>)"
proof -
  let ?ms = "take (nat limit) (sort_key (\<lambda>m. (outbox_created_at m, unat (outbox_id m))) (filter (is_due now) (db_outbox d)))"
  have ms: "pending_outbox now limit d = Inr ?ms"
    using limit by (simp add: pending_outbox_def MAX_DISPATCH_BATCH_SIZE_def)
  obtain rs q' where sent: "send_all enqueue ?ms q = (rs, q')" by force
  have "\<forall>m \<in> set ?ms. 30 \<le> outbox_retry_seconds m \<and> outbox_retry_seconds m \<le> 300"
  proof (intro ballI outbox_retry_bounds)
    fix m assume "m \<in> set ?ms"
    then have "m \<in> set (db_outbox d)" using pending_outbox_Inr[OF ms] by blast
    then show "0 \<le> outbox_attempts m" using wf by (auto simp: wf_db_def rows_ok_def list_all_iff outbox_checks_def)
  qed
  moreover have "accepts_of rs + refusals_of rs = length ?ms"
    using sum_length_filter_compl[of "\<lambda>r. r = None" rs] send_all_length[OF sent] by simp
  ultimately show ?thesis
    using dispatch_due_eq[OF wf ms sent] pending_outbox_Inr[OF ms] sent by (intro exI[of _ ?ms] exI[of _ rs] exI[of _ q']) blast
qed

definition waiting_job :: "uuid \<Rightarrow> string \<Rightarrow> job" where
  "waiting_job i key = \<lparr>job_id = i, job_project_id = 1, job_run_id = None, job_type = ''ingest_dataset'', job_key = key,
     job_status = Queued, job_attempts = 0, job_max_attempts = 3, job_error_class = None, job_error_code = None,
     job_error = None, job_cancel_requested_at = None, job_started_at = None, job_finished_at = None\<rparr>"

definition waiting_message :: "uuid \<Rightarrow> uuid \<Rightarrow> time \<Rightarrow> outbox" where
  "waiting_message i j t = \<lparr>outbox_id = i, outbox_job_id = j, outbox_queue = ''ingest'', outbox_payload = [(''task'', JStr ''run_ingest'')],
     outbox_status = Pending, outbox_attempts = 0, outbox_last_error = None, outbox_last_attempt_at = None,
     outbox_next_attempt_at = None, outbox_dispatched_at = None, outbox_created_at = t\<rparr>"

definition three_messages_db :: db where
  "three_messages_db = empty_db\<lparr>
     db_projects := [\<lparr>project_id = 1, project_boundary_srid = None, project_working_srid = 32637\<rparr>],
     db_jobs := [waiting_job 11 ''a'', waiting_job 12 ''b'', waiting_job 13 ''c''],
     db_outbox := [waiting_message 21 11 3, waiting_message 22 12 2, waiting_message 23 13 1]\<rparr>"

text \<open>A queue that refuses the messages of one job and notes the others.\<close>

definition refusing_queue :: "uuid \<Rightarrow> uuid list enqueuer" where
  "refusing_queue j m q = (if msg_job_id m = j then (Some (''TimeoutError'', ''queue''), q) else (None, q @ [msg_job_id m]))"

theorem dispatch_due_settles_batch_witness:
  "\<exists>res rows. dispatch_due (refusing_queue 12) 10 2 three_messages_db [] =
       (Inr (res, three_messages_db\<lparr>db_outbox := rows\<rparr>), [13]) \<and>
     dr_dispatched res = 1 \<and> dr_retry_scheduled res = 1 \<and>
     map outbox_status rows = [Pending, Pending, Dispatched] \<and> map outbox_attempts rows = [0, 1, 1] \<and>
     map outbox_next_attempt_at rows = [None, Some (10 + seconds 30), None]"
proof -
  have wf: "wf_db three_messages_db" by code_simp
  have batch: "take (nat 2) (sort_key (\<lambda>m. (outbox_created_at m, unat (outbox_id m)))
      (filter (is_due 10) (db_outbox three_messages_db))) = [waiting_message 23 13 1, waiting_message 22 12 2]" by code_simp
  have sent: "send_all (refusing_queue 12) [waiting_message 23 13 1, waiting_message 22 12 2] [] =
      ([None, Some (''TimeoutError'', ''queue'')], [13])"
    by (simp add: refusing_queue_def envelope_of_def waiting_message_def)
  have rows: "settled_outbox 10 [waiting_message 23 13 1, waiting_message 22 12 2] [None, Some (''TimeoutError'', ''queue'')]
      (db_outbox three_messages_db) = [waiting_message 21 11 3, settle 10 (waiting_message 22 12 2) (Some (''TimeoutError'', ''queue'')),
        settle 10 (waiting_message 23 13 1) None]"
    by (simp add: settled_outbox_def three_messages_db_def waiting_message_def)
  have settled: "map outbox_status ms = [Pending, Pending, Dispatched]" "map outbox_attempts ms = [0, 1, 1]"
      "map outbox_next_attempt_at ms = [None, Some (10 + seconds 30), None]"
    if "ms = [waiting_message 21 11 3, settle 10 (waiting_message 22 12 2) (Some (''TimeoutError'', ''queue'')),
        settle 10 (waiting_message 23 13 1) None]" for ms
    using that by (simp_all add: settle_def waiting_message_def outbox_retry_seconds_def)
  obtain ms rs q' where r: "ms = [waiting_message 23 13 1, waiting_message 22 12 2]" "send_all (refusing_queue 12) ms [] = (rs, q')"
     "dispatch_due (refusing_queue 12) 10 2 three_messages_db [] =
       (Inr (\<lparr>dr_claimed = length ms, dr_dispatched = accepts_of rs, dr_retry_scheduled = refusals_of rs\<rparr>,
          three_messages_db\<lparr>db_outbox := settled_outbox 10 ms rs (db_outbox three_messages_db)\<rparr>), q')"
    using dispatch_due_settles_batch[OF wf, of 2 10 "refusing_queue 12" "[]"] unfolding batch by auto
  have "rs = [None, Some (''TimeoutError'', ''queue'')]" "q' = [13]" using r(2) unfolding r(1) sent by simp_all
  from r(3)[unfolded this r(1)] settled[OF rows] show ?thesis by (intro exI conjI) (assumption | simp)+
qed

subsection \<open>At-least-once delivery\<close>

text \<open>
  The contract of the port: what the queue has accepted it keeps, and an \<open>enqueue\<close> that returns
  has put the message's key among the accepted ones (a duplicate key counts as accepted).
\<close>

locale job_enqueuer =
  fixes enqueue :: "'q enqueuer" and accepted :: "'q \<Rightarrow> string set"
  assumes accepted_mono: "enqueue m q = (r, q') \<Longrightarrow> accepted q \<subseteq> accepted q'"
    and accepts: "enqueue m q = (None, q') \<Longrightarrow> msg_key m \<in> accepted q'"

text \<open>Every row acknowledged in the database has its key in the queue.\<close>

definition acknowledged_accepted :: "('q \<Rightarrow> string set) \<Rightarrow> db \<Rightarrow> 'q \<Rightarrow> bool" where
  "acknowledged_accepted accepted d q \<longleftrightarrow>
     (\<forall>m \<in> set (db_outbox d). outbox_status m = Dispatched \<longrightarrow> enqueue_key m \<in> accepted q)"

text \<open>
  Passes of the dispatcher process: each scans at a time with a limit, and may crash after the
  queue calls and before the commit, which leaves the database as it was.
\<close>

fun dispatch_passes :: "'q enqueuer \<Rightarrow> (time \<times> int \<times> bool) list \<Rightarrow> db \<Rightarrow> 'q \<Rightarrow> db \<times> 'q" where
  "dispatch_passes enqueue [] d q = (d, q)"
| "dispatch_passes enqueue ((now, limit, crash) # ps) d q =
     (case dispatch_due enqueue now limit d q of
        (Inl e, q') \<Rightarrow> dispatch_passes enqueue ps d q'
      | (Inr (res, d'), q') \<Rightarrow> dispatch_passes enqueue ps (if crash then d else d') q')"

context job_enqueuer
begin

lemma dispatch_message_accepted:
  assumes "dispatch_outbox_message enqueue now delay m q = (r, q')"
  shows "accepted q \<subseteq> accepted q' \<and> (\<forall>outcome m'. r = Inr (outcome, m') \<longrightarrow> outbox_status m \<noteq> Dispatched \<longrightarrow>
     outbox_status m' = Dispatched \<longrightarrow> enqueue_key m' \<in> accepted q')"
proof (cases "delay \<le> 0 \<or> outbox_status m = Dispatched \<or> \<not> is_due now m")
  case True
  with assms show ?thesis by (auto simp: dispatch_outbox_message_def split: if_splits)
next
  case False
  obtain e q1 where e: "enqueue (envelope_of m) q = (e, q1)" by force
  have q: "q' = q1" using assms e False by (auto simp: dispatch_outbox_message_def split: option.splits)
  have pend: "outbox_status m = Pending" using False by (cases "outbox_status m") auto
  show ?thesis
  proof (cases e)
    case None
    then have "msg_key (envelope_of m) \<in> accepted q1" using e accepts by blast
    with e None False assms q accepted_mono[OF e] show ?thesis
      by (auto simp: dispatch_outbox_message_def envelope_of_def mark_dispatched_def enqueue_key_def pend)
  next
    case (Some nt)
    obtain nm tx where "nt = (nm, tx)" by force
    with e Some False assms q accepted_mono[OF e] show ?thesis
      by (auto simp: dispatch_outbox_message_def bindE_Inr_iff record_delivery_failure_def pend Let_def split: if_splits)
  qed
qed

lemma dispatch_rows_accepted:
  assumes "dispatch_rows enqueue now ms a b d q = (Inr (a', b', d'), q')"
    and "acknowledged_accepted accepted d q" and "\<forall>m \<in> set ms. outbox_status m \<noteq> Dispatched"
  shows "accepted q \<subseteq> accepted q' \<and> acknowledged_accepted accepted d' q'"
  using assms
proof (induction ms arbitrary: a b d q)
  case (Cons m ms)
  obtain r q1 where r: "dispatch_outbox_message enqueue now (seconds (outbox_retry_seconds m)) m q = (r, q1)" by force
  obtain outcome m' where ok: "r = Inr (outcome, m')" using Cons.prems(1) r by (cases r) auto
  note acc = dispatch_message_accepted[OF r]
  have "acknowledged_accepted accepted (set_outbox m' d) q1"
    using Cons.prems(2,3) acc ok by (auto simp: acknowledged_accepted_def dest!: put_row_set)
  moreover have "dispatch_rows enqueue now ms (if outcome = DISPATCHED then a + 1 else a)
      (if outcome = RETRY_SCHEDULED then b + 1 else b) (set_outbox m' d) q1 = (Inr (a', b', d'), q')"
    using Cons.prems(1) r ok by simp
  ultimately have "accepted q1 \<subseteq> accepted q' \<and> acknowledged_accepted accepted d' q'"
    using Cons.IH Cons.prems(3) by simp
  with acc show ?case by blast
qed simp

lemma dispatch_rows_mono: "dispatch_rows enqueue now ms a b d q = (r, q') \<Longrightarrow> accepted q \<subseteq> accepted q'"
proof (induction ms arbitrary: a b d q)
  case (Cons m ms)
  obtain r1 q1 where r: "dispatch_outbox_message enqueue now (seconds (outbox_retry_seconds m)) m q = (r1, q1)" by force
  then have "accepted q \<subseteq> accepted q1" using dispatch_message_accepted by blast
  moreover have "accepted q1 \<subseteq> accepted q'"
    using Cons r by (cases r1) (auto simp: split_beta)
  ultimately show ?case by blast
qed auto

lemma acknowledged_mono: "acknowledged_accepted accepted d q \<Longrightarrow> accepted q \<subseteq> accepted q' \<Longrightarrow> acknowledged_accepted accepted d q'"
  by (auto simp: acknowledged_accepted_def)

lemma dispatch_due_accepted:
  assumes "dispatch_due enqueue now limit d q = (r, q')" and "acknowledged_accepted accepted d q"
  shows "acknowledged_accepted accepted d q' \<and> (\<forall>res d'. r = Inr (res, d') \<longrightarrow> acknowledged_accepted accepted d' q')"
proof (cases "pending_outbox now limit d")
  case (Inl e)
  with assms show ?thesis by (auto simp: dispatch_due_def)
next
  case (Inr ms)
  obtain r1 q1 where run: "dispatch_rows enqueue now ms 0 0 d q = (r1, q1)" by force
  with assms(1) Inr have q: "q' = q1" by (auto simp: dispatch_due_def split: sum.splits)
  have due: "\<forall>m \<in> set ms. outbox_status m \<noteq> Dispatched"
    using pending_outbox_Inr[OF Inr] by (auto simp: is_due_def)
  have 1: "acknowledged_accepted accepted d q'"
    using assms(2) dispatch_rows_mono[OF run] acknowledged_mono q by blast
  moreover have "acknowledged_accepted accepted d' q'" if res: "r = Inr (res, d')" for res d'
  proof -
    obtain a b d1 where r1: "r1 = Inr (a, b, d1)" and "flush d d1 = Inr d'"
      using res assms(1) Inr run by (cases r1) (auto simp: dispatch_due_def bindE_Inr_iff)
    then have "d' = d1" using flush_wf by blast
    with dispatch_rows_accepted[OF run[unfolded r1] assms(2) due] q show ?thesis by simp
  qed
  ultimately show ?thesis by blast
qed

lemma dispatch_passes_accepted:
  "acknowledged_accepted accepted d q \<Longrightarrow> dispatch_passes enqueue ps d q = (d', q') \<Longrightarrow> acknowledged_accepted accepted d' q'"
proof (induction ps arbitrary: d q)
  case (Cons p ps)
  obtain now limit crash where p: "p = (now, limit, crash)" by (cases p) auto
  obtain r q1 where r: "dispatch_due enqueue now limit d q = (r, q1)" by force
  show ?case
  proof (cases r)
    case (Inl e)
    with Cons r p dispatch_due_accepted[OF r Cons.prems(1)] show ?thesis by auto
  next
    case (Inr v)
    obtain res d1 where "v = (res, d1)" by force
    with Inr Cons.IH[of "if crash then d else d1" q1] Cons.prems r p dispatch_due_accepted[OF r Cons.prems(1)]
    show ?thesis by (auto split: if_splits)
  qed
qed simp

end

text \<open>An ARQ client whose queue keeps the job ids it accepted gives the contract to the adapter.\<close>

locale arq_client =
  fixes enqueue_job :: "string \<Rightarrow> string list \<Rightarrow> string \<Rightarrow> string \<Rightarrow> 'q \<Rightarrow> (string \<times> string) option \<times> 'q"
    and queued_ids :: "'q \<Rightarrow> string set" and parse_uuid :: "string \<Rightarrow> uuid option"
  assumes queued_mono: "enqueue_job f args i queue q = (r, q') \<Longrightarrow> queued_ids q \<subseteq> queued_ids q'"
    and queued: "enqueue_job f args i queue q = (None, q') \<Longrightarrow> i \<in> queued_ids q'"

lemma arq_enqueue_cases:
  assumes "arq_enqueue parse enqueue_job m q = (r, q')"
  shows "(r \<noteq> None \<and> q' = q) \<or> (\<exists>f args queue. enqueue_job f args (msg_key m) queue q = (r, q'))"
  using assms by (auto simp: arq_enqueue_def split: sum.splits exc.splits)

sublocale arq_client \<subseteq> enq: job_enqueuer "arq_enqueue parse_uuid enqueue_job" queued_ids
  by unfold_locales (blast dest: arq_enqueue_cases queued_mono queued)+

text \<open>
  A reference client for the interpretation: a list of accepted tasks, a repeated job id being
  accepted without a second entry, which is ARQ's documented behaviour for \<open>_job_id\<close>.
\<close>

type_synonym arq_queue = "(string \<times> string \<times> string \<times> string list) list"

definition list_enqueue_job ::
  "string \<Rightarrow> string list \<Rightarrow> string \<Rightarrow> string \<Rightarrow> arq_queue \<Rightarrow> (string \<times> string) option \<times> arq_queue" where
  "list_enqueue_job f args i queue q = (None, if i \<in> set (map fst q) then q else q @ [(i, queue, f, args)])"

definition queued_ids :: "arq_queue \<Rightarrow> string set" where
  "queued_ids q = set (map fst q)"

definition canonical_uuid :: "string \<Rightarrow> uuid option" where
  "canonical_uuid s = (if s = uuid_str 1 then Some 1 else None)"

interpretation list_arq: arq_client list_enqueue_job queued_ids canonical_uuid
  by unfold_locales (auto simp: list_enqueue_job_def queued_ids_def split: if_splits)

text \<open>
  C11. Delivery is at least once: over any sequence of dispatch passes, including passes that crash
  between the queue calls and the commit and passes whose queue calls fail, every outbox row the
  database calls dispatched has been accepted by the queue under its stable key.
\<close>

theorem dispatched_rows_were_accepted:
  assumes "job_enqueuer enqueue accepted" and "acknowledged_accepted accepted d q"
    and "dispatch_passes enqueue ps d q = (d', q')"
  shows "acknowledged_accepted accepted d' q'"
  using job_enqueuer.dispatch_passes_accepted[OF assms] .

definition pending_generation :: outbox where
  "pending_generation = \<lparr>outbox_id = 5, outbox_job_id = 1, outbox_queue = ''generation'',
     outbox_payload = [(''task'', JStr ''run_generation''), (''run_id'', JStr (uuid_str 1))],
     outbox_status = Pending, outbox_attempts = 0, outbox_last_error = None, outbox_last_attempt_at = None,
     outbox_next_attempt_at = None, outbox_dispatched_at = None, outbox_created_at = 0\<rparr>"

theorem dispatched_rows_were_accepted_witness:
  "acknowledged_accepted queued_ids
     (fst (dispatch_passes (arq_enqueue canonical_uuid list_enqueue_job) [(0, 25, True), (1, 25, False)]
        (empty_db\<lparr>db_outbox := [pending_generation]\<rparr>) []))
     (snd (dispatch_passes (arq_enqueue canonical_uuid list_enqueue_job) [(0, 25, True), (1, 25, False)]
        (empty_db\<lparr>db_outbox := [pending_generation]\<rparr>) []))"
proof -
  let ?d = "empty_db\<lparr>db_outbox := [pending_generation]\<rparr>"
  have 1: "job_enqueuer (arq_enqueue canonical_uuid list_enqueue_job) queued_ids"
    by unfold_locales (fact list_arq.enq.accepted_mono, fact list_arq.enq.accepts)
  have 2: "acknowledged_accepted queued_ids ?d []"
    by (simp add: acknowledged_accepted_def pending_generation_def)
  show ?thesis by (rule dispatched_rows_were_accepted[OF 1 2]) (rule surjective_pairing)
qed

end
