(* ===== verification/Float_Facts.thy ===== *)
theory Float_Facts
  imports Floats
begin

text \<open>
  Order facts of binary64 rounding: a number with a 53-bit significand is its own rounding, every
  rounding is such a number, and rounding keeps the order of non-negative numbers.
\<close>

definition representable :: "rat \<Rightarrow> bool" where
  "representable x \<longleftrightarrow> (\<exists>m s. x = of_int m * 2 powi s \<and> \<bar>m\<bar> \<le> 2 ^ 53 \<and> - 1074 \<le> s)"

definition fl_scale :: "rat \<Rightarrow> int" where
  "fl_scale x = max (scale_of 2 53 \<bar>x\<bar>) (- 1074)"

lemma fl_eq: "0 < x \<Longrightarrow> fl x = of_int (round_even (x / 2 powi fl_scale x)) * 2 powi fl_scale x"
  by (simp add: fl_def round_at_def fl_scale_def)

lemma fl_scale_upper: "0 < x \<Longrightarrow> x < 2 powi (fl_scale x + 53)"
proof -
  assume x: "0 < x"
  have "x < 2 powi (scale_of 2 53 x + 53)" using scale_of_range[of 2 x 53] x by simp
  also have "\<dots> \<le> 2 powi (fl_scale x + 53)" using x by (intro power_int_increasing) (auto simp: fl_scale_def)
  finally show ?thesis .
qed

lemma fl_scale_lower: "0 < x \<Longrightarrow> - 1074 < fl_scale x \<Longrightarrow> 2 powi (fl_scale x + 52) \<le> x"
  using scale_of_range[of 2 x 53] by (auto simp: fl_scale_def max_def add.commute split: if_splits)

lemma round_even_mono: "x \<le> y \<Longrightarrow> round_even x \<le> round_even y"
proof -
  assume xy: "x \<le> y"
  then have f: "\<lfloor>x\<rfloor> \<le> \<lfloor>y\<rfloor>" by (rule floor_mono)
  show ?thesis
  proof (cases "\<lfloor>x\<rfloor> = \<lfloor>y\<rfloor>")
    case True
    then show ?thesis using xy by (auto simp: round_even_def Let_def)
  next
    case False
    then show ?thesis using f by (auto simp: round_even_def Let_def)
  qed
qed

lemma round_even_le: "x \<le> of_int n \<Longrightarrow> round_even x \<le> n"
  using round_even_mono[of x "of_int n"] by simp

lemma round_even_ge: "of_int n \<le> x \<Longrightarrow> n \<le> round_even x"
  using round_even_mono[of "of_int n" x] by simp

lemma powi_shift: "t \<le> s \<Longrightarrow> of_int m * 2 powi s = of_int (m * 2 ^ nat (s - t)) * (2 :: rat) powi t"
  by (simp add: mult.assoc flip: power_int_of_nat power_int_add)

lemma representable_powi: "- 1074 \<le> s \<Longrightarrow> representable (2 powi s)"
  unfolding representable_def by (intro exI[of _ 1] exI[of _ s]) auto

lemma representable_bound: "(x :: rat) = of_int m * 2 powi s \<Longrightarrow> \<bar>m\<bar> \<le> 2 ^ 53 \<Longrightarrow> x \<le> 2 powi (s + 53)"
proof -
  assume x: "x = of_int m * 2 powi s" and m: "\<bar>m\<bar> \<le> 2 ^ 53"
  from m have "m \<le> 2 ^ 53" by simp
  then have "(of_int m :: rat) \<le> of_int (2 ^ 53)" unfolding of_int_le_iff .
  then have "of_int m * 2 powi s \<le> (2 ^ 53) * (2 :: rat) powi s" by (intro mult_right_mono) simp_all
  also have "\<dots> = 2 powi (s + 53)" by (simp add: power_int_add)
  finally show ?thesis using x by simp
qed

lemma fl_ge:
  assumes "representable x" "x \<le> y" "0 < y"
  shows "x \<le> fl y"
proof -
  let ?s = "fl_scale y" and ?u = "(2 :: rat) powi fl_scale y"
  have multiple: "of_int n * ?u \<le> fl y" if "of_int n * ?u \<le> y" for n
  proof -
    from that have "of_int n \<le> y / ?u" by (simp add: field_simps)
    then have "(of_int n :: rat) \<le> of_int (round_even (y / ?u))" unfolding of_int_le_iff by (rule round_even_ge)
    then show ?thesis using assms(3) by (simp add: fl_eq)
  qed
  obtain m t where x: "x = of_int m * 2 powi t" "\<bar>m\<bar> \<le> 2 ^ 53" "- 1074 \<le> t"
    using assms(1) by (auto simp: representable_def)
  show ?thesis
  proof (cases "?s \<le> t")
    case True
    from powi_shift[OF this, of m] multiple assms(2) show ?thesis by (metis x(1))
  next
    case False
    have "x \<le> 2 powi (t + 53)" using representable_bound x by blast
    also have "\<dots> \<le> 2 powi (?s + 52)" using False by (intro power_int_increasing) auto
    also have "\<dots> \<le> fl y"
    proof -
      have e: "2 powi (?s + 52) = of_int (2 ^ 52) * ?u" by (simp add: power_int_add)
      have "2 powi (?s + 52) \<le> y" using False x(3) assms(3) by (intro fl_scale_lower) auto
      then show ?thesis unfolding e by (rule multiple)
    qed
    finally show ?thesis .
  qed
qed

lemma fl_le:
  assumes "representable x" "y \<le> x" "0 \<le> y"
  shows "fl y \<le> x"
proof (cases "y = 0")
  case False
  with assms(3) have y: "0 < y" by simp
  let ?s = "fl_scale y" and ?u = "(2 :: rat) powi fl_scale y"
  have multiple: "fl y \<le> of_int n * ?u" if "y \<le> of_int n * ?u" for n
  proof -
    from that have "y / ?u \<le> of_int n" by (simp add: field_simps)
    then have "(of_int (round_even (y / ?u)) :: rat) \<le> of_int n" unfolding of_int_le_iff by (rule round_even_le)
    then show ?thesis using y by (simp add: fl_eq)
  qed
  obtain m t where x: "x = of_int m * 2 powi t" "\<bar>m\<bar> \<le> 2 ^ 53" "- 1074 \<le> t"
    using assms(1) by (auto simp: representable_def)
  show ?thesis
  proof (cases "?s \<le> t")
    case True
    from powi_shift[OF this, of m] multiple assms(2) show ?thesis by (metis x(1))
  next
    case False
    have "x \<le> 2 powi (t + 53)" using representable_bound x by blast
    also have "\<dots> \<le> 2 powi (?s + 52)" using False by (intro power_int_increasing) auto
    finally have xs: "x \<le> 2 powi (?s + 52)" .
    have e: "2 powi (?s + 52) = of_int (2 ^ 52) * ?u" by (simp add: power_int_add)
    have "2 powi (?s + 52) \<le> y" using False x(3) y by (intro fl_scale_lower) auto
    with xs assms(2) have "x = 2 powi (?s + 52)" by simp
    with assms(2) multiple show ?thesis unfolding e by blast
  qed
qed (use assms in auto)

lemma representable_0 [simp]: "representable 0"
  unfolding representable_def by (intro exI[of _ 0] exI[of _ 0]) simp

lemma representable_1 [simp]: "representable 1"
  using representable_powi[of 0] by simp

lemma representable_fl: "0 \<le> x \<Longrightarrow> representable (fl x)"
proof (cases "x = 0")
  case False
  assume "0 \<le> x"
  with False have x: "0 < x" by simp
  let ?s = "fl_scale x"
  have "x < 2 powi ?s * 2 ^ 53" using fl_scale_upper[OF x] by (simp add: power_int_add)
  then have "x / 2 powi ?s \<le> of_int (2 ^ 53)" by (simp add: field_simps)
  then have "round_even (x / 2 powi ?s) \<le> 2 ^ 53" by (rule round_even_le)
  moreover have "0 \<le> round_even (x / 2 powi ?s)" using x by (intro round_even_nonneg) simp
  ultimately show ?thesis unfolding representable_def fl_eq[OF x]
    by (intro exI[of _ "round_even (x / 2 powi ?s)"] exI[of _ ?s]) (simp add: fl_scale_def)
qed simp

lemma fl_representable: "representable x \<Longrightarrow> 0 \<le> x \<Longrightarrow> fl x = x"
  using fl_le[of x x] fl_ge[of x x] by (cases "x = 0") auto

lemma fl_idem: "0 \<le> x \<Longrightarrow> fl (fl x) = fl x"
  by (simp add: fl_representable representable_fl fl_nonneg)

lemma fl_mono: "0 \<le> x \<Longrightarrow> x \<le> y \<Longrightarrow> fl x \<le> fl y"
proof (cases "x = 0 \<or> fl_scale x = fl_scale y")
  case True
  assume "0 \<le> x" "x \<le> y"
  then show ?thesis using True
    by (cases "x = 0") (auto simp: fl_nonneg fl_eq round_even_mono divide_right_mono)
next
  case False
  assume "0 \<le> x" and xy: "x \<le> y"
  with False have x: "0 < x" and y: "0 < y" and ne: "fl_scale x \<noteq> fl_scale y" by auto
  have "2 powi (scale_of 2 53 x + 53 - 1) < (2 :: rat) powi (scale_of 2 53 y + 53)"
    using scale_of_range[of 2 x 53] scale_of_range[of 2 y 53] x y xy by simp
  then have "scale_of 2 53 x \<le> scale_of 2 53 y"
    using power_int_increasing[of "scale_of 2 53 y + 53" "scale_of 2 53 x + 53 - 1" "2 :: rat"] by linarith
  with ne x y have less: "fl_scale x < fl_scale y" by (auto simp: fl_scale_def)
  then have s: "- 1074 < fl_scale y" by (auto simp: fl_scale_def)
  let ?p = "(2 :: rat) powi (fl_scale y + 52)"
  have "x < 2 powi (fl_scale x + 53)" using x by (rule fl_scale_upper)
  also have "\<dots> \<le> ?p" using less by (intro power_int_increasing) auto
  finally have "fl x \<le> ?p" using x s by (intro fl_le representable_powi) auto
  also have "?p \<le> fl y" using fl_scale_lower[OF y s] y s by (intro fl_ge representable_powi) auto
  finally show ?thesis .
qed

lemma fl_le_1: "0 \<le> x \<Longrightarrow> x \<le> 1 \<Longrightarrow> fl x \<le> 1"
  by (rule fl_le) auto

text \<open>The product of a float with a ratio does not exceed the float.\<close>

lemma fl_mult_ratio: "representable x \<Longrightarrow> 0 \<le> x \<Longrightarrow> 0 \<le> r \<Longrightarrow> r \<le> 1 \<Longrightarrow> fl (x * r) \<le> x"
  by (rule fl_le) (auto intro: mult_left_le)

end
