(* ===== verification/Core_Values.thy ===== *)
theory Core_Values
  imports Float_Facts Json_Text
begin

text \<open>
  What the numeric core's value types share: the exceptions of its modules, the numbers a caller
  passes (\<open>int | float\<close>) and their checks, and order facts of the rounding.
  A value of type \<open>rat\<close> in the modules is a float that was already converted.
\<close>

datatype core_exc =
    DemographicScenarioError string
  | ResidentialCapacityError string
  | PopulationAllocationError string
  | AgeGroupAllocationError string
  | EmploymentEstimateError string
  | DemographicAggregationError string
  | DemographyMetricsError string
  | DemographicDemandProfileError string
  | BuildingAttributeAssignmentError string
  | BuildingAreaMetricsError string
  | CRSContractError string
  | InfrastructureTypeError string
  | ExistingInfrastructureError string
  | UnmetDemandError string
  | InfrastructureFeasibilityError string
  | InfrastructureNetworkSnapError string
  | InfrastructureAccessibilityError string
  | InfrastructurePlacementError string
  | OverflowError string

subsection \<open>Sequences of checks\<close>

definition require :: "bool \<Rightarrow> 'e \<Rightarrow> 'e + unit" where
  "require b e = (if b then Inr () else Inl e)"

text \<open>The first check that fails raises.\<close>

fun checks :: "('e + unit) list \<Rightarrow> 'e + unit" where
  "checks [] = Inr ()"
| "checks (m # ms) = bindE m (\<lambda>_. checks ms)"

lemma require_Inr [simp]: "require b e = Inr u \<longleftrightarrow> b"
  by (simp add: require_def)

lemma checks_Inr [simp]: "checks ms = Inr u \<longleftrightarrow> list_all (\<lambda>m. m = Inr ()) ms"
  by (induction ms) (auto simp: bindE_Inr_iff)

declare checks.simps [simp del]

lemma bind_checks [simp]:
  assumes "list_all (\<lambda>m. m = Inr ()) ms"
  shows "bindE (checks ms) f = f ()"
  unfolding iffD2[OF checks_Inr[of ms "()"] assms] by simp

subsection \<open>Numbers\<close>

text \<open>A number of the caller: an \<open>int\<close>, a finite float, or NaN or an infinity.\<close>

datatype number = PyInt int | PyFloat rat | PyNonFinite

text \<open>\<open>float(value)\<close>; a non-finite number is \<open>None\<close>.\<close>

definition to_float :: "number \<Rightarrow> core_exc + rat option" where
  "to_float v = (case v of
     PyInt n \<Rightarrow> if is_finite (fl (of_int n)) then Inr (Some (fl (of_int n)))
       else Inl (OverflowError ''int too large to convert to float'')
   | PyFloat x \<Rightarrow> Inr (if is_finite x then Some x else None)
   | PyNonFinite \<Rightarrow> Inr None)"

definition require_finite_number :: "(string \<Rightarrow> core_exc) \<Rightarrow> string \<Rightarrow> number \<Rightarrow> core_exc + rat" where
  "require_finite_number err field v = bindE (to_float v) (\<lambda>number.
     case number of None \<Rightarrow> Inl (err (field @ '' must be a finite number'')) | Some x \<Rightarrow> Inr x)"

definition require_positive_finite :: "(string \<Rightarrow> core_exc) \<Rightarrow> string \<Rightarrow> number \<Rightarrow> core_exc + rat" where
  "require_positive_finite err field v = bindE (require_finite_number err field v) (\<lambda>x.
     if x \<le> 0 then Inl (err (field @ '' must be greater than zero'')) else Inr x)"

definition require_ratio :: "(string \<Rightarrow> core_exc) \<Rightarrow> string \<Rightarrow> number \<Rightarrow> core_exc + rat" where
  "require_ratio err field v = bindE (require_finite_number err field v) (\<lambda>x.
     if x < 0 \<or> 1 < x then Inl (err (field @ '' must be inside 0..1'')) else Inr x)"

text \<open>The checks of a number that is a float already, and of an integer.\<close>

definition check_non_negative_finite :: "(string \<Rightarrow> core_exc) \<Rightarrow> string \<Rightarrow> rat \<Rightarrow> core_exc + unit" where
  "check_non_negative_finite err field x =
     (if \<not> is_finite x \<or> x < 0 then Inl (err (field @ '' must be a finite non-negative number'')) else Inr ())"

definition check_positive_finite :: "(string \<Rightarrow> core_exc) \<Rightarrow> string \<Rightarrow> rat \<Rightarrow> core_exc + unit" where
  "check_positive_finite err field x = bindE (check_non_negative_finite err field x) (\<lambda>_.
     if x \<le> 0 then Inl (err (field @ '' must be greater than zero'')) else Inr ())"

definition check_ratio :: "(string \<Rightarrow> core_exc) \<Rightarrow> string \<Rightarrow> rat \<Rightarrow> core_exc + unit" where
  "check_ratio err field x = bindE (check_non_negative_finite err field x) (\<lambda>_.
     if 1 < x then Inl (err (field @ '' must be inside 0..1'')) else Inr ())"

definition check_non_negative_int :: "(string \<Rightarrow> core_exc) \<Rightarrow> string \<Rightarrow> int \<Rightarrow> core_exc + unit" where
  "check_non_negative_int err field n =
     (if n < 0 then Inl (err (field @ '' must be a non-negative integer'')) else Inr ())"

definition check_positive_int :: "(string \<Rightarrow> core_exc) \<Rightarrow> string \<Rightarrow> int \<Rightarrow> core_exc + unit" where
  "check_positive_int err field n =
     (if n \<le> 0 then Inl (err (field @ '' must be a positive integer'')) else Inr ())"

lemma check_Inr [simp]:
  "check_non_negative_finite err field x = Inr u \<longleftrightarrow> is_finite x \<and> 0 \<le> x"
  "check_positive_finite err field x = Inr u \<longleftrightarrow> is_finite x \<and> 0 < x"
  "check_ratio err field x = Inr u \<longleftrightarrow> is_finite x \<and> 0 \<le> x \<and> x \<le> 1"
  "check_non_negative_int err field n = Inr u \<longleftrightarrow> 0 \<le> n"
  "check_positive_int err field n = Inr u \<longleftrightarrow> 0 < n"
  by (auto simp: check_non_negative_finite_def check_positive_finite_def check_ratio_def
      check_non_negative_int_def check_positive_int_def bindE_Inr_iff split: if_splits)

lemma require_finite_number_Inr: "require_finite_number err field v = Inr x \<Longrightarrow> is_finite x"
  by (auto simp: require_finite_number_def to_float_def bindE_Inr_iff split: number.splits if_splits option.splits)

lemma require_positive_finite_Inr: "require_positive_finite err field v = Inr x \<Longrightarrow> is_finite x \<and> 0 < x"
  by (auto simp: require_positive_finite_def bindE_Inr_iff dest: require_finite_number_Inr split: if_splits)

lemma require_ratio_Inr: "require_ratio err field v = Inr x \<Longrightarrow> 0 \<le> x \<and> x \<le> 1"
  by (auto simp: require_ratio_def bindE_Inr_iff split: if_splits)

text \<open>\<open>_require_id\<close> of the later modules: not blank, and on one line.\<close>

definition check_id :: "(string \<Rightarrow> core_exc) \<Rightarrow> string \<Rightarrow> string \<Rightarrow> core_exc + unit" where
  "check_id err field value = checks [
     require (\<not> blank value) (err (field @ '' must be a non-empty string'')),
     require (CHR 0x0A \<notin> set value \<and> CHR 0x0D \<notin> set value) (err (field @ '' must not contain line breaks''))]"

lemma check_id_Inr [simp]:
  "check_id err field v = Inr u \<longleftrightarrow> \<not> blank v \<and> CHR 0x0A \<notin> set v \<and> CHR 0x0D \<notin> set v"
  by (simp add: check_id_def)

text \<open>The version tokens: \<open>^[A-Za-z0-9][A-Za-z0-9._-]{0,63}$\<close>.\<close>

definition alnum_char :: "char \<Rightarrow> bool" where
  "alnum_char c = (is_upper_az c \<or> is_lower_az c \<or> is_digit09 c)"

definition version_re :: "string \<Rightarrow> bool" where
  "version_re = token_match alnum_char (\<lambda>c. alnum_char c \<or> c \<in> set ''._-'') 63"

lemma version_re_Nil [simp]: "\<not> version_re []"
  by (simp add: version_re_def token_match_def)

text \<open>A tuple that must be sorted and without repetition.\<close>

definition sorted_unique :: "'a::linorder list \<Rightarrow> bool" where
  "sorted_unique xs = (sorted xs \<and> distinct xs)"

text \<open>A lowercase SHA-256 hex digest, the form every result requires of a fingerprint.\<close>

definition hex_digest :: "string \<Rightarrow> bool" where
  "hex_digest s = exact_match is_lower_hex 64 s"

text \<open>
  \<open>math.fsum\<close>: the exact sum, rounded once; \<open>fsumE\<close> raises when the sum of non-negative numbers
  overflows (a sum of ratios cannot).
\<close>

definition fsum :: "rat list \<Rightarrow> rat" where
  "fsum xs = fl (sum_list xs)"

definition fsumE :: "rat list \<Rightarrow> core_exc + rat" where
  "fsumE xs = (if is_finite (fsum xs) then Inr (fsum xs) else Inl (OverflowError ''intermediate overflow in fsum''))"

text \<open>An integer operand of a float operation is converted first.\<close>

definition int_float :: "int \<Rightarrow> core_exc + rat" where
  "int_float n = (if is_finite (fl (of_int n)) then Inr (fl (of_int n))
     else Inl (OverflowError ''int too large to convert to float''))"

definition int_times :: "int \<Rightarrow> rat \<Rightarrow> core_exc + rat" where
  "int_times n x = bindE (int_float n) (\<lambda>f. Inr (fl (f * x)))"

text \<open>A check of a value that is computed first.\<close>

definition check_on :: "core_exc + 'a \<Rightarrow> ('a \<Rightarrow> bool) \<Rightarrow> core_exc \<Rightarrow> core_exc + unit" where
  "check_on m P e = bindE m (\<lambda>x. require (P x) e)"

lemma check_on_Inr [simp]: "check_on m P e = Inr u \<longleftrightarrow> (\<exists>x. m = Inr x \<and> P x)"
  by (simp add: check_on_def bindE_Inr_iff)

lemma fsumE_Inr [simp]: "fsumE xs = Inr y \<longleftrightarrow> is_finite (fsum xs) \<and> y = fsum xs"
  by (auto simp: fsumE_def)

lemma int_times_Inr: "int_times n x = Inr y \<longleftrightarrow> is_finite (fl (of_int n)) \<and> y = fl (fl (of_int n) * x)"
  by (auto simp: int_times_def int_float_def bindE_Inr_iff)

end
