(* ===== verification/Demography_Config.thy ===== *)
theory Demography_Config
  imports Core_Values Urban_Prelude "HOL-Library.Product_Lexorder"
begin

text \<open>
  \<open>core/urban_generator/demography/config.py\<close>: the population target, the age groups and the
  demographic scenario, with every check of their constructors, the canonical order of the groups and
  the fingerprint. \<open>isinstance\<close> checks are the types. A message that prints a float with a format
  is carried without the printed number.
\<close>

subsection \<open>Values\<close>

datatype population_target_kind = TOTAL_POPULATION | GROWTH_RATE

fun target_kind_value :: "population_target_kind \<Rightarrow> string" where
  "target_kind_value TOTAL_POPULATION = ''total_population''"
| "target_kind_value GROWTH_RATE = ''growth_rate''"

datatype population_target = TotalPopulation int | GrowthRate rat

definition make_population_target :: "population_target_kind \<Rightarrow> number \<Rightarrow> core_exc + population_target" where
  "make_population_target kind v = (case kind of
     TOTAL_POPULATION \<Rightarrow> (case v of
         PyInt n \<Rightarrow> if n < 0 then Inl (DemographicScenarioError ''total population target must be a non-negative integer'')
           else Inr (TotalPopulation n)
       | _ \<Rightarrow> Inl (DemographicScenarioError ''total population target must be a non-negative integer''))
   | GROWTH_RATE \<Rightarrow> bindE (require_finite_number DemographicScenarioError ''growth_rate'' v) (\<lambda>x.
       if x \<le> - 1 then Inl (DemographicScenarioError ''growth_rate must be greater than -1.0'') else Inr (GrowthRate x)))"

record age_share =
  share_code :: string
  share_min :: int
  share_max :: "int option"
  share_value :: rat

definition age_group_code_re :: "string \<Rightarrow> bool" where
  "age_group_code_re = token_match alnum_char (\<lambda>c. alnum_char c \<or> c \<in> set ''._+-'') 63"

definition make_age_share :: "string \<Rightarrow> int \<Rightarrow> int option \<Rightarrow> number \<Rightarrow> core_exc + age_share" where
  "make_age_share code min_age max_age v =
     (if \<not> age_group_code_re code then Inl (DemographicScenarioError (''invalid age group code: '' @ py_repr code))
      else bindE (check_non_negative_int DemographicScenarioError ''min_age'' min_age) (\<lambda>_.
      bindE (case max_age of None \<Rightarrow> Inr () | Some m \<Rightarrow>
          bindE (check_non_negative_int DemographicScenarioError ''max_age'' m) (\<lambda>_.
          if m < min_age then Inl (DemographicScenarioError ''max_age must be >= min_age'') else Inr ())) (\<lambda>_.
      bindE (require_finite_number DemographicScenarioError ''age group share'' v) (\<lambda>share.
      if share < 0 \<or> 1 < share then Inl (DemographicScenarioError ''age group share must be inside 0..1'')
      else Inr \<lparr>share_code = code, share_min = min_age, share_max = max_age, share_value = share\<rparr>))))"

record scenario =
  scn_version :: string
  scn_target :: population_target
  scn_occupancy :: rat
  scn_area_per_person :: rat
  scn_household_size :: rat
  scn_gfa_share :: rat
  scn_groups :: "age_share list"
  scn_working_ratio :: rat

text \<open>The sort key: an open interval counts as ending at infinity.\<close>

definition group_key :: "age_share \<Rightarrow> int \<times> (int \<times> int) \<times> string" where
  "group_key g = (share_min g, (case share_max g of None \<Rightarrow> (1, 0) | Some m \<Rightarrow> (0, m)), share_code g)"

text \<open>The loop of \<open>_validate_age_partition\<close> after its first group, from the previous maximum.\<close>

fun partition_loop :: "int option \<Rightarrow> age_share list \<Rightarrow> core_exc + int option" where
  "partition_loop previous_max [] = Inr previous_max"
| "partition_loop previous_max (g # gs) = (case previous_max of
     None \<Rightarrow> Inl (DemographicScenarioError ''open-ended age group must be the final age group'')
   | Some m \<Rightarrow> if share_min g \<noteq> m + 1
       then Inl (DemographicScenarioError ''age groups must form a contiguous non-overlapping partition'')
       else partition_loop (share_max g) gs)"

definition validate_age_partition :: "age_share list \<Rightarrow> core_exc + unit" where
  "validate_age_partition groups =
     (if share_min (hd groups) \<noteq> 0 then Inl (DemographicScenarioError ''age group partition must start at age 0'')
      else bindE (partition_loop (share_max (hd groups)) (tl groups)) (\<lambda>_.
      if share_max (last groups) \<noteq> None
      then Inl (DemographicScenarioError ''final age group must be open-ended with max_age=None'')
      else Inr ()))"

definition SHARE_SUM_TOLERANCE :: rat where
  "SHARE_SUM_TOLERANCE = fl (1 / 10 ^ 9)"

lemma SHARE_SUM_TOLERANCE_le: "SHARE_SUM_TOLERANCE \<le> 1 / 2"
  unfolding SHARE_SUM_TOLERANCE_def
  by (rule fl_le) (auto simp: power_int_minus inverse_eq_divide intro: representable_powi[of "- 1", simplified])

definition make_scenario ::
  "string \<Rightarrow> population_target \<Rightarrow> number \<Rightarrow> number \<Rightarrow> number \<Rightarrow> number \<Rightarrow> age_share list \<Rightarrow> number \<Rightarrow>
   core_exc + scenario" where
  "make_scenario version target occupancy_ratio area_per_person household_size gfa_share age_groups working_ratio =
     (if \<not> version_re version then Inl (DemographicScenarioError (''invalid demographic scenario version: '' @ py_repr version))
      else
      bindE (require_ratio DemographicScenarioError ''occupancy_ratio'' occupancy_ratio) (\<lambda>occupancy.
      bindE (require_positive_finite DemographicScenarioError ''residential_area_per_person_m2'' area_per_person) (\<lambda>area.
      bindE (require_positive_finite DemographicScenarioError ''average_household_size'' household_size) (\<lambda>household.
      bindE (require_ratio DemographicScenarioError ''residential_gfa_share'' gfa_share) (\<lambda>gfa.
      bindE (require_ratio DemographicScenarioError ''working_population_ratio'' working_ratio) (\<lambda>working.
      if age_groups = [] then Inl (DemographicScenarioError ''age_groups must not be empty'')
      else let canonical_groups = sort_key group_key age_groups; codes = map share_code canonical_groups in
      if \<not> distinct codes then Inl (DemographicScenarioError ''age group codes must be unique'')
      else bindE (validate_age_partition canonical_groups) (\<lambda>_.
      if \<not> isclose (fsum (map share_value canonical_groups)) 1 0 SHARE_SUM_TOLERANCE
      then Inl (DemographicScenarioError ''age group shares must sum to 1.0'')
      else Inr \<lparr>scn_version = version, scn_target = target, scn_occupancy = occupancy, scn_area_per_person = area,
        scn_household_size = household, scn_gfa_share = gfa, scn_groups = canonical_groups,
        scn_working_ratio = working\<rparr>)))))))"

definition vacancy_ratio :: "scenario \<Rightarrow> rat" where
  "vacancy_ratio s = fl (1 - scn_occupancy s)"

definition age_group :: "scenario \<Rightarrow> string \<Rightarrow> core_exc + age_share" where
  "age_group s code = (case lookup share_code code (scn_groups s) of
     Some g \<Rightarrow> Inr g | None \<Rightarrow> Inl (DemographicScenarioError (''unknown age group code: '' @ py_repr code)))"

text \<open>The canonical content that is hashed; every string in it is ASCII.\<close>

definition target_json :: "population_target \<Rightarrow> json" where
  "target_json t = (case t of
     TotalPopulation n \<Rightarrow> JObj [(''kind'', JStr (target_kind_value TOTAL_POPULATION)), (''value'', JInt n)]
   | GrowthRate x \<Rightarrow> JObj [(''kind'', JStr (target_kind_value GROWTH_RATE)), (''value'', JFloat (float_repr x))])"

definition age_share_json :: "age_share \<Rightarrow> json" where
  "age_share_json g = JObj [(''code'', JStr (share_code g)), (''min_age'', JInt (share_min g)),
     (''max_age'', case share_max g of None \<Rightarrow> JNull | Some m \<Rightarrow> JInt m), (''share'', JFloat (float_repr (share_value g)))]"

definition scenario_json :: "scenario \<Rightarrow> json" where
  "scenario_json s = JObj [(''version'', JStr (scn_version s)), (''population_target'', target_json (scn_target s)),
     (''occupancy_ratio'', JFloat (float_repr (scn_occupancy s))),
     (''residential_area_per_person_m2'', JFloat (float_repr (scn_area_per_person s))),
     (''average_household_size'', JFloat (float_repr (scn_household_size s))),
     (''residential_gfa_share'', JFloat (float_repr (scn_gfa_share s))),
     (''age_groups'', JArr (map age_share_json (scn_groups s))),
     (''working_population_ratio'', JFloat (float_repr (scn_working_ratio s)))]"

text \<open>\<open>fingerprint\<close>, for a hash \<open>h\<close> whose value is its hex digest.\<close>

definition scenario_fingerprint :: "(bytes \<Rightarrow> string) \<Rightarrow> scenario \<Rightarrow> string" where
  "scenario_fingerprint h s = h (utf8_encode (json_text (json_norm (scenario_json s))))"

subsection \<open>What the constructors guarantee\<close>

text \<open>Consecutive groups from age \<open>a\<close>, each closed but the last.\<close>

fun ages_from :: "int \<Rightarrow> age_share list \<Rightarrow> bool" where
  "ages_from a [] = False"
| "ages_from a (g # gs) = (share_min g = a \<and> (case share_max g of
     None \<Rightarrow> gs = [] | Some m \<Rightarrow> a \<le> m \<and> ages_from (m + 1) gs))"

definition share_wf :: "age_share \<Rightarrow> bool" where
  "share_wf g \<longleftrightarrow> share_code g \<noteq> [] \<and> 0 \<le> share_min g \<and> (\<forall>m. share_max g = Some m \<longrightarrow> share_min g \<le> m)
     \<and> 0 \<le> share_value g \<and> share_value g \<le> 1"

fun target_wf :: "population_target \<Rightarrow> bool" where
  "target_wf (TotalPopulation n) = (0 \<le> n)"
| "target_wf (GrowthRate x) = (- 1 < x)"

definition scenario_wf :: "scenario \<Rightarrow> bool" where
  "scenario_wf s \<longleftrightarrow> scn_version s \<noteq> [] \<and> target_wf (scn_target s) \<and> 0 \<le> scn_occupancy s \<and> scn_occupancy s \<le> 1 \<and> 0 < scn_area_per_person s
     \<and> 0 < scn_household_size s \<and> 0 \<le> scn_gfa_share s \<and> scn_gfa_share s \<le> 1
     \<and> 0 \<le> scn_working_ratio s \<and> scn_working_ratio s \<le> 1
     \<and> list_all share_wf (scn_groups s) \<and> distinct (map share_code (scn_groups s))
     \<and> ages_from 0 (scn_groups s) \<and> 0 < sum_list (map share_value (scn_groups s))"

lemma make_population_target_wf: "make_population_target k v = Inr t \<Longrightarrow> target_wf t"
  by (auto simp: make_population_target_def bindE_Inr_iff split: population_target_kind.splits number.splits if_splits)

lemma make_age_share_wf: "make_age_share c a b v = Inr g \<Longrightarrow> share_wf g"
  by (auto simp: make_age_share_def share_wf_def bindE_Inr_iff age_group_code_re_def token_match_def
      split: if_splits option.splits list.splits)

lemma partition_loop_ages:
  assumes "partition_loop (share_max g) gs = Inr p" "share_max (last (g # gs)) = None" "list_all share_wf (g # gs)"
  shows "ages_from (share_min g) (g # gs)"
  using assms
proof (induction gs arbitrary: g)
  case (Cons g' gs)
  then obtain m where m: "share_max g = Some m" "share_min g' = m + 1" and "partition_loop (share_max g') gs = Inr p"
    by (auto split: option.splits if_splits)
  moreover have "share_max (last (g' # gs)) = None" "list_all share_wf (g' # gs)" using Cons.prems(2,3) by simp_all
  ultimately have "ages_from (share_min g') (g' # gs)" using Cons.IH by blast
  then show ?case using m Cons.prems(3) by (simp add: share_wf_def)
qed simp

lemma make_scenario_Inr:
  assumes "make_scenario version target oc ar hs gs groups wr = Inr s" "list_all share_wf groups" "target_wf target"
  shows "scenario_wf s \<and> scn_groups s = sort_key group_key groups \<and> scn_version s = version \<and> scn_target s = target
    \<and> isclose (fsum (map share_value (scn_groups s))) 1 0 SHARE_SUM_TOLERANCE"
proof -
  let ?g = "sort_key group_key groups"
  have v: "version \<noteq> []" and g: "groups \<noteq> []" "distinct (map share_code ?g)"
    and p: "validate_age_partition ?g = Inr ()"
    and c: "isclose (fsum (map share_value ?g)) 1 0 SHARE_SUM_TOLERANCE"
    and s: "0 \<le> scn_occupancy s" "scn_occupancy s \<le> 1" "0 < scn_area_per_person s" "0 < scn_household_size s"
      "0 \<le> scn_gfa_share s" "scn_gfa_share s \<le> 1" "0 \<le> scn_working_ratio s" "scn_working_ratio s \<le> 1"
      "scn_groups s = ?g" "scn_version s = version" "scn_target s = target"
    using assms(1)
    by (auto simp: make_scenario_def bindE_Inr_iff Let_def version_re_def token_match_def
        dest!: require_ratio_Inr require_positive_finite_Inr split: if_splits list.splits)
  have wf: "list_all share_wf ?g" using assms(2) by (simp add: list_all_iff)
  from g(1) obtain g1 gs' where ne: "?g = g1 # gs'" by (metis list.exhaust length_0_conv length_sort)
  from p have "share_min g1 = 0" "\<exists>q. partition_loop (share_max g1) gs' = Inr q" "share_max (last (g1 # gs')) = None"
    by (auto simp: validate_age_partition_def ne bindE_Inr_iff split: if_splits)
  with wf have "ages_from 0 ?g" unfolding ne by (metis partition_loop_ages)
  moreover have "0 < sum_list (map share_value ?g)"
  proof -
    have nonneg: "0 \<le> sum_list (map share_value ?g)"
      using wf by (intro sum_list_nonneg) (auto simp: list_all_iff share_wf_def)
    have "sum_list (map share_value ?g) \<noteq> 0"
    proof
      assume "sum_list (map share_value ?g) = 0"
      then have "isclose 0 1 0 SHARE_SUM_TOLERANCE" using c by (simp add: fsum_def)
      then show False using SHARE_SUM_TOLERANCE_le by (simp add: isclose_def Let_def fl_representable)
    qed
    with nonneg show ?thesis by simp
  qed
  ultimately show ?thesis using s v g(2) wf c assms(3) by (simp add: scenario_wf_def)
qed

text \<open>Every age lies in exactly one group.\<close>

definition in_group :: "int \<Rightarrow> age_share \<Rightarrow> bool" where
  "in_group a g = (share_min g \<le> a \<and> (case share_max g of None \<Rightarrow> True | Some m \<Rightarrow> a \<le> m))"

lemma ages_from_min: "ages_from b gs \<Longrightarrow> g \<in> set gs \<Longrightarrow> b \<le> share_min g"
  by (induction b gs rule: ages_from.induct) (force split: option.splits)+

lemma ages_from_unique: "ages_from b gs \<Longrightarrow> b \<le> a \<Longrightarrow> length (filter (in_group a) gs) = 1"
proof (induction b gs rule: ages_from.induct)
  case (2 b g gs)
  show ?case
  proof (cases "share_max g")
    case None
    with 2 show ?thesis by (simp add: in_group_def)
  next
    case (Some m)
    with 2(2) have gs: "share_min g = b" "b \<le> m" "ages_from (m + 1) gs" by auto
    show ?thesis
    proof (cases "a \<le> m")
      case True
      then have "filter (in_group a) gs = []" using ages_from_min[OF gs(3)] by (force simp: filter_empty_conv in_group_def)
      moreover have "in_group a g" using Some gs True 2(3) by (simp add: in_group_def)
      ultimately show ?thesis by simp
    next
      case False
      then have "\<not> in_group a g" using Some by (simp add: in_group_def)
      moreover have "length (filter (in_group a) gs) = 1" using 2(1)[OF Some gs(3)] False by simp
      ultimately show ?thesis by simp
    qed
  qed
qed simp

end
