(* ===== verification/Building_Attributes.thy ===== *)
theory Building_Attributes
  imports Core_Values "HOL-Library.Product_Lexorder"
begin

text \<open>
  \<open>core/urban_generator/buildings/attributes.py\<close> and \<open>area_metrics.py\<close>: the rules that give a
  placed building its use and floors, and the footprint, GFA, coverage and FAR of the buildings of a
  site. Parameters: the hashes (hex digests of bytes), the draw of the named random stream, the area
  and validity of a geometry (shapely) and the check of a working SRID (pyproj).
\<close>

subsection \<open>Enumerations\<close>

datatype zone_class = RESIDENTIAL | MIXED | PUBLIC | RECREATION

fun zone_value :: "zone_class \<Rightarrow> string" where
  "zone_value zone_class.RESIDENTIAL = ''residential''"
| "zone_value zone_class.MIXED = ''mixed''"
| "zone_value zone_class.PUBLIC = ''public''"
| "zone_value zone_class.RECREATION = ''recreation''"

datatype building_archetype = DETACHED | POINT | BAR | PERIMETER | COURTYARD | PUBLIC

fun archetype_value :: "building_archetype \<Rightarrow> string" where
  "archetype_value building_archetype.DETACHED = ''detached''"
| "archetype_value building_archetype.POINT = ''point''"
| "archetype_value building_archetype.BAR = ''bar''"
| "archetype_value building_archetype.PERIMETER = ''perimeter''"
| "archetype_value building_archetype.COURTYARD = ''courtyard''"
| "archetype_value building_archetype.PUBLIC = ''public''"

datatype building_use = RESIDENTIAL | MIXED | PUBLIC | COMMERCIAL

fun use_value :: "building_use \<Rightarrow> string" where
  "use_value building_use.RESIDENTIAL = ''residential''"
| "use_value building_use.MIXED = ''mixed''"
| "use_value building_use.PUBLIC = ''public''"
| "use_value building_use.COMMERCIAL = ''commercial''"

text \<open>\<open>_ZONE_ORDER\<close> and \<open>_ARCHETYPE_ORDER\<close>: the order of declaration.\<close>

fun zone_order :: "zone_class \<Rightarrow> nat" where
  "zone_order zone_class.RESIDENTIAL = 0"
| "zone_order zone_class.MIXED = 1"
| "zone_order zone_class.PUBLIC = 2"
| "zone_order zone_class.RECREATION = 3"

fun archetype_order :: "building_archetype \<Rightarrow> nat" where
  "archetype_order building_archetype.DETACHED = 0"
| "archetype_order building_archetype.POINT = 1"
| "archetype_order building_archetype.BAR = 2"
| "archetype_order building_archetype.PERIMETER = 3"
| "archetype_order building_archetype.COURTYARD = 4"
| "archetype_order building_archetype.PUBLIC = 5"

lemma zone_order_inj: "zone_order a = zone_order b \<Longrightarrow> a = b"
  by (cases a; cases b) auto

lemma archetype_order_inj: "archetype_order a = archetype_order b \<Longrightarrow> a = b"
  by (cases a; cases b) auto

instantiation zone_class :: linorder
begin

definition less_eq_zone_class :: "zone_class \<Rightarrow> zone_class \<Rightarrow> bool" where
  "less_eq_zone_class a b = (zone_order a \<le> zone_order b)"

definition less_zone_class :: "zone_class \<Rightarrow> zone_class \<Rightarrow> bool" where
  "less_zone_class a b = (zone_order a < zone_order b)"

instance
  by standard (auto simp: less_eq_zone_class_def less_zone_class_def intro: zone_order_inj)

end

instantiation building_archetype :: linorder
begin

definition less_eq_building_archetype :: "building_archetype \<Rightarrow> building_archetype \<Rightarrow> bool" where
  "less_eq_building_archetype a b = (archetype_order a \<le> archetype_order b)"

definition less_building_archetype :: "building_archetype \<Rightarrow> building_archetype \<Rightarrow> bool" where
  "less_building_archetype a b = (archetype_order a < archetype_order b)"

instance
  by standard (auto simp: less_eq_building_archetype_def less_building_archetype_def intro: archetype_order_inj)

end

subsection \<open>Identifiers\<close>

definition id_re :: "string \<Rightarrow> bool" where
  "id_re = token_match alnum_char (\<lambda>c. alnum_char c \<or> c \<in> set '':._-'') 255"

lemma id_re_Nil [simp]: "\<not> id_re []"
  by (simp add: id_re_def token_match_def)

definition require_attribute_id :: "string \<Rightarrow> string \<Rightarrow> core_exc + unit" where
  "require_attribute_id field value = require (id_re value)
     (BuildingAttributeAssignmentError (''invalid '' @ field @ '': '' @ py_repr value))"

definition require_config_version :: "string \<Rightarrow> core_exc + unit" where
  "require_config_version value = require (version_re value)
     (BuildingAttributeAssignmentError (''invalid config version: '' @ py_repr value))"

subsection \<open>Attribute rules\<close>

record attribute_rule =
  rule_zone :: zone_class
  rule_archetype :: building_archetype
  rule_use :: building_use
  rule_min_floors :: int
  rule_max_floors :: int

definition make_attribute_rule ::
  "zone_class \<Rightarrow> building_archetype \<Rightarrow> building_use \<Rightarrow> int \<Rightarrow> int \<Rightarrow> core_exc + attribute_rule" where
  "make_attribute_rule z a u lo hi = bindE (checks [
      check_positive_int BuildingAttributeAssignmentError ''min_floors'' lo,
      check_positive_int BuildingAttributeAssignmentError ''max_floors'' hi,
      require (lo \<le> hi) (BuildingAttributeAssignmentError ''max_floors must be >= min_floors'')]) (\<lambda>_.
    Inr \<lparr>rule_zone = z, rule_archetype = a, rule_use = u, rule_min_floors = lo, rule_max_floors = hi\<rparr>)"

definition rule_key :: "attribute_rule \<Rightarrow> zone_class \<times> building_archetype" where
  "rule_key r = (rule_zone r, rule_archetype r)"

record attribute_config =
  attr_version :: string
  attr_rules :: "attribute_rule list"

definition make_attribute_config :: "string \<Rightarrow> attribute_rule list \<Rightarrow> core_exc + attribute_config" where
  "make_attribute_config version rules = bindE (checks [
      require_config_version version,
      require (rules \<noteq> []) (BuildingAttributeAssignmentError ''attribute config must contain at least one rule''),
      require (distinct (map rule_key rules))
        (BuildingAttributeAssignmentError ''zone/archetype attribute rule pairs must be unique'')]) (\<lambda>_.
    Inr \<lparr>attr_version = version, attr_rules = sort_key rule_key rules\<rparr>)"

definition attribute_rule_for :: "attribute_config \<Rightarrow> zone_class \<Rightarrow> building_archetype \<Rightarrow> core_exc + attribute_rule" where
  "attribute_rule_for config z a = (case lookup rule_key (z, a) (attr_rules config) of
     Some r \<Rightarrow> Inr r
   | None \<Rightarrow> Inl (BuildingAttributeAssignmentError
       (''no building attribute rule for '' @ zone_value z @ ''/'' @ archetype_value a)))"

definition ASSIGNMENT_VERSION :: string where
  "ASSIGNMENT_VERSION = ''building-attributes-v1''"

definition attribute_config_json :: "attribute_config \<Rightarrow> json" where
  "attribute_config_json c = JObj [(''assignment_version'', JStr ASSIGNMENT_VERSION), (''version'', JStr (attr_version c)),
     (''rules'', JArr (map (\<lambda>r. JObj [(''zone_class'', JStr (zone_value (rule_zone r))),
        (''archetype'', JStr (archetype_value (rule_archetype r))), (''use'', JStr (use_value (rule_use r))),
        (''min_floors'', JInt (rule_min_floors r)), (''max_floors'', JInt (rule_max_floors r))]) (attr_rules c)))]"

definition attribute_fingerprint :: "(bytes \<Rightarrow> string) \<Rightarrow> attribute_config \<Rightarrow> string" where
  "attribute_fingerprint h c = h (utf8_encode (json_text (json_norm (attribute_config_json c))))"

subsection \<open>Assignment\<close>

record attribute_subject =
  subj_building_id :: string
  subj_source_id :: string
  subj_zone :: zone_class
  subj_archetype :: building_archetype

definition make_attribute_subject :: "string \<Rightarrow> string \<Rightarrow> zone_class \<Rightarrow> building_archetype \<Rightarrow> core_exc + attribute_subject" where
  "make_attribute_subject b s z a = bindE (checks [
      require_attribute_id ''building_id'' b, require_attribute_id ''source_id'' s]) (\<lambda>_.
    Inr \<lparr>subj_building_id = b, subj_source_id = s, subj_zone = z, subj_archetype = a\<rparr>)"

record assigned_attributes =
  assigned_building_id :: string
  assigned_source_id :: string
  assigned_zone :: zone_class
  assigned_archetype :: building_archetype
  assigned_use :: building_use
  assigned_floors :: int
  assigned_config_version :: string
  assigned_assignment_version :: string

definition make_assigned_attributes :: "assigned_attributes \<Rightarrow> core_exc + assigned_attributes" where
  "make_assigned_attributes a = bindE (checks [
      require_attribute_id ''building_id'' (assigned_building_id a),
      require_attribute_id ''source_id'' (assigned_source_id a),
      check_positive_int BuildingAttributeAssignmentError ''floors'' (assigned_floors a),
      require_config_version (assigned_config_version a),
      require (assigned_assignment_version a = ASSIGNMENT_VERSION)
        (BuildingAttributeAssignmentError ''unsupported building attribute assignment version'')]) (\<lambda>_. Inr a)"

record attribute_result =
  attr_result_version :: string
  attr_result_fingerprint :: string
  attr_result_buildings :: "assigned_attributes list"

definition make_attribute_result :: "attribute_result \<Rightarrow> core_exc + attribute_result" where
  "make_attribute_result r = bindE (checks [
      require_config_version (attr_result_version r),
      require (hex_digest (attr_result_fingerprint r))
        (BuildingAttributeAssignmentError ''config_fingerprint must be a lowercase SHA-256 hex digest''),
      require (sorted_unique (map assigned_building_id (attr_result_buildings r)))
        (BuildingAttributeAssignmentError ''assigned building ids must be sorted and unique''),
      require (list_all (\<lambda>b. assigned_config_version b = attr_result_version r) (attr_result_buildings r))
        (BuildingAttributeAssignmentError ''assigned config versions must match result config_version'')]) (\<lambda>_. Inr r)"

text \<open>\<open>rng.integers(lo, hi)\<close> of the stream of a name is \<open>draw name lo hi\<close>; \<open>h16\<close> is \<open>blake2b\<close>.\<close>

definition assign_floors ::
  "(bytes \<Rightarrow> string) \<Rightarrow> (string \<Rightarrow> int \<Rightarrow> int \<Rightarrow> int) \<Rightarrow> attribute_subject \<Rightarrow> attribute_rule \<Rightarrow> string \<Rightarrow> int" where
  "assign_floors h16 draw subject r config_fingerprint =
     (if rule_min_floors r = rule_max_floors r then rule_min_floors r
      else let token = utf8_encode (config_fingerprint @ ''|'' @ subj_building_id subject @ ''|''
                 @ zone_value (subj_zone subject) @ ''|'' @ archetype_value (subj_archetype subject)) in
        draw (''buildings.attributes:'' @ h16 token) (rule_min_floors r) (rule_max_floors r + 1))"

definition assign_subject ::
  "(bytes \<Rightarrow> string) \<Rightarrow> (string \<Rightarrow> int \<Rightarrow> int \<Rightarrow> int) \<Rightarrow> attribute_config \<Rightarrow> string \<Rightarrow> attribute_subject \<Rightarrow>
   core_exc + assigned_attributes" where
  "assign_subject h16 draw config fingerprint s = bindE (attribute_rule_for config (subj_zone s) (subj_archetype s)) (\<lambda>r.
     make_assigned_attributes \<lparr>assigned_building_id = subj_building_id s, assigned_source_id = subj_source_id s,
       assigned_zone = subj_zone s, assigned_archetype = subj_archetype s, assigned_use = rule_use r,
       assigned_floors = assign_floors h16 draw s r fingerprint, assigned_config_version = attr_version config,
       assigned_assignment_version = ASSIGNMENT_VERSION\<rparr>)"

definition assign_attributes ::
  "(bytes \<Rightarrow> string) \<Rightarrow> (bytes \<Rightarrow> string) \<Rightarrow> (string \<Rightarrow> int \<Rightarrow> int \<Rightarrow> int) \<Rightarrow> nat \<Rightarrow> attribute_subject list \<Rightarrow>
   attribute_config \<Rightarrow> core_exc + attribute_result" where
  "assign_attributes h h16 draw max_subjects subjects config = bindE (checks [
      require (length subjects \<le> max_subjects) (BuildingAttributeAssignmentError (''attribute subject limit exceeded: ''
        @ dec_digits (length subjects) @ '' > '' @ dec_digits max_subjects)),
      require (distinct (map subj_building_id subjects))
        (BuildingAttributeAssignmentError ''building ids must be unique'')]) (\<lambda>_.
    let fingerprint = attribute_fingerprint h config in
    bindE (mapE (assign_subject h16 draw config fingerprint) (sort_key subj_building_id subjects)) (\<lambda>assignments.
    make_attribute_result \<lparr>attr_result_version = attr_version config, attr_result_fingerprint = fingerprint,
      attr_result_buildings = assignments\<rparr>))"

end
