(* ===== verification/Building_Areas.thy ===== *)
theory Building_Areas
  imports Building_Attributes
begin

text \<open>
  \<open>core/urban_generator/buildings/area_metrics.py\<close> and \<open>domain/crs.py\<close>: the footprint and gross
  floor area of each building and the coverage and floor area ratio of the site. A shapely geometry is
  the attributes the code reads of it; \<open>CRS.from_epsg\<close> is a parameter that returns, for a known SRID,
  whether it is projected and the unit factors of its axes.
\<close>

record geometry =
  geom_polygonal :: bool
  geom_empty :: bool
  geom_valid :: bool
  geom_has_z :: bool
  geom_area :: rat

record crs_info =
  crs_projected :: bool
  crs_axis_factors :: "rat list"

definition require_working_crs :: "(int \<Rightarrow> crs_info option) \<Rightarrow> int \<Rightarrow> core_exc + unit" where
  "require_working_crs from_epsg srid =
     (if srid \<le> 0 then Inl (CRSContractError ''working_srid must be a positive EPSG integer'')
      else case from_epsg srid of
        None \<Rightarrow> Inl (CRSContractError (''Unknown EPSG SRID: '' @ dec_int srid))
      | Some crs \<Rightarrow> let axes = take 2 (crs_axis_factors crs) in checks [
          require (crs_projected crs) (CRSContractError (''EPSG:'' @ dec_int srid
            @ '' is not projected; metric operations require a projected working CRS'')),
          require (length axes = 2 \<and> list_all (\<lambda>f. \<bar>fl (f - 1)\<bar> \<le> fl (1 / 10 ^ 12)) axes)
            (CRSContractError (''EPSG:'' @ dec_int srid
            @ '' does not use metre horizontal units and cannot be a working CRS''))])"

abbreviation area_error :: "string \<Rightarrow> core_exc" where
  "area_error \<equiv> BuildingAreaMetricsError"

definition require_area_id :: "string \<Rightarrow> string \<Rightarrow> core_exc + unit" where
  "require_area_id field value = require (id_re value) (area_error (''invalid '' @ field @ '': '' @ py_repr value))"

definition require_polygonal_geometry :: "string \<Rightarrow> geometry \<Rightarrow> core_exc + unit" where
  "require_polygonal_geometry field g = checks [
     require (geom_polygonal g) (area_error (field @ '' must be Polygon or MultiPolygon'')),
     require (\<not> geom_empty g \<and> geom_valid g \<and> \<not> geom_has_z g) (area_error (field @ '' must be non-empty, valid and 2D'')),
     check_positive_finite area_error (field @ '' area'') (geom_area g)]"

record area_subject =
  area_subject_id :: string
  area_geometry :: geometry
  area_attributes :: assigned_attributes
  area_srid :: int

definition make_area_subject :: "(int \<Rightarrow> crs_info option) \<Rightarrow> area_subject \<Rightarrow> core_exc + area_subject" where
  "make_area_subject from_epsg s = bindE (checks [
      require_area_id ''building_id'' (area_subject_id s),
      require_working_crs from_epsg (area_srid s),
      require_polygonal_geometry ''building geometry'' (area_geometry s),
      require (assigned_building_id (area_attributes s) = area_subject_id s)
        (area_error ''attribute building_id must match area subject building_id'')]) (\<lambda>_. Inr s)"

record area_baseline =
  base_footprint :: rat
  base_gfa :: rat

definition make_area_baseline :: "rat \<Rightarrow> rat \<Rightarrow> core_exc + area_baseline" where
  "make_area_baseline footprint gfa = bindE (checks [
      check_non_negative_finite area_error ''footprint_area_m2'' footprint,
      check_non_negative_finite area_error ''gfa_m2'' gfa]) (\<lambda>_.
    Inr \<lparr>base_footprint = footprint, base_gfa = gfa\<rparr>)"

record area_metrics =
  metric_building_id :: string
  metric_footprint :: rat
  metric_floors :: int
  metric_gfa :: rat

abbreviation close_area :: "rat \<Rightarrow> rat \<Rightarrow> bool" where
  "close_area a b \<equiv> isclose a b (fl (1 / 10 ^ 12)) (fl (1 / 10 ^ 9))"

abbreviation close_ratio :: "rat \<Rightarrow> rat \<Rightarrow> bool" where
  "close_ratio a b \<equiv> isclose a b (fl (1 / 10 ^ 12)) (fl (1 / 10 ^ 12))"

definition make_area_metrics :: "area_metrics \<Rightarrow> core_exc + area_metrics" where
  "make_area_metrics m = bindE (checks [
      require_area_id ''building_id'' (metric_building_id m),
      check_positive_finite area_error ''footprint_area_m2'' (metric_footprint m),
      check_positive_int area_error ''floors'' (metric_floors m),
      check_positive_finite area_error ''gfa_m2'' (metric_gfa m),
      check_on (int_times (metric_floors m) (metric_footprint m)) (close_area (metric_gfa m))
        (area_error ''gfa_m2 must equal footprint_area_m2 * floors'')]) (\<lambda>_. Inr m)"

record area_summary =
  sum_site_area :: rat
  sum_base_footprint :: rat
  sum_base_gfa :: rat
  sum_generated_footprint :: rat
  sum_generated_gfa :: rat
  sum_total_footprint :: rat
  sum_total_gfa :: rat
  sum_coverage :: rat
  sum_far :: rat
  sum_building_count :: int

definition COVERAGE_EPSILON :: rat where
  "COVERAGE_EPSILON = fl (1 / 10 ^ 9)"

definition make_area_summary :: "area_summary \<Rightarrow> core_exc + area_summary" where
  "make_area_summary s = bindE (checks [
      check_positive_finite area_error ''site_area_m2'' (sum_site_area s),
      check_non_negative_finite area_error ''baseline_footprint_area_m2'' (sum_base_footprint s),
      check_non_negative_finite area_error ''baseline_gfa_m2'' (sum_base_gfa s),
      check_non_negative_finite area_error ''generated_footprint_area_m2'' (sum_generated_footprint s),
      check_non_negative_finite area_error ''generated_gfa_m2'' (sum_generated_gfa s),
      check_non_negative_finite area_error ''total_footprint_area_m2'' (sum_total_footprint s),
      check_non_negative_finite area_error ''total_gfa_m2'' (sum_total_gfa s),
      check_non_negative_finite area_error ''coverage_ratio'' (sum_coverage s),
      check_non_negative_finite area_error ''far'' (sum_far s),
      check_non_negative_int area_error ''building_count'' (sum_building_count s),
      require (close_area (sum_total_footprint s) (fl (sum_base_footprint s + sum_generated_footprint s)))
        (area_error ''total_footprint_area_m2 must equal baseline + generated''),
      require (close_area (sum_total_gfa s) (fl (sum_base_gfa s + sum_generated_gfa s)))
        (area_error ''total_gfa_m2 must equal baseline + generated''),
      require (sum_total_footprint s \<le> fl (sum_site_area s + COVERAGE_EPSILON))
        (area_error ''total footprint area cannot exceed site area''),
      require (close_ratio (sum_coverage s) (fl (sum_total_footprint s / sum_site_area s)))
        (area_error ''coverage_ratio must equal total footprint area / site area''),
      require (close_ratio (sum_far s) (fl (sum_total_gfa s / sum_site_area s)))
        (area_error ''far must equal total GFA / site area'')]) (\<lambda>_. Inr s)"

record area_result =
  areas_srid :: int
  areas_buildings :: "area_metrics list"
  areas_summary :: area_summary

definition make_area_result :: "(int \<Rightarrow> crs_info option) \<Rightarrow> area_result \<Rightarrow> core_exc + area_result" where
  "make_area_result from_epsg r = bindE (checks [
      require_working_crs from_epsg (areas_srid r),
      require (sorted_unique (map metric_building_id (areas_buildings r)))
        (area_error ''building metric ids must be sorted and unique''),
      require (sum_building_count (areas_summary r) = int (length (areas_buildings r)))
        (area_error ''summary building_count must match building metrics'')]) (\<lambda>_. Inr r)"

text \<open>The loop body of \<open>calculate\<close>.\<close>

definition measure_subject :: "area_subject \<Rightarrow> core_exc + area_metrics" where
  "measure_subject s = (let footprint = geom_area (area_geometry s); floors = assigned_floors (area_attributes s) in
     bindE (check_positive_finite area_error ''building footprint area'' footprint) (\<lambda>_.
     bindE (int_times floors footprint) (\<lambda>gfa.
     bindE (check_positive_finite area_error ''building GFA'' gfa) (\<lambda>_.
     make_area_metrics \<lparr>metric_building_id = area_subject_id s, metric_footprint = footprint,
       metric_floors = floors, metric_gfa = gfa\<rparr>))))"

definition calculate_areas ::
  "(int \<Rightarrow> crs_info option) \<Rightarrow> int \<Rightarrow> nat \<Rightarrow> area_subject list \<Rightarrow> rat \<Rightarrow> area_baseline \<Rightarrow> core_exc + area_result" where
  "calculate_areas from_epsg srid max_subjects subjects site_area baseline = bindE (checks [
      require (length subjects \<le> max_subjects) (area_error (''building area subject limit exceeded: ''
        @ dec_digits (length subjects) @ '' > '' @ dec_digits max_subjects)),
      require (list_all (\<lambda>s. area_srid s = srid) subjects)
        (area_error ''subject working_srid must match calculator working CRS''),
      require (distinct (map area_subject_id subjects)) (area_error ''building ids must be unique''),
      check_positive_finite area_error ''site_area_m2'' site_area]) (\<lambda>_.
    bindE (mapE measure_subject (sort_key area_subject_id subjects)) (\<lambda>buildings.
    bindE (fsumE (map metric_footprint buildings)) (\<lambda>generated_footprint.
    bindE (fsumE (map metric_gfa buildings)) (\<lambda>generated_gfa.
    let total_footprint = fl (base_footprint baseline + generated_footprint);
        total_gfa = fl (base_gfa baseline + generated_gfa) in
    bindE (require (total_footprint \<le> fl (site_area + COVERAGE_EPSILON))
      (area_error ''total footprint area cannot exceed site area'')) (\<lambda>_.
    bindE (make_area_summary \<lparr>sum_site_area = site_area, sum_base_footprint = base_footprint baseline,
      sum_base_gfa = base_gfa baseline, sum_generated_footprint = generated_footprint,
      sum_generated_gfa = generated_gfa, sum_total_footprint = total_footprint, sum_total_gfa = total_gfa,
      sum_coverage = fl (total_footprint / site_area), sum_far = fl (total_gfa / site_area),
      sum_building_count = int (length buildings)\<rparr>) (\<lambda>summary.
    make_area_result from_epsg \<lparr>areas_srid = srid, areas_buildings = buildings, areas_summary = summary\<rparr>))))))"

end
