(* ===== verification/Apportionment.thy ===== *)
theory Apportionment
  imports Urban_Prelude
begin

text \<open>
  The largest-remainder method, as the population and the age allocation use it: increments of a list
  at chosen positions, Python's slices, and the counting argument behind the method. For
  proportional shares \<open>n * w div s\<close> the remainders add up to \<open>s\<close> times the units that are
  left, so the units left never exceed the shares with a positive remainder.
\<close>

subsection \<open>Increments and slices\<close>

text \<open>\<open>for index in indices: xs[index] += 1\<close>.\<close>

definition increment_at :: "nat list \<Rightarrow> int list \<Rightarrow> int list" where
  "increment_at is xs = fold (\<lambda>i ys. ys[i := ys ! i + 1]) is xs"

text \<open>\<open>xs[:k]\<close>.\<close>

definition slice_to :: "int \<Rightarrow> 'a list \<Rightarrow> 'a list" where
  "slice_to k xs = (if 0 \<le> k then take (nat k) xs else take (length xs - nat (- k)) xs)"

lemma length_increment_at [simp]: "length (increment_at is xs) = length xs"
  unfolding increment_at_def by (induction "is" arbitrary: xs) auto

lemma increment_at_Cons: "increment_at (i # is) xs = increment_at is (xs[i := xs ! i + 1])"
  by (simp add: increment_at_def)

lemma sum_list_update_int: "i < length xs \<Longrightarrow> sum_list (xs[i := v]) = sum_list xs + v - (xs ! i :: int)"
  by (induction xs arbitrary: i) (auto split: nat.splits)

lemma sum_increment_at:
  "\<forall>i \<in> set is. i < length xs \<Longrightarrow> sum_list (increment_at is xs) = sum_list xs + int (length is)"
proof (induction "is" arbitrary: xs)
  case (Cons i "is")
  then have "sum_list (xs[i := xs ! i + 1]) = sum_list xs + 1" by (simp add: sum_list_update_int)
  with Cons show ?case by (simp add: increment_at_Cons)
qed (simp add: increment_at_def)

lemma nth_increment_at:
  "distinct is \<Longrightarrow> k < length xs \<Longrightarrow> increment_at is xs ! k = xs ! k + (if k \<in> set is then 1 else 0)"
proof (induction "is" arbitrary: xs)
  case (Cons i "is")
  then show ?case by (cases "k = i") (auto simp: increment_at_Cons nth_list_update)
qed (simp add: increment_at_def)

subsection \<open>The largest remainders\<close>

lemma take_satisfying:
  assumes "sorted_wrt (\<lambda>x y. P y \<longrightarrow> P x) ys" "k \<le> length (filter P ys)" "x \<in> set (take k ys)"
  shows "P x"
  using assms
proof (induction ys arbitrary: k)
  case (Cons y ys)
  then obtain k' where k: "k = Suc k'" by (cases k) auto
  have y: "P y"
  proof (rule ccontr)
    assume "\<not> P y"
    then have "filter P (y # ys) = []" using Cons.prems(1) by (auto simp: filter_empty_conv)
    with Cons.prems(2) k show False by simp
  qed
  then show ?case using Cons k by auto
qed simp

lemma take_sorted_satisfying:
  assumes "\<And>x y. f x \<le> f y \<Longrightarrow> P y \<Longrightarrow> P x" "k \<le> length (filter P xs)" "x \<in> set (take k (sort_key f xs))"
  shows "P x"
proof -
  have "sorted_wrt (\<lambda>x y. f x \<le> f y) (sort_key f xs)" using sorted_sort_key[of f xs] by (simp add: sorted_map)
  then have "sorted_wrt (\<lambda>x y. P y \<longrightarrow> P x) (sort_key f xs)"
    by (rule sorted_wrt_mono_rel[rotated]) (use assms(1) in blast)
  moreover have "mset (filter P (sort_key f xs)) = mset (filter P xs)" by simp
  then have "length (filter P (sort_key f xs)) = length (filter P xs)" by (metis size_mset)
  then have "k \<le> length (filter P (sort_key f xs))" using assms(2) by simp
  ultimately show ?thesis using assms(3) by (rule take_satisfying)
qed

text \<open>
  The positions \<open>ix\<close> of the first \<open>k\<close> elements in the order of \<open>f\<close>, when at least \<open>k\<close> elements
  satisfy \<open>P\<close> and the order puts those first.
\<close>

lemma picked_positions:
  assumes "\<And>x y. f x \<le> f y \<Longrightarrow> P y \<Longrightarrow> P x" "0 \<le> k" "k \<le> int (length (filter P xs))" "distinct (map ix xs)"
  shows "length (map ix (slice_to k (sort_key f xs))) = nat k \<and> distinct (map ix (slice_to k (sort_key f xs)))
    \<and> (\<forall>i \<in> set (map ix (slice_to k (sort_key f xs))). \<exists>x \<in> set xs. ix x = i \<and> P x)"
proof (intro conjI)
  have k: "nat k \<le> length (filter P xs)" and sl: "slice_to k (sort_key f xs) = take (nat k) (sort_key f xs)"
    using assms(2,3) by (auto simp: slice_to_def)
  have "nat k \<le> length xs" using k length_filter_le[of P xs] by linarith
  then show "length (map ix (slice_to k (sort_key f xs))) = nat k" by (simp add: sl)
  have "mset (map ix (sort_key f xs)) = mset (map ix xs)" by simp
  then have "distinct (map ix (sort_key f xs))" using assms(4) by (metis mset_eq_imp_distinct_iff)
  then show "distinct (map ix (slice_to k (sort_key f xs)))" unfolding sl take_map[symmetric] by (rule distinct_take)
  show "\<forall>i \<in> set (map ix (slice_to k (sort_key f xs))). \<exists>x \<in> set xs. ix x = i \<and> P x"
  proof
    fix i assume "i \<in> set (map ix (slice_to k (sort_key f xs)))"
    then obtain x where x: "x \<in> set (take (nat k) (sort_key f xs))" "ix x = i" unfolding sl by auto
    then have "x \<in> set xs" by (metis in_set_takeD set_sort)
    moreover have "P x" using take_sorted_satisfying[of f P, OF assms(1) k x(1)] .
    ultimately show "\<exists>x \<in> set xs. ix x = i \<and> P x" using x(2) by blast
  qed
qed

subsection \<open>Proportional shares\<close>

definition shares :: "int \<Rightarrow> int \<Rightarrow> int list \<Rightarrow> int list" where
  "shares n s ws = map (\<lambda>w. n * w div s) ws"

definition share_rems :: "int \<Rightarrow> int \<Rightarrow> int list \<Rightarrow> int list" where
  "share_rems n s ws = map (\<lambda>w. n * w mod s) ws"

lemma shares_rems_sum:
  "s * sum_list (shares n s ws) + sum_list (share_rems n s ws) = n * sum_list ws"
proof (induction ws)
  case (Cons w ws)
  have "s * (n * w div s) + n * w mod s = n * w" by simp
  with Cons show ?case by (simp add: shares_def share_rems_def algebra_simps)
qed (simp add: shares_def share_rems_def)

lemma rems_le_positive:
  assumes "0 < (s :: int)"
  shows "0 \<le> sum_list (share_rems n s ws)
    \<and> sum_list (share_rems n s ws) \<le> s * int (length (filter (\<lambda>w. 0 < n * w mod s) ws))"
proof (induction ws)
  case (Cons w ws)
  have "0 \<le> n * w mod s" "n * w mod s < s" using assms by simp_all
  with Cons show ?case by (auto simp: share_rems_def algebra_simps)
qed (simp add: share_rems_def)

text \<open>Of \<open>n\<close> units shared out by weights that add up to \<open>s\<close>, those left by the floors.\<close>

lemma units_left:
  assumes "0 < s" "sum_list ws = s"
  shows "0 \<le> n - sum_list (shares n s ws)
    \<and> n - sum_list (shares n s ws) \<le> int (length (filter (\<lambda>w. 0 < n * w mod s) ws))"
proof -
  let ?left = "n - sum_list (shares n s ws)" and ?pos = "int (length (filter (\<lambda>w. 0 < n * w mod s) ws))"
  have "s * ?left = sum_list (share_rems n s ws)"
    using shares_rems_sum[of s n ws] assms(2) by (simp add: algebra_simps)
  with rems_le_positive[OF assms(1), of n ws] have "0 \<le> s * ?left" "s * ?left \<le> s * ?pos" by simp_all
  with assms(1) show ?thesis by (simp add: zero_le_mult_iff)
qed

text \<open>A share with a remainder stays below its weight when no more units than \<open>s\<close> are shared out.\<close>

lemma share_below_weight:
  assumes "0 < (s :: int)" "0 \<le> n" "n \<le> s" "0 < n * w mod s" "0 \<le> w"
  shows "n * w div s < w"
proof -
  have "s * (n * w div s) + n * w mod s = n * w" by simp
  then have "s * (n * w div s) < n * w" using assms(4) by linarith
  also have "\<dots> \<le> s * w" using assms by (intro mult_right_mono)
  finally show ?thesis using assms(1) by simp
qed

lemma share_le_weight: "0 < (s :: int) \<Longrightarrow> 0 \<le> w \<Longrightarrow> n \<le> s \<Longrightarrow> n * w div s \<le> w"
  using zdiv_mono1[of "n * w" "s * w" s] mult_right_mono[of n s w] by simp

lemma shares_nonneg: "0 < (s :: int) \<Longrightarrow> 0 \<le> n \<Longrightarrow> 0 \<le> w \<Longrightarrow> 0 \<le> n * w div s"
  by (simp add: pos_imp_zdiv_nonneg_iff)

end
