(* ===== verification/Population.thy ===== *)
theory Population
  imports Demography_Config Building_Areas Apportionment
begin

text \<open>
  \<open>core/urban_generator/demography/capacity.py\<close> and \<open>allocation.py\<close>: the fractional residential
  capacity of each building, and the integer allocation of the generated residents to the buildings by
  largest remainders, with the checks of every result record.
\<close>

subsection \<open>Residential capacity\<close>

abbreviation cap_error :: "string \<Rightarrow> core_exc" where
  "cap_error \<equiv> ResidentialCapacityError"

record capacity_subject =
  cap_metrics :: area_metrics
  cap_attributes :: assigned_attributes

definition make_capacity_subject :: "area_metrics \<Rightarrow> assigned_attributes \<Rightarrow> core_exc + capacity_subject" where
  "make_capacity_subject m a = bindE (checks [
      require (metric_building_id m = assigned_building_id a) (cap_error ''building metric and attribute ids must match''),
      require (metric_floors m = assigned_floors a) (cap_error ''building metric and attribute floors must match'')]) (\<lambda>_.
    Inr \<lparr>cap_metrics = m, cap_attributes = a\<rparr>)"

definition cap_subject_id :: "capacity_subject \<Rightarrow> string" where
  "cap_subject_id s = metric_building_id (cap_metrics s)"

record building_capacity =
  bc_id :: string
  bc_use :: building_use
  bc_total_gfa :: rat
  bc_residential_gfa :: rat
  bc_occupied_area :: rat
  bc_residents :: rat
  bc_households :: rat

definition AREA_EPSILON :: rat where
  "AREA_EPSILON = fl (1 / 10 ^ 9)"

definition make_building_capacity :: "building_capacity \<Rightarrow> core_exc + building_capacity" where
  "make_building_capacity b = bindE (checks [
      require (bc_id b \<noteq> []) (cap_error ''building_id must be a non-empty string''),
      check_non_negative_finite cap_error ''total_gfa_m2'' (bc_total_gfa b),
      check_non_negative_finite cap_error ''residential_gfa_m2'' (bc_residential_gfa b),
      check_non_negative_finite cap_error ''occupied_residential_area_m2'' (bc_occupied_area b),
      check_non_negative_finite cap_error ''resident_capacity'' (bc_residents b),
      check_non_negative_finite cap_error ''household_capacity'' (bc_households b),
      require (bc_residential_gfa b \<le> fl (bc_total_gfa b + AREA_EPSILON))
        (cap_error ''residential_gfa_m2 cannot exceed total_gfa_m2''),
      require (bc_occupied_area b \<le> fl (bc_residential_gfa b + AREA_EPSILON))
        (cap_error ''occupied residential area cannot exceed residential GFA'')]) (\<lambda>_. Inr b)"

record capacity_result =
  caps_version :: string
  caps_fingerprint :: string
  caps_buildings :: "building_capacity list"

definition make_capacity_result :: "capacity_result \<Rightarrow> core_exc + capacity_result" where
  "make_capacity_result r = bindE (checks [
      require (caps_version r \<noteq> []) (cap_error ''scenario_version must be a non-empty string''),
      require (hex_digest (caps_fingerprint r)) (cap_error ''scenario_fingerprint must be a lowercase SHA-256 hex digest''),
      require (sorted_unique (map bc_id (caps_buildings r)))
        (cap_error ''building capacity ids must be sorted and unique'')]) (\<lambda>_. Inr r)"

fun residential_share :: "building_use \<Rightarrow> rat \<Rightarrow> rat" where
  "residential_share building_use.RESIDENTIAL mixed = 1"
| "residential_share building_use.MIXED mixed = mixed"
| "residential_share building_use.PUBLIC mixed = 0"
| "residential_share building_use.COMMERCIAL mixed = 0"

definition capacity_row :: "scenario \<Rightarrow> capacity_subject \<Rightarrow> building_capacity" where
  "capacity_row sc s = (let
       total_gfa = metric_gfa (cap_metrics s);
       use = assigned_use (cap_attributes s);
       residential_gfa = fl (total_gfa * residential_share use (scn_gfa_share sc));
       occupied_area = fl (residential_gfa * scn_occupancy sc);
       resident_capacity = fl (occupied_area / scn_area_per_person sc) in
     \<lparr>bc_id = cap_subject_id s, bc_use = use, bc_total_gfa = total_gfa,
       bc_residential_gfa = residential_gfa, bc_occupied_area = occupied_area, bc_residents = resident_capacity,
       bc_households = fl (resident_capacity / scn_household_size sc)\<rparr>)"

definition calculate_subject :: "scenario \<Rightarrow> capacity_subject \<Rightarrow> core_exc + building_capacity" where
  "calculate_subject sc s = make_building_capacity (capacity_row sc s)"

definition calculate_capacity ::
  "(bytes \<Rightarrow> string) \<Rightarrow> nat \<Rightarrow> scenario \<Rightarrow> capacity_subject list \<Rightarrow> core_exc + capacity_result" where
  "calculate_capacity h max_subjects sc subjects = bindE (checks [
      require (length subjects \<le> max_subjects) (cap_error (''residential capacity subject limit exceeded: ''
        @ dec_digits (length subjects) @ '' > '' @ dec_digits max_subjects)),
      require (distinct (map cap_subject_id subjects)) (cap_error ''building ids must be unique'')]) (\<lambda>_.
    bindE (mapE (calculate_subject sc) (sort_key cap_subject_id subjects)) (\<lambda>buildings.
    make_capacity_result \<lparr>caps_version = scn_version sc, caps_fingerprint = scenario_fingerprint h sc,
      caps_buildings = buildings\<rparr>))"

subsection \<open>Population allocation\<close>

abbreviation pop_error :: "string \<Rightarrow> core_exc" where
  "pop_error \<equiv> PopulationAllocationError"

datatype population_status = TARGET_MET | CAPACITY_EXHAUSTED | BASELINE_EXCEEDS_TARGET

definition allocation_status :: "int \<Rightarrow> int \<Rightarrow> int \<Rightarrow> population_status" where
  "allocation_status generated_target allocated baseline_excess =
     (if 0 < baseline_excess then BASELINE_EXCEEDS_TARGET
      else if allocated = generated_target then TARGET_MET else CAPACITY_EXHAUSTED)"

definition CAPACITY_INTEGER_EPSILON :: rat where
  "CAPACITY_INTEGER_EPSILON = fl (1 / 10 ^ 9)"

text \<open>\<open>_integer_capacity\<close> of a capacity that is finite and not negative.\<close>

definition integer_capacity :: "rat \<Rightarrow> int" where
  "integer_capacity capacity = max 0 \<lfloor>fl (capacity + CAPACITY_INTEGER_EPSILON)\<rfloor>"

definition checked_integer_capacity :: "rat \<Rightarrow> core_exc + int" where
  "checked_integer_capacity x = bindE (check_non_negative_finite pop_error ''resident_capacity'' x) (\<lambda>_.
     Inr (integer_capacity x))"

text \<open>The quotient of two integers, \<open>a / b if b > 0 else 0.0\<close>.\<close>

definition int_ratio :: "int \<Rightarrow> int \<Rightarrow> rat" where
  "int_ratio a b = (if 0 < b then fl (of_int a / of_int b) else 0)"

record building_allocation =
  ba_id :: string
  ba_resident_capacity :: rat
  ba_integer_capacity :: int
  ba_residents :: int
  ba_utilization :: rat

definition make_building_allocation :: "building_allocation \<Rightarrow> core_exc + building_allocation" where
  "make_building_allocation b = bindE (checks [
      require (ba_id b \<noteq> []) (pop_error ''building_id must be a non-empty string''),
      check_non_negative_finite pop_error ''resident_capacity'' (ba_resident_capacity b),
      check_non_negative_int pop_error ''integer_capacity'' (ba_integer_capacity b),
      check_non_negative_int pop_error ''residents'' (ba_residents b),
      check_ratio pop_error ''utilization_ratio'' (ba_utilization b),
      require (ba_integer_capacity b = integer_capacity (ba_resident_capacity b))
        (pop_error ''integer_capacity must equal floor(resident_capacity)''),
      require (ba_residents b \<le> ba_integer_capacity b) (pop_error ''residents cannot exceed integer_capacity''),
      require (close_ratio (ba_utilization b) (int_ratio (ba_residents b) (ba_integer_capacity b)))
        (pop_error ''utilization_ratio must match residents / integer_capacity'')]) (\<lambda>_. Inr b)"

record population_diagnostics =
  dg_status :: population_status
  dg_target :: int
  dg_baseline :: int
  dg_generated_target :: int
  dg_capacity :: int
  dg_allocated :: int
  dg_unmet :: int
  dg_baseline_excess :: int

definition make_diagnostics :: "population_diagnostics \<Rightarrow> core_exc + population_diagnostics" where
  "make_diagnostics d = bindE (checks [
      check_non_negative_int pop_error ''target_total_population'' (dg_target d),
      check_non_negative_int pop_error ''baseline_population'' (dg_baseline d),
      check_non_negative_int pop_error ''generated_population_target'' (dg_generated_target d),
      check_non_negative_int pop_error ''allocatable_generated_capacity'' (dg_capacity d),
      check_non_negative_int pop_error ''allocated_generated_population'' (dg_allocated d),
      check_non_negative_int pop_error ''unmet_generated_population'' (dg_unmet d),
      check_non_negative_int pop_error ''baseline_excess_population'' (dg_baseline_excess d),
      require (dg_generated_target d = max 0 (dg_target d - dg_baseline d))
        (pop_error ''generated_population_target must equal max(target - baseline, 0)''),
      require (dg_baseline_excess d = max 0 (dg_baseline d - dg_target d))
        (pop_error ''baseline_excess_population must equal max(baseline - target, 0)''),
      require (dg_allocated d \<le> dg_capacity d) (pop_error ''allocated population cannot exceed allocatable capacity''),
      require (dg_allocated d \<le> dg_generated_target d) (pop_error ''allocated population cannot exceed generated target''),
      require (dg_unmet d = dg_generated_target d - dg_allocated d)
        (pop_error ''unmet population must equal target minus allocated population''),
      require (dg_status d = allocation_status (dg_generated_target d) (dg_allocated d) (dg_baseline_excess d))
        (pop_error ''allocation status is inconsistent with target diagnostics'')]) (\<lambda>_. Inr d)"

record population_result =
  pop_version :: string
  pop_fingerprint :: string
  pop_allocations :: "building_allocation list"
  pop_diagnostics :: population_diagnostics

definition make_population_result :: "population_result \<Rightarrow> core_exc + population_result" where
  "make_population_result r = bindE (checks [
      require (pop_version r \<noteq> []) (pop_error ''scenario_version must be a non-empty string''),
      require (hex_digest (pop_fingerprint r)) (pop_error ''scenario_fingerprint must be a lowercase SHA-256 hex digest''),
      require (sorted_unique (map ba_id (pop_allocations r))) (pop_error ''allocation building ids must be sorted and unique''),
      require (sum_list (map ba_integer_capacity (pop_allocations r)) = dg_capacity (pop_diagnostics r))
        (pop_error ''allocation capacities must sum to diagnostic capacity''),
      require (sum_list (map ba_residents (pop_allocations r)) = dg_allocated (pop_diagnostics r))
        (pop_error ''allocated residents must sum to diagnostic population'')]) (\<lambda>_. Inr r)"

text \<open>
  \<open>_resolve_target_total\<close>: growth is computed in \<open>Decimal\<close> from the decimal text of the rate and
  rounded half up (away from zero; the projection is not negative).
\<close>

definition resolve_target_total :: "population_target \<Rightarrow> int \<Rightarrow> bool \<Rightarrow> core_exc + int" where
  "resolve_target_total target baseline baseline_was_supplied = (case target of
     TotalPopulation n \<Rightarrow> Inr n
   | GrowthRate g \<Rightarrow>
       if \<not> baseline_was_supplied then Inl (pop_error ''growth-rate target requires baseline_population'')
       else let projected = dec (of_int baseline * dec (1 + repr_value g)) in
         Inr (max 0 \<lfloor>projected + 1 / 2\<rfloor>))"

text \<open>The increments of the largest remainders, refused beyond a building's capacity.\<close>

fun increment_within :: "int list \<Rightarrow> nat list \<Rightarrow> int list \<Rightarrow> core_exc + int list" where
  "increment_within caps [] xs = Inr xs"
| "increment_within caps (i # is) xs =
     (if caps ! i \<le> xs ! i then Inl (pop_error ''apportionment attempted to exceed building capacity'')
      else increment_within caps is (xs[i := xs ! i + 1]))"

definition apportion_population :: "string list \<Rightarrow> int list \<Rightarrow> int \<Rightarrow> core_exc + int list" where
  "apportion_population ids caps allocation_total = bindE (checks [
      check_non_negative_int pop_error ''allocation_total'' allocation_total,
      require (length ids = length caps) (pop_error ''building and integer-capacity counts must match''),
      require (allocation_total \<le> sum_list caps) (pop_error ''allocation_total cannot exceed total integer capacity'')]) (\<lambda>_.
    let total_capacity = sum_list caps in
    if allocation_total = 0 \<or> total_capacity = 0 then Inr (map (\<lambda>_. 0) ids)
    else let base = shares allocation_total total_capacity caps;
        remainders = map (\<lambda>(i, b, c). (allocation_total * c mod total_capacity, b, i)) (enumerate 0 (zip ids caps));
        remaining = allocation_total - sum_list base;
        ordered = sort_key (\<lambda>(r, b, i). (- r, b)) remainders in
      bindE (increment_within caps (map (\<lambda>(r, b, i). i) (slice_to remaining ordered)) base) (\<lambda>allocations.
      if sum_list allocations \<noteq> allocation_total then Inl (pop_error ''apportionment did not preserve allocation total'')
      else Inr allocations))"

definition validate_allocation_inputs ::
  "(bytes \<Rightarrow> string) \<Rightarrow> nat \<Rightarrow> capacity_result \<Rightarrow> scenario \<Rightarrow> int option \<Rightarrow> core_exc + unit" where
  "validate_allocation_inputs h max_buildings capacities sc baseline_population = checks [
     require (caps_version capacities = scn_version sc) (pop_error ''capacity scenario version must match allocation scenario''),
     require (caps_fingerprint capacities = scenario_fingerprint h sc)
       (pop_error ''capacity scenario fingerprint must match allocation scenario''),
     require (length (caps_buildings capacities) \<le> max_buildings) (pop_error (''population allocation building limit exceeded: ''
       @ dec_digits (length (caps_buildings capacities)) @ '' > '' @ dec_digits max_buildings)),
     (case baseline_population of None \<Rightarrow> Inr () | Some b \<Rightarrow> check_non_negative_int pop_error ''baseline_population'' b),
     require (case (scn_target sc, baseline_population) of (GrowthRate _, None) \<Rightarrow> False | _ \<Rightarrow> True)
       (pop_error ''growth-rate target requires baseline_population'')]"

definition allocation_row :: "building_capacity \<Rightarrow> int \<Rightarrow> int \<Rightarrow> building_allocation" where
  "allocation_row b c n = \<lparr>ba_id = bc_id b, ba_resident_capacity = bc_residents b, ba_integer_capacity = c,
     ba_residents = n, ba_utilization = int_ratio n c\<rparr>"

definition allocation_of :: "(building_capacity \<times> int) \<times> int \<Rightarrow> core_exc + building_allocation" where
  "allocation_of x = (case x of ((b, c), n) \<Rightarrow> make_building_allocation (allocation_row b c n))"

definition allocate_population ::
  "(bytes \<Rightarrow> string) \<Rightarrow> nat \<Rightarrow> capacity_result \<Rightarrow> scenario \<Rightarrow> int option \<Rightarrow> core_exc + population_result" where
  "allocate_population h max_buildings capacities sc baseline_population =
     bindE (validate_allocation_inputs h max_buildings capacities sc baseline_population) (\<lambda>_.
     let resolved_baseline = (case baseline_population of None \<Rightarrow> 0 | Some b \<Rightarrow> b) in
     bindE (resolve_target_total (scn_target sc) resolved_baseline (baseline_population \<noteq> None)) (\<lambda>target_total.
     let generated_target = max 0 (target_total - resolved_baseline);
         baseline_excess = max 0 (resolved_baseline - target_total);
         ordered = sort_key bc_id (caps_buildings capacities) in
     bindE (mapE (checked_integer_capacity \<circ> bc_residents) ordered) (\<lambda>integer_capacities.
     let total_capacity = sum_list integer_capacities;
         allocation_total = min generated_target total_capacity in
     bindE (apportion_population (map bc_id ordered) integer_capacities allocation_total) (\<lambda>residents.
     bindE (mapE allocation_of (zip (zip ordered integer_capacities) residents)) (\<lambda>allocations.
     bindE (make_diagnostics \<lparr>dg_status = allocation_status generated_target allocation_total baseline_excess,
       dg_target = target_total, dg_baseline = resolved_baseline, dg_generated_target = generated_target,
       dg_capacity = total_capacity, dg_allocated = allocation_total,
       dg_unmet = generated_target - allocation_total, dg_baseline_excess = baseline_excess\<rparr>) (\<lambda>diagnostics.
     make_population_result \<lparr>pop_version = scn_version sc, pop_fingerprint = scenario_fingerprint h sc,
       pop_allocations = allocations, pop_diagnostics = diagnostics\<rparr>))))))"

end
