(* ===== verification/Age_Allocation.thy ===== *)
theory Age_Allocation
  imports Population
begin

text \<open>
  \<open>core/urban_generator/demography/age_allocation.py\<close>: the cohort totals by the largest remainders of
  the \<open>Decimal\<close> quotas, and the building rows by largest remainders within the cohorts that are left,
  with the checks of every result record.
\<close>

abbreviation age_error :: "string \<Rightarrow> core_exc" where
  "age_error \<equiv> AgeGroupAllocationError"

record age_population =
  agp_code :: string
  agp_min :: int
  agp_max :: "int option"
  agp_residents :: int

text \<open>The checks of an age interval, shared by two of the records.\<close>

definition check_age_interval :: "string \<Rightarrow> int \<Rightarrow> int option \<Rightarrow> core_exc + unit" where
  "check_age_interval code lo hi = checks [
     require (code \<noteq> []) (age_error ''age group code must be a non-empty string''),
     check_non_negative_int age_error ''min_age'' lo,
     (case hi of None \<Rightarrow> Inr () | Some m \<Rightarrow> checks [check_non_negative_int age_error ''max_age'' m,
        require (lo \<le> m) (age_error ''max_age must be >= min_age'')])]"

definition make_age_population :: "age_population \<Rightarrow> core_exc + age_population" where
  "make_age_population a = bindE (checks [
      check_age_interval (agp_code a) (agp_min a) (agp_max a),
      check_non_negative_int age_error ''residents'' (agp_residents a)]) (\<lambda>_. Inr a)"

record building_ages =
  bag_id :: string
  bag_total :: int
  bag_groups :: "age_population list"

definition make_building_ages :: "building_ages \<Rightarrow> core_exc + building_ages" where
  "make_building_ages b = bindE (checks [
      require (bag_id b \<noteq> []) (age_error ''building_id must be a non-empty string''),
      check_non_negative_int age_error ''total_residents'' (bag_total b),
      require (distinct (map agp_code (bag_groups b))) (age_error ''building age group codes must be unique''),
      require (sum_list (map agp_residents (bag_groups b)) = bag_total b)
        (age_error ''building age group residents must sum to total_residents'')]) (\<lambda>_. Inr b)"

record age_total =
  agt_code :: string
  agt_min :: int
  agt_max :: "int option"
  agt_target_share :: rat
  agt_residents :: int
  agt_achieved_share :: rat

definition make_age_total :: "age_total \<Rightarrow> core_exc + age_total" where
  "make_age_total a = bindE (checks [
      check_age_interval (agt_code a) (agt_min a) (agt_max a),
      check_ratio age_error ''target_share'' (agt_target_share a),
      check_non_negative_int age_error ''residents'' (agt_residents a),
      check_ratio age_error ''achieved_share'' (agt_achieved_share a)]) (\<lambda>_. Inr a)"

record age_result =
  ages_version :: string
  ages_fingerprint :: string
  ages_buildings :: "building_ages list"
  ages_totals :: "age_total list"
  ages_population :: int

text \<open>The column sums of the building rows.\<close>

definition column_totals :: "nat \<Rightarrow> building_ages list \<Rightarrow> int list" where
  "column_totals n bs = fold (\<lambda>b cs. map2 (+) cs (map agp_residents (bag_groups b))) bs (replicate n 0)"

definition make_age_result :: "age_result \<Rightarrow> core_exc + age_result" where
  "make_age_result r = bindE (checks [
      require (ages_version r \<noteq> []) (age_error ''scenario_version must be a non-empty string''),
      require (hex_digest (ages_fingerprint r)) (age_error ''scenario_fingerprint must be a lowercase SHA-256 hex digest''),
      check_non_negative_int age_error ''total_population'' (ages_population r),
      require (sorted_unique (map bag_id (ages_buildings r)))
        (age_error ''building age allocations must be sorted and unique''),
      require (ages_totals r \<noteq> []) (age_error ''totals must be a non-empty immutable tuple''),
      require (distinct (map agt_code (ages_totals r))) (age_error ''age group total codes must be unique''),
      require (sum_list (map bag_total (ages_buildings r)) = ages_population r)
        (age_error ''building resident totals must sum to total_population''),
      require (sum_list (map agt_residents (ages_totals r)) = ages_population r)
        (age_error ''age group totals must sum to total_population''),
      require (list_all (\<lambda>b. map agp_code (bag_groups b) = map agt_code (ages_totals r)) (ages_buildings r))
        (age_error ''every building must contain age groups in total order''),
      require (column_totals (length (ages_totals r)) (ages_buildings r) = map agt_residents (ages_totals r))
        (age_error ''building cohort columns must match age group totals''),
      require (list_all (\<lambda>t. close_ratio (agt_achieved_share t) (int_ratio (agt_residents t) (ages_population r))) (ages_totals r))
        (age_error ''achieved_share must match cohort residents / total population'')]) (\<lambda>_. Inr r)"

subsection \<open>Cohort totals\<close>

text \<open>\<open>sum(weights, Decimal(0))\<close>.\<close>

definition decimal_sum :: "rat list \<Rightarrow> rat" where
  "decimal_sum ws = foldl (\<lambda>acc w. dec (acc + w)) 0 ws"

definition quotas :: "int \<Rightarrow> rat list \<Rightarrow> rat list" where
  "quotas n ws = map (\<lambda>w. dec (dec (of_int n * w) / decimal_sum ws)) ws"

definition apportion_group_totals :: "int \<Rightarrow> age_share list \<Rightarrow> core_exc + int list" where
  "apportion_group_totals total_population groups = bindE (checks [
      check_non_negative_int age_error ''total_population'' total_population,
      require (groups \<noteq> []) (age_error ''groups must not be empty'')]) (\<lambda>_.
    if total_population = 0 then Inr (map (\<lambda>_. 0) groups)
    else let weights = map (repr_value \<circ> share_value) groups; weight_sum = decimal_sum weights in
    if weight_sum \<le> 0 then Inl (age_error ''age group share sum must be positive'')
    else let qs = quotas total_population weights; base = map floor qs; remaining = total_population - sum_list base;
        remainders = map (\<lambda>q. dec (q - of_int \<lfloor>q\<rfloor>)) qs;
        order = sort_key (\<lambda>i. (- (remainders ! i), i)) [0..<length groups];
        counts = increment_at (slice_to remaining order) base in
      if sum_list counts \<noteq> total_population then Inl (age_error ''cohort apportionment did not preserve population total'')
      else Inr counts)"

subsection \<open>Building rows\<close>

definition apportion_building_row :: "int \<Rightarrow> int list \<Rightarrow> int \<Rightarrow> core_exc + int list" where
  "apportion_building_row row_total columns population = bindE (checks [
      check_non_negative_int age_error ''row_total'' row_total,
      check_non_negative_int age_error ''remaining_population'' population,
      require (list_all (\<lambda>c. 0 \<le> c) columns) (age_error ''remaining group totals must be non-negative integers''),
      require (sum_list columns = population) (age_error ''remaining group totals must sum to remaining_population''),
      require (row_total \<le> population) (age_error ''building row cannot exceed remaining population'')]) (\<lambda>_.
    if row_total = 0 then Inr (map (\<lambda>_. 0) columns)
    else if population = 0 then Inl (age_error ''positive building row requires remaining population'')
    else let base = shares row_total population columns;
        remainders = map (\<lambda>(i, c). (row_total * c mod population, i)) (enumerate 0 columns);
        remaining = row_total - sum_list base;
        candidates = sort_key (\<lambda>(r, i). (- r, i)) (filter (\<lambda>(r, i). base ! i < columns ! i) remainders) in
      if int (length candidates) < remaining then Inl (age_error ''insufficient cohort remainder capacity for building row'')
      else let counts = increment_at (map snd (slice_to remaining candidates)) base in
      if sum_list counts \<noteq> row_total then Inl (age_error ''building cohort allocation did not preserve row total'')
      else if \<not> list_all2 (\<le>) counts columns
      then Inl (age_error ''building cohort allocation exceeded remaining column total'')
      else Inr counts)"

definition building_row_groups :: "age_share list \<Rightarrow> int list \<Rightarrow> core_exc + age_population list" where
  "building_row_groups groups counts = mapE (\<lambda>(g, n). make_age_population
     \<lparr>agp_code = share_code g, agp_min = share_min g, agp_max = share_max g, agp_residents = n\<rparr>) (zip groups counts)"

text \<open>The loop over the buildings, with the cohorts and the population that are left.\<close>

fun age_rows ::
  "age_share list \<Rightarrow> building_allocation list \<Rightarrow> int list \<Rightarrow> int \<Rightarrow> core_exc + building_ages list \<times> int list \<times> int" where
  "age_rows groups [] columns population = Inr ([], columns, population)"
| "age_rows groups (b # bs) columns population =
     bindE (apportion_building_row (ba_residents b) columns population) (\<lambda>counts.
     bindE (building_row_groups groups counts) (\<lambda>age_groups.
     bindE (make_building_ages \<lparr>bag_id = ba_id b, bag_total = ba_residents b, bag_groups = age_groups\<rparr>) (\<lambda>row.
     let columns' = map2 (-) columns counts; population' = population - ba_residents b in
     if \<not> list_all (\<lambda>c. 0 \<le> c) columns' then Inl (age_error ''age allocation exceeded remaining cohort total'')
     else if population' < 0 then Inl (age_error ''age allocation exceeded remaining population'')
     else bindE (age_rows groups bs columns' population') (\<lambda>(rows, rest). Inr (row # rows, rest)))))"

definition validate_age_inputs ::
  "(bytes \<Rightarrow> string) \<Rightarrow> nat \<Rightarrow> nat \<Rightarrow> population_result \<Rightarrow> scenario \<Rightarrow> core_exc + unit" where
  "validate_age_inputs h max_buildings max_groups p sc = checks [
     require (pop_version p = scn_version sc) (age_error ''population scenario version must match age scenario''),
     require (pop_fingerprint p = scenario_fingerprint h sc)
       (age_error ''population scenario fingerprint must match age scenario''),
     require (length (pop_allocations p) \<le> max_buildings) (age_error (''age allocation building limit exceeded: ''
       @ dec_digits (length (pop_allocations p)) @ '' > '' @ dec_digits max_buildings)),
     require (length (scn_groups sc) \<le> max_groups) (age_error (''age group limit exceeded: ''
       @ dec_digits (length (scn_groups sc)) @ '' > '' @ dec_digits max_groups))]"

definition age_total_of :: "int \<Rightarrow> age_share \<times> int \<Rightarrow> core_exc + age_total" where
  "age_total_of population x = (case x of (g, n) \<Rightarrow> make_age_total
     \<lparr>agt_code = share_code g, agt_min = share_min g, agt_max = share_max g, agt_target_share = share_value g,
      agt_residents = n, agt_achieved_share = int_ratio n population\<rparr>)"

definition allocate_ages ::
  "(bytes \<Rightarrow> string) \<Rightarrow> nat \<Rightarrow> nat \<Rightarrow> population_result \<Rightarrow> scenario \<Rightarrow> core_exc + age_result" where
  "allocate_ages h max_buildings max_groups p sc = bindE (validate_age_inputs h max_buildings max_groups p sc) (\<lambda>_.
     let ordered = sort_key ba_id (pop_allocations p); total_population = sum_list (map ba_residents ordered) in
     bindE (apportion_group_totals total_population (scn_groups sc)) (\<lambda>group_totals.
     bindE (age_rows (scn_groups sc) ordered group_totals total_population) (\<lambda>(rows, columns, population).
     if population \<noteq> 0 \<or> list_ex (\<lambda>c. c \<noteq> 0) columns
     then Inl (age_error ''age allocation did not preserve exact matrix margins'')
     else bindE (mapE (age_total_of total_population) (zip (scn_groups sc) group_totals)) (\<lambda>totals.
     make_age_result \<lparr>ages_version = scn_version sc, ages_fingerprint = scenario_fingerprint h sc,
       ages_buildings = rows, ages_totals = totals, ages_population = total_population\<rparr>))))"

end
