(* ===== verification/Employment.thy ===== *)
theory Employment
  imports Age_Allocation
begin

text \<open>
  \<open>core/urban_generator/demography/employment.py\<close>: the job density rules, the jobs of each building
  and the workforce of the generated population.
\<close>

abbreviation emp_error :: "string \<Rightarrow> core_exc" where
  "emp_error \<equiv> EmploymentEstimateError"

subsection \<open>Rules\<close>

definition JOB_USE_ORDER :: "building_use list" where
  "JOB_USE_ORDER = [building_use.MIXED, building_use.PUBLIC, building_use.COMMERCIAL]"

record job_rule =
  job_use :: building_use
  job_area :: rat

definition make_job_rule :: "building_use \<Rightarrow> rat \<Rightarrow> core_exc + job_rule" where
  "make_job_rule u area = bindE (checks [
      require (u \<in> set JOB_USE_ORDER) (emp_error ''job-density rules are allowed only for mixed/public/commercial uses''),
      check_positive_finite emp_error ''area_per_job_m2'' area]) (\<lambda>_.
    Inr \<lparr>job_use = u, job_area = area\<rparr>)"

record employment_config =
  emp_version :: string
  emp_rules :: "job_rule list"

fun job_use_index :: "building_use \<Rightarrow> nat" where
  "job_use_index building_use.MIXED = 0"
| "job_use_index building_use.PUBLIC = 1"
| "job_use_index building_use.COMMERCIAL = 2"
| "job_use_index building_use.RESIDENTIAL = 3"

definition make_employment_config :: "string \<Rightarrow> job_rule list \<Rightarrow> core_exc + employment_config" where
  "make_employment_config version rules = (let uses = map job_use rules;
       missing = sort (map use_value (filter (\<lambda>u. u \<notin> set uses) JOB_USE_ORDER)) in
     bindE (checks [
      require (version_re version) (emp_error (''invalid employment config version: '' @ py_repr version)),
      require (distinct uses) (emp_error ''job-density rule uses must be unique''),
      require (set uses = set JOB_USE_ORDER) (emp_error (''employment config must define mixed/public/commercial rules''
        @ (if missing = [] then [] else ''; missing='' @ comma_sep missing)))]) (\<lambda>_.
    Inr \<lparr>emp_version = version, emp_rules = sort_key (job_use_index \<circ> job_use) rules\<rparr>))"

definition job_rule_for :: "employment_config \<Rightarrow> building_use \<Rightarrow> core_exc + job_rule" where
  "job_rule_for c u = (case lookup job_use u (emp_rules c) of
     Some r \<Rightarrow> Inr r | None \<Rightarrow> Inl (emp_error (''no job-density rule for use: '' @ use_value u)))"

definition employment_json :: "employment_config \<Rightarrow> json" where
  "employment_json c = JObj [(''version'', JStr (emp_version c)), (''rules'', JArr (map (\<lambda>r. JObj [
     (''use'', JStr (use_value (job_use r))), (''area_per_job_m2'', JFloat (float_repr (job_area r)))]) (emp_rules c)))]"

definition employment_fingerprint :: "(bytes \<Rightarrow> string) \<Rightarrow> employment_config \<Rightarrow> string" where
  "employment_fingerprint h c = h (utf8_encode (json_text (json_norm (employment_json c))))"

subsection \<open>Records\<close>

definition make_employment_subject :: "area_metrics \<Rightarrow> assigned_attributes \<Rightarrow> core_exc + capacity_subject" where
  "make_employment_subject m a = bindE (checks [
      require (metric_building_id m = assigned_building_id a) (emp_error ''building metric and attribute ids must match''),
      require (metric_floors m = assigned_floors a) (emp_error ''building metric and attribute floors must match'')]) (\<lambda>_.
    Inr \<lparr>cap_metrics = m, cap_attributes = a\<rparr>)"

record job_estimate =
  je_id :: string
  je_use :: building_use
  je_total_gfa :: rat
  je_job_gfa :: rat
  je_area_per_job :: "rat option"
  je_jobs :: rat

definition make_job_estimate :: "job_estimate \<Rightarrow> core_exc + job_estimate" where
  "make_job_estimate e = bindE (checks [
      require (je_id e \<noteq> []) (emp_error ''building_id must be a non-empty string''),
      check_non_negative_finite emp_error ''total_gfa_m2'' (je_total_gfa e),
      check_non_negative_finite emp_error ''job_supporting_gfa_m2'' (je_job_gfa e),
      check_non_negative_finite emp_error ''jobs_estimate'' (je_jobs e),
      require (je_job_gfa e \<le> fl (je_total_gfa e + AREA_EPSILON))
        (emp_error ''job_supporting_gfa_m2 cannot exceed total_gfa_m2''),
      (if je_use e = building_use.RESIDENTIAL then checks [
         require (je_area_per_job e = None) (emp_error ''residential estimate must not carry area_per_job_m2''),
         require (je_job_gfa e = 0 \<and> je_jobs e = 0) (emp_error ''residential building must have zero job estimate'')]
       else case je_area_per_job e of
         None \<Rightarrow> Inl (emp_error ''non-residential job estimate requires area_per_job_m2'')
       | Some area \<Rightarrow> checks [
           check_positive_finite emp_error ''area_per_job_m2'' area,
           require (close_ratio (je_jobs e) (fl (je_job_gfa e / area)))
             (emp_error ''jobs_estimate must equal job-supporting GFA / area_per_job'')])]) (\<lambda>_. Inr e)"

record employment_summary =
  es_jobs :: rat
  es_population :: int
  es_working_ratio :: rat
  es_workforce :: rat

definition make_employment_summary :: "employment_summary \<Rightarrow> core_exc + employment_summary" where
  "make_employment_summary s = bindE (checks [
      check_non_negative_finite emp_error ''total_jobs_estimate'' (es_jobs s),
      check_non_negative_int emp_error ''generated_population'' (es_population s),
      check_ratio emp_error ''working_population_ratio'' (es_working_ratio s),
      check_non_negative_finite emp_error ''generated_workforce_estimate'' (es_workforce s),
      check_on (int_times (es_population s) (es_working_ratio s)) (close_ratio (es_workforce s))
        (emp_error ''generated workforce must equal population * working ratio'')]) (\<lambda>_. Inr s)"

record employment_result =
  er_scenario_version :: string
  er_scenario_fingerprint :: string
  er_config_version :: string
  er_config_fingerprint :: string
  er_buildings :: "job_estimate list"
  er_summary :: employment_summary

definition make_employment_result :: "employment_result \<Rightarrow> core_exc + employment_result" where
  "make_employment_result r = bindE (checks [
      require (er_scenario_version r \<noteq> []) (emp_error ''scenario_version must be a non-empty string''),
      require (hex_digest (er_scenario_fingerprint r)) (emp_error ''scenario_fingerprint must be a lowercase SHA-256 hex digest''),
      require (er_config_version r \<noteq> []) (emp_error ''config_version must be a non-empty string''),
      require (hex_digest (er_config_fingerprint r)) (emp_error ''config_fingerprint must be a lowercase SHA-256 hex digest''),
      require (sorted_unique (map je_id (er_buildings r))) (emp_error ''building job estimate ids must be sorted and unique''),
      check_on (fsumE (map je_jobs (er_buildings r))) (\<lambda>jobs. close_area jobs (es_jobs (er_summary r)))
        (emp_error ''building job estimates must sum to summary total'')]) (\<lambda>_. Inr r)"

subsection \<open>The estimate\<close>

definition estimate_building :: "scenario \<Rightarrow> employment_config \<Rightarrow> capacity_subject \<Rightarrow> core_exc + job_estimate" where
  "estimate_building sc config s = (let use = assigned_use (cap_attributes s); total_gfa = metric_gfa (cap_metrics s) in
     if use = building_use.RESIDENTIAL then
       make_job_estimate \<lparr>je_id = cap_subject_id s, je_use = use, je_total_gfa = total_gfa, je_job_gfa = 0,
         je_area_per_job = None, je_jobs = 0\<rparr>
     else let job_gfa = (if use = building_use.MIXED then fl (total_gfa * fl (1 - scn_gfa_share sc)) else total_gfa) in
       bindE (job_rule_for config use) (\<lambda>rule.
       make_job_estimate \<lparr>je_id = cap_subject_id s, je_use = use, je_total_gfa = total_gfa, je_job_gfa = job_gfa,
         je_area_per_job = Some (job_area rule), je_jobs = fl (job_gfa / job_area rule)\<rparr>))"

definition estimate_employment ::
  "(bytes \<Rightarrow> string) \<Rightarrow> nat \<Rightarrow> capacity_subject list \<Rightarrow> population_result \<Rightarrow> scenario \<Rightarrow> employment_config \<Rightarrow>
   core_exc + employment_result" where
  "estimate_employment h max_subjects subjects p sc config = bindE (checks [
      require (length subjects \<le> max_subjects) (emp_error (''employment subject limit exceeded: ''
        @ dec_digits (length subjects) @ '' > '' @ dec_digits max_subjects)),
      require (distinct (map cap_subject_id subjects)) (emp_error ''building ids must be unique''),
      require (pop_version p = scn_version sc) (emp_error ''population scenario version must match employment scenario''),
      require (pop_fingerprint p = scenario_fingerprint h sc)
        (emp_error ''population scenario fingerprint must match employment scenario'')]) (\<lambda>_.
    bindE (mapE (estimate_building sc config) (sort_key cap_subject_id subjects)) (\<lambda>buildings.
    bindE (fsumE (map je_jobs buildings)) (\<lambda>total_jobs.
    let population = dg_allocated (pop_diagnostics p) in
    bindE (int_times population (scn_working_ratio sc)) (\<lambda>workforce.
    bindE (make_employment_summary \<lparr>es_jobs = total_jobs, es_population = population,
      es_working_ratio = scn_working_ratio sc, es_workforce = workforce\<rparr>) (\<lambda>summary.
    make_employment_result \<lparr>er_scenario_version = scn_version sc, er_scenario_fingerprint = scenario_fingerprint h sc,
      er_config_version = emp_version config, er_config_fingerprint = employment_fingerprint h config,
      er_buildings = buildings, er_summary = summary\<rparr>)))))"

end
