(* ===== verification/Demographic_Aggregation.thy ===== *)
theory Demographic_Aggregation
  imports Employment
begin

text \<open>
  \<open>core/urban_generator/demography/aggregation.py\<close>: the join of population, ages and jobs by building
  and their sums by block and by zone, with the consistency checks across the levels.
\<close>

abbreviation agg_error :: "string \<Rightarrow> core_exc" where
  "agg_error \<equiv> DemographicAggregationError"

record aggregation_ref =
  ref_building :: string
  ref_block :: string
  ref_zone :: string
  ref_zone_class :: zone_class

definition make_aggregation_ref :: "string \<Rightarrow> string \<Rightarrow> string \<Rightarrow> zone_class \<Rightarrow> core_exc + aggregation_ref" where
  "make_aggregation_ref b k z c = bindE (checks [check_id agg_error ''building_id'' b, check_id agg_error ''block_id'' k,
      check_id agg_error ''zone_id'' z]) (\<lambda>_.
    Inr \<lparr>ref_building = b, ref_block = k, ref_zone = z, ref_zone_class = c\<rparr>)"

definition validate_age_groups :: "age_population list \<Rightarrow> int \<Rightarrow> core_exc + unit" where
  "validate_age_groups groups expected = checks [
     require (groups \<noteq> []) (agg_error ''age_groups must be a non-empty immutable tuple''),
     require (distinct (map agp_code groups)) (agg_error ''age group codes must be unique''),
     require (sum_list (map agp_residents groups) = expected) (agg_error ''age group residents must sum to population'')]"

record block_aggregate =
  blk_id :: string
  blk_zone :: string
  blk_zone_class :: zone_class
  blk_buildings :: int
  blk_population :: int
  blk_groups :: "age_population list"
  blk_jobs :: rat

definition make_block_aggregate :: "block_aggregate \<Rightarrow> core_exc + block_aggregate" where
  "make_block_aggregate b = bindE (checks [
      check_id agg_error ''block_id'' (blk_id b), check_id agg_error ''zone_id'' (blk_zone b),
      check_positive_int agg_error ''building_count'' (blk_buildings b),
      check_non_negative_int agg_error ''population'' (blk_population b),
      validate_age_groups (blk_groups b) (blk_population b),
      check_non_negative_finite agg_error ''jobs_estimate'' (blk_jobs b)]) (\<lambda>_. Inr b)"

record zone_aggregate =
  zon_id :: string
  zon_class :: zone_class
  zon_blocks :: int
  zon_buildings :: int
  zon_population :: int
  zon_groups :: "age_population list"
  zon_jobs :: rat

definition make_zone_aggregate :: "zone_aggregate \<Rightarrow> core_exc + zone_aggregate" where
  "make_zone_aggregate z = bindE (checks [
      check_id agg_error ''zone_id'' (zon_id z),
      check_positive_int agg_error ''block_count'' (zon_blocks z),
      check_positive_int agg_error ''building_count'' (zon_buildings z),
      check_non_negative_int agg_error ''population'' (zon_population z),
      validate_age_groups (zon_groups z) (zon_population z),
      check_non_negative_finite agg_error ''jobs_estimate'' (zon_jobs z)]) (\<lambda>_. Inr z)"

record aggregation_totals =
  tot_buildings :: int
  tot_blocks :: int
  tot_zones :: int
  tot_population :: int
  tot_groups :: "age_population list"
  tot_jobs :: rat

definition make_aggregation_totals :: "aggregation_totals \<Rightarrow> core_exc + aggregation_totals" where
  "make_aggregation_totals t = bindE (checks [
      check_non_negative_int agg_error ''building_count'' (tot_buildings t),
      check_non_negative_int agg_error ''block_count'' (tot_blocks t),
      check_non_negative_int agg_error ''zone_count'' (tot_zones t),
      check_non_negative_int agg_error ''population'' (tot_population t),
      validate_age_groups (tot_groups t) (tot_population t),
      check_non_negative_finite agg_error ''jobs_estimate'' (tot_jobs t)]) (\<lambda>_. Inr t)"

record aggregation_result =
  agg_scenario_version :: string
  agg_scenario_fingerprint :: string
  agg_config_version :: string
  agg_config_fingerprint :: string
  agg_blocks :: "block_aggregate list"
  agg_zones :: "zone_aggregate list"
  agg_totals :: aggregation_totals

text \<open>One level of \<open>_validate_level_totals\<close>: its counts, populations, jobs and cohorts.\<close>

definition validate_level ::
  "string \<Rightarrow> (int \<times> int \<times> rat \<times> age_population list) list \<Rightarrow> aggregation_totals \<Rightarrow> core_exc + unit" where
  "validate_level label items t = checks [
     require (sum_list (map fst items) = tot_buildings t)
       (agg_error (label @ '' building counts must preserve total building_count'')),
     require (sum_list (map (fst \<circ> snd) items) = tot_population t)
       (agg_error (label @ '' population must preserve total population'')),
     check_on (fsumE (map (fst \<circ> snd \<circ> snd) items)) (\<lambda>jobs. close_area jobs (tot_jobs t))
       (agg_error (label @ '' jobs must preserve total jobs_estimate'')),
     require (list_all (\<lambda>(i, g). sum_list (map (\<lambda>(_, _, _, gs). agp_residents (gs ! i)) items) = agp_residents g)
         (enumerate 0 (tot_groups t)))
       (agg_error (label @ '' age groups must preserve cohort totals''))]"

definition block_level :: "block_aggregate \<Rightarrow> int \<times> int \<times> rat \<times> age_population list" where
  "block_level b = (blk_buildings b, blk_population b, blk_jobs b, blk_groups b)"

definition zone_level :: "zone_aggregate \<Rightarrow> int \<times> int \<times> rat \<times> age_population list" where
  "zone_level z = (zon_buildings z, zon_population z, zon_jobs z, zon_groups z)"

definition validate_level_totals ::
  "block_aggregate list \<Rightarrow> zone_aggregate list \<Rightarrow> aggregation_totals \<Rightarrow> core_exc + unit" where
  "validate_level_totals blocks zones t = checks [
     validate_level ''block'' (map block_level blocks) t, validate_level ''zone'' (map zone_level zones) t]"

definition make_aggregation_result :: "aggregation_result \<Rightarrow> core_exc + aggregation_result" where
  "make_aggregation_result r = bindE (checks [
      require (agg_scenario_version r \<noteq> []) (agg_error ''scenario_version must be a non-empty string''),
      require (hex_digest (agg_scenario_fingerprint r)) (agg_error ''scenario_fingerprint must be a lowercase SHA-256 hex digest''),
      require (agg_config_version r \<noteq> []) (agg_error ''employment_config_version must be a non-empty string''),
      require (hex_digest (agg_config_fingerprint r))
        (agg_error ''employment_config_fingerprint must be a lowercase SHA-256 hex digest''),
      require (sorted_unique (map blk_id (agg_blocks r))) (agg_error ''block aggregates must be sorted and unique''),
      require (sorted_unique (map zon_id (agg_zones r))) (agg_error ''zone aggregates must be sorted and unique''),
      require (tot_blocks (agg_totals r) = int (length (agg_blocks r)))
        (agg_error ''totals block_count must match block aggregates''),
      require (tot_zones (agg_totals r) = int (length (agg_zones r)))
        (agg_error ''totals zone_count must match zone aggregates''),
      validate_level_totals (agg_blocks r) (agg_zones r) (agg_totals r)]) (\<lambda>_. Inr r)"

subsection \<open>Input checks\<close>

definition validate_aggregation_inputs ::
  "nat \<Rightarrow> aggregation_ref list \<Rightarrow> population_result \<Rightarrow> age_result \<Rightarrow> employment_result \<Rightarrow> core_exc + unit" where
  "validate_aggregation_inputs max_buildings refs p a e = (let expected = set (map ba_id (pop_allocations p)) in checks [
     require (length refs \<le> max_buildings) (agg_error (''demographic aggregation building limit exceeded: ''
       @ dec_digits (length refs) @ '' > '' @ dec_digits max_buildings)),
     require ((ages_version a, ages_fingerprint a) = (pop_version p, pop_fingerprint p))
       (agg_error ''age-group scenario provenance must match population''),
     require ((er_scenario_version e, er_scenario_fingerprint e) = (pop_version p, pop_fingerprint p))
       (agg_error ''employment scenario provenance must match population''),
     require (distinct (map ref_building refs)) (agg_error ''building aggregation refs must be unique''),
     require (set (map ref_building refs) = expected)
       (agg_error ''refs and population must contain identical building ids''),
     require (set (map bag_id (ages_buildings a)) = expected)
       (agg_error ''age groups and population must contain identical building ids''),
     require (set (map je_id (er_buildings e)) = expected)
       (agg_error ''employment and population must contain identical building ids''),
     require (list_all (\<lambda>b. map_option ba_residents (lookup ba_id (bag_id b) (pop_allocations p)) = Some (bag_total b))
         (ages_buildings a)) (agg_error ''building age totals must match population allocations''),
     require (ages_population a = dg_allocated (pop_diagnostics p))
       (agg_error ''age total population must match allocated population''),
     require (es_population (er_summary e) = dg_allocated (pop_diagnostics p))
       (agg_error ''employment population must match allocated population'')])"

subsection \<open>Aggregation\<close>

text \<open>
  The index built by the loop over the sorted references: the members of each block and zone in order
  (\<open>setdefault(...).append\<close>), the zone of each block and the class of each zone.
\<close>

record aggregation_index =
  ix_blocks :: "(string \<times> string list) list"
  ix_block_meta :: "(string \<times> (string \<times> zone_class)) list"
  ix_zones :: "(string \<times> string list) list"
  ix_zone_classes :: "(string \<times> zone_class) list"

definition add_member :: "string \<Rightarrow> string \<Rightarrow> (string \<times> string list) list \<Rightarrow> (string \<times> string list) list" where
  "add_member k b d = dict_put k ((case map_of d k of None \<Rightarrow> [] | Some bs \<Rightarrow> bs) @ [b]) d"

definition index_ref :: "aggregation_ref \<Rightarrow> aggregation_index \<Rightarrow> core_exc + aggregation_index" where
  "index_ref r ix = (let block_value = (ref_zone r, ref_zone_class r) in
     if map_of (ix_block_meta ix) (ref_block r) \<notin> {None, Some block_value}
     then Inl (agg_error ''all buildings in a block must reference the same zone'')
     else if map_of (ix_zone_classes ix) (ref_zone r) \<notin> {None, Some (ref_zone_class r)}
     then Inl (agg_error ''zone_id must map to exactly one zone_class'')
     else Inr \<lparr>ix_blocks = add_member (ref_block r) (ref_building r) (ix_blocks ix),
       ix_block_meta = dict_put (ref_block r) block_value (ix_block_meta ix),
       ix_zones = add_member (ref_zone r) (ref_building r) (ix_zones ix),
       ix_zone_classes = dict_put (ref_zone r) (ref_zone_class r) (ix_zone_classes ix)\<rparr>)"

fun index_refs :: "aggregation_ref list \<Rightarrow> aggregation_index \<Rightarrow> core_exc + aggregation_index" where
  "index_refs [] ix = Inr ix"
| "index_refs (r # rs) ix = bindE (index_ref r ix) (index_refs rs)"

definition empty_index :: aggregation_index where
  "empty_index = \<lparr>ix_blocks = [], ix_block_meta = [], ix_zones = [], ix_zone_classes = []\<rparr>"

text \<open>\<open>population_by_id[id]\<close> and the like: a dictionary of the records, the id is known to be present.\<close>

definition by_id :: "('r \<Rightarrow> string) \<Rightarrow> string \<Rightarrow> 'r list \<Rightarrow> core_exc + 'r" where
  "by_id key k rows = (case lookup key k rows of Some r \<Rightarrow> Inr r | None \<Rightarrow> Inl (agg_error (''KeyError: '' @ k)))"

definition same_group :: "age_population \<Rightarrow> age_total \<Rightarrow> bool" where
  "same_group g t = (agp_code g = agt_code t \<and> agp_min g = agt_min t \<and> agp_max g = agt_max t)"

text \<open>The loop of \<open>_aggregate_members\<close>, from the population, the jobs and the cohorts so far.\<close>

fun member_loop ::
  "population_result \<Rightarrow> age_result \<Rightarrow> employment_result \<Rightarrow> string list \<Rightarrow> int \<times> rat list \<times> int list \<Rightarrow>
   core_exc + int \<times> rat list \<times> int list" where
  "member_loop p a e [] acc = Inr acc"
| "member_loop p a e (b # bs) (population, jobs, cohorts) =
     bindE (by_id ba_id b (pop_allocations p)) (\<lambda>pi.
     bindE (by_id bag_id b (ages_buildings a)) (\<lambda>ai.
     bindE (by_id je_id b (er_buildings e)) (\<lambda>ji.
     if length (bag_groups ai) \<noteq> length (ages_totals a)
     then Inl (agg_error ''building age groups must match age total count'')
     else if \<not> list_all2 same_group (bag_groups ai) (ages_totals a)
     then Inl (agg_error ''building age group metadata must match age totals'')
     else member_loop p a e bs (population + ba_residents pi, jobs @ [je_jobs ji],
       map2 (+) cohorts (map agp_residents (bag_groups ai))))))"

definition aggregate_members ::
  "population_result \<Rightarrow> age_result \<Rightarrow> employment_result \<Rightarrow> string list \<Rightarrow>
   core_exc + int \<times> age_population list \<times> rat" where
  "aggregate_members p a e bs = bindE (member_loop p a e bs (0, [], map (\<lambda>_. 0) (ages_totals a))) (\<lambda>(population, jobs, cohorts).
     bindE (mapE (\<lambda>(t, n). make_age_population \<lparr>agp_code = agt_code t, agp_min = agt_min t, agp_max = agt_max t,
       agp_residents = n\<rparr>) (zip (ages_totals a) cohorts)) (\<lambda>groups.
     bindE (fsumE jobs) (\<lambda>jobs_total. Inr (population, groups, jobs_total))))"

definition build_block ::
  "population_result \<Rightarrow> age_result \<Rightarrow> employment_result \<Rightarrow> aggregation_index \<Rightarrow> string \<Rightarrow> core_exc + block_aggregate" where
  "build_block p a e ix k = (let bs = the (map_of (ix_blocks ix) k); (z, c) = the (map_of (ix_block_meta ix) k) in
     bindE (aggregate_members p a e bs) (\<lambda>(population, groups, jobs).
     make_block_aggregate \<lparr>blk_id = k, blk_zone = z, blk_zone_class = c, blk_buildings = int (length bs),
       blk_population = population, blk_groups = groups, blk_jobs = jobs\<rparr>))"

definition build_zone ::
  "population_result \<Rightarrow> age_result \<Rightarrow> employment_result \<Rightarrow> aggregation_index \<Rightarrow> block_aggregate list \<Rightarrow> string \<Rightarrow>
   core_exc + zone_aggregate" where
  "build_zone p a e ix blocks z = (let bs = the (map_of (ix_zones ix) z) in
     bindE (aggregate_members p a e bs) (\<lambda>(population, groups, jobs).
     make_zone_aggregate \<lparr>zon_id = z, zon_class = the (map_of (ix_zone_classes ix) z),
       zon_blocks = int (length (filter (\<lambda>b. blk_zone b = z) blocks)), zon_buildings = int (length bs),
       zon_population = population, zon_groups = groups, zon_jobs = jobs\<rparr>))"

definition aggregate ::
  "nat \<Rightarrow> aggregation_ref list \<Rightarrow> population_result \<Rightarrow> age_result \<Rightarrow> employment_result \<Rightarrow> core_exc + aggregation_result" where
  "aggregate max_buildings refs p a e = bindE (validate_aggregation_inputs max_buildings refs p a e) (\<lambda>_.
     let ordered = sort_key ref_building refs in
     bindE (index_refs ordered empty_index) (\<lambda>ix.
     bindE (mapE (build_block p a e ix) (sort (map fst (ix_blocks ix)))) (\<lambda>blocks.
     bindE (mapE (build_zone p a e ix blocks) (sort (map fst (ix_zones ix)))) (\<lambda>zones.
     bindE (mapE (\<lambda>t. make_age_population \<lparr>agp_code = agt_code t, agp_min = agt_min t, agp_max = agt_max t,
       agp_residents = agt_residents t\<rparr>) (ages_totals a)) (\<lambda>groups.
     bindE (make_aggregation_totals \<lparr>tot_buildings = int (length ordered), tot_blocks = int (length blocks),
       tot_zones = int (length zones), tot_population = dg_allocated (pop_diagnostics p), tot_groups = groups,
       tot_jobs = es_jobs (er_summary e)\<rparr>) (\<lambda>totals.
     make_aggregation_result \<lparr>agg_scenario_version = pop_version p, agg_scenario_fingerprint = pop_fingerprint p,
       agg_config_version = er_config_version e, agg_config_fingerprint = er_config_fingerprint e,
       agg_blocks = blocks, agg_zones = zones, agg_totals = totals\<rparr>))))))"

end
