(* ===== verification/Population_Facts.thy ===== *)
theory Population_Facts
  imports Population
begin

text \<open>
  The population allocation meets its specification: the apportionment always succeeds and is exact,
  and every record it builds passes its own checks.
\<close>

lemma increment_within_ok:
  "distinct is \<Longrightarrow> \<forall>i \<in> set is. i < length xs \<and> xs ! i < caps ! i \<Longrightarrow> increment_within caps is xs = Inr (increment_at is xs)"
proof (induction "is" arbitrary: xs)
  case (Cons i "is")
  then have "\<forall>k \<in> set is. k < length (xs[i := xs ! i + 1]) \<and> xs[i := xs ! i + 1] ! k < caps ! k"
    by (auto simp: nth_list_update)
  with Cons show ?case by (simp add: increment_at_Cons)
qed (simp add: increment_at_def)

lemma enumerate_zip_components:
  assumes "length ids = length caps"
  shows "map (\<lambda>(i, b, c). c) (enumerate k (zip ids caps)) = caps" "map (\<lambda>(i, b, c). i) (enumerate k (zip ids caps)) = [k..<k + length caps]"
proof -
  show "map (\<lambda>(i, b, c). c) (enumerate k (zip ids caps)) = caps" using assms
    by (induction ids caps arbitrary: k rule: list_induct2) simp_all
  show "map (\<lambda>(i, b, c). i) (enumerate k (zip ids caps)) = [k..<k + length caps]" using assms
    by (induction ids caps arbitrary: k rule: list_induct2) (simp_all add: upt_rec)
qed

lemma length_filter_map: "length (filter P (map g xs)) = length (filter (P \<circ> g) xs)"
  by (induction xs) auto

text \<open>What the apportionment of \<open>n\<close> residents within the capacities returns.\<close>

definition apportioned :: "int list \<Rightarrow> int \<Rightarrow> int list \<Rightarrow> bool" where
  "apportioned caps n rs \<longleftrightarrow> length rs = length caps \<and> sum_list rs = n
     \<and> (\<forall>i < length caps. 0 \<le> rs ! i \<and> rs ! i \<le> caps ! i)
     \<and> (\<forall>i < length caps. n * caps ! i div sum_list caps \<le> rs ! i \<and> rs ! i \<le> n * caps ! i div sum_list caps + 1)"

lemma apportion_population_ok:
  assumes "length ids = length caps" "0 \<le> n" "n \<le> sum_list caps" "\<forall>c \<in> set caps. 0 \<le> c"
  shows "\<exists>rs. apportion_population ids caps n = Inr rs \<and> apportioned caps n rs"
proof (cases "n = 0 \<or> sum_list caps = 0")
  case True
  with assms have n: "n = 0" by auto
  have "apportion_population ids caps n = Inr (map (\<lambda>_. 0) ids)" using assms(1,3) n by (simp add: apportion_population_def)
  moreover have "apportioned caps n (map (\<lambda>_. 0) ids)" using assms(1,4) n by (simp add: apportioned_def)
  ultimately show ?thesis by blast
next
  case False
  let ?s = "sum_list caps"
  have s: "0 < ?s" using assms(2,3) False by auto
  let ?base = "shares n ?s caps" and ?f = "\<lambda>(r :: int, b :: string, i :: nat). (- r, b)"
  let ?P = "\<lambda>(r :: int, b :: string, i :: nat). 0 < r" and ?ix = "\<lambda>(r :: int, b :: string, i :: nat). i"
  let ?rem = "map (\<lambda>(i, b, c). (n * c mod ?s, b, i)) (enumerate 0 (zip ids caps))"
  let ?left = "n - sum_list ?base"
  let ?is = "map ?ix (slice_to ?left (sort_key ?f ?rem))"
  have "length (filter ?P ?rem) = length (filter (\<lambda>w. 0 < n * w mod ?s) (map (\<lambda>(i, b, c). c) (enumerate 0 (zip ids caps))))"
    unfolding length_filter_map by (rule arg_cong[where f = length], rule filter_cong) auto
  then have pos: "length (filter ?P ?rem) = length (filter (\<lambda>w. 0 < n * w mod ?s) caps)"
    by (simp only: enumerate_zip_components(1)[OF assms(1)])
  have "map ?ix ?rem = map (\<lambda>(i, b, c). i) (enumerate 0 (zip ids caps))" by auto
  then have ix: "map ?ix ?rem = [0..<length caps]" by (simp only: enumerate_zip_components(2)[OF assms(1)]) simp
  have left: "0 \<le> ?left" "?left \<le> int (length (filter ?P ?rem))"
    unfolding pos using units_left[OF s refl, of n] by auto
  have picked: "length ?is = nat ?left \<and> distinct ?is \<and> (\<forall>i \<in> set ?is. \<exists>x \<in> set ?rem. ?ix x = i \<and> ?P x)"
  proof (rule picked_positions[OF _ left])
    show "\<And>x y. ?f x \<le> ?f y \<Longrightarrow> ?P y \<Longrightarrow> ?P x" by (auto simp: less_eq_prod_def)
    show "distinct (map ?ix ?rem)" unfolding ix by simp
  qed
  have below: "\<forall>i \<in> set ?is. i < length ?base \<and> ?base ! i < caps ! i"
  proof
    fix i assume "i \<in> set ?is"
    with picked obtain x where x: "x \<in> set ?rem" "?ix x = i" "?P x" by blast
    from x(1) obtain j b c where m: "(j, b, c) \<in> set (enumerate 0 (zip ids caps))" and xe: "x = (n * c mod ?s, b, j)" by auto
    from x(2,3) have j: "j = i" and c: "0 < n * c mod ?s" by (simp_all add: xe)
    from m assms(1) have i: "i < length caps" "c = caps ! i" by (auto simp: in_set_enumerate_eq j)
    moreover have "n * c div ?s < c" using assms i s c by (intro share_below_weight) auto
    ultimately show "i < length ?base \<and> ?base ! i < caps ! i" by (simp add: shares_def)
  qed
  let ?rs = "increment_at ?is ?base"
  have "increment_within caps ?is ?base = Inr ?rs" using picked below by (intro increment_within_ok) auto
  moreover have sum: "sum_list ?rs = n"
    using sum_increment_at[of ?is ?base] below picked left by simp
  ultimately have "apportion_population ids caps n = Inr ?rs"
    using False assms(1,2,3) by (simp add: apportion_population_def Let_def)
  moreover have "apportioned caps n ?rs" unfolding apportioned_def
  proof (intro conjI allI impI)
    fix i assume i: "i < length caps"
    have w: "0 \<le> caps ! i" using assms(4) i by simp
    have r: "?rs ! i = n * caps ! i div ?s + (if i \<in> set ?is then 1 else 0)"
      using nth_increment_at[of ?is i ?base] picked i by (simp add: shares_def)
    show "n * caps ! i div ?s \<le> ?rs ! i" "?rs ! i \<le> n * caps ! i div ?s + 1" by (simp_all add: r)
    show "0 \<le> ?rs ! i" using r shares_nonneg[OF s assms(2) w] by simp
    show "?rs ! i \<le> caps ! i"
      using r below i share_le_weight[OF s w assms(3)] by (cases "i \<in> set ?is") (auto simp: shares_def)
  qed (use sum in \<open>simp_all add: shares_def\<close>)
  ultimately show ?thesis by blast
qed

lemma is_finite_ratio: "0 \<le> x \<Longrightarrow> x \<le> 1 \<Longrightarrow> is_finite x"
  by (simp add: is_finite_def)

lemma int_ratio_bounds: "0 \<le> a \<Longrightarrow> a \<le> b \<Longrightarrow> 0 \<le> int_ratio a b \<and> int_ratio a b \<le> 1"
  by (auto simp: int_ratio_def intro!: fl_nonneg fl_le_1)

lemma integer_capacity_nonneg: "0 \<le> integer_capacity x"
  by (simp add: integer_capacity_def)

lemma mapE_list_all: "mapE f xs = Inr ys \<Longrightarrow> (\<And>x y. f x = Inr y \<Longrightarrow> Q y) \<Longrightarrow> list_all Q ys"
  by (induction xs arbitrary: ys) (auto simp: bindE_Inr_iff)

lemma make_building_allocation_Inr: "make_building_allocation b = Inr b' \<Longrightarrow> make_building_allocation b' = Inr b'"
  by (auto simp: make_building_allocation_def bindE_Inr_iff)

lemma mapE_map: "mapE f (map g xs) = mapE (f \<circ> g) xs"
  by (induction xs) auto

lemma resolve_target_total_ok:
  "target_wf t \<Longrightarrow> (\<forall>g. t = GrowthRate g \<longrightarrow> supplied) \<Longrightarrow> \<exists>n \<ge> 0. resolve_target_total t b supplied = Inr n"
  by (cases t) (auto simp: resolve_target_total_def Let_def)

text \<open>A capacity result whose records passed their constructors.\<close>

definition capacity_wf :: "capacity_result \<Rightarrow> bool" where
  "capacity_wf r \<longleftrightarrow> make_capacity_result r = Inr r \<and> list_all (\<lambda>b. make_building_capacity b = Inr b) (caps_buildings r)"

lemma make_building_capacity_Inr:
  "make_building_capacity b = Inr b' \<Longrightarrow> b' = b \<and> bc_id b \<noteq> [] \<and> is_finite (bc_residents b) \<and> 0 \<le> bc_residents b"
  by (auto simp: make_building_capacity_def bindE_Inr_iff)

definition allocation_rows :: "building_capacity list \<Rightarrow> int list \<Rightarrow> building_allocation list" where
  "allocation_rows bs rs = map (\<lambda>(b, n). allocation_row b (integer_capacity (bc_residents b)) n) (zip bs rs)"

lemma allocation_rows_columns:
  assumes "length rs = length bs"
  shows "map ba_id (allocation_rows bs rs) = map bc_id bs"
    "map ba_integer_capacity (allocation_rows bs rs) = map (integer_capacity \<circ> bc_residents) bs"
    "map ba_residents (allocation_rows bs rs) = rs"
  using assms by (induction rs bs rule: list_induct2) (auto simp: allocation_rows_def allocation_row_def)

lemma allocations_ok:
  assumes "length rs = length bs" "list_all (\<lambda>b. make_building_capacity b = Inr b) bs"
    "\<forall>i < length bs. 0 \<le> rs ! i \<and> rs ! i \<le> integer_capacity (bc_residents (bs ! i))"
  shows "mapE allocation_of (zip (zip bs (map (integer_capacity \<circ> bc_residents) bs)) rs) =
    Inr (allocation_rows bs rs)"
  using assms
proof (induction rs bs rule: list_induct2)
  case (Cons n rs b bs)
  have b: "bc_id b \<noteq> []" "is_finite (bc_residents b)" "0 \<le> bc_residents b"
    using Cons.prems(1) make_building_capacity_Inr[of b b] by auto
  have n: "0 \<le> n" "n \<le> integer_capacity (bc_residents b)" using Cons.prems(2) by force+
  have "0 \<le> rs ! i \<and> rs ! i \<le> integer_capacity (bc_residents (bs ! i))" if "i < length bs" for i
    using Cons.prems(2) that by (metis Suc_less_eq length_Cons nth_Cons_Suc)
  with Cons show ?case
    using b n int_ratio_bounds[OF n] is_finite_ratio
    by (simp add: allocation_of_def make_building_allocation_def allocation_rows_def allocation_row_def)
qed (simp add: allocation_rows_def)

subsection \<open>Capacities\<close>

text \<open>A subject whose GFA is a float, and whose derived capacities do not overflow.\<close>

definition subject_wf :: "scenario \<Rightarrow> capacity_subject \<Rightarrow> bool" where
  "subject_wf sc s \<longleftrightarrow> cap_subject_id s \<noteq> [] \<and> representable (metric_gfa (cap_metrics s)) \<and> 0 \<le> metric_gfa (cap_metrics s)
     \<and> is_finite (metric_gfa (cap_metrics s)) \<and> is_finite (bc_residents (capacity_row sc s))
     \<and> is_finite (bc_households (capacity_row sc s))"

lemma is_finite_mono: "0 \<le> x \<Longrightarrow> x \<le> y \<Longrightarrow> is_finite y \<Longrightarrow> is_finite x"
  by (auto simp: is_finite_def)

lemma fl_add_eps: "representable x \<Longrightarrow> 0 \<le> x \<Longrightarrow> 0 \<le> e \<Longrightarrow> y \<le> x \<Longrightarrow> y \<le> fl (x + e)"
  using fl_ge[of x "x + e"] fl_nonneg[of "x + e"] by (cases "x + e = 0") auto

lemma residential_share_ratio: "0 \<le> m \<Longrightarrow> m \<le> 1 \<Longrightarrow> 0 \<le> residential_share u m \<and> residential_share u m \<le> 1"
  by (cases u) auto

lemma calculate_subject_ok:
  assumes sc: "scenario_wf sc" and s: "subject_wf sc s"
  shows "calculate_subject sc s = Inr (capacity_row sc s) \<and> make_building_capacity (capacity_row sc s) = Inr (capacity_row sc s)"
proof -
  let ?g = "metric_gfa (cap_metrics s)" and ?share = "residential_share (assigned_use (cap_attributes s)) (scn_gfa_share sc)"
  let ?r = "fl (?g * ?share)" let ?o = "fl (?r * scn_occupancy sc)"
  have r: "0 \<le> ?share" "?share \<le> 1" "0 \<le> scn_occupancy sc" "scn_occupancy sc \<le> 1"
    "0 < scn_area_per_person sc" "0 < scn_household_size sc"
    using sc residential_share_ratio[of "scn_gfa_share sc"] by (auto simp: scenario_wf_def)
  have g: "representable ?g" "0 \<le> ?g" "is_finite ?g" using s by (auto simp: subject_wf_def)
  have res: "0 \<le> ?r" "?r \<le> ?g" "representable ?r"
    using g r by (auto intro!: fl_nonneg fl_mult_ratio representable_fl)
  have occ: "0 \<le> ?o" "?o \<le> ?r" using res r by (auto intro!: fl_nonneg fl_mult_ratio)
  have fin: "is_finite ?r" "is_finite ?o" using is_finite_mono g(3) res occ by (meson, meson order_trans)
  have eps: "0 \<le> AREA_EPSILON" unfolding AREA_EPSILON_def by (rule fl_nonneg) simp
  have bounds: "?r \<le> fl (?g + AREA_EPSILON)" "?o \<le> fl (?r + AREA_EPSILON)"
    using fl_add_eps g res occ eps by blast+
  have nn: "0 \<le> bc_residents (capacity_row sc s)" "0 \<le> bc_households (capacity_row sc s)"
    using occ r by (auto simp: capacity_row_def Let_def intro!: fl_nonneg divide_nonneg_pos)
  have "make_building_capacity (capacity_row sc s) = Inr (capacity_row sc s)"
    unfolding make_building_capacity_def using s g res occ fin bounds nn
    by (simp add: subject_wf_def) (simp add: capacity_row_def Let_def)
  then show ?thesis by (simp add: calculate_subject_def)
qed

lemma calculate_capacity_ok:
  assumes digest: "\<forall>b. hex_digest (h b)" and sc: "scenario_wf sc" and subjects: "\<forall>s \<in> set subjects. subject_wf sc s"
    and limits: "length subjects \<le> max_subjects" "distinct (map cap_subject_id subjects)"
  shows "\<exists>r. calculate_capacity h max_subjects sc subjects = Inr r \<and> capacity_wf r
    \<and> caps_version r = scn_version sc \<and> caps_fingerprint r = scenario_fingerprint h sc
    \<and> caps_buildings r = map (capacity_row sc) (sort_key cap_subject_id subjects)"
proof -
  let ?ss = "sort_key cap_subject_id subjects"
  let ?r = "\<lparr>caps_version = scn_version sc, caps_fingerprint = scenario_fingerprint h sc,
    caps_buildings = map (capacity_row sc) ?ss\<rparr>"
  have rows: "mapE (calculate_subject sc) ?ss = Inr (map (capacity_row sc) ?ss)"
    using subjects calculate_subject_ok[OF sc] by (intro mapE_total) auto
  have ids: "map bc_id (map (capacity_row sc) ?ss) = map cap_subject_id ?ss" by (auto simp: capacity_row_def Let_def)
  have "mset (map cap_subject_id ?ss) = mset (map cap_subject_id subjects)" by simp
  then have "distinct (map cap_subject_id ?ss)" using limits(2) by (metis mset_eq_imp_distinct_iff)
  then have result: "make_capacity_result ?r = Inr ?r"
    using digest sc unfolding make_capacity_result_def capacity_result.simps ids
    by (simp add: scenario_wf_def scenario_fingerprint_def sorted_unique_def)
  then have "calculate_capacity h max_subjects sc subjects = Inr ?r"
    using limits rows by (simp add: calculate_capacity_def)
  moreover have "capacity_wf ?r"
    using result subjects calculate_subject_ok[OF sc] by (simp add: capacity_wf_def list_all_iff)
  ultimately show ?thesis by (intro exI[of _ ?r]) simp
qed

subsection \<open>Allocation\<close>

text \<open>
  What an allocation returns: the buildings of the capacities in their order, each within its integer
  capacity, apportioned to the target that the capacity allows.
\<close>

definition allocation_meets :: "capacity_result \<Rightarrow> int \<Rightarrow> int \<Rightarrow> population_result \<Rightarrow> bool" where
  "allocation_meets capacities target baseline r \<longleftrightarrow>
     map ba_id (pop_allocations r) = map bc_id (caps_buildings capacities)
     \<and> map ba_integer_capacity (pop_allocations r) = map (integer_capacity \<circ> bc_residents) (caps_buildings capacities)
     \<and> apportioned (map ba_integer_capacity (pop_allocations r))
         (min (max 0 (target - baseline)) (sum_list (map ba_integer_capacity (pop_allocations r))))
         (map ba_residents (pop_allocations r))
     \<and> dg_allocated (pop_diagnostics r) = sum_list (map ba_residents (pop_allocations r))
     \<and> (dg_status (pop_diagnostics r) = CAPACITY_EXHAUSTED \<longleftrightarrow>
          sum_list (map ba_integer_capacity (pop_allocations r)) < target - baseline)"

lemma allocation_status_exhausted:
  "0 \<le> c \<Longrightarrow> allocation_status (max 0 (t - b)) (min (max 0 (t - b)) c) (max 0 (b - t)) = CAPACITY_EXHAUSTED \<longleftrightarrow> c < t - b"
  by (auto simp: allocation_status_def)

lemma allocate_population_ok:
  assumes digest: "\<forall>b. hex_digest (h b)" and sc: "scenario_wf sc" and caps: "capacity_wf capacities"
    and prov: "caps_version capacities = scn_version sc" "caps_fingerprint capacities = scenario_fingerprint h sc"
    and limit: "length (caps_buildings capacities) \<le> max_buildings" and base: "\<forall>b. baseline = Some b \<longrightarrow> 0 \<le> b"
    and target: "resolve_target_total (scn_target sc) (case baseline of None \<Rightarrow> 0 | Some b \<Rightarrow> b) (baseline \<noteq> None) = Inr t"
  shows "\<exists>r. allocate_population h max_buildings capacities sc baseline = Inr r
    \<and> allocation_meets capacities t (case baseline of None \<Rightarrow> 0 | Some b \<Rightarrow> b) r
    \<and> make_population_result r = Inr r \<and> list_all (\<lambda>b. make_building_allocation b = Inr b) (pop_allocations r)
    \<and> pop_version r = scn_version sc \<and> pop_fingerprint r = scenario_fingerprint h sc"
proof -
  let ?B = "case baseline of None \<Rightarrow> 0 | Some b \<Rightarrow> b" and ?bs = "caps_buildings capacities"
  let ?caps = "map (integer_capacity \<circ> bc_residents) ?bs"
  let ?A = "min (max 0 (t - ?B)) (sum_list ?caps)"
  let ?d = "\<lparr>dg_status = allocation_status (max 0 (t - ?B)) ?A (max 0 (?B - t)), dg_target = t, dg_baseline = ?B,
    dg_generated_target = max 0 (t - ?B), dg_capacity = sum_list ?caps, dg_allocated = ?A,
    dg_unmet = max 0 (t - ?B) - ?A, dg_baseline_excess = max 0 (?B - t)\<rparr>"
  have su: "sorted_unique (map bc_id ?bs)" and bs: "list_all (\<lambda>b. make_building_capacity b = Inr b) ?bs"
    using caps by (auto simp: capacity_wf_def make_capacity_result_def bindE_Inr_iff)
  have ordered: "sort_key bc_id ?bs = ?bs" using su by (simp add: sorted_unique_def stable_sorted)
  have B: "0 \<le> ?B" using base by (cases baseline) auto
  have growth: "\<forall>g. scn_target sc = GrowthRate g \<longrightarrow> baseline \<noteq> None" using target by (auto simp: resolve_target_total_def split: if_splits)
  have tw: "target_wf (scn_target sc)" using sc by (simp add: scenario_wf_def)
  have t: "0 \<le> t" using resolve_target_total_ok[OF tw growth, of ?B] target by auto
  have valid: "validate_allocation_inputs h max_buildings capacities sc baseline = Inr ()"
    using prov limit base growth
    by (auto simp: validate_allocation_inputs_def split: population_target.splits option.splits)
  have ints: "mapE (checked_integer_capacity \<circ> bc_residents) ?bs = Inr ?caps"
    using bs by (intro mapE_total) (auto simp: checked_integer_capacity_def check_non_negative_finite_def list_all_iff
        dest!: bspec make_building_capacity_Inr)
  have nonneg: "\<forall>c \<in> set ?caps. 0 \<le> c" by (auto simp: integer_capacity_nonneg)
  then have caps0: "0 \<le> sum_list ?caps" by (intro sum_list_nonneg) auto
  then have A: "0 \<le> ?A" "?A \<le> sum_list ?caps" by auto
  obtain rs where rs: "apportion_population (map bc_id ?bs) ?caps ?A = Inr rs" "apportioned ?caps ?A rs"
    using apportion_population_ok[OF _ A nonneg, of "map bc_id ?bs"] by auto
  let ?al = "allocation_rows ?bs rs"
  have len: "length rs = length ?bs" using rs(2) by (simp add: apportioned_def)
  note cols = allocation_rows_columns[OF len]
  have alloc: "mapE allocation_of (zip (zip ?bs ?caps) rs) = Inr ?al"
    using rs(2) by (intro allocations_ok[OF len bs]) (simp add: apportioned_def)
  have diag: "make_diagnostics ?d = Inr ?d" using t B A by (simp add: make_diagnostics_def)
  let ?r = "\<lparr>pop_version = scn_version sc, pop_fingerprint = scenario_fingerprint h sc, pop_allocations = ?al, pop_diagnostics = ?d\<rparr>"
  have result: "make_population_result ?r = Inr ?r"
    using digest sc su rs(2) unfolding make_population_result_def
    by (simp add: cols scenario_wf_def scenario_fingerprint_def apportioned_def)
  have "allocate_population h max_buildings capacities sc baseline = Inr ?r"
    unfolding allocate_population_def valid bindE.simps Let_def target ordered ints rs(1) alloc diag result ..
  moreover have "allocation_meets capacities t ?B ?r"
    using rs(2) allocation_status_exhausted[OF caps0] unfolding allocation_meets_def
    by (simp add: cols apportioned_def)
  moreover have "list_all (\<lambda>b. make_building_allocation b = Inr b) ?al"
    using alloc by (rule mapE_list_all) (auto simp: allocation_of_def dest: make_building_allocation_Inr split: prod.splits)
  ultimately show ?thesis using result by (intro exI[of _ ?r]) simp
qed

end
