(* ===== verification/Age_Facts.thy ===== *)
theory Age_Facts
  imports Age_Allocation Population_Facts
begin

text \<open>
  The age allocation meets its specification: building rows and cohort totals are exact, and every
  record passes its own checks. The cohort quotas are \<open>Decimal\<close> numbers: an error bound on their
  rounding shows that the floors never exceed the population and never leave more than one unit per
  cohort.
\<close>

subsection \<open>Building rows\<close>

lemma enumerate_components:
  "map (\<lambda>(i, c). c) (enumerate k cs) = cs" "map (\<lambda>(i, c). i) (enumerate k cs) = [k..<k + length cs]"
  by (induction cs arbitrary: k) (simp_all add: upt_rec)

definition row_apportioned :: "int list \<Rightarrow> int \<Rightarrow> int list \<Rightarrow> bool" where
  "row_apportioned columns n counts \<longleftrightarrow> length counts = length columns \<and> sum_list counts = n
     \<and> (\<forall>i < length columns. 0 \<le> counts ! i \<and> counts ! i \<le> columns ! i
        \<and> n * columns ! i div sum_list columns \<le> counts ! i \<and> counts ! i \<le> n * columns ! i div sum_list columns + 1)"

lemma apportion_building_row_ok:
  assumes cols: "\<forall>c \<in> set columns. 0 \<le> c" and n: "0 \<le> n" "n \<le> sum_list columns"
  shows "\<exists>counts. apportion_building_row n columns (sum_list columns) = Inr counts \<and> row_apportioned columns n counts"
proof (cases "n = 0")
  case True
  have "list_all (\<lambda>c. 0 \<le> c) columns" using cols by (simp add: list_all_iff)
  then have "apportion_building_row n columns (sum_list columns) = Inr (map (\<lambda>_. 0) columns)"
    using True n by (simp add: apportion_building_row_def)
  moreover have "row_apportioned columns n (map (\<lambda>_. 0) columns)" using cols True by (simp add: row_apportioned_def)
  ultimately show ?thesis by blast
next
  case False
  let ?s = "sum_list columns" and ?base = "shares n (sum_list columns) columns"
  have s: "0 < ?s" using n False by simp
  let ?f = "\<lambda>(r :: int, i :: nat). (- r, i)" and ?P = "\<lambda>(r :: int, i :: nat). 0 < r"
  let ?Q = "\<lambda>(r :: int, i :: nat). ?base ! i < columns ! i"
  let ?rem = "map (\<lambda>(i, c). (n * c mod ?s, i)) (enumerate 0 columns)"
  let ?left = "n - sum_list ?base" and ?xs = "filter ?Q ?rem"
  let ?is = "map snd (slice_to ?left (sort_key ?f ?xs))"
  have rem: "\<exists>c. r = n * c mod ?s \<and> i < length columns \<and> c = columns ! i" if "(r, i) \<in> set ?rem" for r i
    using that by (auto simp: in_set_enumerate_eq)
  have below: "?base ! i < columns ! i \<and> i < length columns" if "(r, i) \<in> set ?rem" "0 < r" for r i
  proof -
    from rem[OF that(1)] have i: "i < length columns" "0 < n * columns ! i mod ?s" using that(2) by auto
    moreover have "n * columns ! i div ?s < columns ! i" using cols i s n by (intro share_below_weight) auto
    ultimately show ?thesis by (simp add: shares_def)
  qed
  have "filter ?P ?xs = filter ?P ?rem" unfolding filter_filter
  proof (rule filter_cong[OF refl])
    fix x assume "x \<in> set ?rem"
    then show "(?Q x \<and> ?P x) = ?P x" using below[of "fst x" "snd x"] by (simp add: case_prod_beta del: set_map) blast
  qed
  then have "length (filter ?P ?xs) = length (filter ?P ?rem)" by simp
  also have "\<dots> = length (filter (\<lambda>c. 0 < n * c mod ?s) (map (\<lambda>(i, c). c) (enumerate 0 columns)))"
    unfolding length_filter_map by (rule arg_cong[where f = length], rule filter_cong) auto
  finally have pos: "length (filter ?P ?xs) = length (filter (\<lambda>c. 0 < n * c mod ?s) columns)"
    by (simp only: enumerate_components(1))
  have left: "0 \<le> ?left" "?left \<le> int (length (filter ?P ?xs))" unfolding pos using units_left[OF s refl, of n] by auto
  then have enough: "?left \<le> int (length ?xs)" using length_filter_le[of ?P ?xs] by linarith
  have "map snd ?rem = map (\<lambda>(i, c). i) (enumerate 0 columns)" by auto
  then have ix: "map snd ?rem = [0..<length columns]" by (simp only: enumerate_components(2)) simp
  have picked: "length ?is = nat ?left \<and> distinct ?is \<and> (\<forall>i \<in> set ?is. \<exists>x \<in> set ?xs. snd x = i \<and> ?P x)"
  proof (rule picked_positions[OF _ left])
    show "\<And>x y. ?f x \<le> ?f y \<Longrightarrow> ?P y \<Longrightarrow> ?P x" by (auto simp: less_eq_prod_def)
    show "distinct (map snd ?xs)" by (rule distinct_map_filter) (simp only: ix distinct_upt)
  qed
  have chosen: "i < length ?base \<and> ?base ! i < columns ! i" if i: "i \<in> set ?is" for i
  proof -
    from picked i obtain x where x: "x \<in> set ?xs" "snd x = i" "?P x" by blast
    from x(1) have "x \<in> set ?rem" by (rule subsetD[OF filter_is_subset])
    then have m: "(fst x, i) \<in> set ?rem" unfolding x(2)[symmetric] prod.collapse .
    have "0 < fst x" using x(3) by (simp add: case_prod_beta)
    moreover have "length ?base = length columns" by (simp add: shares_def)
    ultimately show ?thesis using below[OF m] by simp
  qed
  let ?rs = "increment_at ?is ?base"
  have lens: "\<forall>i \<in> set ?is. i < length ?base" using chosen by blast
  have "int (length ?is) = ?left" unfolding conjunct1[OF picked] using left(1) by simp
  then have sum: "sum_list ?rs = n" unfolding sum_increment_at[OF lens] by linarith
  have r: "?rs ! i = n * columns ! i div ?s + (if i \<in> set ?is then 1 else 0)" if i: "i < length columns" for i
  proof -
    have "i < length ?base" and b: "?base ! i = n * columns ! i div ?s" using i by (simp_all add: shares_def)
    from nth_increment_at[OF conjunct1[OF conjunct2[OF picked]] this(1)] show ?thesis unfolding b .
  qed
  have bounds: "0 \<le> ?rs ! i \<and> ?rs ! i \<le> columns ! i" if i: "i < length columns" for i
  proof -
    have w: "0 \<le> columns ! i" using cols i by simp
    show ?thesis using r[OF i] chosen[of i] i share_le_weight[OF s w n(2)] shares_nonneg[OF s n(1) w]
      by (cases "i \<in> set ?is") (auto simp: shares_def)
  qed
  have le: "list_all2 (\<le>) ?rs columns" using bounds by (simp add: list_all2_conv_all_nth shares_def)
  have "apportion_building_row n columns ?s = Inr ?rs"
    using cols n s False enough le sum by (simp add: apportion_building_row_def Let_def list_all_iff not_less)
  moreover have "row_apportioned columns n ?rs"
    using sum bounds r by (auto simp: row_apportioned_def shares_def)
  ultimately show ?thesis by blast
qed

subsection \<open>All rows\<close>

lemma row_groups_ok:
  assumes "length counts = length groups" "\<forall>n \<in> set counts. 0 \<le> n" "list_all share_wf groups"
  shows "building_row_groups groups counts = Inr (map (\<lambda>(g, n).
    \<lparr>agp_code = share_code g, agp_min = share_min g, agp_max = share_max g, agp_residents = n\<rparr>) (zip groups counts))"
  unfolding building_row_groups_def using assms
  by (induction counts groups rule: list_induct2)
    (auto simp: make_age_population_def check_age_interval_def share_wf_def split: option.splits)

definition age_row :: "age_share list \<Rightarrow> building_allocation \<Rightarrow> int list \<Rightarrow> building_ages" where
  "age_row groups b counts = \<lparr>bag_id = ba_id b, bag_total = ba_residents b, bag_groups = map (\<lambda>(g, n).
    \<lparr>agp_code = share_code g, agp_min = share_min g, agp_max = share_max g, agp_residents = n\<rparr>) (zip groups counts)\<rparr>"

lemma age_row_columns:
  assumes "length counts = length groups"
  shows "map agp_code (bag_groups (age_row groups b counts)) = map share_code groups"
    "map agp_residents (bag_groups (age_row groups b counts)) = counts"
    "map agp_min (bag_groups (age_row groups b counts)) = map share_min groups"
    "map agp_max (bag_groups (age_row groups b counts)) = map share_max groups"
    "list_all (\<lambda>a. make_age_population a = Inr a) (bag_groups (age_row groups b counts)) \<longleftrightarrow>
       list_all (\<lambda>(g, n). make_age_population \<lparr>agp_code = share_code g, agp_min = share_min g, agp_max = share_max g,
          agp_residents = n\<rparr> = Inr \<lparr>agp_code = share_code g, agp_min = share_min g, agp_max = share_max g,
          agp_residents = n\<rparr>) (zip groups counts)"
  using assms by (induction counts groups rule: list_induct2) (auto simp: age_row_def)

lemma sum_list_map2_minus:
  "length xs = length ys \<Longrightarrow> sum_list (map2 (-) xs ys) = sum_list xs - (sum_list ys :: int)"
  by (induction xs ys rule: list_induct2) auto

text \<open>What the loop returns from the cohorts and the population left.\<close>

definition rows_meet ::
  "age_share list \<Rightarrow> building_allocation list \<Rightarrow> int list \<Rightarrow> building_ages list \<times> int list \<times> int \<Rightarrow> bool" where
  "rows_meet groups bs columns x \<longleftrightarrow> (case x of (rows, rest, left) \<Rightarrow>
     left = sum_list columns - sum_list (map ba_residents bs) \<and> sum_list rest = left
     \<and> length rest = length groups \<and> (\<forall>c \<in> set rest. 0 \<le> c)
     \<and> map bag_id rows = map ba_id bs \<and> map bag_total rows = map ba_residents bs
     \<and> list_all (\<lambda>r. map agp_code (bag_groups r) = map share_code groups
          \<and> map agp_min (bag_groups r) = map share_min groups \<and> map agp_max (bag_groups r) = map share_max groups
          \<and> make_building_ages r = Inr r \<and> (\<forall>n \<in> set (map agp_residents (bag_groups r)). 0 \<le> n)) rows
     \<and> (\<forall>i < length groups. sum_list (map (\<lambda>r. agp_residents (bag_groups r ! i)) rows) = columns ! i - rest ! i))"

lemma age_rows_ok:
  assumes "\<forall>c \<in> set columns. 0 \<le> c" "length columns = length groups"
    "list_all (\<lambda>b. ba_id b \<noteq> [] \<and> 0 \<le> ba_residents b) bs" "sum_list (map ba_residents bs) \<le> sum_list columns"
    "list_all share_wf groups" "distinct (map share_code groups)"
  shows "\<exists>x. age_rows groups bs columns (sum_list columns) = Inr x \<and> rows_meet groups bs columns x"
  using assms
proof (induction bs arbitrary: columns)
  case Nil
  then show ?case by (simp add: rows_meet_def)
next
  case (Cons b bs)
  let ?n = "ba_residents b"
  have b: "ba_id b \<noteq> []" "0 \<le> ?n" and bs: "list_all (\<lambda>b. ba_id b \<noteq> [] \<and> 0 \<le> ba_residents b) bs"
    using Cons.prems(3) by simp_all
  have "0 \<le> sum_list (map ba_residents bs)" using bs by (intro sum_list_nonneg) (auto simp: list_all_iff)
  then have le: "?n \<le> sum_list columns" using Cons.prems(4) by simp
  obtain counts where counts: "apportion_building_row ?n columns (sum_list columns) = Inr counts"
    and row: "row_apportioned columns ?n counts"
    using apportion_building_row_ok[OF Cons.prems(1) b(2) le] by blast
  have len: "length counts = length groups" "length columns = length counts" and sum: "sum_list counts = ?n"
    and nn: "\<forall>n \<in> set counts. 0 \<le> n"
    using row Cons.prems(2) by (auto simp: row_apportioned_def in_set_conv_nth)
  let ?cols = "map2 (-) columns counts" and ?row = "age_row groups b counts"
  have cols: "\<forall>c \<in> set ?cols. 0 \<le> c" "length ?cols = length groups"
    using row len by (auto simp: row_apportioned_def in_set_conv_nth)
  have left: "sum_list ?cols = sum_list columns - ?n" using sum_list_map2_minus[OF len(2)] sum by simp
  have mrow: "make_building_ages ?row = Inr ?row"
    using b Cons.prems(6) sum age_row_columns(1,2)[OF len(1)]
    by (simp add: make_building_ages_def) (simp add: age_row_def)
  have enough: "sum_list (map ba_residents bs) \<le> sum_list ?cols" using Cons.prems(4) left by simp
  obtain x where x: "age_rows groups bs ?cols (sum_list ?cols) = Inr x" "rows_meet groups bs ?cols x"
    using Cons.IH[OF cols bs enough Cons.prems(5,6)] by blast
  obtain rows rest p where xe: "x = (rows, rest, p)" by (cases x)
  have "age_rows groups (b # bs) columns (sum_list columns) = Inr (?row # rows, rest, p)"
    using counts row_groups_ok[OF len(1) nn Cons.prems(5)] mrow cols(1) le x(1) left
    by (simp add: Let_def xe age_row_def list_all_iff)
  moreover have "rows_meet groups (b # bs) columns (?row # rows, rest, p)"
  proof -
    have col: "agp_residents (bag_groups ?row ! i) = counts ! i" if "i < length groups" for i
    proof -
      have "map agp_residents (bag_groups ?row) ! i = counts ! i" using age_row_columns(2)[OF len(1)] by simp
      moreover have "length (bag_groups ?row) = length groups" using len by (simp add: age_row_def)
      ultimately show ?thesis using that by simp
    qed
    have diff: "?cols ! i = columns ! i - counts ! i" if "i < length groups" for i using that len by simp
    have "\<forall>n \<in> set (map agp_residents (bag_groups ?row)). 0 \<le> n" unfolding age_row_columns(2)[OF len(1)] by (rule nn)
    then show ?thesis using x(2) left col diff mrow age_row_columns(1,3,4)[OF len(1)]
      unfolding rows_meet_def xe by (simp add: age_row_def[of groups b counts, THEN arg_cong[where f = bag_id]]
          age_row_def[of groups b counts, THEN arg_cong[where f = bag_total]])
  qed
  ultimately show ?case by blast
qed

subsection \<open>The rounding of the quotas\<close>

definition eps :: rat where
  "eps = 1 / (2 * 10 ^ 27)"

lemma eps_bounds: "0 < eps" "eps < 1"
  by (simp_all add: eps_def)

lemma dec_bounds: "0 \<le> x \<Longrightarrow> (1 - eps) * x \<le> dec x \<and> dec x \<le> (1 + eps) * x"
proof -
  assume x: "0 \<le> x"
  then have "\<bar>dec x - x\<bar> \<le> eps * x" using dec_error[of x] by (simp add: eps_def)
  then show ?thesis by (auto simp: abs_le_iff algebra_simps)
qed

lemma decimal_sum_snoc: "decimal_sum (ws @ [w]) = dec (decimal_sum ws + w)"
  by (simp add: decimal_sum_def)

lemma decimal_sum_bounds:
  assumes "\<forall>w \<in> set ws. 0 \<le> w"
  shows "(1 - eps) ^ length ws * sum_list ws \<le> decimal_sum ws \<and> decimal_sum ws \<le> (1 + eps) ^ length ws * sum_list ws"
  using assms
proof (induction ws rule: rev_induct)
  case Nil
  then show ?case by (simp add: decimal_sum_def)
next
  case (snoc w ws)
  let ?n = "length ws"
  have w: "0 \<le> w" and IH: "(1 - eps) ^ ?n * sum_list ws \<le> decimal_sum ws" "decimal_sum ws \<le> (1 + eps) ^ ?n * sum_list ws"
    using snoc by auto
  have s: "0 \<le> sum_list ws" using snoc.prems by (intro sum_list_nonneg) auto
  have lo: "0 \<le> (1 - eps) ^ ?n" "(1 - eps) ^ ?n \<le> 1" and hi: "1 \<le> (1 + eps) ^ ?n"
    using eps_bounds by (auto intro!: power_le_one one_le_power)
  have "0 \<le> decimal_sum ws" using IH(1) lo(1) s by (meson mult_nonneg_nonneg order_trans)
  then have d: "(1 - eps) * (decimal_sum ws + w) \<le> decimal_sum (ws @ [w])"
    "decimal_sum (ws @ [w]) \<le> (1 + eps) * (decimal_sum ws + w)"
    unfolding decimal_sum_snoc using dec_bounds[of "decimal_sum ws + w"] w by auto
  have "(1 - eps) ^ ?n * (sum_list ws + w) \<le> decimal_sum ws + w"
    using IH(1) mult_right_mono[OF lo(2) w] by (simp add: distrib_left)
  then have "(1 - eps) * ((1 - eps) ^ ?n * (sum_list ws + w)) \<le> (1 - eps) * (decimal_sum ws + w)"
    using eps_bounds by (intro mult_left_mono) auto
  moreover have "decimal_sum ws + w \<le> (1 + eps) ^ ?n * (sum_list ws + w)"
    using IH(2) mult_right_mono[OF hi w] by (simp add: distrib_left)
  then have "(1 + eps) * (decimal_sum ws + w) \<le> (1 + eps) * ((1 + eps) ^ ?n * (sum_list ws + w))"
    using eps_bounds by (intro mult_left_mono) auto
  ultimately show ?case using d by (simp add: mult.assoc)
qed

text \<open>The two factors are inverse up to rounding, and linear in the number of roundings.\<close>

lemma eps_power: "1 - of_nat n * eps \<le> (1 - eps) ^ n" "(1 + eps) ^ n * (1 - eps) ^ n \<le> 1"
proof -
  show "1 - of_nat n * eps \<le> (1 - eps) ^ n" using Bernoulli_inequality[of "- eps" n] eps_bounds by simp
  have "(1 + eps) * (1 - eps) \<le> 1" by (simp add: algebra_simps)
  then have "((1 + eps) * (1 - eps)) ^ n \<le> 1" using eps_bounds by (intro power_le_one) auto
  then show "(1 + eps) ^ n * (1 - eps) ^ n \<le> 1" by (simp add: power_mult_distrib)
qed

definition quota_error :: rat where
  "quota_error = 1 / 10 ^ 25"

lemma quota_bounds:
  assumes ws: "\<forall>w \<in> set ws. 0 \<le> w" "0 < sum_list ws" "length ws \<le> 64" and n: "0 \<le> n" and w: "w \<in> set ws"
  defines "x \<equiv> of_int n * w / sum_list ws"
  shows "(1 - quota_error) * x \<le> dec (dec (of_int n * w) / decimal_sum ws)
    \<and> dec (dec (of_int n * w) / decimal_sum ws) \<le> (1 + quota_error) * x"
proof -
  let ?S = "sum_list ws" and ?W = "decimal_sum ws" and ?k = "length ws" and ?v = "of_int n * w"
  have v: "0 \<le> ?v" using n w ws(1) by simp
  have W: "(1 - eps) ^ ?k * ?S \<le> ?W" "?W \<le> (1 + eps) ^ ?k * ?S" using decimal_sum_bounds[OF ws(1)] by auto
  have k: "of_nat ?k * eps \<le> 64 * eps" using ws(3) eps_bounds by (intro mult_right_mono) (auto simp: of_nat_le_iff)
  have p: "1 - 64 * eps \<le> (1 - eps) ^ ?k" using eps_power(1)[of ?k] k by linarith
  have e64: "0 < 1 - 64 * eps" by (simp add: eps_def)
  have pos: "0 < (1 - eps) ^ ?k" "0 < (1 + eps) ^ ?k" using eps_bounds by simp_all
  have W0: "0 < ?W" using W(1) pos(1) ws(2) by (meson less_le_trans mult_pos_pos)
  have d: "(1 - eps) * ?v \<le> dec ?v" "dec ?v \<le> (1 + eps) * ?v" using dec_bounds[OF v] by auto
  have d0: "0 \<le> dec ?v" using v by (rule dec_nonneg)
  have q: "(1 - eps) * (dec ?v / ?W) \<le> dec (dec ?v / ?W)" "dec (dec ?v / ?W) \<le> (1 + eps) * (dec ?v / ?W)"
    using dec_bounds[of "dec ?v / ?W"] d0 W0 by auto
  have up: "dec ?v / ?W \<le> (1 + eps) * ?v / ((1 - 64 * eps) * ?S)"
  proof (rule frac_le)
    show "(1 - 64 * eps) * ?S \<le> ?W" using W(1) mult_right_mono[OF p, of ?S] ws(2) by linarith
  qed (use d v eps_bounds e64 ws(2) in auto)
  have "(1 + eps) * (dec ?v / ?W) \<le> (1 + eps) * ((1 + eps) * ?v / ((1 - 64 * eps) * ?S))"
    using up eps_bounds by (intro mult_left_mono) auto
  also have "\<dots> = (1 + eps) ^ 2 / (1 - 64 * eps) * x" by (simp add: x_def power2_eq_square)
  also have "\<dots> \<le> (1 + quota_error) * x"
    using v ws(2) by (intro mult_right_mono) (simp_all add: x_def eps_def quota_error_def power2_eq_square)
  finally have upper: "dec (dec ?v / ?W) \<le> (1 + quota_error) * x" using q(2) by simp
  have "(1 - eps) ^ ?k * ?W \<le> (1 - eps) ^ ?k * ((1 + eps) ^ ?k * ?S)" using W(2) pos(1) by (intro mult_left_mono) auto
  also have "\<dots> \<le> 1 * ?S"
    using mult_right_mono[OF eps_power(2)[of ?k], of ?S] ws(2) by (simp add: mult.assoc mult.left_commute)
  finally have WS: "(1 - eps) ^ ?k * ?W \<le> ?S" by simp
  have "(1 - eps) ^ ?k * ((1 - eps) * x) \<le> dec ?v / ?W"
  proof -
    have "(1 - eps) ^ ?k * x * ?W = ((1 - eps) ^ ?k * ?W) * (?v / ?S)" by (simp add: x_def)
    also have "\<dots> \<le> ?S * (?v / ?S)" using WS v ws(2) by (intro mult_right_mono) auto
    finally have "(1 - eps) ^ ?k * x * ?W \<le> ?v" using ws(2) by simp
    then have "(1 - eps) * ((1 - eps) ^ ?k * x * ?W) \<le> dec ?v"
      using d(1) mult_left_mono[of _ ?v "1 - eps"] eps_bounds by (meson diff_ge_0_iff_ge less_imp_le order_trans)
    then have "((1 - eps) ^ ?k * ((1 - eps) * x)) * ?W \<le> dec ?v" by (simp only: mult_ac)
    then show ?thesis by (simp only: pos_le_divide_eq[OF W0])
  qed
  then have "(1 - eps) * ((1 - eps) ^ ?k * ((1 - eps) * x)) \<le> (1 - eps) * (dec ?v / ?W)"
    using eps_bounds by (intro mult_left_mono) auto
  then have low: "(1 - eps) ^ (?k + 2) * x \<le> dec (dec ?v / ?W)" using q(1) by (simp add: power_add power2_eq_square algebra_simps)
  have "1 - quota_error \<le> 1 - 66 * eps" by (simp add: quota_error_def eps_def)
  also have "\<dots> \<le> (1 - eps) ^ (?k + 2)" using eps_power(1)[of "?k + 2"] k by (simp add: algebra_simps)
  finally have "(1 - quota_error) * x \<le> (1 - eps) ^ (?k + 2) * x"
    using v ws(2) by (intro mult_right_mono) (simp_all add: x_def)
  with low upper show ?thesis by linarith
qed

subsection \<open>Cohort totals\<close>

text \<open>The cohort totals are exact, and each is within a unit of its proportional quota.\<close>

definition cohorts_meet :: "rat list \<Rightarrow> int \<Rightarrow> int list \<Rightarrow> bool" where
  "cohorts_meet ws n counts \<longleftrightarrow> length counts = length ws \<and> sum_list counts = n \<and> (\<forall>i < length ws. 0 \<le> counts ! i
     \<and> \<bar>of_int (counts ! i) - of_int n * ws ! i / sum_list ws\<bar> \<le> 11 / 10)"

lemma sum_list_floor:
  "of_int (sum_list (map floor qs)) \<le> (sum_list qs :: rat) \<and> (qs \<noteq> [] \<longrightarrow> sum_list qs < of_int (sum_list (map floor qs)) + of_nat (length qs))"
proof (induction qs)
  case (Cons q qs)
  have f: "of_int \<lfloor>q\<rfloor> \<le> q" "q < of_int \<lfloor>q\<rfloor> + 1" by linarith+
  have e: "of_int (sum_list (map floor (q # qs))) = (of_int \<lfloor>q\<rfloor> + of_int (sum_list (map floor qs)) :: rat)"
    "sum_list (q # qs) = q + sum_list qs" "of_nat (length (q # qs)) = (1 + of_nat (length qs) :: rat)" by simp_all
  show ?case
  proof (cases "qs = []")
    case False
    then show ?thesis unfolding e using Cons f by linarith
  qed (use f in simp)
qed simp

lemma sum_quota_bounds:
  assumes ws: "\<forall>w \<in> set ws. 0 \<le> w" "0 < sum_list ws" "length ws \<le> 64" and n: "0 \<le> n"
  shows "(1 - quota_error) * of_int n \<le> sum_list (quotas n ws) \<and> sum_list (quotas n ws) \<le> (1 + quota_error) * of_int n"
proof -
  let ?x = "\<lambda>w. of_int n * w / sum_list ws" and ?q = "\<lambda>w. dec (dec (of_int n * w) / decimal_sum ws)"
  have "sum_list (map ?x vs) = of_int n * sum_list vs / sum_list ws" for vs
    by (induction vs) (simp_all add: distrib_left add_divide_distrib)
  then have x: "sum_list (map ?x ws) = of_int n" using ws(2) by simp
  have "(1 - quota_error) * sum_list (map ?x ws) = sum_list (map (\<lambda>w. (1 - quota_error) * ?x w) ws)"
    by (rule sum_list_const_mult[symmetric])
  also have "\<dots> \<le> sum_list (map ?q ws)" using quota_bounds[OF ws n] by (intro sum_list_mono) auto
  finally have lo: "(1 - quota_error) * of_int n \<le> sum_list (quotas n ws)" unfolding x quotas_def .
  have "sum_list (map ?q ws) \<le> sum_list (map (\<lambda>w. (1 + quota_error) * ?x w) ws)"
    using quota_bounds[OF ws n] by (intro sum_list_mono) auto
  also have "\<dots> = (1 + quota_error) * sum_list (map ?x ws)" by (rule sum_list_const_mult)
  finally have "sum_list (quotas n ws) \<le> (1 + quota_error) * of_int n" unfolding x quotas_def .
  with lo show ?thesis by blast
qed

lemma cohorts_ok:
  assumes ws: "\<forall>w \<in> set ws. 0 \<le> w" "0 < sum_list ws" "length ws \<le> 64" and n: "0 \<le> n" "n \<le> 10 ^ 24"
    and order: "distinct order" "set order = {..<length ws}"
  defines "base \<equiv> map floor (quotas n ws)"
  shows "cohorts_meet ws n (increment_at (slice_to (n - sum_list base) order) base)"
proof -
  let ?qs = "quotas n ws" and ?left = "n - sum_list base"
  have len: "length base = length ws" "length ?qs = length ws" by (simp_all add: base_def quotas_def)
  have ne: "?qs \<noteq> []" using ws(2) len by auto
  have "(of_int n :: rat) \<le> of_int (10 ^ 24)" using n(2) unfolding of_int_le_iff .
  then have small: "quota_error * of_int n \<le> 1 / 10" by (simp add: quota_error_def)
  note sq = sum_quota_bounds[OF ws n(1)] and sf = sum_list_floor[of ?qs]
  have "of_int (sum_list base) < (of_int (n + 1) :: rat)"
    using sq sf small unfolding base_def by (simp add: algebra_simps)
  then have left0: "0 \<le> ?left" unfolding of_int_less_iff by simp
  have "(of_int n :: rat) < of_int (sum_list base + int (length ws) + 1)"
    using sq sf small ne unfolding base_def by (simp add: algebra_simps quotas_def)
  then have left1: "?left \<le> int (length ws)" unfolding of_int_less_iff by simp
  have lorder: "length order = length ws" using order distinct_card by fastforce
  have slice: "slice_to ?left order = take (nat ?left) order" using left0 by (simp add: slice_to_def)
  have lslice: "length (slice_to ?left order) = nat ?left" using left1 lorder by (simp add: slice)
  have dslice: "distinct (slice_to ?left order)" using order(1) by (simp add: slice)
  have inslice: "\<forall>i \<in> set (slice_to ?left order). i < length base"
    using order(2) len(1) set_take_subset unfolding slice by fastforce
  show ?thesis unfolding cohorts_meet_def
  proof (intro conjI allI impI)
    show "sum_list (increment_at (slice_to ?left order) base) = n"
      using sum_increment_at[OF inslice] lslice left0 by simp
    fix i assume i: "i < length ws"
    let ?x = "of_int n * ws ! i / sum_list ws" and ?q = "?qs ! i" and ?c = "increment_at (slice_to ?left order) base ! i"
    have q: "?q = dec (dec (of_int n * ws ! i) / decimal_sum ws)" using i by (simp add: quotas_def)
    have x: "0 \<le> ?x" "?x \<le> of_int n"
    proof -
      have w: "0 \<le> ws ! i" using ws(1) i by simp
      have "ws ! i \<le> sum_list ws" using member_le_sum_list[of "ws ! i" ws] ws(1) i by simp
      then have "of_int n * ws ! i \<le> of_int n * sum_list ws" using n(1) by (intro mult_left_mono) auto
      then show "?x \<le> of_int n" using ws(2) by (simp add: pos_divide_le_eq)
      show "0 \<le> ?x" using n(1) w ws(2) by simp
    qed
    have b: "(1 - quota_error) * ?x \<le> ?q" "?q \<le> (1 + quota_error) * ?x"
      using quota_bounds[OF ws n(1), of "ws ! i"] i unfolding q by auto
    have "quota_error * ?x \<le> quota_error * of_int n" using x by (intro mult_left_mono) (simp_all add: quota_error_def)
    with small b have near: "?x - 1 / 10 \<le> ?q" "?q \<le> ?x + 1 / 10"
      unfolding left_diff_distrib distrib_right mult_1 by linarith+
    have "0 \<le> (1 - quota_error) * ?x" using x by (intro mult_nonneg_nonneg) (simp_all add: quota_error_def)
    with b have q0: "0 \<le> ?q" by simp
    have c: "?c = \<lfloor>?q\<rfloor> + (if i \<in> set (slice_to ?left order) then 1 else 0)"
      using nth_increment_at[OF dslice, of i base] i len by (simp add: base_def)
    show "0 \<le> ?c" using q0 by (simp add: c)
    have f: "of_int \<lfloor>?q\<rfloor> \<le> ?q" "?q < of_int \<lfloor>?q\<rfloor> + 1" by linarith+
    have "of_int ?c = (of_int \<lfloor>?q\<rfloor> :: rat) \<or> of_int ?c = (of_int \<lfloor>?q\<rfloor> + 1 :: rat)" by (simp add: c)
    then show "\<bar>of_int ?c - ?x\<bar> \<le> 11 / 10" using near f unfolding abs_le_iff by (intro conjI; linarith)
  qed (simp add: len)
qed

lemma repr_from_pos: "0 < x \<Longrightarrow> 0 < k \<Longrightarrow> 0 < repr_from m k x"
proof (induction m k x rule: repr_from.induct)
  case (1 k x)
  have "\<bar>sig_round 10 k x - x\<bar> \<le> \<bar>x\<bar> * 10 powi (1 - int k) / 2" using sig_round_error[of 10 k x] by simp
  also have "10 powi (1 - int k) \<le> (10 :: rat) powi 0" using 1(2) by (intro power_int_increasing) auto
  then have "\<bar>x\<bar> * 10 powi (1 - int k) / 2 \<le> \<bar>x\<bar> * 1 / 2" by (intro divide_right_mono mult_left_mono) auto
  finally have "0 < sig_round 10 k x" using 1(1) by linarith
  then show ?case by simp
next
  case (2 m k x)
  show ?case
  proof (cases "filter (\<lambda>d. fl d = x) (decimal_candidates k x)")
    case Nil
    then show ?thesis using 2 by simp
  next
    case (Cons d ds)
    then have "d \<in> set (filter (\<lambda>d. fl d = x) (decimal_candidates k x))" by simp
    then have "fl d = x" by simp
    then have "d \<noteq> 0" using 2(2) by auto
    moreover have "0 \<le> repr_from (Suc m) k x" using 2(2) by (rule repr_from_nonneg)
    ultimately show ?thesis using Cons by simp
  qed
qed

lemma repr_value_pos: "0 < x \<Longrightarrow> 0 < repr_value x"
  using repr_from_pos[of x 1 16] by (simp add: repr_value_def)

lemma repr_sum_pos: "\<forall>x \<in> set xs. 0 \<le> x \<Longrightarrow> 0 < sum_list xs \<Longrightarrow> 0 < sum_list (map repr_value xs)"
proof (induction xs)
  case (Cons x xs)
  have nn: "0 \<le> sum_list (map repr_value xs)" using Cons.prems(1) by (intro sum_list_nonneg) (auto intro: repr_value_nonneg)
  show ?case
  proof (cases "x = 0")
    case True
    then show ?thesis using Cons by (simp add: repr_value_def)
  next
    case False
    then have "0 < repr_value x" using Cons.prems(1) by (intro repr_value_pos) auto
    then show ?thesis using nn by simp
  qed
qed simp

lemma apportion_group_totals_ok:
  assumes g: "list_all share_wf groups" "0 < sum_list (map share_value groups)" "length groups \<le> 64"
    and n: "0 \<le> n" "n \<le> 10 ^ 24"
  shows "\<exists>counts. apportion_group_totals n groups = Inr counts \<and> cohorts_meet (map (repr_value \<circ> share_value) groups) n counts"
proof -
  let ?ws = "map (repr_value \<circ> share_value) groups"
  have ne: "groups \<noteq> []" using g(2) by auto
  have ws: "\<forall>w \<in> set ?ws. 0 \<le> w" "length ?ws \<le> 64" using g by (auto simp: list_all_iff share_wf_def intro: repr_value_nonneg)
  have "\<forall>x \<in> set (map share_value groups). 0 \<le> x" using g(1) by (auto simp: list_all_iff share_wf_def)
  from repr_sum_pos[OF this g(2)] have pos: "0 < sum_list ?ws" unfolding map_map .
  show ?thesis
  proof (cases "n = 0")
    case True
    then have "apportion_group_totals n groups = Inr (map (\<lambda>_. 0) groups)" using ne by (simp add: apportion_group_totals_def)
    moreover have "cohorts_meet ?ws n (map (\<lambda>_. 0) groups)" using True by (simp add: cohorts_meet_def)
    ultimately show ?thesis by blast
  next
    case False
    let ?base = "map floor (quotas n ?ws)" and ?rems = "map (\<lambda>q. dec (q - of_int \<lfloor>q\<rfloor>)) (quotas n ?ws)"
    let ?order = "sort_key (\<lambda>i. (- (?rems ! i), i)) [0..<length groups]"
    have W: "0 < decimal_sum ?ws"
    proof -
      have "0 < (1 - eps) ^ length ?ws * sum_list ?ws" using eps_bounds pos by simp
      also have "\<dots> \<le> decimal_sum ?ws" using decimal_sum_bounds[OF ws(1)] by blast
      finally show ?thesis .
    qed
    have "mset ?order = mset [0..<length groups]" by simp
    then have order: "distinct ?order" "set ?order = {..<length ?ws}"
      by (metis mset_eq_imp_distinct_iff distinct_upt) (simp add: atLeast0LessThan)
    let ?counts = "increment_at (slice_to (n - sum_list ?base) ?order) ?base"
    have meets: "cohorts_meet ?ws n ?counts" by (rule cohorts_ok[OF ws(1) pos ws(2) n order])
    then have "sum_list ?counts = n" by (simp add: cohorts_meet_def)
    then have "apportion_group_totals n groups = Inr ?counts"
      unfolding apportion_group_totals_def Let_def using n ne False W by simp
    with meets show ?thesis by blast
  qed
qed

subsection \<open>The whole allocation\<close>

lemma column_totals_eq:
  assumes "\<forall>b \<in> set bs. length (bag_groups b) = n" "length cs = n"
  shows "fold (\<lambda>b cs. map2 (+) cs (map agp_residents (bag_groups b))) bs cs =
    map (\<lambda>i. cs ! i + sum_list (map (\<lambda>b. agp_residents (bag_groups b ! i)) bs)) [0..<n]"
  using assms
proof (induction bs arbitrary: cs)
  case Nil
  then show ?case by (simp add: map_nth[symmetric]) (metis map_nth)
next
  case (Cons b bs)
  let ?cs = "map2 (+) cs (map agp_residents (bag_groups b))"
  have l: "length ?cs = n" using Cons.prems by simp
  have "?cs ! i = cs ! i + agp_residents (bag_groups b ! i)" if "i < n" for i using Cons.prems that by simp
  then show ?case using Cons.IH[OF _ l] Cons.prems by (simp add: add.assoc)
qed

text \<open>
  What an age allocation returns: the buildings of the population in their order with their
  residents, and the cohorts of the scenario with exact row and column sums.
\<close>

definition ages_meet :: "scenario \<Rightarrow> population_result \<Rightarrow> age_result \<Rightarrow> bool" where
  "ages_meet sc p r \<longleftrightarrow> map bag_id (ages_buildings r) = map ba_id (pop_allocations p)
     \<and> map bag_total (ages_buildings r) = map ba_residents (pop_allocations p)
     \<and> ages_population r = sum_list (map ba_residents (pop_allocations p))
     \<and> list_all (\<lambda>b. map agp_code (bag_groups b) = map share_code (scn_groups sc)
          \<and> map agp_min (bag_groups b) = map share_min (scn_groups sc)
          \<and> map agp_max (bag_groups b) = map share_max (scn_groups sc)
          \<and> sum_list (map agp_residents (bag_groups b)) = bag_total b
          \<and> (\<forall>n \<in> set (map agp_residents (bag_groups b)). 0 \<le> n)) (ages_buildings r)
     \<and> map agt_code (ages_totals r) = map share_code (scn_groups sc)
     \<and> map agt_min (ages_totals r) = map share_min (scn_groups sc)
     \<and> map agt_max (ages_totals r) = map share_max (scn_groups sc)
     \<and> cohorts_meet (map (repr_value \<circ> share_value) (scn_groups sc)) (ages_population r) (map agt_residents (ages_totals r))
     \<and> (\<forall>i < length (scn_groups sc). sum_list (map (\<lambda>b. agp_residents (bag_groups b ! i)) (ages_buildings r))
          = agt_residents (ages_totals r ! i))"

definition age_total_row :: "int \<Rightarrow> age_share \<Rightarrow> int \<Rightarrow> age_total" where
  "age_total_row population g n = \<lparr>agt_code = share_code g, agt_min = share_min g, agt_max = share_max g,
     agt_target_share = share_value g, agt_residents = n, agt_achieved_share = int_ratio n population\<rparr>"

lemma age_totals_columns:
  assumes "length ns = length gs"
  shows "map agt_code (map2 (age_total_row p) gs ns) = map share_code gs" "map agt_min (map2 (age_total_row p) gs ns) = map share_min gs"
    "map agt_max (map2 (age_total_row p) gs ns) = map share_max gs" "map agt_residents (map2 (age_total_row p) gs ns) = ns"
  using assms by (induction ns gs rule: list_induct2) (auto simp: age_total_row_def)

lemma age_totals_ok:
  assumes "length ns = length gs" "\<forall>n \<in> set ns. 0 \<le> n \<and> n \<le> p" "list_all share_wf gs"
  shows "mapE (age_total_of p) (zip gs ns) = Inr (map2 (age_total_row p) gs ns)"
  using assms
proof (induction ns gs rule: list_induct2)
  case (Cons n ns g gs)
  then have "share_wf g" "0 \<le> n" "n \<le> p" by simp_all
  then show ?case using Cons int_ratio_bounds[of n p] is_finite_ratio
    by (auto simp: age_total_of_def make_age_total_def check_age_interval_def age_total_row_def share_wf_def split: option.splits)
qed simp

definition population_wf :: "population_result \<Rightarrow> bool" where
  "population_wf p \<longleftrightarrow> make_population_result p = Inr p \<and> list_all (\<lambda>b. make_building_allocation b = Inr b) (pop_allocations p)"

lemma population_wf_D:
  "population_wf p \<Longrightarrow> sorted_unique (map ba_id (pop_allocations p))
     \<and> sum_list (map ba_residents (pop_allocations p)) = dg_allocated (pop_diagnostics p)
     \<and> list_all (\<lambda>b. ba_id b \<noteq> [] \<and> 0 \<le> ba_residents b) (pop_allocations p)"
  by (auto simp: population_wf_def make_population_result_def make_building_allocation_def bindE_Inr_iff list_all_iff)

lemma age_result_ok:
  assumes digest: "hex_digest f" and v: "v \<noteq> []" and su: "sorted_unique (map ba_id bs)"
    and rows: "rows_meet groups bs ns (rows, rest, 0)" and rest: "\<forall>c \<in> set rest. c = 0"
    and g: "groups \<noteq> []" "distinct (map share_code groups)" and ns: "length ns = length groups" "\<forall>n \<in> set ns. 0 \<le> n"
    and p: "p = sum_list ns" "p = sum_list (map ba_residents bs)"
  defines "r \<equiv> \<lparr>ages_version = v, ages_fingerprint = f, ages_buildings = rows,
    ages_totals = map2 (age_total_row p) groups ns, ages_population = p\<rparr>"
  shows "make_age_result r = Inr r"
proof -
  note cols = age_totals_columns[OF ns(1), of p]
  have lrest: "length rest = length groups" and ids: "map bag_id rows = map ba_id bs" "map bag_total rows = map ba_residents bs"
    and codes: "list_all (\<lambda>r. map agp_code (bag_groups r) = map share_code groups) rows"
    and col: "\<forall>i < length groups. sum_list (map (\<lambda>r. agp_residents (bag_groups r ! i)) rows) = ns ! i - rest ! i"
    using rows by (auto simp: rows_meet_def list_all_iff)
  have zero: "rest ! i = 0" if "i < length groups" for i using rest lrest that by simp
  have "\<forall>b \<in> set rows. length (bag_groups b) = length groups" using codes by (auto simp: list_all_iff dest: map_eq_imp_length_eq)
  from column_totals_eq[OF this, of "replicate (length groups) 0"]
  have "column_totals (length groups) rows =
      map (\<lambda>i. replicate (length groups) 0 ! i + sum_list (map (\<lambda>b. agp_residents (bag_groups b ! i)) rows)) [0..<length groups]"
    by (simp add: column_totals_def)
  also have "\<dots> = map (\<lambda>i. ns ! i) [0..<length groups]" using col zero by (intro map_cong) auto
  also have "\<dots> = ns" using ns(1) map_nth[of ns] by simp
  finally have ct: "column_totals (length groups) rows = ns" .
  have ne: "map2 (age_total_row p) groups ns \<noteq> []" using g(1) ns(1) by (cases groups; cases ns) auto
  have len: "length (map2 (age_total_row p) groups ns) = length groups" using ns(1) by simp
  have close: "list_all (\<lambda>t. close_ratio (agt_achieved_share t) (int_ratio (agt_residents t) p)) (map2 (age_total_row p) groups ns)"
    using ns(1) by (induction ns groups rule: list_induct2) (auto simp: age_total_row_def)
  have p0: "0 \<le> p" using ns(2) unfolding p(1) by (intro sum_list_nonneg) auto
  show ?thesis unfolding make_age_result_def r_def age_result.simps ids cols len ct
    using digest v su p p0 ne g(2) codes close by simp
qed

lemma allocate_ages_ok:
  assumes digest: "\<forall>b. hex_digest (h b)" and sc: "scenario_wf sc" and p: "population_wf p"
    and prov: "pop_version p = scn_version sc" "pop_fingerprint p = scenario_fingerprint h sc"
    and limits: "length (pop_allocations p) \<le> max_buildings" "length (scn_groups sc) \<le> max_groups" "length (scn_groups sc) \<le> 64"
    and bound: "dg_allocated (pop_diagnostics p) \<le> 10 ^ 24"
  shows "\<exists>r. allocate_ages h max_buildings max_groups p sc = Inr r \<and> ages_meet sc p r \<and> make_age_result r = Inr r
    \<and> ages_version r = scn_version sc \<and> ages_fingerprint r = scenario_fingerprint h sc"
proof -
  let ?bs = "pop_allocations p" and ?groups = "scn_groups sc"
  let ?n = "sum_list (map ba_residents ?bs)"
  note D = population_wf_D[OF p]
  then have su: "sorted_unique (map ba_id ?bs)" and nb: "list_all (\<lambda>b. ba_id b \<noteq> [] \<and> 0 \<le> ba_residents b) ?bs"
    and nd: "?n = dg_allocated (pop_diagnostics p)" by auto
  have ordered: "sort_key ba_id ?bs = ?bs" using su by (simp add: sorted_unique_def stable_sorted)
  have n: "0 \<le> ?n" using nb by (intro sum_list_nonneg) (auto simp: list_all_iff)
  have g: "list_all share_wf ?groups" "0 < sum_list (map share_value ?groups)" "distinct (map share_code ?groups)"
    and v: "scn_version sc \<noteq> []" using sc by (simp_all add: scenario_wf_def)
  have gne: "?groups \<noteq> []" using g(2) by auto
  obtain ns where ns: "apportion_group_totals ?n ?groups = Inr ns" and meets: "cohorts_meet (map (repr_value \<circ> share_value) ?groups) ?n ns"
    using apportion_group_totals_ok[OF g(1,2) limits(3) n] bound nd by auto
  have len: "length ns = length ?groups" and sum: "sum_list ns = ?n" and nn: "\<forall>n \<in> set ns. 0 \<le> n"
    using meets by (auto simp: cohorts_meet_def in_set_conv_nth)
  obtain rows rest left where rows: "age_rows ?groups ?bs ns (sum_list ns) = Inr (rows, rest, left)"
    and rm: "rows_meet ?groups ?bs ns (rows, rest, left)"
    using age_rows_ok[OF nn len nb _ g(1,3)] sum by (metis order_refl prod_cases3)
  have left: "left = 0" and rest: "\<forall>c \<in> set rest. c = 0"
    using rm sum sum_list_nonneg_eq_0_iff[of rest] by (auto simp: rows_meet_def)
  let ?r = "\<lparr>ages_version = scn_version sc, ages_fingerprint = scenario_fingerprint h sc, ages_buildings = rows,
    ages_totals = map2 (age_total_row ?n) ?groups ns, ages_population = ?n\<rparr>"
  have "\<forall>x \<in> set ns. 0 \<le> x \<and> x \<le> ?n" using nn sum member_le_sum_list[of _ ns] by fastforce
  from age_totals_ok[OF len this g(1)] have totals: "mapE (age_total_of ?n) (zip ?groups ns) = Inr (map2 (age_total_row ?n) ?groups ns)" .
  have result: "make_age_result ?r = Inr ?r"
    using age_result_ok[of "scenario_fingerprint h sc" "scn_version sc" ?bs ?groups ns rows rest ?n]
      digest v su rm left rest gne g(3) len nn sum by (simp add: scenario_fingerprint_def)
  have "\<not> list_ex (\<lambda>c. c \<noteq> 0) rest" using rest by (simp add: list_ex_iff)
  moreover have "validate_age_inputs h max_buildings max_groups p sc = Inr ()"
    using prov limits by (simp add: validate_age_inputs_def)
  ultimately have "allocate_ages h max_buildings max_groups p sc = Inr ?r"
    unfolding allocate_ages_def Let_def ordered using ns rows left totals result sum by simp
  moreover have "ages_meet sc p ?r"
  proof -
    note cols = age_totals_columns[OF len, of ?n]
    have rc: "list_all (\<lambda>r. map agp_code (bag_groups r) = map share_code ?groups \<and> map agp_min (bag_groups r) = map share_min ?groups
        \<and> map agp_max (bag_groups r) = map share_max ?groups \<and> make_building_ages r = Inr r
        \<and> (\<forall>n \<in> set (map agp_residents (bag_groups r)). 0 \<le> n)) rows"
      and ids: "map bag_id rows = map ba_id ?bs" "map bag_total rows = map ba_residents ?bs"
      and col: "\<forall>i < length ?groups. sum_list (map (\<lambda>r. agp_residents (bag_groups r ! i)) rows) = ns ! i - rest ! i"
      and lr: "length rest = length ?groups" using rm by (auto simp: rows_meet_def)
    have "list_all (\<lambda>b. map agp_code (bag_groups b) = map share_code ?groups \<and> map agp_min (bag_groups b) = map share_min ?groups
        \<and> map agp_max (bag_groups b) = map share_max ?groups \<and> sum_list (map agp_residents (bag_groups b)) = bag_total b
        \<and> (\<forall>n \<in> set (map agp_residents (bag_groups b)). 0 \<le> n)) rows"
      using rc by (rule list.pred_mono_strong) (auto simp: make_building_ages_def bindE_Inr_iff)
    moreover have "sum_list (map (\<lambda>r. agp_residents (bag_groups r ! i)) rows) = agt_residents (map2 (age_total_row ?n) ?groups ns ! i)"
      if "i < length ?groups" for i
      using col rest lr len that by (simp add: age_total_row_def)
    ultimately show ?thesis unfolding ages_meet_def age_result.simps cols ids using meets by simp
  qed
  ultimately show ?thesis using result by (intro exI[of _ ?r]) simp
qed

end
