(* ===== verification/Float_Sums.thy ===== *)
theory Float_Sums
  imports Core_Values
begin

text \<open>
  The relative error of a rounding, and what it means for the consistency checks of the results: a
  sum of rounded parts stays within the tolerance of the rounded sum of the parts.
\<close>

lemma fl_minus: "fl (- x) = - fl x"
  by (simp add: fl_def round_at_def)

lemma abs_fl: "\<bar>fl x\<bar> = fl \<bar>x\<bar>"
  using fl_minus[of x] fl_nonneg[of x] fl_nonneg[of "- x"] by (cases "0 \<le> x") (auto simp: abs_if)

lemma fl_error: "0 \<le> x \<Longrightarrow> \<bar>fl x - x\<bar> \<le> x / 2 ^ 53 + 1 / 2 ^ 1075"
proof (cases "x = 0")
  case False
  assume "0 \<le> x"
  with False have x: "0 < x" by simp
  have e: "\<bar>fl x - x\<bar> \<le> 2 powi fl_scale x / 2"
    using round_at_error[of 2 "fl_scale x" x] x by (simp add: fl_def fl_scale_def)
  show ?thesis
  proof (cases "- 1074 < fl_scale x")
    case True
    then have "2 powi (fl_scale x + 52) \<le> x" using fl_scale_lower x by blast
    moreover have "2 powi (fl_scale x + 52) = 2 powi fl_scale x * (2 :: rat) ^ 52" by (simp add: power_int_add)
    ultimately have "2 powi fl_scale x / 2 \<le> x / 2 ^ 53" by simp
    then show ?thesis using e by simp
  next
    case F: False
    then have "fl_scale x = - 1074" by (simp add: fl_scale_def)
    then have "2 powi fl_scale x / 2 = (1 :: rat) / 2 ^ 1075" by (simp add: power_int_minus inverse_eq_divide)
    moreover have "0 \<le> x / 2 ^ 53" using x by simp
    ultimately show ?thesis using e by simp
  qed
qed simp

lemma sum_fl_error:
  "\<forall>x \<in> set xs. 0 \<le> x \<Longrightarrow> \<bar>sum_list (map fl xs) - sum_list xs\<bar> \<le> sum_list xs / 2 ^ 53 + of_nat (length xs) / 2 ^ 1075"
proof (induction xs)
  case (Cons x xs)
  have "\<bar>(fl x + sum_list (map fl xs)) - (x + sum_list xs)\<bar> \<le> \<bar>fl x - x\<bar> + \<bar>sum_list (map fl xs) - sum_list xs\<bar>" by simp
  also have "\<dots> \<le> (x / 2 ^ 53 + 1 / 2 ^ 1075) + (sum_list xs / 2 ^ 53 + of_nat (length xs) / 2 ^ 1075)"
    using Cons fl_error[of x] by (intro add_mono) auto
  finally show ?case by (simp add: add_divide_distrib)
qed simp

lemma tolerance_ge: "1 / 2 ^ 40 \<le> fl (1 / 10 ^ 12)" "1 / 2 ^ 40 \<le> fl (1 / 10 ^ 9)"
proof -
  have r: "representable (1 / 2 ^ 40)" using representable_powi[of "- 40"] by (simp add: power_int_minus inverse_eq_divide)
  show "1 / 2 ^ 40 \<le> fl (1 / 10 ^ 12)" "1 / 2 ^ 40 \<le> fl (1 / 10 ^ 9)" by (intro fl_ge[OF r]; simp)+
qed

lemma close_enough:
  assumes S: "0 \<le> s" and A: "0 \<le> a" and d: "\<bar>a - s\<bar> \<le> s / 2 ^ 50 + 1 / 2 ^ 1000"
  shows "isclose (fl a) (fl s) (fl (1 / 10 ^ 12)) (fl (1 / 10 ^ 9))"
proof -
  have ea: "\<bar>fl a - a\<bar> \<le> a / 2 ^ 53 + 1 / 2 ^ 1075" and es: "\<bar>fl s - s\<bar> \<le> s / 2 ^ 53 + 1 / 2 ^ 1075"
    using fl_error S A by auto
  have as: "a \<le> s + s / 2 ^ 50 + 1 / 2 ^ 1000" using d by (simp add: abs_le_iff)
  have "\<bar>fl s - fl a\<bar> \<le> \<bar>fl a - a\<bar> + \<bar>a - s\<bar> + \<bar>fl s - s\<bar>" by linarith
  also have "\<dots> \<le> s / 2 ^ 49 + 1 / 2 ^ 998" using ea es d as S by (simp add: field_simps)
  finally have diff: "\<bar>fl s - fl a\<bar> \<le> s / 2 ^ 49 + 1 / 2 ^ 998" .
  have "\<bar>fl (fl s - fl a)\<bar> \<le> \<bar>fl s - fl a\<bar> + (\<bar>fl s - fl a\<bar> / 2 ^ 53 + 1 / 2 ^ 1075)"
    unfolding abs_fl using fl_error[of "\<bar>fl s - fl a\<bar>"] by linarith
  also have "\<dots> \<le> s / 2 ^ 48 + 1 / 2 ^ 997" using diff S by (simp add: field_simps)
  finally have D: "\<bar>fl (fl s - fl a)\<bar> \<le> s / 2 ^ 48 + 1 / 2 ^ 997" .
  show ?thesis
  proof (cases "s \<le> 1")
    case True
    then have "s / 2 ^ 48 + 1 / 2 ^ 997 \<le> 1 / 2 ^ 40" by simp
    then show ?thesis using D tolerance_ge(2) by (simp add: isclose_def Let_def)
  next
    case False
    let ?r = "fl (1 / 10 ^ 12)"
    have "s / 2 ^ 53 \<le> s / 4" "(1 :: rat) / 2 ^ 1075 \<le> 1 / 4" using False by (simp_all add: field_simps)
    then have b: "s / 2 \<le> fl s" using es False by linarith
    have "1 / 2 ^ 40 * (s / 2) \<le> ?r * fl s" using b tolerance_ge(1) S False by (intro mult_mono) auto
    then have p: "s / 2 ^ 41 \<le> ?r * fl s" by simp
    then have p0: "0 \<le> ?r * fl s" using S by (meson divide_nonneg_nonneg order_trans zero_le_numeral zero_le_power)
    have "?r * fl s - (?r * fl s / 2 ^ 53 + 1 / 2 ^ 1075) \<le> \<bar>fl (?r * fl s)\<bar>"
      using fl_error[OF p0] by linarith
    moreover have "s / 2 ^ 48 + 1 / 2 ^ 997 \<le> ?r * fl s - (?r * fl s / 2 ^ 53 + 1 / 2 ^ 1075)"
      using p False by (simp add: field_simps)
    ultimately show ?thesis using D by (simp add: isclose_def Let_def)
  qed
qed

text \<open>The rounded sum of rounded parts is close to the rounded sum of the parts.\<close>

lemma fsum_close:
  assumes "\<forall>x \<in> set xs. 0 \<le> x" "length xs \<le> 2 ^ 64"
  shows "isclose (fsum (map fl xs)) (fl (sum_list xs)) (fl (1 / 10 ^ 12)) (fl (1 / 10 ^ 9))"
  unfolding fsum_def
proof (rule close_enough)
  show "0 \<le> sum_list xs" using assms(1) by (intro sum_list_nonneg) auto
  then show "0 \<le> sum_list (map fl xs)" using assms(1) by (intro sum_list_nonneg) (auto intro: fl_nonneg)
  have "(of_nat (length xs) :: rat) \<le> of_nat (2 ^ 64)" using assms(2) unfolding of_nat_le_iff .
  then have "of_nat (length xs) / 2 ^ 1075 \<le> (1 :: rat) / 2 ^ 1000" by (simp add: field_simps)
  moreover have "sum_list xs / 2 ^ 53 \<le> sum_list xs / 2 ^ 50" using \<open>0 \<le> sum_list xs\<close> by (simp add: field_simps)
  ultimately show "\<bar>sum_list (map fl xs) - sum_list xs\<bar> \<le> sum_list xs / 2 ^ 50 + 1 / 2 ^ 1000"
    using sum_fl_error[OF assms(1)] by linarith
qed

text \<open>Values far below the overflow stay finite when they are split and summed again.\<close>

lemma bounded_finite: "0 \<le> x \<Longrightarrow> x \<le> 2 ^ 1000 \<Longrightarrow> is_finite x"
proof -
  assume "0 \<le> x" "x \<le> 2 ^ 1000"
  moreover have "(2 :: rat) ^ 1000 < 2 ^ 1024" by (rule power_strict_increasing) simp_all
  ultimately show ?thesis unfolding is_finite_def by linarith
qed

lemma fl_bound:
  assumes "0 \<le> x" "fl x \<le> 2 ^ 1000"
  shows "x \<le> 2 ^ 1001"
proof -
  have "x - fl x \<le> x / 2 ^ 53 + 1 / 2 ^ 1075" using fl_error[OF assms(1)] by linarith
  moreover have "x / 2 ^ 53 \<le> x / 8" using assms(1) by (intro divide_left_mono) simp_all
  moreover have "(1 :: rat) / 2 ^ 1075 \<le> 1" "(2 :: rat) \<le> 2 ^ 1000" "(2 :: rat) ^ 1001 = 2 * 2 ^ 1000" by simp_all
  ultimately show ?thesis using assms(2) by linarith
qed

lemma fsum_parts_finite:
  assumes "\<forall>x \<in> set xs. 0 \<le> x" "length xs \<le> 2 ^ 64" "fl (sum_list xs) \<le> 2 ^ 1000"
  shows "is_finite (fsum (map fl xs))"
proof -
  let ?s = "sum_list xs"
  have s: "0 \<le> ?s" using assms(1) by (intro sum_list_nonneg) auto
  have b: "?s \<le> 2 ^ 1001" using fl_bound[OF s assms(3)] .
  have "(of_nat (length xs) :: rat) \<le> of_nat (2 ^ 64)" using assms(2) unfolding of_nat_le_iff .
  then have n: "of_nat (length xs) / 2 ^ 1075 \<le> (1 :: rat)" by simp
  have "?s / 2 ^ 53 \<le> ?s / 2" using s by (intro divide_left_mono) simp_all
  then have "sum_list (map fl xs) \<le> ?s + ?s / 2 + 1" using sum_fl_error[OF assms(1)] n by linarith
  moreover have "(2 :: rat) ^ 1002 = 2 * 2 ^ 1001" "(1 :: rat) \<le> 2 ^ 1000" "(2 :: rat) ^ 1001 = 2 * 2 ^ 1000"
    by simp_all
  ultimately have le: "sum_list (map fl xs) \<le> 2 ^ 1002" using b by linarith
  have p: "0 \<le> sum_list (map fl xs)" using assms(1) by (intro sum_list_nonneg) (auto intro: fl_nonneg)
  have "fsum (map fl xs) \<le> 2 ^ 1002"
    unfolding fsum_def using representable_powi[of 1002] le p by (intro fl_le) simp_all
  moreover have "0 \<le> fsum (map fl xs)" unfolding fsum_def using p by (rule fl_nonneg)
  moreover have "(2 :: rat) ^ 1002 < 2 ^ 1024" by (rule power_strict_increasing) simp_all
  ultimately show ?thesis unfolding is_finite_def by linarith
qed

end
