(* ===== verification/Employment_Facts.thy ===== *)
theory Employment_Facts
  imports Employment Age_Facts Float_Sums
begin

text \<open>
  The employment estimate: an accepted configuration has a rule for every use, and the estimate of
  accepted inputs never raises unless a number of jobs overflows.
\<close>

definition employment_wf :: "employment_config \<Rightarrow> bool" where
  "employment_wf c \<longleftrightarrow> emp_version c \<noteq> [] \<and> (\<forall>u. u \<noteq> building_use.RESIDENTIAL \<longrightarrow>
     (\<exists>r. lookup job_use u (emp_rules c) = Some r \<and> is_finite (job_area r) \<and> 0 < job_area r))"

lemma make_employment_config_wf:
  assumes "make_employment_config v rules = Inr c" "\<forall>r \<in> set rules. is_finite (job_area r) \<and> 0 < job_area r"
  shows "employment_wf c"
proof -
  let ?rules = "sort_key (job_use_index \<circ> job_use) rules"
  have v: "v \<noteq> []" and uses: "set (map job_use rules) = set JOB_USE_ORDER"
    and c: "c = \<lparr>emp_version = v, emp_rules = ?rules\<rparr>"
    using assms(1) version_re_Nil by (auto simp: make_employment_config_def bindE_Inr_iff Let_def)
  have "\<exists>r. lookup job_use u ?rules = Some r" if "u \<noteq> building_use.RESIDENTIAL" for u
  proof -
    have "u \<in> set JOB_USE_ORDER" using that by (cases u) (simp_all add: JOB_USE_ORDER_def)
    then have "u \<in> job_use ` set ?rules" unfolding uses[symmetric] by simp
    then show ?thesis using lookup_None[of job_use u ?rules] by (cases "lookup job_use u ?rules") auto
  qed
  then show ?thesis using assms(2) v lookup_Some[of job_use _ ?rules] unfolding employment_wf_def c by fastforce
qed

text \<open>The estimate of a subject, with the rule of its use.\<close>

definition job_row :: "scenario \<Rightarrow> employment_config \<Rightarrow> capacity_subject \<Rightarrow> job_estimate" where
  "job_row sc c s = (let use = assigned_use (cap_attributes s); total_gfa = metric_gfa (cap_metrics s);
       area = job_area (the (lookup job_use use (emp_rules c)));
       job_gfa = (if use = building_use.MIXED then fl (total_gfa * fl (1 - scn_gfa_share sc)) else total_gfa) in
     if use = building_use.RESIDENTIAL
     then \<lparr>je_id = cap_subject_id s, je_use = use, je_total_gfa = total_gfa, je_job_gfa = 0, je_area_per_job = None, je_jobs = 0\<rparr>
     else \<lparr>je_id = cap_subject_id s, je_use = use, je_total_gfa = total_gfa, je_job_gfa = job_gfa,
       je_area_per_job = Some area, je_jobs = fl (job_gfa / area)\<rparr>)"

lemma is_finite_0 [simp]: "is_finite 0"
  by (simp add: is_finite_def)

lemma estimate_building_ok:
  assumes sc: "scenario_wf sc" and c: "employment_wf c" and s: "subject_wf sc s" and fin: "is_finite (je_jobs (job_row sc c s))"
  shows "estimate_building sc c s = Inr (job_row sc c s) \<and> 0 \<le> je_jobs (job_row sc c s)"
proof -
  let ?u = "assigned_use (cap_attributes s)" and ?g = "metric_gfa (cap_metrics s)"
  have id: "cap_subject_id s \<noteq> []" and g: "representable ?g" "0 \<le> ?g" "is_finite ?g" using s by (auto simp: subject_wf_def)
  have eps: "0 \<le> AREA_EPSILON" unfolding AREA_EPSILON_def by (rule fl_nonneg) simp
  show ?thesis
  proof (cases "?u = building_use.RESIDENTIAL")
    case True
    have "0 \<le> fl (?g + AREA_EPSILON)" using g eps by (intro fl_nonneg) simp
    then show ?thesis using True id g by (simp add: estimate_building_def make_job_estimate_def job_row_def Let_def)
  next
    case False
    obtain r where r: "lookup job_use ?u (emp_rules c) = Some r" "is_finite (job_area r)" "0 < job_area r"
      using c False by (auto simp: employment_wf_def)
    let ?share = "fl (1 - scn_gfa_share sc)"
    let ?j = "if ?u = building_use.MIXED then fl (?g * ?share) else ?g"
    have "0 \<le> ?share" "?share \<le> 1" using sc by (auto simp: scenario_wf_def intro!: fl_nonneg fl_le_1)
    then have j: "0 \<le> ?j" "?j \<le> ?g" using g by (auto intro!: fl_nonneg fl_mult_ratio)
    have le: "?j \<le> fl (?g + AREA_EPSILON)" using fl_add_eps[OF g(1,2) eps j(2)] .
    have jf: "is_finite ?j" using is_finite_mono[OF j g(3)] .
    have jobs: "0 \<le> fl (?j / job_area r)" using j r by (intro fl_nonneg divide_nonneg_pos)
    have row: "job_row sc c s = \<lparr>je_id = cap_subject_id s, je_use = ?u, je_total_gfa = ?g, je_job_gfa = ?j,
       je_area_per_job = Some (job_area r), je_jobs = fl (?j / job_area r)\<rparr>"
      using False r by (simp add: job_row_def Let_def)
    have "make_job_estimate (job_row sc c s) = Inr (job_row sc c s)"
      unfolding make_job_estimate_def using fin id g le jf jobs r False j unfolding row by simp
    moreover have "estimate_building sc c s = make_job_estimate (job_row sc c s)"
      unfolding row using False r by (simp add: estimate_building_def Let_def job_rule_for_def)
    ultimately show ?thesis using jobs by (simp add: row)
  qed
qed

text \<open>The workforce of a population that fits is finite.\<close>

lemma int_times_ok:
  assumes "0 \<le> n" "n \<le> 10 ^ 24" "0 \<le> r" "r \<le> 1"
  shows "\<exists>x. int_times n r = Inr x \<and> x = fl (fl (of_int n) * r) \<and> is_finite x \<and> 0 \<le> x"
proof -
  have "n \<le> 2 ^ 80" using assms(2) by simp
  then have "(of_int n :: rat) \<le> of_int (2 ^ 80)" unfolding of_int_le_iff .
  then have f: "fl (of_int n) \<le> 2 ^ 80" "0 \<le> fl (of_int n)"
    using assms(1) representable_powi[of 80] by (auto intro!: fl_le fl_nonneg)
  have "fl (fl (of_int n) * r) \<le> fl (of_int n)"
    using assms f by (intro fl_mult_ratio representable_fl) auto
  moreover have p: "0 \<le> fl (fl (of_int n) * r)" using f assms by (intro fl_nonneg) simp
  moreover have "(2 :: rat) ^ 80 < 2 ^ 1024" by simp
  ultimately have "\<bar>fl (fl (of_int n) * r)\<bar> < 2 ^ 1024" "\<bar>fl (of_int n)\<bar> < 2 ^ 1024" using f by linarith+
  then have "is_finite (fl (fl (of_int n) * r))" "is_finite (fl (of_int n))" by (simp_all only: is_finite_def)
  then show ?thesis using p by (simp add: int_times_Inr)
qed

definition employment_meets :: "scenario \<Rightarrow> employment_config \<Rightarrow> capacity_subject list \<Rightarrow> population_result \<Rightarrow> employment_result \<Rightarrow> bool" where
  "employment_meets sc c subjects p r \<longleftrightarrow> er_buildings r = map (job_row sc c) (sort_key cap_subject_id subjects)
     \<and> list_all (\<lambda>j. is_finite (je_jobs j) \<and> 0 \<le> je_jobs j) (er_buildings r)
     \<and> es_jobs (er_summary r) = fsum (map je_jobs (er_buildings r)) \<and> is_finite (es_jobs (er_summary r))
     \<and> es_population (er_summary r) = dg_allocated (pop_diagnostics p)
     \<and> er_scenario_version r = pop_version p \<and> er_scenario_fingerprint r = pop_fingerprint p
     \<and> er_config_version r = emp_version c"

lemma fsum_sorted: "fsum (map f (sort_key g xs)) = fsum (map f xs)"
proof -
  have "mset (map f (sort_key g xs)) = mset (map f xs)" by simp
  then show ?thesis unfolding fsum_def by (metis sum_mset_sum_list)
qed

lemma estimate_employment_ok:
  assumes digest: "\<forall>b. hex_digest (h b)" and sc: "scenario_wf sc" and c: "employment_wf c"
    and subjects: "\<forall>s \<in> set subjects. subject_wf sc s \<and> is_finite (je_jobs (job_row sc c s))"
    and limits: "length subjects \<le> max_subjects" "distinct (map cap_subject_id subjects)"
    and p: "0 \<le> dg_allocated (pop_diagnostics p)" "dg_allocated (pop_diagnostics p) \<le> 10 ^ 24"
    and prov: "pop_version p = scn_version sc" "pop_fingerprint p = scenario_fingerprint h sc"
    and fin: "is_finite (fsum (map (je_jobs \<circ> job_row sc c) subjects))"
  shows "\<exists>r. estimate_employment h max_subjects subjects p sc c = Inr r \<and> employment_meets sc c subjects p r
    \<and> make_employment_result r = Inr r \<and> er_config_fingerprint r = employment_fingerprint h c"
proof -
  let ?ss = "sort_key cap_subject_id subjects" and ?n = "dg_allocated (pop_diagnostics p)"
  let ?bs = "map (job_row sc c) ?ss"
  have each: "estimate_building sc c s = Inr (job_row sc c s) \<and> 0 \<le> je_jobs (job_row sc c s)" if "s \<in> set subjects" for s
    using estimate_building_ok[OF sc c] subjects that by blast
  have rows: "mapE (estimate_building sc c) ?ss = Inr ?bs" using each by (intro mapE_total) auto
  have fs: "is_finite (fsum (map je_jobs ?bs))" using fin by (simp add: fsum_sorted)
  have nn: "list_all (\<lambda>j. is_finite (je_jobs j) \<and> 0 \<le> je_jobs j) ?bs" using each subjects by (auto simp: list_all_iff)
  then have f0: "0 \<le> fsum (map je_jobs ?bs)" unfolding fsum_def by (intro fl_nonneg sum_list_nonneg) (auto simp: list_all_iff)
  have w: "0 \<le> scn_working_ratio sc" "scn_working_ratio sc \<le> 1" using sc by (auto simp: scenario_wf_def)
  obtain w where w': "int_times ?n (scn_working_ratio sc) = Inr w" "is_finite w" "0 \<le> w" using int_times_ok[OF p w] by blast
  let ?summary = "\<lparr>es_jobs = fsum (map je_jobs ?bs), es_population = ?n, es_working_ratio = scn_working_ratio sc,
    es_workforce = w\<rparr>"
  have summary: "make_employment_summary ?summary = Inr ?summary"
    using fs f0 p w w' is_finite_ratio[OF w] by (simp add: make_employment_summary_def)
  let ?r = "\<lparr>er_scenario_version = scn_version sc, er_scenario_fingerprint = scenario_fingerprint h sc,
      er_config_version = emp_version c, er_config_fingerprint = employment_fingerprint h c, er_buildings = ?bs, er_summary = ?summary\<rparr>"
  have ids: "map je_id ?bs = map cap_subject_id ?ss" by (auto simp: job_row_def Let_def)
  have "mset (map cap_subject_id ?ss) = mset (map cap_subject_id subjects)" by simp
  then have "distinct (map cap_subject_id ?ss)" using limits(2) by (metis mset_eq_imp_distinct_iff)
  then have result: "make_employment_result ?r = Inr ?r"
    using digest sc c fs unfolding make_employment_result_def employment_result.simps ids
    by (simp add: scenario_wf_def employment_wf_def scenario_fingerprint_def employment_fingerprint_def sorted_unique_def)
  have "estimate_employment h max_subjects subjects p sc c = Inr ?r"
    unfolding estimate_employment_def Let_def using limits prov rows summary result fs w'(1) by (simp add: fsumE_def)
  moreover have "employment_meets sc c subjects p ?r" using nn fs prov by (simp add: employment_meets_def)
  ultimately show ?thesis using result by (intro exI[of _ ?r]) simp
qed

end
