(* ===== verification/Aggregation_Facts.thy ===== *)
theory Aggregation_Facts
  imports Demographic_Aggregation Employment_Facts
begin

text \<open>
  The aggregation of accepted population, age and employment results over consistent references never
  raises: the index groups the buildings by block and by zone, every level adds up to the totals, and
  the rounding of the jobs stays within the tolerance of the checks.
\<close>

subsection \<open>The index\<close>

definition consistent_refs :: "aggregation_ref list \<Rightarrow> bool" where
  "consistent_refs rs \<longleftrightarrow>
     (\<forall>r \<in> set rs. \<forall>q \<in> set rs. ref_block r = ref_block q \<longrightarrow> ref_zone r = ref_zone q \<and> ref_zone_class r = ref_zone_class q)
     \<and> (\<forall>r \<in> set rs. \<forall>q \<in> set rs. ref_zone r = ref_zone q \<longrightarrow> ref_zone_class r = ref_zone_class q)"

text \<open>The buildings of the references with a key, in their order.\<close>

definition members :: "(aggregation_ref \<Rightarrow> string) \<Rightarrow> aggregation_ref list \<Rightarrow> string \<Rightarrow> string list" where
  "members f rs k = map ref_building (filter (\<lambda>r. f r = k) rs)"

text \<open>A dictionary of member lists that groups the references by a key.\<close>

definition groups_by :: "(aggregation_ref \<Rightarrow> string) \<Rightarrow> aggregation_ref list \<Rightarrow> (string \<times> string list) list \<Rightarrow> bool" where
  "groups_by f rs d \<longleftrightarrow> distinct (map fst d) \<and> fst ` set d = f ` set rs \<and> (\<forall>k. map_of d k = (if k \<in> f ` set rs then Some (members f rs k) else None))"

definition values_by :: "(aggregation_ref \<Rightarrow> string) \<Rightarrow> (aggregation_ref \<Rightarrow> 'v) \<Rightarrow> aggregation_ref list \<Rightarrow> (string \<times> 'v) list \<Rightarrow> bool" where
  "values_by f g rs d \<longleftrightarrow> (\<forall>k v. map_of d k = Some v \<longrightarrow> (\<exists>r \<in> set rs. f r = k \<and> g r = v)) \<and> (\<forall>r \<in> set rs. map_of d (f r) \<noteq> None)"

lemma dict_put_keys: "fst ` set (dict_put k v d) = insert k (fst ` set d)"
  by (induction k v d rule: dict_put.induct) auto

lemma dict_put_distinct: "distinct (map fst d) \<Longrightarrow> distinct (map fst (dict_put k v d))"
proof (induction k v d rule: dict_put.induct)
  case (2 k v k' v' kvs)
  then show ?case using dict_put_keys[of k v kvs] by (cases "k' = k") simp_all
qed simp

lemma groups_by_snoc:
  assumes "groups_by f rs d"
  shows "groups_by f (rs @ [r]) (add_member (f r) (ref_building r) d)"
proof -
  let ?bs = "case map_of d (f r) of None \<Rightarrow> [] | Some bs \<Rightarrow> bs"
  have bs: "?bs = members f rs (f r)"
  proof (cases "f r \<in> f ` set rs")
    case True
    then show ?thesis using assms by (simp add: groups_by_def)
  next
    case False
    then have "filter (\<lambda>q. f q = f r) rs = []" unfolding filter_empty_conv by (metis imageI)
    then show ?thesis using assms False by (simp add: groups_by_def members_def)
  qed
  have keys: "fst ` set (dict_put (f r) v d) = f ` set (rs @ [r])" for v using assms by (simp add: dict_put_keys groups_by_def)
  have entries: "map_of (dict_put (f r) (members f rs (f r) @ [ref_building r]) d) k =
      (if k \<in> f ` set (rs @ [r]) then Some (members f (rs @ [r]) k) else None)" for k
    using assms by (cases "k = f r") (simp_all add: groups_by_def members_def)
  have "distinct (map fst (dict_put (f r) (members f rs (f r) @ [ref_building r]) d))"
    using assms by (intro dict_put_distinct) (simp add: groups_by_def)
  then show ?thesis unfolding groups_by_def add_member_def bs by (intro conjI allI keys entries)
qed

lemma values_by_snoc:
  assumes "values_by f g rs d"
  shows "values_by f g (rs @ [r]) (dict_put (f r) (g r) d)"
proof -
  have A: "\<exists>q \<in> set rs. f q = k \<and> g q = v" if "map_of d k = Some v" for k v using assms that unfolding values_by_def by blast
  have B: "map_of d (f q) \<noteq> None" if "q \<in> set rs" for q using assms that unfolding values_by_def by blast
  have "\<exists>q \<in> set (rs @ [r]). f q = k \<and> g q = v" if "((map_of d)(f r \<mapsto> g r)) k = Some v" for k v
    using that A[of k v] by (cases "k = f r") auto
  moreover have "((map_of d)(f r \<mapsto> g r)) (f q) \<noteq> None" if "q \<in> set (rs @ [r])" for q
    using that B[of q] by (cases "f q = f r") auto
  ultimately show ?thesis unfolding values_by_def map_of_dict_put by blast
qed

lemma values_by_look:
  assumes "values_by f g rs d" "\<And>q. q \<in> set rs \<Longrightarrow> f q = f r \<Longrightarrow> g q = g r"
  shows "map_of d (f r) \<in> {None, Some (g r)}"
proof (cases "map_of d (f r)")
  case (Some v)
  then obtain q where "q \<in> set rs" "f q = f r" "g q = v" using assms(1) unfolding values_by_def by blast
  then show ?thesis using Some assms(2) by auto
qed simp

definition index_wf :: "aggregation_ref list \<Rightarrow> aggregation_index \<Rightarrow> bool" where
  "index_wf rs ix \<longleftrightarrow> groups_by ref_block rs (ix_blocks ix) \<and> groups_by ref_zone rs (ix_zones ix)
     \<and> values_by ref_block (\<lambda>r. (ref_zone r, ref_zone_class r)) rs (ix_block_meta ix)
     \<and> values_by ref_zone ref_zone_class rs (ix_zone_classes ix)"

lemma index_ref_ok:
  assumes "index_wf rs ix" "consistent_refs (rs @ [r])"
  shows "\<exists>ix'. index_ref r ix = Inr ix' \<and> index_wf (rs @ [r]) ix'"
proof -
  have ix: "groups_by ref_block rs (ix_blocks ix)" "groups_by ref_zone rs (ix_zones ix)"
    "values_by ref_block (\<lambda>r. (ref_zone r, ref_zone_class r)) rs (ix_block_meta ix)"
    "values_by ref_zone ref_zone_class rs (ix_zone_classes ix)"
    using assms(1) by (auto simp: index_wf_def)
  have same: "ref_block q = ref_block r \<Longrightarrow> (ref_zone q, ref_zone_class q) = (ref_zone r, ref_zone_class r)"
    "ref_zone q = ref_zone r \<Longrightarrow> ref_zone_class q = ref_zone_class r" if "q \<in> set rs" for q
  proof -
    have "q \<in> set (rs @ [r])" "r \<in> set (rs @ [r])" using that by simp_all
    then show "ref_block q = ref_block r \<Longrightarrow> (ref_zone q, ref_zone_class q) = (ref_zone r, ref_zone_class r)"
      "ref_zone q = ref_zone r \<Longrightarrow> ref_zone_class q = ref_zone_class r"
      using assms(2) unfolding consistent_refs_def by blast+
  qed
  have "\<not> map_of (ix_block_meta ix) (ref_block r) \<notin> {None, Some (ref_zone r, ref_zone_class r)}"
    using values_by_look[OF ix(3) same(1)] by blast
  moreover have "\<not> map_of (ix_zone_classes ix) (ref_zone r) \<notin> {None, Some (ref_zone_class r)}"
    using values_by_look[OF ix(4) same(2)] by blast
  ultimately show ?thesis unfolding index_ref_def Let_def
    using groups_by_snoc[OF ix(1), of r] groups_by_snoc[OF ix(2), of r] values_by_snoc[OF ix(3), of r] values_by_snoc[OF ix(4), of r]
    by (simp only: if_False) (simp add: index_wf_def)
qed

lemma index_refs_ok:
  "index_wf qs ix \<Longrightarrow> consistent_refs (qs @ rs) \<Longrightarrow> \<exists>ix'. index_refs rs ix = Inr ix' \<and> index_wf (qs @ rs) ix'"
proof (induction rs arbitrary: qs ix)
  case (Cons r rs)
  have "consistent_refs (qs @ [r])" using Cons.prems(2) by (auto simp: consistent_refs_def)
  then obtain ix1 where ix1: "index_ref r ix = Inr ix1" "index_wf (qs @ [r]) ix1" using index_ref_ok Cons.prems(1) by blast
  then show ?case using Cons.IH[of "qs @ [r]" ix1] Cons.prems(2) by simp
qed simp

lemma empty_index_wf: "index_wf [] empty_index"
  by (simp add: index_wf_def empty_index_def groups_by_def values_by_def)

text \<open>Sums over the members of every key are sums over the references.\<close>

lemma sum_over_members:
  fixes g :: "string \<Rightarrow> 'n::comm_monoid_add"
  assumes "distinct ks" "f ` set rs \<subseteq> set ks"
  shows "sum_list (map (\<lambda>k. sum_list (map g (members f rs k))) ks) = sum_list (map (g \<circ> ref_building) rs)"
  using assms(2)
proof (induction rs)
  case Nil
  then show ?case by (simp add: members_def)
next
  case (Cons r rs)
  have IH: "sum_list (map (\<lambda>k. sum_list (map g (members f rs k))) ks) = sum_list (map (g \<circ> ref_building) rs)"
    by (rule Cons.IH) (use Cons.prems in simp)
  have "sum_list (map (\<lambda>k. sum_list (map g (members f (r # rs) k))) ks) =
      sum_list (map (\<lambda>k. (if k = f r then g (ref_building r) else 0) + sum_list (map g (members f rs k))) ks)"
    by (rule arg_cong[where f = sum_list], rule map_cong) (auto simp: members_def)
  also have "\<dots> = sum_list (map (\<lambda>k. if k = f r then g (ref_building r) else 0) ks) + sum_list (map (g \<circ> ref_building) rs)"
    unfolding sum_list_addf IH ..
  also have "sum_list (map (\<lambda>k. if k = f r then g (ref_building r) else 0) ks) = g (ref_building r)"
    using assms(1) Cons.prems by (simp add: sum_list_distinct_conv_sum_set sum.delta)
  finally show ?case by simp
qed

end
