(* ===== verification/Aggregation_Levels.thy ===== *)
theory Aggregation_Levels
  imports Aggregation_Facts
begin

text \<open>
  The levels of the aggregation: the members of a block or a zone add up, in every column, to its
  record, and the records of a level add up to the totals.
\<close>

subsection \<open>The joined columns\<close>

definition residents_of :: "population_result \<Rightarrow> string \<Rightarrow> int" where
  "residents_of p b = ba_residents (the (lookup ba_id b (pop_allocations p)))"

definition jobs_of :: "employment_result \<Rightarrow> string \<Rightarrow> rat" where
  "jobs_of e b = je_jobs (the (lookup je_id b (er_buildings e)))"

definition cohorts_of :: "age_result \<Rightarrow> string \<Rightarrow> int list" where
  "cohorts_of a b = map agp_residents (bag_groups (the (lookup bag_id b (ages_buildings a))))"

text \<open>Results of the three stages over the same buildings, as their constructors accept them.\<close>

definition joined :: "scenario \<Rightarrow> population_result \<Rightarrow> age_result \<Rightarrow> employment_result \<Rightarrow> bool" where
  "joined sc p a e \<longleftrightarrow> scenario_wf sc \<and> population_wf p \<and> ages_meet sc p a \<and> make_age_result a = Inr a
     \<and> ages_version a = pop_version p \<and> ages_fingerprint a = pop_fingerprint p
     \<and> make_employment_result e = Inr e \<and> er_scenario_version e = pop_version p \<and> er_scenario_fingerprint e = pop_fingerprint p
     \<and> map je_id (er_buildings e) = map ba_id (pop_allocations p)
     \<and> list_all (\<lambda>j. is_finite (je_jobs j) \<and> 0 \<le> je_jobs j) (er_buildings e)
     \<and> es_jobs (er_summary e) = fsum (map je_jobs (er_buildings e)) \<and> es_jobs (er_summary e) \<le> 2 ^ 1000
     \<and> es_population (er_summary e) = dg_allocated (pop_diagnostics p)"

abbreviation building_ids :: "population_result \<Rightarrow> string list" where
  "building_ids p \<equiv> map ba_id (pop_allocations p)"

lemma map_eq_nth: "map f xs = map g ys \<Longrightarrow> i < length ys \<Longrightarrow> f (xs ! i) = g (ys ! i)"
  by (metis length_map nth_map)

lemma lookup_at: "distinct (map key rows) \<Longrightarrow> i < length rows \<Longrightarrow> lookup key (key (rows ! i)) rows = Some (rows ! i)"
proof (induction rows arbitrary: i)
  case (Cons r rows)
  then show ?case by (cases i) (auto simp: lookup_Cons)
qed simp

lemma joined_D:
  assumes "joined sc p a e"
  shows "distinct (building_ids p)" "map bag_id (ages_buildings a) = building_ids p" "map je_id (er_buildings e) = building_ids p"
    "map bag_total (ages_buildings a) = map ba_residents (pop_allocations p)"
    "length (ages_totals a) = length (scn_groups sc)"
  using assms population_wf_D[of p] unfolding joined_def ages_meet_def sorted_unique_def
  by (auto dest: map_eq_imp_length_eq)

lemma joined_at:
  assumes j: "joined sc p a e" and i: "i < length (pop_allocations p)"
  defines "b \<equiv> ba_id (pop_allocations p ! i)"
  shows "lookup ba_id b (pop_allocations p) = Some (pop_allocations p ! i)"
    "lookup bag_id b (ages_buildings a) = Some (ages_buildings a ! i)"
    "lookup je_id b (er_buildings e) = Some (er_buildings e ! i)"
proof -
  note D = joined_D[OF j]
  have len: "length (ages_buildings a) = length (pop_allocations p)" "length (er_buildings e) = length (pop_allocations p)"
    using D(2,3) by (auto dest: map_eq_imp_length_eq)
  show "lookup ba_id b (pop_allocations p) = Some (pop_allocations p ! i)" unfolding b_def using lookup_at[OF D(1) i] .
  have "bag_id (ages_buildings a ! i) = b" "je_id (er_buildings e ! i) = b"
    unfolding b_def using map_eq_nth[OF D(2) i] map_eq_nth[OF D(3) i] by auto
  then show "lookup bag_id b (ages_buildings a) = Some (ages_buildings a ! i)"
    "lookup je_id b (er_buildings e) = Some (er_buildings e ! i)"
    using lookup_at[of bag_id "ages_buildings a" i] lookup_at[of je_id "er_buildings e" i] D(1-3) i len by auto
qed

lemma allocated_nonneg: "population_wf p \<Longrightarrow> 0 \<le> dg_allocated (pop_diagnostics p)"
proof -
  assume "population_wf p"
  then have "dg_allocated (pop_diagnostics p) = sum_list (map ba_residents (pop_allocations p))"
    "\<forall>b \<in> set (pop_allocations p). 0 \<le> ba_residents b"
    using population_wf_D[of p] by (auto simp: list_all_iff)
  then show ?thesis by (auto intro!: sum_list_nonneg)
qed

lemma joined_jobs:
  assumes j: "joined sc p a e"
  shows "0 \<le> es_jobs (er_summary e)" "is_finite (es_jobs (er_summary e))"
proof -
  show "0 \<le> es_jobs (er_summary e)" using j by (auto simp: joined_def fsum_def list_all_iff intro!: fl_nonneg sum_list_nonneg)
  then show "is_finite (es_jobs (er_summary e))" using j unfolding joined_def by (intro bounded_finite) blast+
qed

lemma columns_of:
  assumes j: "joined sc p a e"
  shows "map (residents_of p) (building_ids p) = map ba_residents (pop_allocations p)"
    "map (jobs_of e) (building_ids p) = map je_jobs (er_buildings e)"
    "map (cohorts_of a) (building_ids p) = map (map agp_residents \<circ> bag_groups) (ages_buildings a)"
proof -
  note D = joined_D[OF j]
  have len: "length (ages_buildings a) = length (pop_allocations p)" "length (er_buildings e) = length (pop_allocations p)"
    using D(2,3) by (auto dest: map_eq_imp_length_eq)
  show "map (residents_of p) (building_ids p) = map ba_residents (pop_allocations p)"
    by (rule nth_equalityI) (auto simp: residents_of_def joined_at[OF j])
  show "map (jobs_of e) (building_ids p) = map je_jobs (er_buildings e)"
    by (rule nth_equalityI) (auto simp: jobs_of_def joined_at[OF j] len)
  show "map (cohorts_of a) (building_ids p) = map (map agp_residents \<circ> bag_groups) (ages_buildings a)"
    by (rule nth_equalityI) (auto simp: cohorts_of_def joined_at[OF j] len)
qed

lemma joined_building:
  assumes j: "joined sc p a e" and b: "b \<in> set (building_ids p)"
  obtains x y z where "lookup ba_id b (pop_allocations p) = Some x" "lookup bag_id b (ages_buildings a) = Some y"
    "lookup je_id b (er_buildings e) = Some z" "length (bag_groups y) = length (ages_totals a)"
    "list_all2 same_group (bag_groups y) (ages_totals a)" "sum_list (cohorts_of a b) = residents_of p b"
    "\<forall>n \<in> set (cohorts_of a b). 0 \<le> n" "0 \<le> jobs_of e b" "0 \<le> residents_of p b" "length (cohorts_of a b) = length (ages_totals a)"
proof -
  note D = joined_D[OF j]
  obtain i where i: "i < length (pop_allocations p)" "b = ba_id (pop_allocations p ! i)"
    using b by (auto simp: in_set_conv_nth)
  have len: "length (ages_buildings a) = length (pop_allocations p)" "length (er_buildings e) = length (pop_allocations p)"
    using D(2,3) by (auto dest: map_eq_imp_length_eq)
  note at = joined_at[OF j i(1), folded i(2)]
  let ?y = "ages_buildings a ! i"
  have "?y \<in> set (ages_buildings a)" "er_buildings e ! i \<in> set (er_buildings e)" "pop_allocations p ! i \<in> set (pop_allocations p)"
    using i len by simp_all
  then have y: "map agp_code (bag_groups ?y) = map agt_code (ages_totals a)"
      "map agp_min (bag_groups ?y) = map agt_min (ages_totals a)" "map agp_max (bag_groups ?y) = map agt_max (ages_totals a)"
      "sum_list (map agp_residents (bag_groups ?y)) = bag_total ?y" "\<forall>n \<in> set (map agp_residents (bag_groups ?y)). 0 \<le> n"
    and z: "0 \<le> je_jobs (er_buildings e ! i)" and x: "0 \<le> ba_residents (pop_allocations p ! i)"
    using j population_wf_D[of p] unfolding joined_def ages_meet_def list_all_iff by auto
  have ly: "length (bag_groups ?y) = length (ages_totals a)" using y(1) by (rule map_eq_imp_length_eq)
  have "list_all2 same_group (bag_groups ?y) (ages_totals a)"
    unfolding list_all2_conv_all_nth same_group_def using ly map_eq_nth[OF y(1)] map_eq_nth[OF y(2)] map_eq_nth[OF y(3)] by simp
  moreover have "bag_total ?y = ba_residents (pop_allocations p ! i)" using map_eq_nth[OF D(4) i(1)] .
  ultimately show ?thesis
    using that[OF at ly] y(4,5) x z ly at by (simp add: cohorts_of_def residents_of_def jobs_of_def)
qed

subsection \<open>The sums over members\<close>

definition member_cohorts :: "age_result \<Rightarrow> string list \<Rightarrow> nat \<Rightarrow> int" where
  "member_cohorts a bs i = sum_list (map (\<lambda>b. cohorts_of a b ! i) bs)"

lemma member_loop_ok:
  assumes j: "joined sc p a e" and "set bs \<subseteq> set (building_ids p)" "length cs = length (ages_totals a)"
  shows "member_loop p a e bs (n, js, cs) = Inr (n + sum_list (map (residents_of p) bs), js @ map (jobs_of e) bs,
    map (\<lambda>i. cs ! i + member_cohorts a bs i) [0..<length (ages_totals a)])"
  using assms(2,3)
proof (induction bs arbitrary: n js cs)
  case Nil
  then show ?case using map_nth[of cs] by (simp add: member_cohorts_def)
next
  case (Cons b bs)
  have b: "b \<in> set (building_ids p)" and bs: "set bs \<subseteq> set (building_ids p)" using Cons.prems(1) by auto
  obtain x y z where x: "lookup ba_id b (pop_allocations p) = Some x" and y: "lookup bag_id b (ages_buildings a) = Some y"
    and z: "lookup je_id b (er_buildings e) = Some z" and ly: "length (bag_groups y) = length (ages_totals a)"
    and same: "list_all2 same_group (bag_groups y) (ages_totals a)"
    by (rule joined_building[OF j b])
  have col: "cohorts_of a b = map agp_residents (bag_groups y)" "residents_of p b = ba_residents x" "jobs_of e b = je_jobs z"
    by (simp_all add: cohorts_of_def residents_of_def jobs_of_def x y z)
  let ?cs = "map2 (+) cs (map agp_residents (bag_groups y))"
  have lcs: "length ?cs = length (ages_totals a)" using Cons.prems(2) ly by simp
  have step: "?cs ! i + member_cohorts a bs i = cs ! i + member_cohorts a (b # bs) i" if "i < length (ages_totals a)" for i
    using that Cons.prems(2) ly by (simp add: member_cohorts_def col)
  have "map (\<lambda>i. ?cs ! i + member_cohorts a bs i) [0..<length (ages_totals a)] =
      map (\<lambda>i. cs ! i + member_cohorts a (b # bs) i) [0..<length (ages_totals a)]"
    by (rule map_cong) (simp_all only: step set_upt atLeastLessThan_iff)
  then show ?case using Cons.IH[OF bs lcs, of "n + ba_residents x" "js @ [je_jobs z]"] x y z ly same
    by (simp add: by_id_def col add.assoc)
qed

lemma sum_nth_upt: "length xs = k \<Longrightarrow> sum_list (map ((!) xs) [0..<k]) = sum_list xs"
  using map_nth[of xs] by auto

lemma member_cohorts_sum:
  assumes j: "joined sc p a e" and "set bs \<subseteq> set (building_ids p)"
  shows "sum_list (map (member_cohorts a bs) [0..<length (ages_totals a)]) = sum_list (map (residents_of p) bs)"
  using assms(2)
proof (induction bs)
  case Nil
  then show ?case by (simp add: member_cohorts_def sum_list_0)
next
  case (Cons b bs)
  then have b: "b \<in> set (building_ids p)" by simp
  have sum: "sum_list (cohorts_of a b) = residents_of p b" "length (cohorts_of a b) = length (ages_totals a)"
    using joined_building[OF j b] by metis+
  have "member_cohorts a (b # bs) = (\<lambda>i. cohorts_of a b ! i + member_cohorts a bs i)" by (auto simp: member_cohorts_def)
  then show ?case using Cons sum_nth_upt[OF sum(2)] sum(1) by (simp add: sum_list_addf)
qed

definition member_groups :: "age_result \<Rightarrow> string list \<Rightarrow> age_population list" where
  "member_groups a bs = map (\<lambda>i. \<lparr>agp_code = agt_code (ages_totals a ! i), agp_min = agt_min (ages_totals a ! i),
     agp_max = agt_max (ages_totals a ! i), agp_residents = member_cohorts a bs i\<rparr>) [0..<length (ages_totals a)]"

lemma joined_totals:
  assumes j: "joined sc p a e"
  shows "ages_totals a \<noteq> []" "distinct (map agt_code (ages_totals a))"
    "\<forall>t \<in> set (ages_totals a). agt_code t \<noteq> [] \<and> 0 \<le> agt_min t \<and> (\<forall>m. agt_max t = Some m \<longrightarrow> agt_min t \<le> m) \<and> 0 \<le> agt_residents t"
proof -
  show "ages_totals a \<noteq> []" "distinct (map agt_code (ages_totals a))"
    using j by (auto simp: joined_def make_age_result_def bindE_Inr_iff)
  have cols: "map agt_code (ages_totals a) = map share_code (scn_groups sc)" "map agt_min (ages_totals a) = map share_min (scn_groups sc)"
    "map agt_max (ages_totals a) = map share_max (scn_groups sc)" and wf: "list_all share_wf (scn_groups sc)"
    and cm: "cohorts_meet (map (repr_value \<circ> share_value) (scn_groups sc)) (ages_population a) (map agt_residents (ages_totals a))"
    using j by (auto simp: joined_def ages_meet_def scenario_wf_def)
  have len: "length (ages_totals a) = length (scn_groups sc)" using cols(1) by (rule map_eq_imp_length_eq)
  show "\<forall>t \<in> set (ages_totals a). agt_code t \<noteq> [] \<and> 0 \<le> agt_min t \<and> (\<forall>m. agt_max t = Some m \<longrightarrow> agt_min t \<le> m) \<and> 0 \<le> agt_residents t"
  proof
    fix t assume "t \<in> set (ages_totals a)"
    then obtain i where i: "i < length (ages_totals a)" "t = ages_totals a ! i" by (auto simp: in_set_conv_nth)
    then have g: "i < length (scn_groups sc)" using len by simp
    then have "share_wf (scn_groups sc ! i)" using wf by (simp add: list_all_length)
    moreover have "agt_code t = share_code (scn_groups sc ! i)" "agt_min t = share_min (scn_groups sc ! i)"
      "agt_max t = share_max (scn_groups sc ! i)"
      using map_eq_nth[OF cols(1) g] map_eq_nth[OF cols(2) g] map_eq_nth[OF cols(3) g] i by auto
    moreover have "0 \<le> map agt_residents (ages_totals a) ! i" using cm g unfolding cohorts_meet_def length_map by blast
    then have "0 \<le> agt_residents t" using i by simp
    ultimately show "agt_code t \<noteq> [] \<and> 0 \<le> agt_min t \<and> (\<forall>m. agt_max t = Some m \<longrightarrow> agt_min t \<le> m) \<and> 0 \<le> agt_residents t"
      by (simp add: share_wf_def)
  qed
qed

lemma make_age_population_ok:
  "agp_code g \<noteq> [] \<Longrightarrow> 0 \<le> agp_min g \<Longrightarrow> \<forall>m. agp_max g = Some m \<longrightarrow> agp_min g \<le> m \<Longrightarrow> 0 \<le> agp_residents g \<Longrightarrow>
   make_age_population g = Inr g"
  by (auto simp: make_age_population_def check_age_interval_def split: option.splits)

lemma zip_nth_upt: "zip xs (map f [0..<length xs]) = map (\<lambda>i. (xs ! i, f i)) [0..<length xs]"
  by (rule nth_equalityI) auto

lemma aggregate_members_ok:
  assumes j: "joined sc p a e" and bs: "set bs \<subseteq> set (building_ids p)" and fin: "is_finite (fl (sum_list (map (jobs_of e) bs)))"
  shows "aggregate_members p a e bs = Inr (sum_list (map (residents_of p) bs), member_groups a bs, fl (sum_list (map (jobs_of e) bs)))"
proof -
  let ?k = "length (ages_totals a)"
  note T = joined_totals[OF j]
  have nn: "0 \<le> member_cohorts a bs i" if "i < ?k" for i
  proof -
    have "0 \<le> cohorts_of a b ! i" if "b \<in> set bs" for b
    proof -
      have "b \<in> set (building_ids p)" using bs that by blast
      then have "\<forall>n \<in> set (cohorts_of a b). 0 \<le> n" "length (cohorts_of a b) = ?k" using joined_building[OF j] by metis+
      then show ?thesis using \<open>i < ?k\<close> by simp
    qed
    then show ?thesis unfolding member_cohorts_def by (intro sum_list_nonneg) auto
  qed
  let ?cs = "map (member_cohorts a bs) [0..<?k]"
  have loop: "member_loop p a e bs (0, [], map (\<lambda>_. 0) (ages_totals a)) =
      Inr (sum_list (map (residents_of p) bs), map (jobs_of e) bs, ?cs)"
    using member_loop_ok[OF j bs, of "map (\<lambda>_. 0) (ages_totals a)" 0 "[]"] by (simp cong: map_cong)
  have "mapE (\<lambda>(t, n). make_age_population \<lparr>agp_code = agt_code t, agp_min = agt_min t, agp_max = agt_max t,
       agp_residents = n\<rparr>) (zip (ages_totals a) ?cs) = Inr (member_groups a bs)"
    unfolding zip_nth_upt mapE_map member_groups_def
    by (rule mapE_total) (use T(3) nn in \<open>auto intro!: make_age_population_ok\<close>)
  then show ?thesis unfolding aggregate_members_def loop using fin by (simp add: fsumE_def fsum_def)
qed

end
