(* ===== verification/Aggregation_Result.thy ===== *)
theory Aggregation_Result
  imports Aggregation_Levels
begin

text \<open>
  The result of the aggregation: every block and zone is the sum of its members, every level meets the
  totals, and nothing raises.
\<close>

text \<open>References that their constructor accepted, one per building of the population, with consistent zones.\<close>

definition refs_join :: "aggregation_ref list \<Rightarrow> population_result \<Rightarrow> bool" where
  "refs_join rs p \<longleftrightarrow> consistent_refs rs \<and> distinct (map ref_building rs)
     \<and> set (map ref_building rs) = set (building_ids p)
     \<and> (\<forall>r \<in> set rs. make_aggregation_ref (ref_building r) (ref_block r) (ref_zone r) (ref_zone_class r) = Inr r)"

lemma refs_join_sorted:
  assumes "refs_join rs p" "sorted_unique (building_ids p)"
  shows "refs_join (sort_key ref_building rs) p" "map ref_building (sort_key ref_building rs) = building_ids p"
proof -
  have "mset (map ref_building (sort_key ref_building rs)) = mset (map ref_building rs)" by simp
  then have d: "distinct (map ref_building (sort_key ref_building rs))"
    using assms(1) mset_eq_imp_distinct_iff unfolding refs_join_def by blast
  have "consistent_refs (sort_key ref_building rs) = consistent_refs rs" by (simp only: consistent_refs_def set_sort)
  then show "refs_join (sort_key ref_building rs) p" using assms(1) d unfolding refs_join_def set_map set_sort by blast
  show "map ref_building (sort_key ref_building rs) = building_ids p"
  proof (rule sorted_distinct_set_unique)
    show "sorted (map ref_building (sort_key ref_building rs))" by (rule sorted_sort_key)
    show "distinct (map ref_building (sort_key ref_building rs))" by (rule d)
    show "sorted (building_ids p)" "distinct (building_ids p)" using assms(2) by (simp_all add: sorted_unique_def)
    show "set (map ref_building (sort_key ref_building rs)) = set (building_ids p)"
      using assms(1) unfolding refs_join_def set_map set_sort by blast
  qed
qed

subsection \<open>A level\<close>

text \<open>What a level of the hierarchy must say of a key: the sums over its members.\<close>

definition level_of ::
  "population_result \<Rightarrow> age_result \<Rightarrow> employment_result \<Rightarrow> string list \<Rightarrow> int \<times> int \<times> rat \<times> age_population list" where
  "level_of p a e bs = (int (length bs), sum_list (map (residents_of p) bs), fl (sum_list (map (jobs_of e) bs)), member_groups a bs)"

definition totals_of :: "nat \<Rightarrow> nat \<Rightarrow> population_result \<Rightarrow> age_result \<Rightarrow> employment_result \<Rightarrow> aggregation_totals" where
  "totals_of nb nz p a e = \<lparr>tot_buildings = int (length (pop_allocations p)), tot_blocks = int nb, tot_zones = int nz,
     tot_population = dg_allocated (pop_diagnostics p),
     tot_groups = map (\<lambda>t. \<lparr>agp_code = agt_code t, agp_min = agt_min t, agp_max = agt_max t, agp_residents = agt_residents t\<rparr>)
       (ages_totals a),
     tot_jobs = es_jobs (er_summary e)\<rparr>"

lemma members_subset: "set (members f rs k) \<subseteq> ref_building ` set rs"
  by (auto simp: members_def)

lemma cohort_column:
  assumes j: "joined sc p a e" and i: "i < length (ages_totals a)"
  shows "member_cohorts a (building_ids p) i = agt_residents (ages_totals a ! i)"
proof -
  have ig: "i < length (scn_groups sc)" using i joined_D(5)[OF j] by simp
  have len: "length (bag_groups b) = length (scn_groups sc)" if "b \<in> set (ages_buildings a)" for b
  proof -
    have "map agp_code (bag_groups b) = map share_code (scn_groups sc)"
      using j that unfolding joined_def ages_meet_def list_all_iff by blast
    then show ?thesis by (rule map_eq_imp_length_eq)
  qed
  have "member_cohorts a (building_ids p) i = sum_list (map (\<lambda>c. c ! i) (map (cohorts_of a) (building_ids p)))"
    by (simp add: member_cohorts_def comp_def)
  also have "\<dots> = sum_list (map (\<lambda>b. agp_residents (bag_groups b ! i)) (ages_buildings a))"
    unfolding columns_of(3)[OF j] unfolding list.map_comp using len ig by (intro arg_cong[where f = sum_list] map_cong) auto
  also have "\<dots> = agt_residents (ages_totals a ! i)" using j ig unfolding joined_def ages_meet_def by blast
  finally show ?thesis .
qed

lemma level_ok:
  assumes j: "joined sc p a e" and ids: "map ref_building rs = building_ids p" and small: "length rs \<le> 2 ^ 64"
    and ks: "distinct ks" "set ks = f ` set rs"
  shows "validate_level label (map (\<lambda>k. level_of p a e (members f rs k)) ks) (totals_of nb nz p a e) = Inr ()"
proof -
  let ?M = "members f rs"
  have over: "sum_list (map (\<lambda>k. sum_list (map g (?M k))) ks) = sum_list (map g (building_ids p))" for g :: "string \<Rightarrow> 'n::comm_monoid_add"
    using sum_over_members[OF ks(1), of f rs g] ks(2) unfolding ids[symmetric] map_map by simp
  have n: "sum_list (map (\<lambda>k. int (length (?M k))) ks) = int (length (pop_allocations p))"
    using over[of "\<lambda>_. 1 :: int"] by (simp add: sum_list_triv comp_def)
  have r: "sum_list (map (\<lambda>k. sum_list (map (residents_of p) (?M k))) ks) = dg_allocated (pop_diagnostics p)"
    unfolding over columns_of(1)[OF j] using j population_wf_D[of p] by (simp add: joined_def)
  have js: "sum_list (map (\<lambda>k. sum_list (map (jobs_of e) (?M k))) ks) = sum_list (map je_jobs (er_buildings e))"
    unfolding over columns_of(2)[OF j] ..
  have nonneg: "0 \<le> sum_list (map (jobs_of e) (?M k))" for k
  proof (rule sum_list_nonneg)
    fix x assume "x \<in> set (map (jobs_of e) (?M k))"
    then obtain b where b: "x = jobs_of e b" "b \<in> ref_building ` set rs" using members_subset[of f rs k] by auto
    then have "b \<in> set (building_ids p)" unfolding ids[symmetric] by simp
    then show "0 \<le> x" using joined_building[OF j] b(1) by metis
  qed
  have "length ks = card (f ` set rs)" using ks distinct_card by metis
  then have "length ks \<le> length rs" using card_image_le[of "set rs" f] card_length[of rs] by simp
  then have lk: "length ks \<le> 2 ^ 64" using small by simp
  have "close_area (fsum (map fl (map (\<lambda>k. sum_list (map (jobs_of e) (?M k))) ks))) (es_jobs (er_summary e))"
    using fsum_close[of "map (\<lambda>k. sum_list (map (jobs_of e) (?M k))) ks"] nonneg lk j js
    by (auto simp: joined_def fsum_def)
  moreover have "is_finite (fsum (map fl (map (\<lambda>k. sum_list (map (jobs_of e) (?M k))) ks)))"
    by (rule fsum_parts_finite) (use nonneg lk j js in \<open>auto simp: joined_def fsum_def\<close>)
  ultimately have jobs: "is_finite (fsum (map (\<lambda>k. fl (sum_list (map (jobs_of e) (?M k)))) ks))"
    "close_area (fsum (map (\<lambda>k. fl (sum_list (map (jobs_of e) (?M k)))) ks)) (es_jobs (er_summary e))"
    by (simp_all add: comp_def)
  have cohorts: "sum_list (map (\<lambda>k. agp_residents (member_groups a (?M k) ! i)) ks) = agt_residents (ages_totals a ! i)"
    if i: "i < length (ages_totals a)" for i
  proof -
    have "agp_residents (member_groups a bs ! i) = member_cohorts a bs i" for bs using i by (simp add: member_groups_def)
    then show ?thesis using over[of "\<lambda>b. cohorts_of a b ! i"] cohort_column[OF j i] by (simp add: member_cohorts_def)
  qed
  then have "list_all (\<lambda>(i, g). sum_list (map (\<lambda>(_, _, _, gs). agp_residents (gs ! i)) (map (\<lambda>k. level_of p a e (?M k)) ks))
      = agp_residents g) (enumerate 0 (tot_groups (totals_of nb nz p a e)))"
    by (auto simp: list_all_iff in_set_enumerate_eq totals_of_def level_of_def comp_def)
  then show ?thesis unfolding validate_level_def using n r jobs
    by (simp add: totals_of_def level_of_def comp_def)
qed

subsection \<open>The records of a level\<close>

lemma sum_list_filter_le: "\<forall>x \<in> set xs. 0 \<le> g x \<Longrightarrow> sum_list (map g (filter P xs)) \<le> (sum_list (map g xs) :: rat)"
  by (induction xs) auto

lemma member_jobs:
  assumes j: "joined sc p a e" and ids: "map ref_building rs = building_ids p"
  shows "is_finite (fl (sum_list (map (jobs_of e) (members f rs k)))) \<and> 0 \<le> fl (sum_list (map (jobs_of e) (members f rs k)))"
proof -
  let ?s = "sum_list (map (jobs_of e) (members f rs k))"
  have nn: "0 \<le> jobs_of e (ref_building r)" if "r \<in> set rs" for r
  proof -
    have "ref_building r \<in> set (building_ids p)" unfolding ids[symmetric] using that by simp
    then show ?thesis using joined_building[OF j] by metis
  qed
  then have nn': "\<forall>r \<in> set rs. 0 \<le> (jobs_of e \<circ> ref_building) r" by simp
  have s: "?s = sum_list (map (jobs_of e \<circ> ref_building) (filter (\<lambda>r. f r = k) rs))" by (simp add: members_def)
  have "?s \<le> sum_list (map (jobs_of e \<circ> ref_building) rs)" unfolding s by (rule sum_list_filter_le[OF nn'])
  also have "\<dots> = sum_list (map je_jobs (er_buildings e))"
    unfolding columns_of(2)[OF j, symmetric] ids[symmetric] list.map_comp ..
  finally have le: "?s \<le> sum_list (map je_jobs (er_buildings e))" .
  have "0 \<le> ?s" unfolding s using nn by (intro sum_list_nonneg) auto
  then have "fl ?s \<le> es_jobs (er_summary e)" "0 \<le> fl ?s" using j fl_mono[OF _ le] by (auto simp: joined_def fsum_def intro: fl_nonneg)
  then show ?thesis using joined_jobs(2)[OF j] is_finite_mono by blast
qed

lemma member_groups_valid:
  assumes j: "joined sc p a e" and bs: "set bs \<subseteq> set (building_ids p)"
  shows "validate_age_groups (member_groups a bs) (sum_list (map (residents_of p) bs)) = Inr ()"
proof -
  have codes: "map agp_code (member_groups a bs) = map agt_code (ages_totals a)"
    by (rule nth_equalityI) (simp_all add: member_groups_def)
  have res: "map agp_residents (member_groups a bs) = map (member_cohorts a bs) [0..<length (ages_totals a)]"
    by (simp add: member_groups_def)
  have ne: "member_groups a bs \<noteq> []" using joined_totals(1)[OF j] by (simp add: member_groups_def)
  show ?thesis unfolding validate_age_groups_def codes res member_cohorts_sum[OF j bs] using ne joined_totals(2)[OF j] by simp
qed

lemma members_known:
  assumes "map ref_building rs = building_ids p"
  shows "set (members f rs k) \<subseteq> set (building_ids p)"
proof -
  have "set (building_ids p) = ref_building ` set rs" by (metis assms set_map)
  then show ?thesis using members_subset[of f rs k] by simp
qed

lemma members_residents:
  assumes j: "joined sc p a e" and ids: "map ref_building rs = building_ids p"
  shows "0 \<le> sum_list (map (residents_of p) (members f rs k))"
proof (rule sum_list_nonneg)
  fix x assume "x \<in> set (map (residents_of p) (members f rs k))"
  then obtain b where "x = residents_of p b" "b \<in> set (members f rs k)" by auto
  moreover have "b \<in> set (building_ids p)" if "b \<in> set (members f rs k)" for b using members_known[OF ids, of f k] that by blast
  ultimately show "0 \<le> x" using joined_building[OF j] by metis
qed

lemma members_nonempty: "k \<in> f ` set rs \<Longrightarrow> members f rs k \<noteq> []"
  by (auto simp: members_def filter_empty_conv)

lemma accepted_ref:
  assumes "refs_join rs p" "r \<in> set rs"
  shows "check_id err field (ref_building r) = Inr ()" "check_id err field (ref_block r) = Inr ()" "check_id err field (ref_zone r) = Inr ()"
proof -
  have "make_aggregation_ref (ref_building r) (ref_block r) (ref_zone r) (ref_zone_class r) = Inr r"
    using assms unfolding refs_join_def by blast
  then show "check_id err field (ref_building r) = Inr ()" "check_id err field (ref_block r) = Inr ()"
    "check_id err field (ref_zone r) = Inr ()"
    by (auto simp: make_aggregation_ref_def bindE_Inr_iff)
qed

lemma build_block_ok:
  assumes j: "joined sc p a e" and ids: "map ref_building rs = building_ids p" and rs: "refs_join rs p"
    and ix: "index_wf rs ix" and k: "k \<in> ref_block ` set rs"
  shows "\<exists>b. build_block p a e ix k = Inr b \<and> blk_id b = k \<and> block_level b = level_of p a e (members ref_block rs k)
    \<and> (\<exists>r \<in> set rs. ref_block r = k \<and> blk_zone b = ref_zone r \<and> blk_zone_class b = ref_zone_class r)"
proof -
  let ?bs = "members ref_block rs k"
  have bs: "the (map_of (ix_blocks ix) k) = ?bs" using ix k by (simp add: index_wf_def groups_by_def)
  have meta: "values_by ref_block (\<lambda>r. (ref_zone r, ref_zone_class r)) rs (ix_block_meta ix)" using ix by (simp add: index_wf_def)
  from k obtain q where q: "q \<in> set rs" "ref_block q = k" by blast
  then have "map_of (ix_block_meta ix) k \<noteq> None" using meta unfolding values_by_def by blast
  then obtain r where m: "map_of (ix_block_meta ix) k = Some (ref_zone r, ref_zone_class r)" and r: "r \<in> set rs" "ref_block r = k"
    using meta unfolding values_by_def by blast
  note members = aggregate_members_ok[OF j members_known[OF ids] conjunct1[OF member_jobs[OF j ids]]] member_groups_valid[OF j members_known[OF ids]]
    members_residents[OF j ids, of ref_block k] member_jobs[OF j ids, of ref_block k]
  have ne: "0 < length ?bs" using members_nonempty[OF k] by simp
  let ?b = "\<lparr>blk_id = k, blk_zone = ref_zone r, blk_zone_class = ref_zone_class r, blk_buildings = int (length ?bs),
       blk_population = sum_list (map (residents_of p) ?bs), blk_groups = member_groups a ?bs, blk_jobs = fl (sum_list (map (jobs_of e) ?bs))\<rparr>"
  have "make_block_aggregate ?b = Inr ?b"
    using accepted_ref(2,3)[OF rs r(1)] r(2) members ne by (simp add: make_block_aggregate_def)
  then have "build_block p a e ix k = Inr ?b" by (simp add: build_block_def Let_def bs m members(1))
  then show ?thesis using r by (intro exI[of _ ?b]) (auto simp: block_level_def level_of_def)
qed

lemma build_zone_ok:
  assumes j: "joined sc p a e" and ids: "map ref_building rs = building_ids p" and rs: "refs_join rs p"
    and ix: "index_wf rs ix" and z: "z \<in> ref_zone ` set rs" and blocks: "\<exists>b \<in> set blocks. blk_zone b = z"
  shows "\<exists>x. build_zone p a e ix blocks z = Inr x \<and> zon_id x = z \<and> zone_level x = level_of p a e (members ref_zone rs z)
    \<and> zon_blocks x = int (length (filter (\<lambda>b. blk_zone b = z) blocks))"
proof -
  let ?bs = "members ref_zone rs z" and ?n = "length (filter (\<lambda>b. blk_zone b = z) blocks)"
  have bs: "the (map_of (ix_zones ix) z) = ?bs" using ix z by (simp add: index_wf_def groups_by_def)
  from z obtain r where r: "r \<in> set rs" "ref_zone r = z" by blast
  note members = aggregate_members_ok[OF j members_known[OF ids] conjunct1[OF member_jobs[OF j ids]]] member_groups_valid[OF j members_known[OF ids]]
    members_residents[OF j ids, of ref_zone z] member_jobs[OF j ids, of ref_zone z]
  have ne: "0 < length ?bs" using members_nonempty[OF z] by simp
  have n: "0 < ?n" using blocks by (auto simp: filter_empty_conv)
  let ?x = "\<lparr>zon_id = z, zon_class = the (map_of (ix_zone_classes ix) z), zon_blocks = int ?n, zon_buildings = int (length ?bs),
       zon_population = sum_list (map (residents_of p) ?bs), zon_groups = member_groups a ?bs, zon_jobs = fl (sum_list (map (jobs_of e) ?bs))\<rparr>"
  have "make_zone_aggregate ?x = Inr ?x"
    using accepted_ref(3)[OF rs r(1)] r(2) members ne n by (simp add: make_zone_aggregate_def)
  then have "build_zone p a e ix blocks z = Inr ?x" by (simp add: build_zone_def Let_def bs members(1))
  then show ?thesis by (intro exI[of _ ?x]) (auto simp: zone_level_def level_of_def)
qed

subsection \<open>The aggregation\<close>

text \<open>
  What the result says: one block and one zone aggregate for each key of the references, in order, each
  the sum of its members in every column, under the totals of the population.
\<close>

definition aggregation_meets ::
  "aggregation_ref list \<Rightarrow> population_result \<Rightarrow> age_result \<Rightarrow> employment_result \<Rightarrow> aggregation_result \<Rightarrow> bool" where
  "aggregation_meets rs p a e r \<longleftrightarrow>
     map blk_id (agg_blocks r) = sorted_list_of_set (ref_block ` set rs)
     \<and> map zon_id (agg_zones r) = sorted_list_of_set (ref_zone ` set rs)
     \<and> map block_level (agg_blocks r) = map (\<lambda>k. level_of p a e (members ref_block rs k)) (sorted_list_of_set (ref_block ` set rs))
     \<and> map zone_level (agg_zones r) = map (\<lambda>k. level_of p a e (members ref_zone rs k)) (sorted_list_of_set (ref_zone ` set rs))
     \<and> agg_totals r = totals_of (card (ref_block ` set rs)) (card (ref_zone ` set rs)) p a e"

lemma sorted_keys: "distinct ks \<Longrightarrow> set ks = S \<Longrightarrow> sort ks = sorted_list_of_set S"
  using sorted_list_of_set.idem_if_sorted_distinct[of "sort ks"] by auto

lemma mapE_ex:
  assumes "\<And>x. x \<in> set xs \<Longrightarrow> \<exists>y. f x = Inr y \<and> P x y"
  shows "\<exists>ys. mapE f xs = Inr ys \<and> list_all2 P xs ys"
  using assms
proof (induction xs)
  case (Cons x xs)
  then obtain y ys where "f x = Inr y" "P x y" "mapE f xs = Inr ys" "list_all2 P xs ys" by (meson list.set_intros)
  then show ?case by (intro exI[of _ "y # ys"]) simp
qed simp

lemma list_all2_columns: "list_all2 P xs ys \<Longrightarrow> (\<And>x y. P x y \<Longrightarrow> g y = h x) \<Longrightarrow> map g ys = map h xs"
  by (induction rule: list_all2_induct) auto

lemma totals_ok:
  assumes j: "joined sc p a e"
  shows "make_aggregation_totals (totals_of nb nz p a e) = Inr (totals_of nb nz p a e)"
proof -
  let ?gs = "tot_groups (totals_of nb nz p a e)"
  have cols: "map agp_code ?gs = map agt_code (ages_totals a)" "map agp_residents ?gs = map agt_residents (ages_totals a)"
    by (simp_all add: totals_of_def)
  have "sum_list (map agt_residents (ages_totals a)) = ages_population a"
    "ages_population a = sum_list (map ba_residents (pop_allocations p))"
    using j by (auto simp: joined_def make_age_result_def ages_meet_def bindE_Inr_iff)
  then have sum: "sum_list (map agp_residents ?gs) = dg_allocated (pop_diagnostics p)"
    unfolding cols using j population_wf_D[of p] by (simp add: joined_def)
  then have groups: "validate_age_groups ?gs (dg_allocated (pop_diagnostics p)) = Inr ()"
    unfolding validate_age_groups_def cols using joined_totals(1,2)[OF j] by (simp add: totals_of_def)
  have nn: "0 \<le> dg_allocated (pop_diagnostics p)" using j allocated_nonneg by (simp add: joined_def)
  note jobs = joined_jobs[OF j]
  show ?thesis unfolding make_aggregation_totals_def using groups nn jobs by (simp add: totals_of_def)
qed

lemma aggregation_inputs_ok:
  assumes j: "joined sc p a e" and refs: "refs_join refs p" "length refs \<le> max_buildings"
  shows "validate_aggregation_inputs max_buildings refs p a e = Inr ()"
proof -
  note D = joined_D[OF j]
  have "map_option ba_residents (lookup ba_id (bag_id b) (pop_allocations p)) = Some (bag_total b)" if "b \<in> set (ages_buildings a)" for b
  proof -
    obtain i where i: "i < length (ages_buildings a)" "b = ages_buildings a ! i" using \<open>b \<in> set (ages_buildings a)\<close> by (auto simp: in_set_conv_nth)
    then have ip: "i < length (pop_allocations p)" using D(2) by (auto dest: map_eq_imp_length_eq)
    have "bag_id b = ba_id (pop_allocations p ! i)" "bag_total b = ba_residents (pop_allocations p ! i)"
      using map_eq_nth[OF D(2) ip] map_eq_nth[OF D(4) ip] i by auto
    then show ?thesis using joined_at(1)[OF j ip] by simp
  qed
  then have totals: "list_all (\<lambda>b. map_option ba_residents (lookup ba_id (bag_id b) (pop_allocations p)) = Some (bag_total b)) (ages_buildings a)"
    by (simp add: list_all_iff)
  have pop: "ages_population a = dg_allocated (pop_diagnostics p)"
    using j population_wf_D[of p] by (simp add: joined_def ages_meet_def)
  have sets: "set (map bag_id (ages_buildings a)) = set (building_ids p)" "set (map je_id (er_buildings e)) = set (building_ids p)"
    unfolding D(2,3) by (rule refl)+
  have refs': "distinct (map ref_building refs)" "set (map ref_building refs) = set (building_ids p)"
    using refs(1) unfolding refs_join_def by blast+
  have prov: "ages_version a = pop_version p" "ages_fingerprint a = pop_fingerprint p" "er_scenario_version e = pop_version p"
    "er_scenario_fingerprint e = pop_fingerprint p" "es_population (er_summary e) = dg_allocated (pop_diagnostics p)"
    using j unfolding joined_def by blast+
  show ?thesis unfolding validate_aggregation_inputs_def Let_def sets prov pop using refs(2) refs' totals by simp
qed

lemma aggregate_ok:
  assumes j: "joined sc p a e" and refs: "refs_join refs p" "length refs \<le> max_buildings" "length refs \<le> 2 ^ 64"
  shows "\<exists>r. aggregate max_buildings refs p a e = Inr r \<and> aggregation_meets (sort_key ref_building refs) p a e r
    \<and> make_aggregation_result r = Inr r \<and> agg_scenario_version r = pop_version p"
proof -
  let ?rs = "sort_key ref_building refs" and ?nb = "card (ref_block ` set refs)" and ?nz = "card (ref_zone ` set refs)"
  have su: "sorted_unique (building_ids p)" using j population_wf_D[of p] by (simp add: joined_def)
  note rs = refs_join_sorted[OF refs(1) su]
  then have cons: "consistent_refs ?rs" unfolding refs_join_def by blast
  then obtain ix where ix: "index_refs ?rs empty_index = Inr ix" "index_wf ?rs ix"
    using index_refs_ok[OF empty_index_wf, of ?rs] by auto
  have keys: "sort (map fst (ix_blocks ix)) = sorted_list_of_set (ref_block ` set ?rs)"
    "sort (map fst (ix_zones ix)) = sorted_list_of_set (ref_zone ` set ?rs)"
    using ix(2) by (auto simp: index_wf_def groups_by_def simp del: set_sort intro!: sorted_keys)
  let ?ks = "sorted_list_of_set (ref_block ` set ?rs)" and ?zs = "sorted_list_of_set (ref_zone ` set ?rs)"
  have ks: "set ?ks = ref_block ` set ?rs" "set ?zs = ref_zone ` set ?rs" by simp_all
  let ?P = "\<lambda>k b. blk_id b = k \<and> block_level b = level_of p a e (members ref_block ?rs k)
    \<and> (\<exists>r \<in> set ?rs. ref_block r = k \<and> blk_zone b = ref_zone r \<and> blk_zone_class b = ref_zone_class r)"
  have "\<exists>b. build_block p a e ix k = Inr b \<and> ?P k b" if "k \<in> set ?ks" for k
    using build_block_ok[OF j rs(2,1) ix(2)] that unfolding ks by blast
  then obtain blocks where blocks: "mapE (build_block p a e ix) ?ks = Inr blocks" "list_all2 ?P ?ks blocks"
    using mapE_ex[of ?ks "build_block p a e ix" ?P] by blast
  have blk: "map blk_id blocks = ?ks" "map block_level blocks = map (\<lambda>k. level_of p a e (members ref_block ?rs k)) ?ks"
    using list_all2_columns[OF blocks(2), of blk_id "\<lambda>k. k"] list_all2_columns[OF blocks(2), of block_level] by auto
  have covered: "\<exists>b \<in> set blocks. blk_zone b = z" if zk: "z \<in> set ?zs" for z
  proof -
    obtain r where r: "r \<in> set ?rs" "ref_zone r = z" using zk unfolding ks by blast
    then have "ref_block r \<in> set ?ks" unfolding ks by blast
    then obtain i where i: "i < length ?ks" "?ks ! i = ref_block r" unfolding in_set_conv_nth by blast
    then have "?P (ref_block r) (blocks ! i)" "i < length blocks" using list_all2_nthD[OF blocks(2) i(1)] list_all2_lengthD[OF blocks(2)] by simp_all
    then obtain q where "q \<in> set ?rs" "ref_block q = ref_block r" "blk_zone (blocks ! i) = ref_zone q" by blast
    then have "blk_zone (blocks ! i) = z" using cons r unfolding consistent_refs_def by metis
    then show ?thesis using \<open>i < length blocks\<close> nth_mem by blast
  qed
  let ?Q = "\<lambda>z x. zon_id x = z \<and> zone_level x = level_of p a e (members ref_zone ?rs z)
    \<and> zon_blocks x = int (length (filter (\<lambda>b. blk_zone b = z) blocks))"
  have "\<exists>x. build_zone p a e ix blocks z = Inr x \<and> ?Q z x" if "z \<in> set ?zs" for z
    using build_zone_ok[OF j rs(2,1) ix(2)] covered[OF that] that unfolding ks by blast
  then obtain zones where zones: "mapE (build_zone p a e ix blocks) ?zs = Inr zones" "list_all2 ?Q ?zs zones"
    using mapE_ex[of ?zs "build_zone p a e ix blocks" ?Q] by blast
  have zon: "map zon_id zones = ?zs" "map zone_level zones = map (\<lambda>k. level_of p a e (members ref_zone ?rs k)) ?zs"
    using list_all2_columns[OF zones(2), of zon_id "\<lambda>k. k"] list_all2_columns[OF zones(2), of zone_level] by auto
  have lens: "length blocks = ?nb" "length zones = ?nz" "length ?rs = length (pop_allocations p)"
    using list_all2_lengthD[OF blocks(2)] list_all2_lengthD[OF zones(2)] arg_cong[OF rs(2), of length] by simp_all
  let ?t = "totals_of ?nb ?nz p a e"
  let ?r = "\<lparr>agg_scenario_version = pop_version p, agg_scenario_fingerprint = pop_fingerprint p,
       agg_config_version = er_config_version e, agg_config_fingerprint = er_config_fingerprint e,
       agg_blocks = blocks, agg_zones = zones, agg_totals = ?t\<rparr>"
  have small: "length ?rs \<le> 2 ^ 64" using refs(3) by simp
  have levels: "validate_level_totals blocks zones ?t = Inr ()"
    unfolding validate_level_totals_def blk(2) zon(2)
    using level_ok[OF j rs(2) small distinct_sorted_list_of_set ks(1)] level_ok[OF j rs(2) small distinct_sorted_list_of_set ks(2)] by simp
  have prov: "pop_version p \<noteq> []" "hex_digest (pop_fingerprint p)" "er_config_version e \<noteq> []" "hex_digest (er_config_fingerprint e)"
    using j by (auto simp: joined_def population_wf_def make_population_result_def make_employment_result_def bindE_Inr_iff)
  have result: "make_aggregation_result ?r = Inr ?r"
    unfolding make_aggregation_result_def aggregation_result.simps blk(1) zon(1) using prov lens levels
    by (simp add: sorted_unique_def totals_of_def)
  have groups: "mapE (\<lambda>t. make_age_population \<lparr>agp_code = agt_code t, agp_min = agt_min t, agp_max = agt_max t,
       agp_residents = agt_residents t\<rparr>) (ages_totals a) = Inr (tot_groups ?t)"
    unfolding totals_of_def aggregation_totals.simps using joined_totals(3)[OF j] by (intro mapE_total make_age_population_ok) auto
  have t: "\<lparr>tot_buildings = int (length ?rs), tot_blocks = int (length blocks), tot_zones = int (length zones),
      tot_population = dg_allocated (pop_diagnostics p), tot_groups = tot_groups ?t, tot_jobs = es_jobs (er_summary e)\<rparr> = ?t"
    unfolding lens by (simp add: totals_of_def)
  have "aggregate max_buildings refs p a e = Inr ?r"
    unfolding aggregate_def aggregation_inputs_ok[OF j refs(1,2)] Let_def bindE.simps ix(1) keys blocks(1) zones(1) groups t
      totals_ok[OF j] result ..
  moreover have "aggregation_meets ?rs p a e ?r" unfolding aggregation_meets_def using blk zon by simp
  ultimately show ?thesis using result by (intro exI[of _ ?r]) simp
qed

end
