(* ===== verification/Demography_Props.thy ===== *)
theory Demography_Props
  imports Age_Facts
begin

text \<open>
  The properties of the demographic scenario, of the population allocation and of the age allocation,
  with a small scenario (two cohorts, two buildings) as their witness.
\<close>

subsection \<open>A small scenario\<close>

definition zero_hash :: "bytes \<Rightarrow> string" where
  "zero_hash b = replicate 64 (CHR ''0'')"

definition demo_specs :: "(string \<times> int \<times> int option \<times> number) list" where
  "demo_specs = [(''18+'', 18, None, PyFloat (3 / 4)), (''0-17'', 0, Some 17, PyFloat (1 / 4))]"

definition demo_groups :: "age_share list" where
  "demo_groups = [\<lparr>share_code = ''18+'', share_min = 18, share_max = None, share_value = 3 / 4\<rparr>,
     \<lparr>share_code = ''0-17'', share_min = 0, share_max = Some 17, share_value = 1 / 4\<rparr>]"

definition demo_scenario :: scenario where
  "demo_scenario = \<lparr>scn_version = ''v1'', scn_target = TotalPopulation 12, scn_occupancy = 1 / 2, scn_area_per_person = 15,
     scn_household_size = 2, scn_gfa_share = 1 / 2, scn_groups = rev demo_groups, scn_working_ratio = 1 / 2\<rparr>"

definition age_share_of :: "string \<times> int \<times> int option \<times> number \<Rightarrow> core_exc + age_share" where
  "age_share_of x = (case x of (c, lo, hi, v) \<Rightarrow> make_age_share c lo hi v)"

lemma zero_hash_digest: "\<forall>b. hex_digest (zero_hash b)"
proof
  fix b
  have "hex_digest (replicate 64 (CHR ''0''))" by code_simp
  then show "hex_digest (zero_hash b)" by (simp add: zero_hash_def)
qed

lemma demo_tokens: "age_group_code_re ''18+''" "age_group_code_re ''0-17''" "version_re ''v1''"
  by code_simp+

lemma demo_specs_ok: "mapE age_share_of demo_specs = Inr demo_groups"
  by (simp add: demo_specs_def demo_groups_def age_share_of_def make_age_share_def demo_tokens check_non_negative_int_def
      require_finite_number_def to_float_def is_finite_def)

lemma representable_nat: "n < 2 ^ 53 \<Longrightarrow> representable (of_nat n)"
  unfolding representable_def by (intro exI[of _ "int n"] exI[of _ 0]) simp

lemma fl_nat: "n < 2 ^ 53 \<Longrightarrow> fl (of_nat n) = of_nat n"
  by (intro fl_representable representable_nat) auto

lemma demo_scenario_made:
  "make_scenario ''v1'' (TotalPopulation 12) (PyFloat (1 / 2)) (PyInt 15) (PyInt 2) (PyFloat (1 / 2))
     demo_groups (PyFloat (1 / 2)) = Inr demo_scenario"
  using fl_nat[of 15] fl_nat[of 2]
  by (simp add: make_scenario_def demo_tokens require_ratio_def require_positive_finite_def require_finite_number_def to_float_def
      is_finite_def demo_groups_def demo_scenario_def group_key_def validate_age_partition_def fsum_def fl_representable)

lemma demo_scenario_wf: "scenario_wf demo_scenario"
proof -
  have "list_all share_wf demo_groups"
    using demo_specs_ok by (rule mapE_list_all) (auto simp: age_share_of_def split: prod.splits intro: make_age_share_wf)
  from conjunct1[OF make_scenario_Inr[OF demo_scenario_made this]] show ?thesis by simp
qed

definition demo_capacities :: capacity_result where
  "demo_capacities = \<lparr>caps_version = ''v1'', caps_fingerprint = zero_hash [], caps_buildings =
     [\<lparr>bc_id = ''a'', bc_use = building_use.RESIDENTIAL, bc_total_gfa = 400, bc_residential_gfa = 400, bc_occupied_area = 180,
       bc_residents = 12, bc_households = 6\<rparr>,
      \<lparr>bc_id = ''b'', bc_use = building_use.MIXED, bc_total_gfa = 200, bc_residential_gfa = 100, bc_occupied_area = 45,
       bc_residents = 3, bc_households = 3 / 2\<rparr>]\<rparr>"

lemma demo_capacities_wf: "capacity_wf demo_capacities"
proof -
  have eps: "0 \<le> AREA_EPSILON" unfolding AREA_EPSILON_def by (rule fl_nonneg) simp
  have le: "of_nat m \<le> fl (of_nat n + AREA_EPSILON)" if "m \<le> n" "n < 2 ^ 53" for m n
    using that eps by (intro fl_add_eps representable_nat) auto
  show ?thesis using le[of 400 400] le[of 180 400] le[of 100 200] le[of 45 100] zero_hash_digest
    by (simp add: capacity_wf_def make_capacity_result_def make_building_capacity_def demo_capacities_def is_finite_def
        sorted_unique_def)
qed

lemma demo_fingerprint: "scenario_fingerprint zero_hash s = zero_hash []"
  by (simp add: scenario_fingerprint_def zero_hash_def)

lemma demo_target: "resolve_target_total (scn_target demo_scenario) 0 False = Inr 12"
  by (simp add: demo_scenario_def resolve_target_total_def)

lemma demo_population:
  "\<exists>p. allocate_population zero_hash 10 demo_capacities demo_scenario None = Inr p \<and> population_wf p
     \<and> pop_version p = scn_version demo_scenario \<and> pop_fingerprint p = scenario_fingerprint zero_hash demo_scenario
     \<and> length (pop_allocations p) = 2 \<and> dg_allocated (pop_diagnostics p) \<le> 12"
proof -
  obtain r where r: "allocate_population zero_hash 10 demo_capacities demo_scenario None = Inr r"
    "allocation_meets demo_capacities 12 0 r" "make_population_result r = Inr r"
    "list_all (\<lambda>b. make_building_allocation b = Inr b) (pop_allocations r)" "pop_version r = scn_version demo_scenario"
    "pop_fingerprint r = scenario_fingerprint zero_hash demo_scenario"
    using allocate_population_ok[OF zero_hash_digest demo_scenario_wf demo_capacities_wf, of 10 None 12] demo_target
    by (auto simp: demo_capacities_def demo_scenario_def demo_fingerprint)
  have "length (map ba_id (pop_allocations r)) = 2" using r(2) by (simp add: allocation_meets_def demo_capacities_def)
  then show ?thesis using r by (auto simp: population_wf_def allocation_meets_def apportioned_def)
qed

subsection \<open>Properties\<close>

text \<open>
  C15. A scenario that its constructor accepts, from a target and age groups that theirs accept, is
  well formed: its ratios lie in 0..1, its areas and sizes are positive, its cohorts have unique codes
  and a positive total share, and every age from 0 on lies in exactly one cohort.
\<close>

theorem accepted_scenario_partitions_ages:
  assumes "make_population_target kind v = Inr target" "mapE age_share_of specs = Inr groups"
    "make_scenario version target oc area hsize gfa groups wr = Inr s" "0 \<le> age"
  shows "scenario_wf s \<and> mset (scn_groups s) = mset groups \<and> length (filter (in_group age) (scn_groups s)) = 1"
proof -
  have wf: "list_all share_wf groups"
    using assms(2) by (rule mapE_list_all) (auto simp: age_share_of_def split: prod.splits intro: make_age_share_wf)
  from make_scenario_Inr[OF assms(3) wf make_population_target_wf[OF assms(1)]]
  have s: "scenario_wf s" "scn_groups s = sort_key group_key groups" by auto
  then have "ages_from 0 (scn_groups s)" by (simp add: scenario_wf_def)
  from ages_from_unique[OF this assms(4)] s show ?thesis by simp
qed

theorem accepted_scenario_partitions_ages_witness:
  "scenario_wf demo_scenario \<and> mset (scn_groups demo_scenario) = mset demo_groups
     \<and> length (filter (in_group 17) (scn_groups demo_scenario)) = 1"
  by (rule accepted_scenario_partitions_ages[OF _ demo_specs_ok demo_scenario_made, of TOTAL_POPULATION "PyInt 12"])
    (simp_all add: make_population_target_def)

text \<open>
  C40. The order in which the age groups are given does not matter: the constructor of the scenario
  returns the same scenario, or raises the same error, for every permutation of them.
\<close>

theorem scenario_ignores_group_order:
  assumes "mset groups = mset groups'"
  shows "make_scenario version target oc area hsize gfa groups wr = make_scenario version target oc area hsize gfa groups' wr"
proof (cases "distinct (map share_code groups)")
  case True
  then have "inj_on group_key (set groups)" by (auto simp: inj_on_def group_key_def distinct_map)
  then have same: "sort_key group_key groups = sort_key group_key groups'"
    using assms by (intro sort_key_inj_key_eq) (auto dest: mset_eq_setD)
  have ne: "groups = [] \<longleftrightarrow> groups' = []" using assms by auto
  show ?thesis unfolding make_scenario_def Let_def same ne ..
next
  case False
  have codes: "distinct (map share_code (sort_key group_key gs)) = distinct (map share_code gs)" for gs
    by (rule mset_eq_imp_distinct_iff) simp
  have "mset (map share_code groups) = mset (map share_code groups')" using assms by simp
  then have other: "distinct (map share_code groups') = False" using False mset_eq_imp_distinct_iff by blast
  have this_one: "distinct (map share_code groups) = False" using False by simp
  have ne: "groups = [] \<longleftrightarrow> groups' = []" using assms by auto
  show ?thesis unfolding make_scenario_def Let_def codes this_one other ne not_False_eq_True if_True ..
qed

theorem scenario_ignores_group_order_witness:
  "make_scenario ''v1'' (TotalPopulation 12) (PyFloat (1 / 2)) (PyInt 15) (PyInt 2) (PyFloat (1 / 2))
     (rev demo_groups) (PyFloat (1 / 2)) = Inr demo_scenario"
  using scenario_ignores_group_order[of "rev demo_groups" demo_groups "''v1''" "TotalPopulation 12" "PyFloat (1 / 2)" "PyInt 15"
      "PyInt 2" "PyFloat (1 / 2)" "PyFloat (1 / 2)"] demo_scenario_made by simp

text \<open>
  C16. The population allocation never raises on a scenario and capacities that their constructors
  accepted (with the matching provenance, within the limit), and its result is exact: the buildings in
  their order, residents that add up to the smaller of the generated target and the total capacity, in
  each building at most its integer capacity and within one of its proportional share; the status is
  CAPACITY_EXHAUSTED exactly when the capacity is below the target.
\<close>

theorem population_allocation_exact:
  assumes "\<forall>b. hex_digest (h b)" "scenario_wf sc" "capacity_wf capacities"
    "caps_version capacities = scn_version sc" "caps_fingerprint capacities = scenario_fingerprint h sc"
    "length (caps_buildings capacities) \<le> max_buildings" "\<forall>b. baseline = Some b \<longrightarrow> 0 \<le> b"
    "resolve_target_total (scn_target sc) (case baseline of None \<Rightarrow> 0 | Some b \<Rightarrow> b) (baseline \<noteq> None) = Inr t"
  defines "generated \<equiv> t - (case baseline of None \<Rightarrow> 0 | Some b \<Rightarrow> b)"
    and "caps \<equiv> map (integer_capacity \<circ> bc_residents) (caps_buildings capacities)"
  defines "allocated \<equiv> min (max 0 generated) (sum_list caps)"
  shows "\<exists>r. allocate_population h max_buildings capacities sc baseline = Inr r
    \<and> map ba_id (pop_allocations r) = map bc_id (caps_buildings capacities)
    \<and> sum_list (map ba_residents (pop_allocations r)) = allocated
    \<and> (\<forall>i < length caps. 0 \<le> ba_residents (pop_allocations r ! i) \<and> ba_residents (pop_allocations r ! i) \<le> caps ! i
         \<and> ba_residents (pop_allocations r ! i) - allocated * caps ! i div sum_list caps \<in> {0, 1})
    \<and> (dg_status (pop_diagnostics r) = CAPACITY_EXHAUSTED \<longleftrightarrow> sum_list caps < generated)"
proof -
  obtain r where r: "allocate_population h max_buildings capacities sc baseline = Inr r"
    and meets: "allocation_meets capacities t (case baseline of None \<Rightarrow> 0 | Some b \<Rightarrow> b) r"
    using allocate_population_ok[OF assms(1-8)] by blast
  have len: "length (pop_allocations r) = length caps"
    using meets by (auto simp: allocation_meets_def caps_def dest: map_eq_imp_length_eq)
  have ic: "map ba_integer_capacity (pop_allocations r) = caps" using meets by (simp add: allocation_meets_def caps_def)
  have "apportioned caps allocated (map ba_residents (pop_allocations r))"
    using meets unfolding allocation_meets_def ic generated_def[symmetric] allocated_def[symmetric] by blast
  then have "sum_list (map ba_residents (pop_allocations r)) = allocated
    \<and> (\<forall>i < length caps. 0 \<le> ba_residents (pop_allocations r ! i) \<and> ba_residents (pop_allocations r ! i) \<le> caps ! i
         \<and> ba_residents (pop_allocations r ! i) - allocated * caps ! i div sum_list caps \<in> {0, 1})"
    using len by (fastforce simp: apportioned_def)
  moreover have "map ba_id (pop_allocations r) = map bc_id (caps_buildings capacities)"
    "dg_status (pop_diagnostics r) = CAPACITY_EXHAUSTED \<longleftrightarrow> sum_list caps < generated"
    using meets unfolding allocation_meets_def ic generated_def[symmetric] by blast+
  ultimately show ?thesis using r by blast
qed

theorem population_allocation_exact_witness:
  "\<exists>r. allocate_population zero_hash 10 demo_capacities demo_scenario None = Inr r
     \<and> map ba_id (pop_allocations r) = [''a'', ''b''] \<and> sum_list (map ba_residents (pop_allocations r))
       = min 12 (sum_list (map (integer_capacity \<circ> bc_residents) (caps_buildings demo_capacities)))"
  using population_allocation_exact[OF zero_hash_digest demo_scenario_wf demo_capacities_wf, of 10 None 12] demo_target
  by (auto simp: demo_capacities_def demo_scenario_def demo_fingerprint)

text \<open>
  C17. The age allocation never raises on a population that its constructors accepted, for up to 64
  cohorts and a population of up to ten to the 24: no rounding of the \<open>Decimal\<close> quotas can break the
  exact margins. Every building keeps its residents, every cohort column adds up to its total, the
  totals add up to the population, and each total is within 1.1 of its proportional quota.
\<close>

theorem age_allocation_exact_margins:
  assumes "\<forall>b. hex_digest (h b)" "scenario_wf sc" "population_wf p"
    "pop_version p = scn_version sc" "pop_fingerprint p = scenario_fingerprint h sc"
    "length (pop_allocations p) \<le> max_buildings" "length (scn_groups sc) \<le> max_groups" "length (scn_groups sc) \<le> 64"
    "dg_allocated (pop_diagnostics p) \<le> 10 ^ 24"
  defines "weights \<equiv> map (repr_value \<circ> share_value) (scn_groups sc)"
  shows "\<exists>r. allocate_ages h max_buildings max_groups p sc = Inr r
    \<and> map bag_id (ages_buildings r) = map ba_id (pop_allocations p)
    \<and> list_all2 (\<lambda>b a. sum_list (map agp_residents (bag_groups b)) = ba_residents a) (ages_buildings r) (pop_allocations p)
    \<and> (\<forall>i < length (scn_groups sc). sum_list (map (\<lambda>b. agp_residents (bag_groups b ! i)) (ages_buildings r))
         = agt_residents (ages_totals r ! i))
    \<and> sum_list (map agt_residents (ages_totals r)) = dg_allocated (pop_diagnostics p)
    \<and> (\<forall>i < length (scn_groups sc). \<bar>of_int (agt_residents (ages_totals r ! i))
         - of_int (dg_allocated (pop_diagnostics p)) * weights ! i / sum_list weights\<bar> \<le> 11 / 10)"
proof -
  obtain r where r: "allocate_ages h max_buildings max_groups p sc = Inr r" and meets: "ages_meet sc p r"
    using allocate_ages_ok[OF assms(1-9)] by blast
  have n: "ages_population r = dg_allocated (pop_diagnostics p)" using meets population_wf_D[OF assms(3)] by (simp add: ages_meet_def)
  have len: "length (ages_totals r) = length (scn_groups sc)" using meets by (auto simp: ages_meet_def dest: map_eq_imp_length_eq)
  have "map bag_total (ages_buildings r) = map ba_residents (pop_allocations p)"
    "list_all (\<lambda>b. sum_list (map agp_residents (bag_groups b)) = bag_total b) (ages_buildings r)"
    using meets by (auto simp: ages_meet_def list_all_iff)
  then have "list_all2 (\<lambda>b a. sum_list (map agp_residents (bag_groups b)) = ba_residents a) (ages_buildings r) (pop_allocations p)"
    by (auto simp: list_all2_conv_all_nth list_all_length list_eq_iff_nth_eq)
  moreover have "cohorts_meet weights (dg_allocated (pop_diagnostics p)) (map agt_residents (ages_totals r))"
    using meets unfolding ages_meet_def n weights_def by blast
  ultimately show ?thesis using r meets len by (intro exI[of _ r]) (simp add: ages_meet_def cohorts_meet_def weights_def)
qed

theorem age_allocation_exact_margins_witness:
  "\<exists>p r. allocate_population zero_hash 10 demo_capacities demo_scenario None = Inr p
     \<and> allocate_ages zero_hash 10 64 p demo_scenario = Inr r
     \<and> sum_list (map agt_residents (ages_totals r)) = dg_allocated (pop_diagnostics p)"
proof -
  obtain p where p: "allocate_population zero_hash 10 demo_capacities demo_scenario None = Inr p" "population_wf p"
    "pop_version p = scn_version demo_scenario" "pop_fingerprint p = scenario_fingerprint zero_hash demo_scenario"
    "length (pop_allocations p) = 2" "dg_allocated (pop_diagnostics p) \<le> 12"
    using demo_population by blast
  have "length (scn_groups demo_scenario) = 2" by (simp add: demo_scenario_def demo_groups_def)
  then show ?thesis
    using age_allocation_exact_margins[OF zero_hash_digest demo_scenario_wf p(2,3,4), of 10 64] p(1,5,6) by auto
qed

end
