(* ===== verification/Demography_Pipeline.thy ===== *)
theory Demography_Pipeline
  imports Aggregation_Result Demography_Props
begin

text \<open>
  The five demographic calculations in the order in which the stage calls them: capacities, population,
  ages, employment and the aggregation of all three, on inputs that their constructors accept.
\<close>

definition demographics ::
  "(bytes \<Rightarrow> string) \<Rightarrow> nat \<Rightarrow> scenario \<Rightarrow> employment_config \<Rightarrow> int option \<Rightarrow> capacity_subject list \<Rightarrow> aggregation_ref list \<Rightarrow>
   core_exc + population_result \<times> age_result \<times> employment_result \<times> aggregation_result" where
  "demographics h limit sc c baseline subjects refs =
     bindE (calculate_capacity h limit sc subjects) (\<lambda>capacities.
     bindE (allocate_population h limit capacities sc baseline) (\<lambda>p.
     bindE (allocate_ages h limit 64 p sc) (\<lambda>a.
     bindE (estimate_employment h limit subjects p sc c) (\<lambda>e.
     bindE (aggregate limit refs p a e) (\<lambda>r. Inr (p, a, e, r))))))"

lemma allocated_bound:
  assumes "allocation_meets capacities t b p" "t - b \<le> 10 ^ 24"
  shows "dg_allocated (pop_diagnostics p) \<le> 10 ^ 24"
proof -
  have "dg_allocated (pop_diagnostics p) = min (max 0 (t - b)) (sum_list (map ba_integer_capacity (pop_allocations p)))"
    using assms(1) by (simp add: allocation_meets_def apportioned_def)
  also have "\<dots> \<le> max 0 (t - b)" by simp
  also have "\<dots> \<le> 10 ^ 24" using assms(2) by simp
  finally show ?thesis .
qed

lemma demographics_ok:
  assumes digest: "\<forall>b. hex_digest (h b)" and sc: "scenario_wf sc" "length (scn_groups sc) \<le> 64" and c: "employment_wf c"
    and subjects: "\<forall>s \<in> set subjects. subject_wf sc s \<and> is_finite (je_jobs (job_row sc c s))"
      "distinct (map cap_subject_id subjects)" "fsum (map (je_jobs \<circ> job_row sc c) subjects) \<le> 2 ^ 1000"
    and limit: "length subjects \<le> limit" "limit \<le> 2 ^ 64" and base: "\<forall>b. baseline = Some b \<longrightarrow> 0 \<le> b"
    and target: "resolve_target_total (scn_target sc) (case baseline of None \<Rightarrow> 0 | Some b \<Rightarrow> b) (baseline \<noteq> None) = Inr t"
      "t - (case baseline of None \<Rightarrow> 0 | Some b \<Rightarrow> b) \<le> 10 ^ 24"
    and refs: "consistent_refs refs" "distinct (map ref_building refs)" "ref_building ` set refs = cap_subject_id ` set subjects"
      "\<forall>r \<in> set refs. make_aggregation_ref (ref_building r) (ref_block r) (ref_zone r) (ref_zone_class r) = Inr r"
  shows "\<exists>p a e r. demographics h limit sc c baseline subjects refs = Inr (p, a, e, r)
    \<and> joined sc p a e \<and> refs_join refs p \<and> aggregation_meets (sort_key ref_building refs) p a e r"
proof -
  obtain capacities where caps: "calculate_capacity h limit sc subjects = Inr capacities" "capacity_wf capacities"
    "caps_version capacities = scn_version sc" "caps_fingerprint capacities = scenario_fingerprint h sc"
    "caps_buildings capacities = map (capacity_row sc) (sort_key cap_subject_id subjects)"
    using calculate_capacity_ok[OF digest sc(1) _ limit(1) subjects(2)] subjects(1) by blast
  have lc: "length (caps_buildings capacities) \<le> limit" using limit(1) by (simp add: caps(5))
  obtain p where p: "allocate_population h limit capacities sc baseline = Inr p" "population_wf p"
    "allocation_meets capacities t (case baseline of None \<Rightarrow> 0 | Some b \<Rightarrow> b) p"
    "pop_version p = scn_version sc" "pop_fingerprint p = scenario_fingerprint h sc"
    using allocate_population_ok[OF digest sc(1) caps(2-4) lc base target(1)] unfolding population_wf_def by blast
  have bc: "map bc_id (caps_buildings capacities) = map cap_subject_id (sort_key cap_subject_id subjects)"
    unfolding caps(5) by (auto simp: capacity_row_def Let_def)
  then have ids: "building_ids p = map cap_subject_id (sort_key cap_subject_id subjects)"
    using p(3) by (simp add: allocation_meets_def)
  have lp: "length (pop_allocations p) \<le> limit" using arg_cong[OF ids, of length] limit(1) by simp
  have n: "0 \<le> dg_allocated (pop_diagnostics p)" "dg_allocated (pop_diagnostics p) \<le> 10 ^ 24"
    using allocated_nonneg[OF p(2)] allocated_bound[OF p(3) target(2)] by auto
  obtain a where a: "allocate_ages h limit 64 p sc = Inr a" "ages_meet sc p a" "make_age_result a = Inr a"
    "ages_version a = scn_version sc" "ages_fingerprint a = scenario_fingerprint h sc"
    using allocate_ages_ok[OF digest sc(1) p(2,4,5) lp sc(2) sc(2) n(2)] by blast
  have "0 \<le> fsum (map (je_jobs \<circ> job_row sc c) subjects)"
    unfolding fsum_def using estimate_building_ok[OF sc(1) c] subjects(1) by (intro fl_nonneg sum_list_nonneg) auto
  then have fin: "is_finite (fsum (map (je_jobs \<circ> job_row sc c) subjects))" using subjects(3) by (rule bounded_finite)
  obtain e where e: "estimate_employment h limit subjects p sc c = Inr e" "employment_meets sc c subjects p e"
    "make_employment_result e = Inr e"
    using estimate_employment_ok[OF digest sc(1) c subjects(1) limit(1) subjects(2) n p(4,5) fin] by blast
  have "map je_id (er_buildings e) = building_ids p"
    using e(2) unfolding ids employment_meets_def by (auto simp: job_row_def Let_def)
  moreover have "list_all (\<lambda>j. is_finite (je_jobs j) \<and> 0 \<le> je_jobs j) (er_buildings e)"
    "es_jobs (er_summary e) = fsum (map je_jobs (er_buildings e))"
    "es_population (er_summary e) = dg_allocated (pop_diagnostics p)"
    "er_scenario_version e = pop_version p" "er_scenario_fingerprint e = pop_fingerprint p"
    using e(2) unfolding employment_meets_def by blast+
  moreover have "es_jobs (er_summary e) \<le> 2 ^ 1000"
    using e(2) subjects(3) unfolding employment_meets_def by (simp add: fsum_sorted)
  ultimately have j: "joined sc p a e" unfolding joined_def using sc(1) p(2) a(2-5)[folded p(4,5)] e(3) by blast
  have known: "set (map ref_building refs) = set (building_ids p)" unfolding ids by (simp add: refs(3))
  then have rj: "refs_join refs p" unfolding refs_join_def by (intro conjI refs(1,2,4) known)
  have "length (map ref_building refs) = length (building_ids p)"
    using distinct_card[OF refs(2)] distinct_card[OF joined_D(1)[OF j]] unfolding known by metis
  then have lr: "length refs \<le> limit" "length refs \<le> 2 ^ 64" using lp limit(2) by simp_all
  obtain r where r: "aggregate limit refs p a e = Inr r" "aggregation_meets (sort_key ref_building refs) p a e r"
    using aggregate_ok[OF j rj lr] by blast
  have "demographics h limit sc c baseline subjects refs = Inr (p, a, e, r)"
    by (simp add: demographics_def caps(1) p(1) a(1) e(1) r(1))
  then show ?thesis using j rj r(2) by blast
qed

text \<open>The sums of the levels.\<close>

lemma aggregation_sums:
  assumes j: "joined sc p a e" and rj: "refs_join refs p" and m: "aggregation_meets (sort_key ref_building refs) p a e r"
  shows "sum_list (map blk_population (agg_blocks r)) = dg_allocated (pop_diagnostics p)"
    "sum_list (map zon_population (agg_zones r)) = dg_allocated (pop_diagnostics p)"
    "map blk_id (agg_blocks r) = sorted_list_of_set (ref_block ` set refs)"
    "map zon_id (agg_zones r) = sorted_list_of_set (ref_zone ` set refs)"
proof -
  have su: "sorted_unique (building_ids p)" using j population_wf_D[of p] by (simp add: joined_def)
  note rs = refs_join_sorted(2)[OF rj su]
  have over: "sum_list (map (\<lambda>k. sum_list (map (residents_of p) (members f (sort_key ref_building refs) k)))
      (sorted_list_of_set (f ` set refs))) = dg_allocated (pop_diagnostics p)" for f
    using sum_over_members[of "sorted_list_of_set (f ` set refs)" f "sort_key ref_building refs" "residents_of p"]
      j population_wf_D[of p]
    unfolding list.map_comp[symmetric] rs columns_of(1)[OF j] by (simp add: joined_def)
  have b: "map blk_population bs = map (fst \<circ> snd) (map block_level bs)" for bs by (simp add: block_level_def)
  have z: "map zon_population zs = map (fst \<circ> snd) (map zone_level zs)" for zs by (simp add: zone_level_def)
  show "sum_list (map blk_population (agg_blocks r)) = dg_allocated (pop_diagnostics p)"
    "sum_list (map zon_population (agg_zones r)) = dg_allocated (pop_diagnostics p)"
    using m over[of ref_block] over[of ref_zone] unfolding b z aggregation_meets_def by (simp_all add: level_of_def comp_def)
  show "map blk_id (agg_blocks r) = sorted_list_of_set (ref_block ` set refs)"
    "map zon_id (agg_zones r) = sorted_list_of_set (ref_zone ` set refs)"
    using m unfolding aggregation_meets_def by simp_all
qed

subsection \<open>A small city\<close>

definition demo_subject :: "string \<Rightarrow> building_use \<Rightarrow> rat \<Rightarrow> capacity_subject" where
  "demo_subject b u g = \<lparr>cap_metrics = \<lparr>metric_building_id = b, metric_footprint = 60, metric_floors = 5, metric_gfa = g\<rparr>,
     cap_attributes = \<lparr>assigned_building_id = b, assigned_source_id = b, assigned_zone = zone_class.MIXED,
       assigned_archetype = building_archetype.DETACHED, assigned_use = u, assigned_floors = 5,
       assigned_config_version = ''v1'', assigned_assignment_version = ''v1''\<rparr>\<rparr>"

definition demo_subjects :: "capacity_subject list" where
  "demo_subjects = [demo_subject ''b'' building_use.MIXED 240, demo_subject ''a'' building_use.RESIDENTIAL 300]"

definition demo_employment :: employment_config where
  "demo_employment = \<lparr>emp_version = ''v1'', emp_rules = [\<lparr>job_use = building_use.MIXED, job_area = 30\<rparr>,
     \<lparr>job_use = building_use.PUBLIC, job_area = 30\<rparr>, \<lparr>job_use = building_use.COMMERCIAL, job_area = 30\<rparr>]\<rparr>"

definition demo_refs :: "aggregation_ref list" where
  "demo_refs = [\<lparr>ref_building = ''a'', ref_block = ''k'', ref_zone = ''z'', ref_zone_class = zone_class.MIXED\<rparr>,
     \<lparr>ref_building = ''b'', ref_block = ''m'', ref_zone = ''z'', ref_zone_class = zone_class.MIXED\<rparr>]"

lemma demo_employment_wf: "employment_wf demo_employment"
  unfolding employment_wf_def demo_employment_def
proof (intro conjI allI impI)
  fix u assume "u \<noteq> building_use.RESIDENTIAL"
  then show "\<exists>r. lookup job_use u (emp_rules \<lparr>emp_version = ''v1'', emp_rules = [\<lparr>job_use = building_use.MIXED, job_area = 30\<rparr>,
     \<lparr>job_use = building_use.PUBLIC, job_area = 30\<rparr>, \<lparr>job_use = building_use.COMMERCIAL, job_area = 30\<rparr>]\<rparr>) = Some r
     \<and> is_finite (job_area r) \<and> 0 < job_area r"
    by (cases u) (auto simp: lookup_Cons is_finite_def)
qed simp

lemma fl_half: "fl (1 / 2) = 1 / 2"
  using fl_representable[OF representable_powi[of "- 1"]] by (simp add: power_int_minus inverse_eq_divide)

lemma demo_fl: "fl 300 = 300" "fl 240 = 240" "fl 150 = 150" "fl 120 = 120" "fl 60 = 60" "fl 10 = 10" "fl 5 = 5" "fl 4 = 4" "fl 2 = 2"
  using fl_nat[of 300] fl_nat[of 240] fl_nat[of 150] fl_nat[of 120] fl_nat[of 60] fl_nat[of 10] fl_nat[of 5] fl_nat[of 4] fl_nat[of 2]
  by simp_all

lemma demo_subjects_wf:
  "\<forall>s \<in> set demo_subjects. subject_wf demo_scenario s \<and> is_finite (je_jobs (job_row demo_scenario demo_employment s))"
  using representable_nat[of 240] representable_nat[of 300]
  by (simp add: demo_subjects_def demo_subject_def subject_wf_def capacity_row_def job_row_def demo_employment_def cap_subject_id_def
      demo_scenario_def Let_def demo_fl fl_half fl_representable lookup_Cons is_finite_def)

lemma demo_jobs: "fsum (map (je_jobs \<circ> job_row demo_scenario demo_employment) demo_subjects) \<le> 2 ^ 1000"
  by (simp add: demo_subjects_def demo_subject_def job_row_def demo_employment_def demo_scenario_def Let_def demo_fl fl_half
      fl_representable lookup_Cons is_finite_def fsum_def)

lemma demo_refs_ok: "\<forall>r \<in> set demo_refs. make_aggregation_ref (ref_building r) (ref_block r) (ref_zone r) (ref_zone_class r) = Inr r"
proof -
  have "\<not> blank ''a''" "\<not> blank ''b''" "\<not> blank ''k''" "\<not> blank ''m''" "\<not> blank ''z''" by code_simp+
  then show ?thesis by (simp add: demo_refs_def make_aggregation_ref_def)
qed

subsection \<open>The property\<close>

text \<open>
  C18. On a scenario, an employment configuration and buildings that their constructors accept, with
  references that put every building in one block and every block in one zone, none of the five
  demographic calculations raises, and the levels agree: there is one aggregate per block and per zone,
  each the exact sum of its members' residents and cohorts (and the rounded sum of their jobs), and the
  blocks and the zones each add up to the allocated population.
\<close>

theorem demographics_preserve_totals:
  assumes "\<forall>b. hex_digest (h b)" "scenario_wf sc" "length (scn_groups sc) \<le> 64" "employment_wf c"
    "\<forall>s \<in> set subjects. subject_wf sc s \<and> is_finite (je_jobs (job_row sc c s))"
    "distinct (map cap_subject_id subjects)" "fsum (map (je_jobs \<circ> job_row sc c) subjects) \<le> 2 ^ 1000"
    "length subjects \<le> limit" "limit \<le> 2 ^ 64" "\<forall>b. baseline = Some b \<longrightarrow> 0 \<le> b"
    "resolve_target_total (scn_target sc) (case baseline of None \<Rightarrow> 0 | Some b \<Rightarrow> b) (baseline \<noteq> None) = Inr t"
    "t - (case baseline of None \<Rightarrow> 0 | Some b \<Rightarrow> b) \<le> 10 ^ 24"
    "consistent_refs refs" "distinct (map ref_building refs)" "ref_building ` set refs = cap_subject_id ` set subjects"
    "\<forall>r \<in> set refs. make_aggregation_ref (ref_building r) (ref_block r) (ref_zone r) (ref_zone_class r) = Inr r"
  shows "\<exists>p a e r. demographics h limit sc c baseline subjects refs = Inr (p, a, e, r)
    \<and> map blk_id (agg_blocks r) = sorted_list_of_set (ref_block ` set refs)
    \<and> map zon_id (agg_zones r) = sorted_list_of_set (ref_zone ` set refs)
    \<and> map block_level (agg_blocks r) = map (\<lambda>k. level_of p a e (members ref_block (sort_key ref_building refs) k)) (map blk_id (agg_blocks r))
    \<and> map zone_level (agg_zones r) = map (\<lambda>z. level_of p a e (members ref_zone (sort_key ref_building refs) z)) (map zon_id (agg_zones r))
    \<and> sum_list (map blk_population (agg_blocks r)) = dg_allocated (pop_diagnostics p)
    \<and> sum_list (map zon_population (agg_zones r)) = dg_allocated (pop_diagnostics p)"
proof -
  obtain p a e r where run: "demographics h limit sc c baseline subjects refs = Inr (p, a, e, r)"
    and m: "joined sc p a e" "refs_join refs p" "aggregation_meets (sort_key ref_building refs) p a e r"
    using demographics_ok[OF assms] by blast
  have "map block_level (agg_blocks r) = map (\<lambda>k. level_of p a e (members ref_block (sort_key ref_building refs) k)) (map blk_id (agg_blocks r))"
    "map zone_level (agg_zones r) = map (\<lambda>z. level_of p a e (members ref_zone (sort_key ref_building refs) z)) (map zon_id (agg_zones r))"
    using m(3) unfolding aggregation_meets_def by metis+
  then show ?thesis using run aggregation_sums[OF m] by blast
qed

theorem demographics_preserve_totals_witness:
  "\<exists>p a e r. demographics zero_hash 10 demo_scenario demo_employment None demo_subjects demo_refs = Inr (p, a, e, r)
    \<and> map blk_id (agg_blocks r) = [''k'', ''m''] \<and> map zon_id (agg_zones r) = [''z'']
    \<and> sum_list (map blk_population (agg_blocks r)) = dg_allocated (pop_diagnostics p)"
proof -
  have keys: "sorted_list_of_set (ref_block ` set demo_refs) = [''k'', ''m'']" "sorted_list_of_set (ref_zone ` set demo_refs) = [''z'']"
    by (simp_all add: demo_refs_def)
  have shape: "length (scn_groups demo_scenario) \<le> 64" "distinct (map cap_subject_id demo_subjects)" "length demo_subjects \<le> 10"
    "consistent_refs demo_refs" "distinct (map ref_building demo_refs)" "ref_building ` set demo_refs = cap_subject_id ` set demo_subjects"
    by (auto simp: demo_scenario_def demo_groups_def demo_subjects_def demo_subject_def cap_subject_id_def demo_refs_def consistent_refs_def)
  show ?thesis
    using demographics_preserve_totals[OF zero_hash_digest demo_scenario_wf shape(1) demo_employment_wf demo_subjects_wf shape(2) demo_jobs
        shape(3), of None 12 demo_refs] demo_target shape(4-6) demo_refs_ok unfolding keys by auto
qed

end
