(* ===== verification/Spec2Isabelle.thy ===== *)
theory Spec2Isabelle
  imports Creation_Props Control_Props Generation_Worker Ingest_Props Outbox_Dispatch
    Demography_Pipeline
begin

text \<open>
  A model of the urban development generator: the control core, that is the contracts by which a
  generation run is planned, admitted, queued, claimed, executed stage by stage, checkpointed,
  retried, cancelled and completed, and the database rows that carry that state; and the demographic
  part of the numeric core, which turns building areas into capacities, residents and cohorts.

  The program. \<open>src/core/urban_generator\<close> defines the stages and their registry;
  \<open>src/backend/app\<close> holds the HTTP service: models (tables with CHECK and UNIQUE constraints and
  update listeners), \<open>db\<close> (one class per transaction script), \<open>application\<close> (services and
  ports) and \<open>adapters\<close>; \<open>src/worker\<close> holds the queue workers; \<open>src/database/migrations\<close>
  adds guard triggers. A run is created together with one job and one outbox row; the outbox
  dispatcher delivers the row to the queue; a worker claims the run, executes the plan of the
  stage registry, writes one stage row per stage and completes or fails the run.

  Theories, in dependency order.

    \<^item> \<open>Urban_Prelude\<close>: results of fallible calls (\<open>Inl\<close> an exception, \<open>Inr\<close> a value), Python
      strings, bytes, UUIDs, and their lemmas.
    \<^item> \<open>Errors\<close>: \<open>domain/errors.py\<close>; the exceptions of every modelled module as one type.
    \<^item> \<open>Stage_Contract\<close>: \<open>domain/stage.py\<close>: stage metadata, diagnostics and the fingerprint writer,
      byte for byte, with the digest as a parameter.
    \<^item> \<open>Greedy_Order\<close>, \<open>Stage_Registry\<close>, \<open>Stage_Plan\<close>: \<open>stages/registry.py\<close> and
      \<open>stages/catalog.py\<close>: validation with the depth-first cycle search, Kahn's algorithm with a heap,
      and the plan with skips. The searches carry fuel (the number of stages), proved to be enough.
    \<^item> \<open>Rows\<close>, \<open>Artifact\<close>, \<open>Database\<close>, \<open>Database_Facts\<close>: \<open>backend/app/models\<close> and the
      migrations: rows, constraints, listeners and triggers. \<open>flush old new\<close> is what the database checks
      at a write; \<open>Database_Facts\<close> says when a write passes.
    \<^item> \<open>Checkpoints\<close>: \<open>application/checkpoints.py\<close> and \<open>adapters/checkpoints.py\<close>.
    \<^item> \<open>Job_Admission\<close>: \<open>db/job_admission.py\<close>.
    \<^item> \<open>Scenario_Batch\<close>: \<open>db/scenario_batch.py\<close> (creation, refresh, capacity of a claim).
    \<^item> \<open>Json_Text\<close>, \<open>Scenario_Matrix\<close>: the JSON text of Python's \<open>json\<close> module with sorted keys and
      compact separators, and \<open>application/scenario_matrix.py\<close>.
    \<^item> \<open>Generation_State\<close>: \<open>db/generation_state.py\<close>, one function per transaction.
    \<^item> \<open>Run_Control\<close>, \<open>Matrix_Batch\<close>: \<open>db/run_control.py\<close> and \<open>create_matrix\<close> of
      \<open>db/scenario_batch.py\<close>: creation, manual retry, cancellation and progress of runs.
    \<^item> \<open>Lifecycle_Inv\<close>, \<open>Lifecycle_Runs\<close>, \<open>Lifecycle_Create\<close>, \<open>Lifecycle\<close>, \<open>Lifecycle_Props\<close>: every
      transaction above as an event of one transition system over the database, its invariant, the
      abstract machine of a run (queued, running, succeeded, failed, cancelled) and the refinement.
    \<^item> \<open>Creation\<close>, \<open>Creation_Props\<close>, \<open>Control_Props\<close>: when the creating transactions succeed, what
      they write, idempotence of the manual retry, the progress list.
    \<^item> \<open>Generation_Service\<close>, \<open>Generation_Port\<close>, \<open>Generation_Worker\<close>: \<open>application/generation.py\<close> and
      \<open>run_generation\<close> of \<open>worker/tasks.py\<close>: the service over any state store, the contract of the
      store as a locale, and the database store with other processes' transactions between any two
      calls, as its interpretation.
    \<^item> \<open>Effects\<close>: Python calls with effects on a state, for the services written against a port.
    \<^item> \<open>Ingest\<close>, \<open>Ingest_Service\<close>: \<open>db/ingest_job_repository.py\<close>, \<open>application/ingest.py\<close>,
      \<open>run_ingest\<close> of \<open>worker/tasks.py\<close>, \<open>db/ingest_submission.py\<close>. \<open>Ingest_Facts\<close>: the effect of each
      transaction; \<open>Ingest_Port\<close>, \<open>Ingest_Worker\<close>: the contract of the repository as a locale, the
      deliveries of the queue, and the database repository as the interpretation, with other workers'
      transactions between any two calls and operational errors of the database at any call;
      \<open>Ingest_Props\<close>: the end of the deliveries, attempts, ready versions, completion, submissions, a
      late failure that ends a newer attempt, and a lost failure record that strands one.
    \<^item> \<open>Outbox_Dispatch\<close>: \<open>models/job_outbox.py\<close>, \<open>services/job_dispatcher.py\<close>,
      \<open>db/outbox_dispatcher.py\<close>, \<open>worker/outbox_dispatcher.py\<close>, \<open>worker/queues.py\<close>.

    \<^item> \<open>Floats\<close>, \<open>Float_Facts\<close>, \<open>Core_Values\<close>: binary64 and \<open>Decimal\<close> numbers as rationals rounded
      after every operation, with error bounds and order facts; the checks of the value types.
    \<^item> \<open>Demography_Config\<close>, \<open>Building_Attributes\<close>, \<open>Building_Areas\<close>: \<open>demography/config.py\<close>,
      \<open>buildings/attributes.py\<close>, \<open>buildings/area_metrics.py\<close>.
    \<^item> \<open>Apportionment\<close>, \<open>Population\<close>, \<open>Population_Facts\<close>, \<open>Age_Allocation\<close>, \<open>Age_Facts\<close>: the
      largest-remainder method, \<open>demography/capacity.py\<close>, \<open>allocation.py\<close>, \<open>age_allocation.py\<close>: the
      allocations never raise on accepted inputs and are exact.
    \<^item> \<open>Employment\<close>, \<open>Employment_Facts\<close>, \<open>Demographic_Aggregation\<close>, \<open>Float_Sums\<close>, \<open>Aggregation_Facts\<close>,
      \<open>Aggregation_Levels\<close>, \<open>Aggregation_Result\<close>: \<open>demography/employment.py\<close>, \<open>aggregation.py\<close>: the
      estimate and the aggregation never raise on accepted inputs, and the levels add up.
    \<^item> \<open>Demography_Props\<close>, \<open>Demography_Pipeline\<close>: the properties of the demographic part, and its
      calculations one after the other as \<open>stages/demography.py\<close> calls them.

  Conventions. A transaction maps the database to an exception (nothing is written) or to a value
  and the new database. Clock readings and new UUIDs are arguments. Transactions are atomic: the
  code takes row locks on what it reads before it writes. A dash outside ASCII in an error message
  is written \<open>-\<close>. Floats and their texts are computed: a JSON number is read as the binary64 number it
  denotes and written as its \<open>repr\<close>. Third-party code is a parameter (the
  digest, the queue client), with its documented behaviour as the assumptions of a locale.

  What the conventions leave out. Transactions are serial: at PostgreSQL's READ COMMITTED level a
  statement reads what is committed when it runs, so two reads of one transaction can differ. Two
  places of the code depend on that. \<open>claim\<close> of \<open>db/generation_state.py\<close> reads the membership of
  its run in a batch before it locks the run; a batch creation that commits in between is missed,
  and the claim skips the batch's limit, so the batch conjunct of the lifecycle invariant holds for
  serial transactions only. The progress list of \<open>db/run_control.py\<close> reads runs, jobs and stages in
  separate statements without locks, so in the program its parts can come from different moments.
  Operational errors of the database (a deadlock, a lost connection) are modelled for the ingest
  repository, where the code turns them into retries; elsewhere such an error ends a call like any
  other exception, without effect, and is left out. \<open>flush\<close> does not check column widths, NUL
  characters, what JSONB refuses, or the trigger on the dataset references of a run of migration
  0004. Python's recursion limit (in the cycle search, and for nested JSON) and its limit on the
  digits of an integer text are not modelled. A character is a code point below 256, so text never
  contains a surrogate and encoding it never fails.

  Not modelled: the geometric and raster algorithms of the core (shapely, numpy, rasterio and
  networkx calls over floats: footprints, placement, roads, blocks, the population raster), the layer readers and exporters, the HTTP layer and its schemas,
  the frontend, deployment files, scripts and benchmarks.
\<close>

end
